(* ===== verification/Prelude.thy ===== *)
theory Prelude
  imports Main "HOL-Library.Word" "HOL-Library.Monad_Syntax"
begin

text \<open>
  What every component shares: the machine types of the C++ code, vectors of bytes with
  checked access, and the lemmas about them that the component proofs use.

  A read through a pointer or an index is a value of \<open>'a option\<close>: \<open>None\<close> is an access outside
  the vector, which C++ leaves undefined. A theorem that an operation is never \<open>None\<close> is
  therefore a memory-safety theorem. \<open>size_t\<close> offsets are \<open>nat\<close>: every offset of the code is
  either compared in subtraction form or is a sum of a position inside a vector and fields of at
  most 32 bits, so on the 64-bit targets no such sum can wrap (the one place where the code has
  to rely on the order of its checks, \<open>efi_variable.h\<close>, is modelled at its width).
\<close>

section \<open>Machine types\<close>

type_synonym u8 = "8 word"
type_synonym u16 = "16 word"
type_synonym u32 = "32 word"
type_synonym u64 = "64 word"
type_synonym bytes = "u8 list"

unbundle bit_operations_syntax

section \<open>Vectors with checked access\<close>

definition byte_at :: "bytes \<Rightarrow> nat \<Rightarrow> u8 option" where
  "byte_at bs i = (if i < length bs then Some (bs ! i) else None)"

text \<open>The half-open pointer range \<open>[data + i, data + j)\<close>.\<close>

definition vec_range :: "bytes \<Rightarrow> nat \<Rightarrow> nat \<Rightarrow> bytes option" where
  "vec_range bs i j = (if i \<le> j \<and> j \<le> length bs then Some (take (j - i) (drop i bs)) else None)"

text \<open>\<open>std::vector::resize\<close>: cut, or fill with zeros.\<close>

definition vec_resize :: "nat \<Rightarrow> bytes \<Rightarrow> bytes" where
  "vec_resize n bs = take n bs @ replicate (n - length bs) 0"

text \<open>A \<open>uint8_t\<close> as the \<open>char\<close> it is cast to, and back.\<close>

definition char_of_u8 :: "u8 \<Rightarrow> char" where
  "char_of_u8 b = char_of (unat b)"

definition u8_of_char :: "char \<Rightarrow> u8" where
  "u8_of_char c = of_nat (of_char c)"

text \<open>The code has a defined result here.\<close>

definition defined :: "'a option \<Rightarrow> bool" where
  "defined m \<longleftrightarrow> m \<noteq> None"

section \<open>Collections of facts\<close>

named_theorems access_simps \<open>checked reads that are known to lie inside their vector\<close>
named_theorems never_faults \<open>operations that never read outside a vector\<close>

section \<open>Lemmas\<close>

lemma defined_Some [simp]: "defined (Some x)"
  by (simp add: defined_def)

lemma not_defined_None [simp]: "\<not> defined None"
  by (simp add: defined_def)

lemma definedE: "defined m \<Longrightarrow> (\<And>x. m = Some x \<Longrightarrow> P) \<Longrightarrow> P"
  by (auto simp: defined_def)

lemma defined_bind [never_faults]:
  "defined (m \<bind> f) \<longleftrightarrow> defined m \<and> (\<forall>x. m = Some x \<longrightarrow> defined (f x))"
  by (cases m) auto

lemma defined_map_option [simp]: "defined (map_option f m) \<longleftrightarrow> defined m"
  by (cases m) auto

lemma defined_if [never_faults]:
  "defined (if b then m else n) \<longleftrightarrow> (b \<longrightarrow> defined m) \<and> (\<not> b \<longrightarrow> defined n)"
  by simp

lemma defined_case_sum [never_faults]:
  "defined (case s of Inl x \<Rightarrow> f x | Inr y \<Rightarrow> g y) \<longleftrightarrow>
   (\<forall>x. s = Inl x \<longrightarrow> defined (f x)) \<and> (\<forall>y. s = Inr y \<longrightarrow> defined (g y))"
  by (cases s) auto

lemma defined_case_prod [never_faults]:
  "defined (case p of (x, y) \<Rightarrow> f x y) \<longleftrightarrow> (\<forall>x y. p = (x, y) \<longrightarrow> defined (f x y))"
  by (cases p) auto

lemma byte_at_inside [access_simps]: "i < length bs \<Longrightarrow> byte_at bs i = Some (bs ! i)"
  by (simp add: byte_at_def)

lemma byte_at_outside: "length bs \<le> i \<Longrightarrow> byte_at bs i = None"
  by (simp add: byte_at_def)

lemma byte_at_eq_Some: "byte_at bs i = Some b \<longleftrightarrow> i < length bs \<and> b = bs ! i"
  by (auto simp: byte_at_def)

lemma byte_at_append_left [simp]: "i < length xs \<Longrightarrow> byte_at (xs @ ys) i = byte_at xs i"
  by (simp add: byte_at_def nth_append)

lemma byte_at_append_right [simp]: "byte_at (xs @ ys) (length xs + i) = byte_at ys i"
  by (simp add: byte_at_def nth_append)

lemma vec_range_inside [access_simps]:
  "i \<le> j \<Longrightarrow> j \<le> length bs \<Longrightarrow> vec_range bs i j = Some (take (j - i) (drop i bs))"
  by (simp add: vec_range_def)

lemma vec_range_length: "vec_range bs i j = Some xs \<Longrightarrow> length xs = j - i"
  by (auto simp: vec_range_def split: if_splits)

lemma vec_range_append [simp]:
  "vec_range (xs @ ys @ zs) (length xs) (length xs + length ys) = Some ys"
  by (simp add: vec_range_def)

lemma length_vec_resize [simp]: "length (vec_resize n bs) = n"
  by (simp add: vec_resize_def)

lemma vec_resize_cut: "n \<le> length bs \<Longrightarrow> vec_resize n bs = take n bs"
  by (simp add: vec_resize_def)

lemma vec_resize_id [simp]: "vec_resize (length bs) bs = bs"
  by (simp add: vec_resize_def)

lemma take_drop_append3:
  "length xs = i \<Longrightarrow> take (length ys) (drop i (xs @ ys @ zs)) = ys"
  by simp

lemma char_of_u8_inverse [simp]: "u8_of_char (char_of_u8 b) = b"
proof -
  have "unat b < 256" using unsigned_less [of b, where ?'a = nat] by simp
  then show ?thesis by (simp add: u8_of_char_def char_of_u8_def)
qed

lemma u8_of_char_inverse [simp]: "char_of_u8 (u8_of_char c) = c"
proof -
  have "(of_char c :: nat) < 256" by simp
  then show ?thesis by (simp add: u8_of_char_def char_of_u8_def unat_of_nat)
qed

end
