(* ===== verification/Unique_Handle.thy ===== *)
theory Unique_Handle
  imports Prelude "HOL-Library.Multiset"
begin

text \<open>
  \<open>src/internal/unique_handle.h\<close>: move-only ownership of a Win32, TBS or CryptoAPI handle. The
  wrapper holds one handle value; \<open>Traits::Invalid()\<close> and \<open>Traits::Close\<close> are the arguments of
  the operations, the world \<open>'w\<close> is whatever \<open>Close\<close> acts on.

  The second part puts many wrappers side by side (the objects of a program) and shows that no
  sequence of their operations loses a handle or closes one twice.
\<close>

section \<open>The wrapper\<close>

record ('h, 'w) handle_traits =
  Invalid :: 'h
  Close :: "'h \<Rightarrow> 'w \<Rightarrow> 'w"

definition uh_valid :: "('h, 'w) handle_traits \<Rightarrow> 'h \<Rightarrow> bool" where
  "uh_valid t self \<longleftrightarrow> self \<noteq> Invalid t"

definition uh_Reset :: "('h, 'w) handle_traits \<Rightarrow> 'h \<Rightarrow> 'h \<Rightarrow> 'w \<Rightarrow> 'h \<times> 'w" where
  "uh_Reset t v self w = (v, if self \<noteq> Invalid t then Close t self w else w)"

text \<open>\<open>Release\<close> returns the handle and leaves the wrapper empty.\<close>

definition uh_Release :: "('h, 'w) handle_traits \<Rightarrow> 'h \<Rightarrow> 'h \<times> 'h" where
  "uh_Release t self = (self, Invalid t)"

text \<open>\<open>Put\<close> empties the wrapper; the API called with the address then writes a handle into it.\<close>

definition uh_Put :: "('h, 'w) handle_traits \<Rightarrow> 'h \<Rightarrow> 'w \<Rightarrow> 'h \<times> 'w" where
  "uh_Put t self w = uh_Reset t (Invalid t) self w"

text \<open>Move construction: the new wrapper's value and the emptied source.\<close>

definition uh_Move :: "('h, 'w) handle_traits \<Rightarrow> 'h \<Rightarrow> 'h \<times> 'h" where
  "uh_Move t other = uh_Release t other"

text \<open>Move assignment between two distinct wrappers: target, source and world afterwards.\<close>

definition uh_MoveAssign ::
    "('h, 'w) handle_traits \<Rightarrow> 'h \<Rightarrow> 'h \<Rightarrow> 'w \<Rightarrow> 'h \<times> 'h \<times> 'w" where
  "uh_MoveAssign t self other w =
     (let (h, other) = uh_Release t other; (self, w) = uh_Reset t h self w in (self, other, w))"

definition uh_Destroy :: "('h, 'w) handle_traits \<Rightarrow> 'h \<Rightarrow> 'w \<Rightarrow> 'w" where
  "uh_Destroy t self w = snd (uh_Reset t (Invalid t) self w)"

section \<open>A program's wrappers\<close>

text \<open>
  The objects are numbered; \<open>None\<close> is storage with no live object. \<open>acquired\<close> collects the valid
  handles given to a wrapper, \<open>released\<close> those handed back to the caller, and \<open>closed\<close> is the
  world of \<open>Close\<close>: every call with its handle.
\<close>

record 'h handle_sys =
  objs :: "'h option list"
  acquired :: "'h multiset"
  released :: "'h multiset"
  closed :: "'h multiset"

definition counting_traits :: "'h \<Rightarrow> ('h, 'h multiset) handle_traits" where
  "counting_traits z = \<lparr>Invalid = z, Close = (\<lambda>h w. add_mset h w)\<rparr>"

definition one_handle :: "'h \<Rightarrow> 'h \<Rightarrow> 'h multiset" where
  "one_handle z h = (if h = z then {#} else {#h#})"

datatype 'h handle_op =
    OpConstruct nat 'h
  | OpPut nat 'h
  | OpReset nat 'h
  | OpRelease nat
  | OpMove nat nat
  | OpMoveAssign nat nat
  | OpDestroy nat

inductive handle_step :: "'h \<Rightarrow> 'h handle_sys \<Rightarrow> 'h handle_op \<Rightarrow> 'h handle_sys \<Rightarrow> bool"
  for z where
  construct: "i < length (objs s) \<Longrightarrow> objs s ! i = None \<Longrightarrow>
    handle_step z s (OpConstruct i h)
      (s\<lparr>objs := (objs s)[i := Some h], acquired := acquired s + one_handle z h\<rparr>)"
| put: "i < length (objs s) \<Longrightarrow> objs s ! i = Some v \<Longrightarrow>
    uh_Put (counting_traits z) v (closed s) = (v', w) \<Longrightarrow>
    handle_step z s (OpPut i h)
      (s\<lparr>objs := (objs s)[i := Some h], acquired := acquired s + one_handle z h, closed := w\<rparr>)"
| reset: "i < length (objs s) \<Longrightarrow> objs s ! i = Some v \<Longrightarrow>
    uh_Reset (counting_traits z) h v (closed s) = (v', w) \<Longrightarrow>
    handle_step z s (OpReset i h)
      (s\<lparr>objs := (objs s)[i := Some v'], acquired := acquired s + one_handle z h, closed := w\<rparr>)"
| release: "i < length (objs s) \<Longrightarrow> objs s ! i = Some v \<Longrightarrow>
    uh_Release (counting_traits z) v = (h, v') \<Longrightarrow>
    handle_step z s (OpRelease i)
      (s\<lparr>objs := (objs s)[i := Some v'], released := released s + one_handle z h\<rparr>)"
| move: "i < length (objs s) \<Longrightarrow> j < length (objs s) \<Longrightarrow> objs s ! i = None \<Longrightarrow>
    objs s ! j = Some v \<Longrightarrow> uh_Move (counting_traits z) v = (h, v') \<Longrightarrow>
    handle_step z s (OpMove i j) (s\<lparr>objs := (objs s)[j := Some v', i := Some h]\<rparr>)"
| move_assign: "i < length (objs s) \<Longrightarrow> j < length (objs s) \<Longrightarrow> i \<noteq> j \<Longrightarrow>
    objs s ! i = Some u \<Longrightarrow> objs s ! j = Some v \<Longrightarrow>
    uh_MoveAssign (counting_traits z) u v (closed s) = (u', v', w) \<Longrightarrow>
    handle_step z s (OpMoveAssign i j)
      (s\<lparr>objs := (objs s)[j := Some v', i := Some u'], closed := w\<rparr>)"
| self_assign: "i < length (objs s) \<Longrightarrow> objs s ! i = Some u \<Longrightarrow>
    handle_step z s (OpMoveAssign i i) s"
| destroy: "i < length (objs s) \<Longrightarrow> objs s ! i = Some v \<Longrightarrow>
    handle_step z s (OpDestroy i)
      (s\<lparr>objs := (objs s)[i := None], closed := uh_Destroy (counting_traits z) v (closed s)\<rparr>)"

inductive handle_run :: "'h \<Rightarrow> 'h handle_sys \<Rightarrow> 'h handle_op list \<Rightarrow> 'h handle_sys \<Rightarrow> bool"
  for z where
  run_nil: "handle_run z s [] s"
| run_cons: "handle_step z s a s' \<Longrightarrow> handle_run z s' as t \<Longrightarrow> handle_run z s (a # as) t"

definition empty_handle_sys :: "nat \<Rightarrow> 'h handle_sys" where
  "empty_handle_sys n =
     \<lparr>objs = replicate n None, acquired = {#}, released = {#}, closed = {#}\<rparr>"

fun slot_owned :: "'h \<Rightarrow> 'h option \<Rightarrow> 'h multiset" where
  "slot_owned z None = {#}"
| "slot_owned z (Some h) = one_handle z h"

definition owned :: "'h \<Rightarrow> 'h handle_sys \<Rightarrow> 'h multiset" where
  "owned z s = sum_list (map (slot_owned z) (objs s))"

definition handles_balanced :: "'h \<Rightarrow> 'h handle_sys \<Rightarrow> bool" where
  "handles_balanced z s \<longleftrightarrow> acquired s = closed s + released s + owned z s"

section \<open>No handle is lost and none is closed twice\<close>

lemma owned_update:
  "i < length xs \<Longrightarrow>
   sum_list (map (slot_owned z) (xs[i := x])) + slot_owned z (xs ! i)
   = sum_list (map (slot_owned z) xs) + slot_owned z x"
proof (induction xs arbitrary: i)
  case Nil
  then show ?case by simp
next
  case (Cons y ys)
  then show ?case by (cases i) (auto simp: ac_simps)
qed

lemma one_handle_invalid [simp]: "one_handle z z = {#}"
  by (simp add: one_handle_def)

lemma counting_Invalid [simp]: "Invalid (counting_traits z) = z"
  by (simp add: counting_traits_def)

lemma counting_Reset [simp]: "uh_Reset (counting_traits z) h v w = (h, w + one_handle z v)"
  by (simp add: uh_Reset_def counting_traits_def one_handle_def)

lemmas uh_defs = uh_Put_def uh_Release_def uh_Move_def uh_MoveAssign_def uh_Destroy_def

lemma handle_step_balanced:
  assumes "handle_step z s a t" and "handles_balanced z s"
  shows "handles_balanced z t"
  using assms
proof (cases rule: handle_step.cases)
  case (construct i h)
  with owned_update [of i "objs s" z "Some h"] assms(2) show ?thesis
    by (simp add: handles_balanced_def owned_def ac_simps)
next
  case (put i v v' w h)
  with owned_update [of i "objs s" z "Some h"] assms(2) show ?thesis
    by (auto simp: handles_balanced_def owned_def uh_defs ac_simps)
next
  case (reset i v h v' w)
  with owned_update [of i "objs s" z "Some h"] assms(2) show ?thesis
    by (auto simp: handles_balanced_def owned_def uh_defs ac_simps)
next
  case (release i v h v')
  with owned_update [of i "objs s" z "Some z"] assms(2) show ?thesis
    by (auto simp: handles_balanced_def owned_def uh_defs ac_simps)
next
  case (move i j v h v')
  then have "i \<noteq> j" by auto
  with move owned_update [of j "objs s" z "Some z"]
    owned_update [of i "(objs s)[j := Some z]" z "Some v"] assms(2) show ?thesis
    by (auto simp: handles_balanced_def owned_def uh_defs ac_simps)
next
  case (move_assign i j u v u' v' w)
  with owned_update [of j "objs s" z "Some z"]
    owned_update [of i "(objs s)[j := Some z]" z "Some v"] assms(2) show ?thesis
    by (auto simp: handles_balanced_def owned_def uh_defs ac_simps)
next
  case self_assign
  with assms(2) show ?thesis by simp
next
  case (destroy i v)
  with owned_update [of i "objs s" z None] assms(2) show ?thesis
    by (auto simp: handles_balanced_def owned_def uh_defs ac_simps)
qed

lemma handle_run_balanced:
  "handle_run z s as t \<Longrightarrow> handles_balanced z s \<Longrightarrow> handles_balanced z t"
  by (induction rule: handle_run.induct) (auto dest: handle_step_balanced)

lemma sum_list_empty: "sum_list (replicate n {#}) = {#}"
  by (induction n) auto

lemma empty_handle_sys_balanced: "handles_balanced z (empty_handle_sys n)"
  by (simp add: handles_balanced_def empty_handle_sys_def owned_def sum_list_empty)

section \<open>Properties\<close>

text \<open>C40. Whatever sequence of constructions, \<open>Put\<close>s, \<open>Reset\<close>s, \<open>Release\<close>s, moves, self-assignments and
  destructions runs over any number of owners, once all of them are gone every handle that was
  acquired has been closed exactly once or was given away by \<open>Release\<close>.\<close>

theorem every_handle_closed_once:
  assumes "handle_run z (empty_handle_sys n) as t" and "\<forall>x \<in> set (objs t). x = None"
  shows "acquired t = closed t + released t"
proof -
  have "\<forall>x \<in> set xs. x = None \<Longrightarrow> sum_list (map (slot_owned z) xs) = {#}" for xs
    by (induction xs) auto
  then have "owned z t = {#}" using assms(2) by (simp add: owned_def)
  then show ?thesis
    using handle_run_balanced [OF assms(1) empty_handle_sys_balanced] by (simp add: handles_balanced_def)
qed

theorem every_handle_closed_once_witness:
  "\<exists>t. handle_run 0 (empty_handle_sys 2)
      [OpConstruct 0 (5 :: nat), OpMove 1 0, OpPut 1 6, OpDestroy 0, OpDestroy 1] t
    \<and> acquired t = {#5, 6#} \<and> acquired t = closed t + released t"
proof -
  let ?t = "\<lparr>objs = [None, None], acquired = {#5, 6#}, released = {#}, closed = {#5, 6 :: nat#}\<rparr>"
  let ?s = "\<lambda>xs a c. \<lparr>objs = xs, acquired = a, released = {#}, closed = c\<rparr> :: nat handle_sys"
  have s1: "handle_step 0 (?s [None, None] {#} {#}) (OpConstruct 0 5) (?s [Some 5, None] {#5#} {#})"
    using handle_step.construct [of 0 "?s [None, None] {#} {#}" 0 5] by (simp add: one_handle_def)
  have s2: "handle_step 0 (?s [Some 5, None] {#5#} {#}) (OpMove 1 0) (?s [Some 0, Some 5] {#5#} {#})"
    using handle_step.move [of 1 "?s [Some 5, None] {#5#} {#}" 0 5 0 5 0] by (simp add: uh_defs)
  have s3: "handle_step 0 (?s [Some 0, Some 5] {#5#} {#}) (OpPut 1 6) (?s [Some 0, Some 6] {#5, 6#} {#5#})"
    using handle_step.put [of 1 "?s [Some 0, Some 5] {#5#} {#}" 5 0 0 "{#5#}" 6]
    by (simp add: uh_defs one_handle_def add_mset_commute)
  have s4: "handle_step 0 (?s [Some 0, Some 6] {#5, 6#} {#5#}) (OpDestroy 0) (?s [None, Some 6] {#5, 6#} {#5#})"
    using handle_step.destroy [of 0 "?s [Some 0, Some 6] {#5, 6#} {#5#}" 0 0] by (simp add: uh_defs one_handle_def)
  have s5: "handle_step 0 (?s [None, Some 6] {#5, 6#} {#5#}) (OpDestroy 1) ?t"
    using handle_step.destroy [of 1 "?s [None, Some 6] {#5, 6#} {#5#}" 6 0]
    by (simp add: uh_defs one_handle_def add_mset_commute)
  have run: "handle_run 0 (empty_handle_sys 2)
      [OpConstruct 0 5, OpMove 1 0, OpPut 1 6, OpDestroy 0, OpDestroy 1] ?t"
    using run_cons [OF s1 run_cons [OF s2 run_cons [OF s3 run_cons [OF s4 run_cons [OF s5 run_nil]]]]]
    by (simp add: empty_handle_sys_def numeral_2_eq_2)
  from every_handle_closed_once [OF run] run show ?thesis by (intro exI [of _ ?t]) simp
qed

end
