(* ===== verification/Bcrypt.thy ===== *)
theory Bcrypt
  imports Unique_Handle
begin

text \<open>
  Message digests through CNG: \<open>BcryptDigest\<close> and its two instances in
  \<open>src/client/rootherald_win.cpp\<close>, and the fixed-size \<open>Sha256\<close> of \<open>src/certs/amd_aia_fetch.cpp\<close>. CNG is
  a record of functions over a world; \<open>with_handle\<close> is the scope of a \<open>UniqueHandle\<close> that an API call
  fills: whatever way the scope is left, the owner is destroyed.
\<close>

section \<open>Scopes\<close>

definition with_handle ::
    "('h, 'w) handle_traits \<Rightarrow> ('w \<Rightarrow> 's \<times> 'h \<times> 'w) \<Rightarrow> ('s \<Rightarrow> 'h \<Rightarrow> 'w \<Rightarrow> 'a \<times> 'w) \<Rightarrow> 'w \<Rightarrow> 'a \<times> 'w" where
  "with_handle t acquire body w =
     (let (_, w) = uh_Put t (Invalid t) w;
          (status, h, w) = acquire w;
          (r, w) = body status h w
      in (r, uh_Destroy t h w))"

section \<open>CNG\<close>

record 'w bcrypt_api =
  BCryptOpenAlgorithmProvider :: "string \<Rightarrow> 'w \<Rightarrow> u32 \<times> u64 \<times> 'w"
  BCryptGetHashLength :: "u64 \<Rightarrow> 'w \<Rightarrow> u32 \<times> u32 \<times> 'w"
  BCryptCreateHash :: "u64 \<Rightarrow> 'w \<Rightarrow> u32 \<times> u64 \<times> 'w"
  BCryptHashData :: "u64 \<Rightarrow> bytes \<Rightarrow> 'w \<Rightarrow> u32 \<times> 'w"
  BCryptFinishHash :: "u64 \<Rightarrow> u32 \<Rightarrow> 'w \<Rightarrow> u32 \<times> bytes \<times> 'w"
  BCryptDestroyHash :: "u64 \<Rightarrow> 'w \<Rightarrow> 'w"
  BCryptCloseAlgorithmProvider :: "u64 \<Rightarrow> 'w \<Rightarrow> 'w"

definition BcryptAlgTraits :: "'w bcrypt_api \<Rightarrow> (u64, 'w) handle_traits" where
  "BcryptAlgTraits api = \<lparr>Invalid = 0, Close = BCryptCloseAlgorithmProvider api\<rparr>"

definition BcryptHashTraits :: "'w bcrypt_api \<Rightarrow> (u64, 'w) handle_traits" where
  "BcryptHashTraits api = \<lparr>Invalid = 0, Close = BCryptDestroyHash api\<rparr>"

definition BCRYPT_SHA256_ALGORITHM :: string where "BCRYPT_SHA256_ALGORITHM = ''SHA256''"
definition BCRYPT_SHA1_ALGORITHM :: string where "BCRYPT_SHA1_ALGORITHM = ''SHA1''"

text \<open>The cast \<open>(ULONG)len\<close> (and \<open>(DWORD)len\<close>) of a buffer length: what an API reads of the buffer.\<close>

definition ulong_prefix :: "bytes \<Rightarrow> bytes" where
  "ulong_prefix data = take (unat (of_nat (length data) :: u32)) data"

section \<open>Digests of the client\<close>

definition BcryptDigest_finish :: "'w bcrypt_api \<Rightarrow> bytes \<Rightarrow> u32 \<Rightarrow> u64 \<Rightarrow> 'w \<Rightarrow> bytes \<times> 'w" where
  "BcryptDigest_finish api data digestLen hash w =
     (let (status, w) = BCryptHashData api hash (ulong_prefix data) w
      in if status \<noteq> 0 then ([], w)
         else
           let (status, written, w) = BCryptFinishHash api hash digestLen w
           in (if status \<noteq> 0 then [] else vec_resize (unat digestLen) written, w))"

definition BcryptDigest :: "'w bcrypt_api \<Rightarrow> string \<Rightarrow> bytes \<Rightarrow> 'w \<Rightarrow> bytes \<times> 'w" where
  "BcryptDigest api algorithmId data w =
     with_handle (BcryptAlgTraits api) (BCryptOpenAlgorithmProvider api algorithmId) (\<lambda>status algorithm w.
       if status \<noteq> 0 then ([], w)
       else
         let (status, digestLen, w) = BCryptGetHashLength api algorithm w
         in if status \<noteq> 0 then ([], w)
            else if digestLen = 0 then ([], w)
            else with_handle (BcryptHashTraits api) (BCryptCreateHash api algorithm) (\<lambda>status hash w.
              if status \<noteq> 0 then ([], w) else BcryptDigest_finish api data digestLen hash w) w) w"

definition Sha256 :: "'w bcrypt_api \<Rightarrow> bytes \<Rightarrow> 'w \<Rightarrow> bytes \<times> 'w" where
  "Sha256 api data w = BcryptDigest api BCRYPT_SHA256_ALGORITHM data w"

definition Sha1 :: "'w bcrypt_api \<Rightarrow> bytes \<Rightarrow> 'w \<Rightarrow> bytes \<times> 'w" where
  "Sha1 api data w = BcryptDigest api BCRYPT_SHA1_ALGORITHM data w"

section \<open>The digest of the AIA lookup\<close>

text \<open>\<open>None\<close> is the return value \<open>false\<close>; the 32 bytes are the array the hash is written to.\<close>

definition aia_Sha256 :: "'w bcrypt_api \<Rightarrow> bytes \<Rightarrow> 'w \<Rightarrow> bytes option \<times> 'w" where
  "aia_Sha256 api data w =
     with_handle (BcryptAlgTraits api) (BCryptOpenAlgorithmProvider api BCRYPT_SHA256_ALGORITHM) (\<lambda>status algorithm w.
       if status \<noteq> 0 then (None, w)
       else with_handle (BcryptHashTraits api) (BCryptCreateHash api algorithm) (\<lambda>status hash w.
         if status \<noteq> 0 then (None, w)
         else
           let (status, w) = BCryptHashData api hash (ulong_prefix data) w
           in if status \<noteq> 0 then (None, w)
              else
                let (status, written, w) = BCryptFinishHash api hash 32 w
                in (if status = 0 then Some (vec_resize 32 written) else None, w)) w) w"

section \<open>A provider that computes a digest\<close>

lemma ulong_prefix_id: "length data < 2 ^ 32 \<Longrightarrow> ulong_prefix data = data"
  by (simp add: ulong_prefix_def unat_of_nat)

text \<open>
  In the worlds of \<open>W\<close> the provider serves the algorithm: every call of the sequence succeeds, the
  digest is \<open>H\<close> of the data, and after the handles are gone the world is in \<open>W\<close> again.
\<close>

definition serves_digest ::
    "'w bcrypt_api \<Rightarrow> string \<Rightarrow> bytes \<Rightarrow> bytes \<Rightarrow> 'w \<Rightarrow> u64 \<Rightarrow> 'w set \<Rightarrow> bool" where
  "serves_digest api alg data d w algorithm W \<longleftrightarrow>
     (\<exists>hash w1 w2 w3. BCryptCreateHash api algorithm w = (0, hash, w1)
       \<and> BCryptHashData api hash data w1 = (0, w2)
       \<and> BCryptFinishHash api hash (of_nat (length d)) w2 = (0, d, w3)
       \<and> uh_Destroy (BcryptAlgTraits api) algorithm (uh_Destroy (BcryptHashTraits api) hash w3) \<in> W)"

definition computes :: "'w bcrypt_api \<Rightarrow> 'w set \<Rightarrow> string \<Rightarrow> nat \<Rightarrow> (bytes \<Rightarrow> bytes) \<Rightarrow> bool" where
  "computes api W alg n H \<longleftrightarrow> 0 < n \<and> n < 2 ^ 32 \<and> (\<forall>w \<in> W. \<forall>data. length (H data) = n \<and>
     (\<exists>algorithm w1 w2. BCryptOpenAlgorithmProvider api alg w = (0, algorithm, w1)
       \<and> BCryptGetHashLength api algorithm w1 = (0, of_nat n, w2)
       \<and> serves_digest api alg data (H data) w2 algorithm W
       \<and> serves_digest api alg data (H data) w1 algorithm W))"

lemma put_empty: "uh_Put t (Invalid t) w = (Invalid t, w)"
  by (simp add: uh_Put_def uh_Reset_def)

lemma vec_resize_exact: "length bs = n \<Longrightarrow> vec_resize n bs = bs"
  by auto

lemma BcryptDigest_computes:
  assumes "computes api W alg n H" and "w \<in> W" and "length data < 2 ^ 32"
  obtains w' where "BcryptDigest api alg data w = (H data, w')" and "w' \<in> W"
proof -
  obtain algorithm w1 w2 where o: "BCryptOpenAlgorithmProvider api alg w = (0, algorithm, w1)"
    and l: "BCryptGetHashLength api algorithm w1 = (0, of_nat n, w2)"
    and s: "serves_digest api alg data (H data) w2 algorithm W" and len: "length (H data) = n"
    using assms(1,2) unfolding computes_def by meson
  obtain hash w3 w4 w5 where c: "BCryptCreateHash api algorithm w2 = (0, hash, w3)"
    and h: "BCryptHashData api hash data w3 = (0, w4)"
    and f: "BCryptFinishHash api hash (of_nat n) w4 = (0, H data, w5)"
    and d: "uh_Destroy (BcryptAlgTraits api) algorithm (uh_Destroy (BcryptHashTraits api) hash w5) \<in> W"
    using s len by (auto simp: serves_digest_def)
  have b: "0 < n" "n < 2 ^ 32" using assms(1) by (auto simp: computes_def)
  have n: "unat (of_nat n :: u32) = n" using b(2) by (simp add: unat_of_nat)
  then have z: "(of_nat n :: u32) \<noteq> 0" using b(1) by (metis less_irrefl unat_0)
  have "BcryptDigest api alg data w
      = (H data, uh_Destroy (BcryptAlgTraits api) algorithm (uh_Destroy (BcryptHashTraits api) hash w5))"
    using z
    by (simp add: BcryptDigest_def BcryptDigest_finish_def with_handle_def put_empty o l c h f n len
        ulong_prefix_id [OF assms(3)] vec_resize_exact)
  then show thesis using that d by blast
qed

lemma aia_Sha256_computes:
  assumes "computes api W BCRYPT_SHA256_ALGORITHM 32 H" and "w \<in> W" and "length data < 2 ^ 32"
  obtains w' where "aia_Sha256 api data w = (Some (H data), w')" and "w' \<in> W"
proof -
  obtain algorithm w1 w2 where o: "BCryptOpenAlgorithmProvider api BCRYPT_SHA256_ALGORITHM w = (0, algorithm, w1)"
    and s: "serves_digest api BCRYPT_SHA256_ALGORITHM data (H data) w1 algorithm W" and len: "length (H data) = 32"
    using assms(1,2) unfolding computes_def by meson
  obtain hash w3 w4 w5 where c: "BCryptCreateHash api algorithm w1 = (0, hash, w3)"
    and h: "BCryptHashData api hash data w3 = (0, w4)"
    and f: "BCryptFinishHash api hash 32 w4 = (0, H data, w5)"
    and d: "uh_Destroy (BcryptAlgTraits api) algorithm (uh_Destroy (BcryptHashTraits api) hash w5) \<in> W"
    using s len by (auto simp: serves_digest_def)
  have "aia_Sha256 api data w
      = (Some (H data), uh_Destroy (BcryptAlgTraits api) algorithm (uh_Destroy (BcryptHashTraits api) hash w5))"
    by (simp add: aia_Sha256_def with_handle_def put_empty o c h f len
        ulong_prefix_id [OF assms(3)] vec_resize_exact)
  then show thesis using that d by blast
qed

end
