(* ===== verification/Std_String.thy ===== *)
theory Std_String
  imports Prelude "HOL-Library.Char_ord"
begin

text \<open>
  What the components use of \<open>std::string\<close> and of the C library: \<open>find\<close>, \<open>substr\<close>, \<open>to_string\<close>,
  \<open>std::search\<close>, \<open>tolower\<close>/\<open>toupper\<close> of the C locale, and the hexadecimal rendering that four files
  of the program write with their own table. A string is a list of \<open>char\<close>, i.e. of bytes.
\<close>

section \<open>Searching\<close>

fun find_from :: "nat \<Rightarrow> string \<Rightarrow> string \<Rightarrow> nat option" where
  "find_from i needle [] = (if needle = [] then Some i else None)"
| "find_from i needle (c # cs) =
     (if take (length needle) (c # cs) = needle then Some i else find_from (Suc i) needle cs)"

text \<open>\<open>s.find(needle, pos)\<close>; \<open>None\<close> is \<open>npos\<close>.\<close>

definition str_find :: "string \<Rightarrow> string \<Rightarrow> nat \<Rightarrow> nat option" where
  "str_find s needle pos = (if pos \<le> length s then find_from pos needle (drop pos s) else None)"

definition str_contains :: "string \<Rightarrow> string \<Rightarrow> bool" where
  "str_contains s needle \<longleftrightarrow> str_find s needle 0 \<noteq> None"

text \<open>\<open>std::search\<close> with a predicate, as a test.\<close>

fun search_by :: "('a \<Rightarrow> 'a \<Rightarrow> bool) \<Rightarrow> 'a list \<Rightarrow> 'a list \<Rightarrow> bool" where
  "search_by eq [] needle \<longleftrightarrow> needle = []"
| "search_by eq (c # cs) needle \<longleftrightarrow>
     length needle \<le> length (c # cs) \<and> list_all2 eq (take (length needle) (c # cs)) needle
     \<or> search_by eq cs needle"

definition c_tolower :: "char \<Rightarrow> char" where
  "c_tolower c = (if CHR ''A'' \<le> c \<and> c \<le> CHR ''Z'' then char_of (of_char c + 32 :: nat) else c)"

definition c_toupper :: "char \<Rightarrow> char" where
  "c_toupper c = (if CHR ''a'' \<le> c \<and> c \<le> CHR ''z'' then char_of (of_char c - 32 :: nat) else c)"

definition ContainsNoCase :: "string \<Rightarrow> string \<Rightarrow> bool" where
  "ContainsNoCase haystack needle \<longleftrightarrow>
     \<not> (needle = [] \<or> length haystack < length needle)
     \<and> search_by (\<lambda>a b. c_tolower a = c_tolower b) haystack needle"

section \<open>Numbers\<close>

definition digit_char :: "nat \<Rightarrow> char" where
  "digit_char d = char_of (48 + d)"

fun to_string :: "nat \<Rightarrow> string" where
  "to_string n = (if n < 10 then [digit_char n] else to_string (n div 10) @ [digit_char (n mod 10)])"

declare to_string.simps [simp del]

section \<open>Hexadecimal\<close>

definition hex_render :: "string \<Rightarrow> bytes \<Rightarrow> string" where
  "hex_render table data =
     concat (map (\<lambda>b. [table ! unat (drop_bit 4 b), table ! unat (b AND 0x0F)]) data)"

definition hex_lower :: string where
  "hex_lower = ''0123456789abcdef''"

definition hex_upper :: string where
  "hex_upper = ''0123456789ABCDEF''"

section \<open>Lemmas\<close>

lemma find_from_Some:
  "find_from i needle s = Some j \<Longrightarrow>
   i \<le> j \<and> j - i + length needle \<le> length s \<and> take (length needle) (drop (j - i) s) = needle"
proof (induction i needle s arbitrary: j rule: find_from.induct)
  case (2 i needle c cs)
  show ?case
  proof (cases "take (length needle) (c # cs) = needle")
    case True
    then have "length needle \<le> length (c # cs)"
      by (metis length_take min.cobounded1)
    then show ?thesis using 2 True by auto
  next
    case False
    then have "find_from (Suc i) needle cs = Some j" using 2(2) by simp
    from 2(1) [OF False this] have IH: "Suc i \<le> j \<and> j - Suc i + length needle \<le> length cs
        \<and> take (length needle) (drop (j - Suc i) cs) = needle" .
    then obtain k where "j = Suc i + k" using le_Suc_ex by blast
    then show ?thesis using IH by simp
  qed
qed (auto split: if_splits)

lemma find_from_here: "take (length needle) s = needle \<Longrightarrow> find_from i needle s = Some i"
  by (cases s) auto

lemma find_from_None:
  "find_from i needle s = None \<longleftrightarrow> (\<forall>k. take (length needle) (drop k s) = needle \<longrightarrow> length s < k + length needle)"
proof (induction i needle s rule: find_from.induct)
  case (2 i needle c cs)
  show ?case
  proof (cases "take (length needle) (c # cs) = needle")
    case True
    then have "length needle \<le> length (c # cs)" by (metis length_take min.cobounded1)
    then show ?thesis using True by (auto intro!: exI [of _ 0])
  next
    case False
    have "(\<forall>k. take (length needle) (drop k (c # cs)) = needle \<longrightarrow> length (c # cs) < k + length needle)
        \<longleftrightarrow> (\<forall>k. take (length needle) (drop k cs) = needle \<longrightarrow> length cs < k + length needle)"
      (is "(\<forall>k. ?P k) \<longleftrightarrow> (\<forall>k. ?Q k)")
    proof
      assume "\<forall>k. ?P k"
      then have "?P (Suc k)" for k by blast
      then show "\<forall>k. ?Q k" by simp
    next
      assume q: "\<forall>k. ?Q k"
      show "\<forall>k. ?P k"
      proof
        fix k
        show "?P k" using q False by (cases k) auto
      qed
    qed
    then show ?thesis using 2 False by simp
  qed
qed auto

lemma str_find_Some:
  assumes "str_find s needle pos = Some j"
  shows "pos \<le> j \<and> j + length needle \<le> length s \<and> take (length needle) (drop j s) = needle"
proof -
  have pos: "pos \<le> length s" and f: "find_from pos needle (drop pos s) = Some j"
    using assms by (auto simp: str_find_def split: if_splits)
  from find_from_Some [OF f] obtain k where "j = pos + k" using le_Suc_ex by blast
  then show ?thesis using find_from_Some [OF f] pos by (auto simp: add.commute)
qed

lemma to_string_nonempty [simp]: "to_string n \<noteq> []"
  by (subst to_string.simps) simp

text \<open>The rendering determines the number.\<close>

definition of_digits :: "string \<Rightarrow> nat" where
  "of_digits s = foldl (\<lambda>n c. n * 10 + (of_char c - 48)) 0 s"

lemma of_char_digit: "d < 10 \<Longrightarrow> of_char (digit_char d) = 48 + d"
  unfolding digit_char_def of_char_of by simp

lemma of_digits_snoc: "d < 10 \<Longrightarrow> of_digits (s @ [digit_char d]) = of_digits s * 10 + d"
  by (simp add: of_digits_def of_char_digit)

lemma of_digits_to_string: "of_digits (to_string n) = n"
proof (induction n rule: to_string.induct)
  case (1 n)
  show ?case
  proof (cases "n < 10")
    case True
    then show ?thesis
      using of_digits_snoc [of n "[]"] by (simp add: to_string.simps [of n] of_digits_def)
  next
    case False
    then have "of_digits (to_string (n div 10)) = n div 10" using 1 by simp
    then show ?thesis using False
      by (simp add: to_string.simps [of n] of_digits_snoc)
  qed
qed

locale hex_table =
  fixes table :: string
  assumes table_length: "length table = 16"
    and table_distinct: "distinct table"
begin

lemma render_length: "length (hex_render table data) = 2 * length data"
  by (induction data) (auto simp: hex_render_def)

lemma nibble_less: "unat (drop_bit 4 (b :: u8)) < 16" "unat (b AND 0x0F) < 16"
proof -
  have "unat b < 256" using unsigned_less [of b, where ?'a = nat] by simp
  then show "unat (drop_bit 4 b) < 16" by (simp add: drop_bit_eq_div unat_div_distrib)
  have "b AND 0x0F = take_bit 4 b" by (simp add: take_bit_eq_mask mask_eq_exp_minus_1)
  then show "unat (b AND 0x0F) < 16"
    using take_bit_nat_less_exp [of 4 "unat b"] by (simp add: unsigned_take_bit_eq)
qed

lemma render_chars: "set (hex_render table data) \<subseteq> set table"
  using nibble_less table_length by (auto simp: hex_render_def)

lemma nibbles_inj:
  assumes "unat (drop_bit 4 a) = unat (drop_bit 4 (b :: u8))" and "unat (a AND 0x0F) = unat (b AND 0x0F)"
  shows "a = b"
proof -
  have "drop_bit 4 a = drop_bit 4 b" and "take_bit 4 a = take_bit 4 b"
    using assms by (simp_all add: take_bit_eq_mask mask_eq_exp_minus_1 word_unat_eq_iff)
  then show ?thesis by (metis bits_ident)
qed

lemma render_inj: "hex_render table xs = hex_render table ys \<longleftrightarrow> xs = ys"
proof (induction xs arbitrary: ys)
  case Nil
  then show ?case by (cases ys) (auto simp: hex_render_def)
next
  case (Cons x xs)
  show ?case
  proof (cases ys)
    case Nil
    then show ?thesis by (simp add: hex_render_def)
  next
    case ys: (Cons y ys')
    have "table ! unat (drop_bit 4 x) = table ! unat (drop_bit 4 y) \<longleftrightarrow> unat (drop_bit 4 x) = unat (drop_bit 4 y)"
      "table ! unat (x AND 0x0F) = table ! unat (y AND 0x0F) \<longleftrightarrow> unat (x AND 0x0F) = unat (y AND 0x0F)"
      using nibble_less table_length table_distinct by (simp_all add: nth_eq_iff_index_eq)
    then have "hex_render table (x # xs) = hex_render table ys
        \<longleftrightarrow> x = y \<and> hex_render table xs = hex_render table ys'"
      using nibbles_inj [of x y] by (auto simp: ys hex_render_def)
    then show ?thesis using Cons.IH ys by simp
  qed
qed

end

interpretation lower: hex_table hex_lower
  by unfold_locales (simp_all add: hex_lower_def)

interpretation upper: hex_table hex_upper
  by unfold_locales (simp_all add: hex_upper_def)

end
