(* ===== verification/Std_Map.thy ===== *)
theory Std_Map
  imports Std_String "HOL-Library.List_Lexorder"
begin

text \<open>
  \<open>std::map\<close> as the components use it: lookup, assignment through \<open>operator[]\<close>, construction from an
  initializer list, and iteration in the order of the keys. The model is the sequence of its pairs
  in that order. Strings are ordered byte by byte as unsigned values, as \<open>std::string\<close> compares.

  The locale \<open>ordered_map\<close> is what a client of such a map may rely on; it is interpreted on the
  model.
\<close>

section \<open>The container\<close>

type_synonym ('k, 'v) std_map = "('k \<times> 'v) list"

fun map_put :: "'k :: linorder \<Rightarrow> 'v \<Rightarrow> ('k, 'v) std_map \<Rightarrow> ('k, 'v) std_map" where
  "map_put k v [] = [(k, v)]"
| "map_put k v ((k', v') # m) =
     (if k < k' then (k, v) # (k', v') # m
      else if k = k' then (k, v) # m
      else (k', v') # map_put k v m)"

text \<open>An initializer list inserts its pairs in order; an existing key keeps its value.\<close>

definition map_init :: "('k :: linorder \<times> 'v) list \<Rightarrow> ('k, 'v) std_map" where
  "map_init kvs = foldl (\<lambda>m (k, v). if map_of m k = None then map_put k v m else m) [] kvs"

definition wf_map :: "('k :: linorder, 'v) std_map \<Rightarrow> bool" where
  "wf_map m \<longleftrightarrow> sorted_wrt (<) (map fst m)"

section \<open>What a client relies on\<close>

locale ordered_map =
  fixes put :: "'k :: linorder \<Rightarrow> 'v \<Rightarrow> 'm \<Rightarrow> 'm"
    and get :: "'m \<Rightarrow> 'k \<Rightarrow> 'v option"
    and iter :: "'m \<Rightarrow> ('k \<times> 'v) list"
    and wf :: "'m \<Rightarrow> bool"
    and empty :: 'm
  assumes wf_empty: "wf empty"
    and get_empty: "get empty k = None"
    and wf_put: "wf m \<Longrightarrow> wf (put k v m)"
    and get_put: "wf m \<Longrightarrow> get (put k v m) k' = (if k = k' then Some v else get m k')"
    and iter_sorted: "wf m \<Longrightarrow> sorted_wrt (<) (map fst (iter m))"
    and iter_get: "wf m \<Longrightarrow> (k, v) \<in> set (iter m) \<longleftrightarrow> get m k = Some v"
begin

lemma iter_keys: "wf m \<Longrightarrow> iter m = map (\<lambda>k. (k, the (get m k))) (map fst (iter m))"
  using iter_get [of m] by (auto simp: list_eq_iff_nth_eq) (metis nth_mem option.sel prod.collapse)

lemma iter_cong:
  assumes "wf m" and "wf m'" and "get m = get m'"
  shows "iter m = iter m'"
proof -
  have "set (iter m') = set (iter m)"
    using iter_get [OF assms(1)] iter_get [OF assms(2)] assms(3) by auto
  then have "map fst (iter m) = map fst (iter m')"
    by (intro strict_sorted_equal [symmetric] iter_sorted assms(1,2)) (simp add: image_def)
  then show ?thesis
    using iter_keys [OF assms(1)] iter_keys [OF assms(2)] assms(3) by simp
qed

lemma put_commute: "wf m \<Longrightarrow> k \<noteq> k' \<Longrightarrow> iter (put k v (put k' v' m)) = iter (put k' v' (put k v m))"
  by (rule iter_cong) (auto simp: wf_put get_put fun_eq_iff)

lemma put_put: "wf m \<Longrightarrow> iter (put k v (put k v' m)) = iter (put k v m)"
  by (rule iter_cong) (auto simp: wf_put get_put fun_eq_iff)

end

section \<open>The model provides it\<close>

lemma fst_map_put: "fst ` set (map_put k v m) = insert k (fst ` set m)"
  by (induction k v m rule: map_put.induct) auto

lemma wf_map_Nil [simp]: "wf_map []"
  by (simp add: wf_map_def)

lemma wf_map_put [simp]: "wf_map m \<Longrightarrow> wf_map (map_put k v m)"
  unfolding wf_map_def
proof (induction k v m rule: map_put.induct)
  case (2 k v k' v' m)
  have "x \<in> fst ` set (map_put k v m) \<Longrightarrow> k' < x" if "\<not> k < k'" "k \<noteq> k'" for x
    using that 2(2) by (auto simp: fst_map_put)
  then show ?case using 2 by (force simp: sorted_wrt_map)
qed simp

lemma map_of_map_put [simp]: "wf_map m \<Longrightarrow> map_of (map_put k v m) = (map_of m)(k \<mapsto> v)"
proof (induction k v m rule: map_put.induct)
  case (2 k v k' v' m)
  then show ?case by (auto simp: wf_map_def fun_upd_twist)
qed simp

lemma wf_map_distinct: "wf_map m \<Longrightarrow> distinct (map fst m)"
  by (simp add: wf_map_def strict_sorted_iff)

interpretation fields: ordered_map map_put map_of "\<lambda>m. m" wf_map "[]"
  by unfold_locales (simp_all add: wf_map_distinct, simp add: wf_map_def)

lemma wf_map_init [simp]: "wf_map (map_init kvs)"
proof -
  have "wf_map m \<Longrightarrow> wf_map (foldl (\<lambda>m (k, v). if map_of m k = None then map_put k v m else m) m kvs)" for m :: "('a, 'b) std_map"
    by (induction kvs arbitrary: m) auto
  then show ?thesis by (simp add: map_init_def)
qed

end
