(* ===== verification/Json.thy ===== *)
theory Json
  imports Std_Map
begin

text \<open>
  \<open>src/internal/json_helpers.h\<close>: \<open>JsonBuild\<close>, which writes a flat object, and \<open>JsonGet\<close>, which finds the
  value of a key in a text. A position inside the text is the rest of the text from it, so every
  test \<open>pos < json.size()\<close> of the code is a test for the end of a list.

  The second half is the specification: an abstract JSON value and a reader for the subset without
  white space and numbers, strict about control characters, against which the texts the program
  builds are proved to be documents.
\<close>

section \<open>JsonBuild\<close>

definition newline :: char where "newline = CHR 0x0A"
definition quote_char :: char where "quote_char = CHR 0x22"
definition backslash_char :: char where "backslash_char = CHR 0x5C"

definition escape_char :: "char \<Rightarrow> string" where
  "escape_char c =
     (if c = quote_char then [backslash_char, quote_char]
      else if c = backslash_char then [backslash_char, backslash_char]
      else if c = newline then [backslash_char, CHR ''n'']
      else [c])"

definition json_escape :: "string \<Rightarrow> string" where
  "json_escape s = concat (map escape_char s)"

definition embedded_verbatim :: "string \<Rightarrow> bool" where
  "embedded_verbatim value \<longleftrightarrow> value \<noteq> [] \<and>
     (value ! 0 = CHR ''{'' \<or> value ! 0 = CHR ''['' \<or> value = ''true'' \<or> value = ''false'' \<or> value = ''null'')"

definition json_value :: "string \<Rightarrow> string" where
  "json_value value =
     (if embedded_verbatim value then value else [quote_char] @ json_escape value @ [quote_char])"

text \<open>The loop over the fields, with the text written so far.\<close>

fun json_fields :: "bool \<Rightarrow> string \<Rightarrow> (string, string) std_map \<Rightarrow> string" where
  "json_fields first json [] = json"
| "json_fields first json ((key, value) # fields) =
     (let json = (if \<not> first then json @ '','' else json);
          json = json @ [quote_char] @ key @ [quote_char] @ '':'';
          json = json @ json_value value
      in json_fields False json fields)"

definition JsonBuild :: "(string, string) std_map \<Rightarrow> string" where
  "JsonBuild fields = json_fields True ''{'' fields @ ''}''"

section \<open>JsonGet\<close>

fun skip_blanks :: "string \<Rightarrow> string" where
  "skip_blanks [] = []"
| "skip_blanks (c # cs) = (if c = CHR '' '' \<or> c = CHR 0x09 then skip_blanks cs else c # cs)"

fun read_quoted :: "string \<Rightarrow> string" where
  "read_quoted [] = []"
| "read_quoted (c # cs) =
     (if c = quote_char then []
      else if c = backslash_char
      then (case cs of
              [] \<Rightarrow> [c]
            | d # ds \<Rightarrow> (if d = CHR ''n'' then newline else d) # read_quoted ds)
      else c # read_quoted cs)"

fun read_raw :: "nat \<Rightarrow> string \<Rightarrow> string" where
  "read_raw depth [] = []"
| "read_raw depth (c # cs) =
     (if c = CHR ''{'' \<or> c = CHR ''['' then c # read_raw (depth + 1) cs
      else if c = CHR ''}'' \<or> c = CHR '']''
      then (if depth = 0 then [] else c # read_raw (depth - 1) cs)
      else if depth = 0 \<and> (c = CHR '','' \<or> c = CHR ''}'') then []
      else c # read_raw depth cs)"

definition JsonGet :: "string \<Rightarrow> string \<Rightarrow> string" where
  "JsonGet json key =
     (let search = [quote_char] @ key @ [quote_char]
      in case str_find json search 0 of
           None \<Rightarrow> []
         | Some pos \<Rightarrow>
             (case str_find json '':'' (pos + length search) of
                None \<Rightarrow> []
              | Some pos \<Rightarrow>
                  (case skip_blanks (drop (pos + 1) json) of
                     [] \<Rightarrow> []
                   | c # cs \<Rightarrow> if c = quote_char then read_quoted cs else read_raw 0 (c # cs))))"

section \<open>JSON as a data type\<close>

datatype json = JString string | JLiteral string | JArray "json list" | JObject "(string \<times> json) list"

text \<open>
  The reader. A string holds no control characters; of the escapes it knows the quote, the backslash
  and the newline, the ones the program writes. Fuel is the nesting and the number of elements; the length
  of the text is always enough.
\<close>

fun read_chars :: "string \<Rightarrow> (string \<times> string) option" where
  "read_chars [] = None"
| "read_chars (c # cs) =
     (if c = quote_char then Some ([], cs)
      else if c = backslash_char
      then (case cs of
              [] \<Rightarrow> None
            | d # ds \<Rightarrow>
                (if d = quote_char \<or> d = backslash_char then map_option (\<lambda>(s, r). (d # s, r)) (read_chars ds)
                 else if d = CHR ''n'' then map_option (\<lambda>(s, r). (newline # s, r)) (read_chars ds)
                 else None))
      else if (of_char c :: nat) < 32 then None
      else map_option (\<lambda>(s, r). (c # s, r)) (read_chars cs))"

definition read_literal :: "string \<Rightarrow> (json \<times> string) option" where
  "read_literal s =
     (if take 4 s = ''true'' then Some (JLiteral ''true'', drop 4 s)
      else if take 5 s = ''false'' then Some (JLiteral ''false'', drop 5 s)
      else if take 4 s = ''null'' then Some (JLiteral ''null'', drop 4 s)
      else None)"

definition after :: "char \<Rightarrow> string \<Rightarrow> string option" where
  "after c s = (case s of [] \<Rightarrow> None | d # r \<Rightarrow> if c = d then Some r else None)"

fun read_value :: "nat \<Rightarrow> string \<Rightarrow> (json \<times> string) option"
  and read_elements :: "nat \<Rightarrow> string \<Rightarrow> (json list \<times> string) option"
  and read_members :: "nat \<Rightarrow> string \<Rightarrow> ((string \<times> json) list \<times> string) option" where
  "read_value 0 s = None"
| "read_value (Suc n) s =
     (case s of
        [] \<Rightarrow> None
      | c # r \<Rightarrow>
          if c = quote_char then map_option (\<lambda>(v, r). (JString v, r)) (read_chars r)
          else if c = CHR ''['' then
            (case after (CHR '']'') r of
               Some r \<Rightarrow> Some (JArray [], r)
             | None \<Rightarrow> map_option (\<lambda>(vs, r). (JArray vs, r)) (read_elements n r))
          else if c = CHR ''{'' then
            (case after (CHR ''}'') r of
               Some r \<Rightarrow> Some (JObject [], r)
             | None \<Rightarrow> map_option (\<lambda>(ms, r). (JObject ms, r)) (read_members n r))
          else read_literal s)"
| "read_elements 0 s = None"
| "read_elements (Suc n) s = do {
     (v, r) \<leftarrow> read_value n s;
     case after (CHR '','') r of
       Some r \<Rightarrow> map_option (\<lambda>(vs, r). (v # vs, r)) (read_elements n r)
     | None \<Rightarrow> map_option (\<lambda>r. ([v], r)) (after (CHR '']'') r)
   }"
| "read_members 0 s = None"
| "read_members (Suc n) s = do {
     r \<leftarrow> after quote_char s;
     (k, r) \<leftarrow> read_chars r;
     r \<leftarrow> after (CHR '':'') r;
     (v, r) \<leftarrow> read_value n r;
     case after (CHR '','') r of
       Some r \<Rightarrow> map_option (\<lambda>(ms, r). ((k, v) # ms, r)) (read_members n r)
     | None \<Rightarrow> map_option (\<lambda>r. ([(k, v)], r)) (after (CHR ''}'') r)
   }"

definition read_json :: "string \<Rightarrow> json option" where
  "read_json s = (case read_value (length s) s of Some (j, []) \<Rightarrow> Some j | _ \<Rightarrow> None)"

text \<open>The text of a value, and the values the program may write.\<close>

fun comma_join :: "string list \<Rightarrow> string" where
  "comma_join [] = []"
| "comma_join [x] = x"
| "comma_join (x # y # xs) = x @ '','' @ comma_join (y # xs)"

definition quoted :: "string \<Rightarrow> string" where
  "quoted s = [quote_char] @ json_escape s @ [quote_char]"

fun json_text :: "json \<Rightarrow> string" where
  "json_text (JString s) = quoted s"
| "json_text (JLiteral l) = l"
| "json_text (JArray vs) = ''['' @ comma_join (map json_text vs) @ '']''"
| "json_text (JObject ms) = ''{'' @ comma_join (map (\<lambda>(k, v). quoted k @ '':'' @ json_text v) ms) @ ''}''"

definition plain_text :: "string \<Rightarrow> bool" where
  "plain_text s \<longleftrightarrow> (\<forall>c \<in> set s. c = newline \<or> 32 \<le> (of_char c :: nat))"

fun wf_json :: "json \<Rightarrow> bool" where
  "wf_json (JString s) \<longleftrightarrow> plain_text s"
| "wf_json (JLiteral l) \<longleftrightarrow> l \<in> {''true'', ''false'', ''null''}"
| "wf_json (JArray vs) \<longleftrightarrow> (\<forall>v \<in> set vs. wf_json v)"
| "wf_json (JObject ms) \<longleftrightarrow> (\<forall>(k, v) \<in> set ms. plain_text k \<and> wf_json v)"

section \<open>Reading a text back\<close>

lemma json_chars [simp]:
  "quote_char \<noteq> backslash_char" "quote_char \<noteq> newline" "backslash_char \<noteq> newline"
  "backslash_char \<noteq> quote_char" "newline \<noteq> quote_char" "newline \<noteq> backslash_char"
  "quote_char \<noteq> CHR ''n''" "backslash_char \<noteq> CHR ''n''" "CHR ''n'' \<noteq> quote_char" "CHR ''n'' \<noteq> backslash_char"
  by (simp_all add: quote_char_def backslash_char_def newline_def)

lemma json_escape_simps [simp]:
  "json_escape [] = []" "json_escape (c # s) = escape_char c @ json_escape s"
  by (simp_all add: json_escape_def)

lemma read_chars_escape: "plain_text s \<Longrightarrow> read_chars (json_escape s @ quote_char # rest) = Some (s, rest)"
proof (induction s)
  case Nil
  then show ?case by simp
next
  case (Cons c s)
  then have "read_chars (json_escape s @ quote_char # rest) = Some (s, rest)"
    and "c = newline \<or> 32 \<le> (of_char c :: nat)"
    by (simp_all add: plain_text_def)
  then show ?case by (auto simp: escape_char_def)
qed

text \<open>A value never starts with a closing bracket.\<close>

lemma json_text_start:
  assumes "wf_json j"
  obtains c r where "json_text j = c # r" "c \<notin> {CHR '']'', CHR ''}''}"
  using assms by (cases j) (auto simp: quoted_def quote_char_def)

lemma read_literal_text: "l \<in> {''true'', ''false'', ''null''} \<Longrightarrow> read_literal (l @ rest) = Some (JLiteral l, rest)"
  by (auto simp: read_literal_def)

lemma comma_join_Cons: "xs \<noteq> [] \<Longrightarrow> comma_join (x # xs) = x @ '','' @ comma_join xs"
  by (cases xs) auto

lemma read_elements_text:
  assumes "\<And>v n rest. v \<in> set vs \<Longrightarrow> length (json_text v) \<le> n \<Longrightarrow> read_value n (json_text v @ rest) = Some (v, rest)"
    and "vs \<noteq> []" and "length (comma_join (map json_text vs)) < n"
  shows "read_elements n (comma_join (map json_text vs) @ CHR '']'' # rest) = Some (vs, rest)"
  using assms
proof (induction vs arbitrary: n)
  case Nil
  then show ?case by simp
next
  case (Cons v vs)
  obtain m where n: "n = Suc m" using Cons.prems(3) by (cases n) auto
  show ?case
  proof (cases "vs = []")
    case True
    then show ?thesis using Cons.prems(1) [of v m] Cons.prems(3) by (simp add: n after_def)
  next
    case False
    then have j: "comma_join (map json_text (v # vs)) = json_text v @ CHR '','' # comma_join (map json_text vs)"
      by (simp add: comma_join_Cons)
    have "read_value m (json_text v @ CHR '','' # comma_join (map json_text vs) @ CHR '']'' # rest)
        = Some (v, CHR '','' # comma_join (map json_text vs) @ CHR '']'' # rest)"
      using Cons.prems(3) j by (intro Cons.prems(1)) (auto simp: n)
    moreover have "read_elements m (comma_join (map json_text vs) @ CHR '']'' # rest) = Some (vs, rest)"
      using Cons.prems j False by (intro Cons.IH) (auto simp: n)
    ultimately show ?thesis using j by (simp add: n after_def)
  qed
qed

definition member_text :: "string \<times> json \<Rightarrow> string" where
  "member_text m = (case m of (k, v) \<Rightarrow> quoted k @ '':'' @ json_text v)"

lemma json_text_JObject: "json_text (JObject ms) = ''{'' @ comma_join (map member_text ms) @ ''}''"
  by (simp add: member_text_def [abs_def])

lemma read_members_text:
  assumes "\<And>k v n rest. (k, v) \<in> set ms \<Longrightarrow> length (json_text v) \<le> n \<Longrightarrow>
      plain_text k \<and> read_value n (json_text v @ rest) = Some (v, rest)"
    and "ms \<noteq> []" and "length (comma_join (map member_text ms)) < n"
  shows "read_members n (comma_join (map member_text ms) @ CHR ''}'' # rest) = Some (ms, rest)"
  using assms
proof (induction ms arbitrary: n)
  case Nil
  then show ?case by simp
next
  case (Cons m ms)
  obtain n' where n: "n = Suc n'" using Cons.prems(3) by (cases n) auto
  obtain k v where m: "m = (k, v)" by (cases m)
  have key: "read_chars (json_escape k @ quote_char # r) = Some (k, r)" for r
    using Cons.prems(1) [of k v "length (json_text v)"] m by (auto intro: read_chars_escape)
  show ?case
  proof (cases "ms = []")
    case True
    then have "read_value n' (json_text v @ CHR ''}'' # rest) = Some (v, CHR ''}'' # rest)"
      using Cons.prems(1) [of k v n'] Cons.prems(3) by (simp add: n m member_text_def quoted_def)
    then show ?thesis using True key by (simp add: n m member_text_def quoted_def after_def)
  next
    case False
    then have j: "comma_join (map member_text (m # ms)) = member_text m @ CHR '','' # comma_join (map member_text ms)"
      by (simp add: comma_join_Cons)
    have "read_value n' (json_text v @ CHR '','' # comma_join (map member_text ms) @ CHR ''}'' # rest)
        = Some (v, CHR '','' # comma_join (map member_text ms) @ CHR ''}'' # rest)"
      using Cons.prems(1) [of k v n'] Cons.prems(3) m unfolding j n
      by (simp add: member_text_def [of "(k, v)"] quoted_def)
    moreover have "read_members n' (comma_join (map member_text ms) @ CHR ''}'' # rest) = Some (ms, rest)"
      using Cons.prems j False by (intro Cons.IH) (auto simp: n)
    ultimately show ?thesis
      unfolding j using key by (simp add: n m member_text_def [of "(k, v)"] quoted_def after_def)
  qed
qed

lemma read_value_text:
  "wf_json j \<Longrightarrow> length (json_text j) \<le> n \<Longrightarrow> read_value n (json_text j @ rest) = Some (j, rest)"
proof (induction j arbitrary: n rest)
  case (JString s)
  then obtain m where "n = Suc m" by (cases n) (auto simp: quoted_def)
  then show ?case using JString by (simp add: quoted_def read_chars_escape)
next
  case (JLiteral l)
  then obtain c r where l: "l = c # r" "c \<noteq> quote_char" "c \<noteq> CHR ''[''" "c \<noteq> CHR ''{''"
    by (auto simp: quote_char_def)
  then obtain m where "n = Suc m" using JLiteral by (cases n) auto
  then show ?case using JLiteral read_literal_text [of l rest] l by simp
next
  case (JArray vs)
  then obtain m where n: "n = Suc m" by (cases n) auto
  show ?case
  proof (cases "vs = []")
    case True
    then show ?thesis by (simp add: n after_def quote_char_def)
  next
    case False
    then obtain v vs' where vs: "vs = v # vs'" by (cases vs) auto
    have "wf_json v" using JArray.prems vs by simp
    then obtain c r where "json_text v = c # r" "c \<noteq> CHR '']''"
      by (rule json_text_start) simp
    then have "after (CHR '']'') (comma_join (map json_text vs) @ CHR '']'' # rest) = None"
      by (cases vs') (simp_all add: vs after_def)
    moreover have "read_elements m (comma_join (map json_text vs) @ CHR '']'' # rest) = Some (vs, rest)"
      using JArray False by (intro read_elements_text) (auto simp: n)
    ultimately show ?thesis by (simp add: n quote_char_def)
  qed
next
  case (JObject ms)
  then obtain m where n: "n = Suc m" by (cases n) auto
  show ?case
  proof (cases "ms = []")
    case True
    then show ?thesis by (simp add: n after_def quote_char_def)
  next
    case False
    then obtain k v ms' where ms: "ms = (k, v) # ms'" by (cases ms) auto
    have "after (CHR ''}'') (comma_join (map member_text ms) @ CHR ''}'' # rest) = None"
      by (cases ms') (simp_all add: ms after_def member_text_def quoted_def quote_char_def)
    moreover have "read_members m (comma_join (map member_text ms) @ CHR ''}'' # rest) = Some (ms, rest)"
      using JObject False unfolding json_text_JObject
      by (intro read_members_text) (auto simp: n)
    ultimately show ?thesis unfolding json_text_JObject by (simp add: n quote_char_def)
  qed
qed

lemma read_json_text: "wf_json j \<Longrightarrow> read_json (json_text j) = Some j"
  using read_value_text [of j _ "[]"] by (simp add: read_json_def)

section \<open>What JsonBuild writes\<close>

lemma json_fields_eq:
  "json_fields first json fields =
     json @ (if fields = [] \<or> first then [] else '','')
     @ comma_join (map (\<lambda>(k, v). [quote_char] @ k @ [quote_char] @ '':'' @ json_value v) fields)"
proof (induction first json fields rule: json_fields.induct)
  case (2 first json key v fields)
  then show ?case by (cases fields) (auto simp: Let_def)
qed simp

definition renders :: "string \<Rightarrow> json \<Rightarrow> bool" where
  "renders v j \<longleftrightarrow> wf_json j \<and> json_value v = json_text j"

definition plain_key :: "string \<Rightarrow> bool" where
  "plain_key k \<longleftrightarrow> k \<noteq> [] \<and>
     (\<forall>c \<in> set k. c \<notin> {quote_char, backslash_char, newline, CHR '':'', CHR '','', CHR ''}''} \<and> 32 \<le> (of_char c :: nat))"

lemma escape_plain_key: "plain_key k \<Longrightarrow> json_escape k = k"
proof -
  have "\<forall>c \<in> set k. c \<noteq> quote_char \<and> c \<noteq> backslash_char \<and> c \<noteq> newline \<Longrightarrow> json_escape k = k"
    by (induction k) (auto simp: escape_char_def)
  then show "plain_key k \<Longrightarrow> json_escape k = k" by (auto simp: plain_key_def)
qed

lemma plain_key_text: "plain_key k \<Longrightarrow> plain_text k"
  by (simp add: plain_key_def plain_text_def)

definition renders_fields :: "(string, string) std_map \<Rightarrow> (string \<times> json) list \<Rightarrow> bool" where
  "renders_fields fields ms \<longleftrightarrow>
     list_all2 (\<lambda>(k, v) (k', j). k' = k \<and> plain_key k \<and> renders v j) fields ms"

lemma JsonBuild_text:
  assumes "renders_fields fields ms"
  shows "JsonBuild fields = json_text (JObject ms)" and "wf_json (JObject ms)"
proof -
  have "map (\<lambda>(k, v). [quote_char] @ k @ [quote_char] @ '':'' @ json_value v) fields = map member_text ms"
    using assms unfolding renders_fields_def
    by (induction rule: list_all2_induct) (auto simp: member_text_def quoted_def escape_plain_key renders_def)
  then show "JsonBuild fields = json_text (JObject ms)"
    unfolding json_text_JObject by (simp add: JsonBuild_def json_fields_eq)
  show "wf_json (JObject ms)"
    using assms unfolding renders_fields_def
    by (induction rule: list_all2_induct) (auto simp: renders_def plain_key_text)
qed

lemma renders_string: "\<not> embedded_verbatim v \<Longrightarrow> plain_text v \<Longrightarrow> renders v (JString v)"
  by (simp add: renders_def json_value_def quoted_def)

lemma renders_literal: "v \<in> {''true'', ''false'', ''null''} \<Longrightarrow> renders v (JLiteral v)"
  by (auto simp: renders_def json_value_def embedded_verbatim_def)

lemma renders_document: "wf_json (JObject ms) \<Longrightarrow> renders (json_text (JObject ms)) (JObject ms)"
  "wf_json (JArray vs) \<Longrightarrow> renders (json_text (JArray vs)) (JArray vs)"
  by (simp_all add: renders_def json_value_def embedded_verbatim_def)

section \<open>Finding a key\<close>

text \<open>No occurrence of the needle starts inside \<open>s\<close> when \<open>t\<close> follows it.\<close>

fun no_start :: "string \<Rightarrow> string \<Rightarrow> string \<Rightarrow> bool" where
  "no_start needle [] t \<longleftrightarrow> True"
| "no_start needle (c # cs) t \<longleftrightarrow> take (length needle) (c # cs @ t) \<noteq> needle \<and> no_start needle cs t"

lemma no_start_append: "no_start needle (xs @ ys) t \<longleftrightarrow> no_start needle xs (ys @ t) \<and> no_start needle ys t"
  by (induction xs) auto

lemma find_from_skip: "no_start needle s t \<Longrightarrow> find_from i needle (s @ t) = find_from (i + length s) needle t"
  by (induction s arbitrary: i) auto

lemma str_find_first:
  assumes "no_start needle pre (needle @ post)"
  shows "str_find (pre @ needle @ post) needle 0 = Some (length pre)"
  using find_from_skip [OF assms, of 0] find_from_here [of needle "needle @ post" "length pre"]
  by (simp add: str_find_def)

text \<open>A quoted key starts only at a quote that the key and a quote follow.\<close>

definition quoted_key :: "string \<Rightarrow> string" where
  "quoted_key key = [quote_char] @ key @ [quote_char]"

lemma no_start_plain: "quote_char \<notin> set s \<Longrightarrow> no_start (quoted_key key) s t"
  by (induction s) (auto simp: quoted_key_def)

definition key_follows :: "string \<Rightarrow> string \<Rightarrow> bool" where
  "key_follows key t \<longleftrightarrow> take (length key + 1) t = key @ [quote_char]"

lemma no_start_quote: "no_start (quoted_key key) [quote_char] t \<longleftrightarrow> \<not> key_follows key t"
  by (simp add: quoted_key_def key_follows_def)

lemma key_follows_other: "c \<noteq> hd key \<Longrightarrow> key \<noteq> [] \<Longrightarrow> \<not> key_follows key (c # t)"
  by (cases key) (auto simp: key_follows_def)

lemma key_follows_plain:
  assumes "plain_key key" and "plain_key k"
  shows "key_follows key (k @ quote_char # t) \<longleftrightarrow> k = key"
proof -
  have "quote_char \<notin> set x \<Longrightarrow> quote_char \<notin> set y \<Longrightarrow>
      take (length x + 1) (y @ quote_char # t) = x @ [quote_char] \<longleftrightarrow> y = x" for x y
  proof (induction x arbitrary: y)
    case Nil
    then show ?case by (cases y) auto
  next
    case (Cons a x)
    then show ?case by (cases y) auto
  qed
  then show ?thesis using assms by (auto simp: key_follows_def plain_key_def)
qed

lemma key_follows_escape:
  assumes "plain_key key"
  shows "key_follows key (json_escape v @ quote_char # t) \<longleftrightarrow> v = key"
proof -
  have "\<forall>c \<in> set x. c \<noteq> quote_char \<and> c \<noteq> backslash_char \<and> c \<noteq> newline \<Longrightarrow>
      take (length x + 1) (json_escape y @ quote_char # t) = x @ [quote_char] \<longleftrightarrow> y = x" for x y
  proof (induction x arbitrary: y)
    case Nil
    then show ?case by (cases y) (auto simp: escape_char_def)
  next
    case (Cons a x)
    then show ?case by (cases y) (auto simp: escape_char_def)
  qed
  note aux = this [of key v]
  have "\<forall>c \<in> set key. c \<noteq> quote_char \<and> c \<noteq> backslash_char \<and> c \<noteq> newline"
    using assms by (auto simp: plain_key_def)
  then show ?thesis using aux by (auto simp: key_follows_def)
qed

text \<open>A value mentions a key when its text, read from one of its quotes on, could be taken for it.\<close>

fun mentions :: "string \<Rightarrow> string \<Rightarrow> bool" where
  "mentions key [] \<longleftrightarrow> False"
| "mentions key (c # v) \<longleftrightarrow> c = quote_char \<and> v = key \<or> mentions key v"

lemma no_start_escape:
  assumes "plain_key key" and "\<not> mentions key v"
  shows "no_start (quoted_key key) (json_escape v) (quote_char # t)"
  using assms(2)
proof (induction v)
  case Nil
  then show ?case by simp
next
  case (Cons c v)
  then have IH: "no_start (quoted_key key) (json_escape v) (quote_char # t)" by simp
  show ?case
  proof (cases "c = quote_char")
    case True
    have "no_start (quoted_key key) [backslash_char] u" for u by (rule no_start_plain) simp
    moreover have "no_start (quoted_key key) [quote_char] (json_escape v @ quote_char # t)"
      unfolding no_start_quote using key_follows_escape [OF assms(1)] Cons.prems True by simp
    moreover have eq: "json_escape (c # v) = [backslash_char] @ [quote_char] @ json_escape v"
      by (simp add: escape_char_def True)
    ultimately show ?thesis unfolding eq no_start_append using IH by simp
  next
    case False
    then have "quote_char \<notin> set (escape_char c)" by (auto simp: escape_char_def)
    then show ?thesis using IH no_start_plain by (simp add: no_start_append)
  qed
qed

definition hides_key :: "string \<Rightarrow> string \<times> string \<Rightarrow> bool" where
  "hides_key key f \<longleftrightarrow> (case f of (k, v) \<Rightarrow>
     plain_key k \<and> k \<noteq> key \<and> \<not> embedded_verbatim v \<and> v \<noteq> key \<and> \<not> mentions key v)"

definition field_text :: "string \<times> string \<Rightarrow> string" where
  "field_text f = (case f of (k, v) \<Rightarrow> [quote_char] @ k @ [quote_char] @ '':'' @ json_value v)"

lemma quote_other: "quote_char \<noteq> CHR '':''" "quote_char \<noteq> CHR '',''" "quote_char \<noteq> CHR ''{''"
    "quote_char \<noteq> CHR '' ''" "quote_char \<noteq> CHR 0x09"
  by (simp_all add: quote_char_def)

lemma no_start_field:
  assumes "plain_key key" and "hides_key key f"
  shows "no_start (quoted_key key) (field_text f @ '','') t"
proof -
  obtain k v where f: "f = (k, v)" by (cases f)
  note h = assms(2) [unfolded hides_key_def f prod.case]
  have eq: "field_text f @ '','' = [quote_char] @ k @ [quote_char] @ '':'' @ [quote_char] @ json_escape v
      @ [quote_char] @ '',''"
    using h by (simp add: field_text_def f json_value_def)
  have "hd key \<noteq> CHR '':''" "hd key \<noteq> CHR '',''" "key \<noteq> []"
    using assms(1) by (auto simp: plain_key_def)
  moreover have "quote_char \<notin> set k" using h by (auto simp: plain_key_def)
  ultimately show ?thesis
    unfolding eq no_start_append no_start_quote
    using h assms(1) no_start_escape [OF assms(1), of v]
    by (auto simp: key_follows_plain key_follows_escape key_follows_other no_start_plain quote_other
        simp del: no_start.simps)
qed

lemma no_start_fields:
  assumes "plain_key key" and "\<forall>f \<in> set fs. hides_key key f"
  shows "no_start (quoted_key key) (concat (map (\<lambda>f. field_text f @ '','') fs)) t"
  using assms(2)
proof (induction fs)
  case Nil
  then show ?case by simp
next
  case (Cons f fs)
  then have "no_start (quoted_key key) (field_text f @ '','') (concat (map (\<lambda>f. field_text f @ '','') fs) @ t)"
    by (intro no_start_field [OF assms(1)]) simp
  then show ?case using Cons by (simp add: no_start_append del: append_assoc no_start.simps)
qed

lemma JsonBuild_split:
  "JsonBuild (before @ (key, v) # rest) =
     (''{'' @ concat (map (\<lambda>f. field_text f @ '','') before)) @ quoted_key key
       @ '':'' @ json_value v @ comma_join ([] # map field_text rest) @ ''}''"
proof -
  have ft: "(\<lambda>(k, v). [quote_char] @ k @ [quote_char] @ '':'' @ json_value v) = field_text"
    by (auto simp: field_text_def)
  have j: "comma_join (xs @ [y]) = concat (map (\<lambda>x. x @ '','') xs) @ y" for xs y
    by (induction xs) (simp_all add: comma_join_Cons)
  have jc: "comma_join ((x @ y) # zs) = x @ comma_join (y # zs)" for x y zs
    by (cases zs) simp_all
  have split: "comma_join (xs @ y # zs) = concat (map (\<lambda>x. x @ '','') xs) @ comma_join (y # zs)" for xs y zs
    by (induction xs) (simp_all add: comma_join_Cons)
  have "comma_join (map field_text (before @ (key, v) # rest))
      = concat (map (\<lambda>f. field_text f @ '','') before) @ comma_join (field_text (key, v) # map field_text rest)"
    by (simp add: split comp_def)
  also have "field_text (key, v) = (quoted_key key @ '':'' @ json_value v) @ []"
    by (simp add: field_text_def quoted_key_def)
  finally show ?thesis
    unfolding JsonBuild_def json_fields_eq ft jc by simp
qed

lemma read_quoted_escape: "read_quoted (json_escape v @ quote_char # t) = v"
proof (induction v)
  case Nil
  then show ?case by simp
next
  case (Cons c v)
  then show ?case by (auto simp: escape_char_def)
qed

lemma JsonGet_quoted_key:
  "JsonGet json key = (case str_find json (quoted_key key) 0 of
       None \<Rightarrow> []
     | Some pos \<Rightarrow> (case str_find json '':'' (pos + length (quoted_key key)) of
         None \<Rightarrow> []
       | Some pos \<Rightarrow> (case skip_blanks (drop (pos + 1) json) of
           [] \<Rightarrow> []
         | c # cs \<Rightarrow> if c = quote_char then read_quoted cs else read_raw 0 (c # cs))))"
  unfolding JsonGet_def quoted_key_def Let_def by (rule refl)

lemma colon_after:
  assumes "CHR '':'' \<notin> set mid"
  shows "str_find (pre @ mid @ '':'' @ s) '':'' (length pre) = Some (length (pre @ mid))"
proof -
  have "find_from n '':'' (mid @ '':'' @ s) = Some (n + length mid)" for n
    using assms
  proof (induction mid arbitrary: n)
    case Nil
    then show ?case by simp
  next
    case (Cons a mid)
    then show ?case by auto
  qed
  then show ?thesis by (simp add: str_find_def)
qed

lemma JsonGet_at:
  assumes "no_start (quoted_key key) pre (quoted_key key @ mid @ '':'' @ c # cs)"
    and "CHR '':'' \<notin> set mid" and "c \<noteq> CHR '' ''" and "c \<noteq> CHR 0x09"
  shows "JsonGet (pre @ quoted_key key @ mid @ '':'' @ c # cs) key = (if c = quote_char then read_quoted cs else read_raw 0 (c # cs))"
proof -
  let ?text = "pre @ quoted_key key @ mid @ '':'' @ c # cs"
  have f1: "str_find ?text (quoted_key key) 0 = Some (length pre)"
    by (rule str_find_first [OF assms(1)])
  have f2: "str_find ?text '':'' (length pre + length (quoted_key key)) = Some (length (pre @ quoted_key key @ mid))"
    using colon_after [OF assms(2), of "pre @ quoted_key key" "c # cs"] by simp
  have rest: "drop (length (pre @ quoted_key key @ mid) + 1) ?text = c # cs" by simp
  have blanks: "skip_blanks (c # cs) = c # cs" using assms(3,4) by simp
  show ?thesis
    unfolding JsonGet_quoted_key f1 option.case f2 rest blanks list.case ..
qed

lemma JsonGet_field:
  assumes "plain_key key" and "\<forall>f \<in> set before. hides_key key f" and "\<not> embedded_verbatim v"
  shows "JsonGet (JsonBuild (before @ (key, v) # rest)) key = v"
proof -
  let ?s = "json_escape v @ quote_char # comma_join ([] # map field_text rest) @ ''}''"
  have "no_start (quoted_key key) (''{'' @ concat (map (\<lambda>f. field_text f @ '','') before)) t" for t
    unfolding no_start_append
    using no_start_fields [OF assms(1,2)] by (simp add: no_start_plain quote_other del: no_start.simps)
  from JsonGet_at [OF this, of "[]" quote_char ?s] show ?thesis
    unfolding JsonBuild_split
    using assms(3) by (simp add: json_value_def read_quoted_escape quote_other)
qed

text \<open>Where a value before it is the key, the first match is that value.\<close>

lemma json_escape_plain: "plain_key key \<Longrightarrow> json_escape key = key"
proof -
  have "\<forall>c \<in> set x. c \<noteq> quote_char \<and> c \<noteq> backslash_char \<and> c \<noteq> newline \<Longrightarrow> json_escape x = x" for x
    by (induction x) (auto simp: escape_char_def)
  then show "plain_key key \<Longrightarrow> json_escape key = key" by (auto simp: plain_key_def)
qed

lemma JsonGet_shadowed:
  assumes "plain_key key" and "plain_key a" and "a \<noteq> key" and "plain_key b" and "CHR '':'' \<notin> set b"
    and "\<not> embedded_verbatim key" and "\<not> embedded_verbatim x"
  shows "JsonGet (JsonBuild ((a, key) # (b, x) # rest)) key = x"
proof -
  let ?pre = "''{'' @ [quote_char] @ a @ [quote_char] @ '':''"
  let ?s = "json_escape x @ quote_char # comma_join ([] # map field_text rest) @ ''}''"
  have ft: "(\<lambda>(k, v). [quote_char] @ k @ [quote_char] @ '':'' @ json_value v) = field_text"
    by (auto simp: field_text_def)
  have eq: "JsonBuild ((a, key) # (b, x) # rest)
      = ?pre @ quoted_key key @ ('','' @ quoted_key b) @ '':'' @ quote_char # ?s"
    unfolding JsonBuild_def json_fields_eq ft
    using assms
    by (cases rest) (simp_all add: field_text_def quoted_key_def json_value_def json_escape_plain comma_join_Cons)
  have "quote_char \<notin> set a" "key \<noteq> []" "hd key \<noteq> CHR '':''" using assms(1,2) by (auto simp: plain_key_def)
  then have "no_start (quoted_key key) ?pre t" for t
    unfolding no_start_append no_start_quote
    using assms(1,2,3)
    by (auto simp: key_follows_plain key_follows_other no_start_plain quote_other simp del: no_start.simps)
  moreover have "CHR '':'' \<notin> set ('','' @ quoted_key b)"
    using assms(5) quote_other by (auto simp: quoted_key_def)
  ultimately show ?thesis
    unfolding eq by (subst JsonGet_at) (simp_all add: quote_other read_quoted_escape)
qed

lemma read_raw_literal: "v \<in> {''true'', ''false'', ''null''} \<Longrightarrow> c \<in> {CHR '','', CHR ''}''} \<Longrightarrow> read_raw 0 (v @ c # t) = v"
  by auto

section \<open>Properties\<close>



text \<open>\<open>JsonGet\<close> inverts \<open>JsonBuild\<close> for every text value, whatever characters it holds, control characters, quotes
  and backslashes included, as long as no field before it holds a value that ends in the key behind a
  quote of its own, or is spliced in verbatim.\<close>

theorem json_get_inverts_build:
  assumes "plain_key key" and "\<forall>f \<in> set before. hides_key key f" and "\<not> embedded_verbatim v"
  shows "JsonGet (JsonBuild (before @ (key, v) # rest)) key = v"
  using JsonGet_field [OF assms] .

theorem json_get_inverts_build_witness:
  "JsonGet (JsonBuild ([(''a'', ''x'' @ quote_char # ''y'')] @ (''k'', ''v'' @ backslash_char # [quote_char]) # [(''z'', ''[]'')])) ''k''
     = ''v'' @ backslash_char # [quote_char]"
  by (rule json_get_inverts_build)
    (simp_all add: plain_key_def hides_key_def embedded_verbatim_def quote_char_def backslash_char_def newline_def)

text \<open>Where the field before a key holds the key itself as its value, \<open>JsonGet\<close> takes that value for the key: it
  returns the value of the next field, whichever key that has. The document is well formed; the search
  is not anchored to the keys.\<close>

lemma json_get_is_shadowed_by_a_value:
  assumes "plain_key key" and "plain_key a" and "a \<noteq> key" and "plain_key b" and "CHR '':'' \<notin> set b"
    and "\<not> embedded_verbatim key" and "\<not> embedded_verbatim x"
  shows "JsonGet (JsonBuild ((a, key) # (b, x) # rest)) key = x"
  using JsonGet_shadowed [OF assms] .

lemma json_get_is_shadowed_by_a_value_witness:
  "JsonGet (JsonBuild ((''a'', ''deviceId'') # (''b'', ''x'') # [(''deviceId'', ''d1'')])) ''deviceId'' = ''x''"
  by (rule json_get_is_shadowed_by_a_value)
    (simp_all add: plain_key_def embedded_verbatim_def quote_char_def backslash_char_def newline_def)

end
