(* ===== verification/Http.thy ===== *)
theory Http
  imports Json Unique_Handle
begin

text \<open>
  \<open>src/transport/http_winhttp.cpp\<close>: the one outbound request of the library. WinHTTP is a record of
  functions over a world; the three owners of the request are nested scopes, destroyed in the
  reverse order of their declaration on every path.

  \<open>None\<close> is a response whose body never ends, or a read that reports more bytes than the buffer has.
  Wide strings are strings; the conversion is a function of the API.
\<close>

section \<open>WinHTTP\<close>

record 'w winhttp_api =
  MultiByteToWideChar :: "string \<Rightarrow> string"
  WinHttpCrackUrl :: "string \<Rightarrow> nat \<Rightarrow> nat \<Rightarrow> (bool \<times> string \<times> u16 \<times> string) option"
  WinHttpOpen :: "string \<Rightarrow> 'w \<Rightarrow> u64 \<times> 'w"
  WinHttpConnect :: "u64 \<Rightarrow> string \<Rightarrow> u16 \<Rightarrow> 'w \<Rightarrow> u64 \<times> 'w"
  WinHttpOpenRequest :: "u64 \<Rightarrow> string \<Rightarrow> string \<Rightarrow> bool \<Rightarrow> 'w \<Rightarrow> u64 \<times> 'w"
  WinHttpAddRequestHeaders :: "u64 \<Rightarrow> string \<Rightarrow> 'w \<Rightarrow> 'w"
  WinHttpSendRequest :: "u64 \<Rightarrow> string option \<Rightarrow> 'w \<Rightarrow> bool \<times> 'w"
  WinHttpReceiveResponse :: "u64 \<Rightarrow> 'w \<Rightarrow> bool \<times> 'w"
  WinHttpQueryStatusCode :: "u64 \<Rightarrow> 'w \<Rightarrow> u32 option \<times> 'w"
  WinHttpQueryDataAvailable :: "u64 \<Rightarrow> 'w \<Rightarrow> bool \<times> u32 \<times> 'w"
  WinHttpReadData :: "u64 \<Rightarrow> u32 \<Rightarrow> 'w \<Rightarrow> string \<times> u32 \<times> 'w"
  WinHttpCloseHandle :: "u64 \<Rightarrow> 'w \<Rightarrow> 'w"

definition InternetTraits :: "'w winhttp_api \<Rightarrow> (u64, 'w) handle_traits" where
  "InternetTraits api = \<lparr>Invalid = 0, Close = WinHttpCloseHandle api\<rparr>"

text \<open>The scope of an owner constructed from the handle a call returns.\<close>

definition with_owned ::
    "('h, 'w) handle_traits \<Rightarrow> ('w \<Rightarrow> 'h \<times> 'w) \<Rightarrow> ('h \<Rightarrow> 'w \<Rightarrow> ('a \<times> 'w) option) \<Rightarrow> 'w \<Rightarrow> ('a \<times> 'w) option" where
  "with_owned t acquire body w =
     (let (h, w) = acquire w in do { (r, w) \<leftarrow> body h w; Some (r, uh_Destroy t h w) })"

section \<open>The request\<close>

record http_response =
  statusCode :: int
  response_body :: string

definition http_error :: "string \<Rightarrow> http_response" where
  "http_error message = \<lparr>statusCode = 0,
     response_body = ''{'' @ [quote_char] @ ''error'' @ [quote_char] @ '':'' @ [quote_char] @ message @ [quote_char] @ ''}''\<rparr>"

text \<open>\<open>c_str\<close>: what a callee reads of a string up to its terminator.\<close>

definition c_str :: "string \<Rightarrow> string" where
  "c_str s = takeWhile (\<lambda>c. c \<noteq> CHR 0x00) s"

definition to_wide :: "'w winhttp_api \<Rightarrow> string \<Rightarrow> string" where
  "to_wide api s = MultiByteToWideChar api (c_str s)"

text \<open>
  One buffer of the body: a vector of the size available, what the read wrote into it, and the
  bytes read taken from its front.
\<close>

definition body_chunk :: "u32 \<Rightarrow> string \<Rightarrow> u32 \<Rightarrow> string option" where
  "body_chunk available written got =
     (let buf = take (unat available) written @ replicate (unat available - length written) (CHR 0x00)
      in if got \<le> available then Some (take (unat got) buf) else None)"

partial_function (option) http_body :: "'w winhttp_api \<Rightarrow> u64 \<Rightarrow> string \<Rightarrow> 'w \<Rightarrow> (string \<times> 'w) option" where
  "http_body api request body w =
     (let (ok, available, w) = WinHttpQueryDataAvailable api request w
      in if ok \<and> available > 0
         then
           let (written, got, w) = WinHttpReadData api request available w
           in do { chunk \<leftarrow> body_chunk available written got; http_body api request (body @ chunk) w }
         else Some (body, w))"

declare http_body.simps [code]

text \<open>From the request handle on: headers, send, receive, status, body.\<close>

definition http_exchange ::
    "'w winhttp_api \<Rightarrow> u64 \<Rightarrow> string \<Rightarrow> string \<Rightarrow> 'w \<Rightarrow> (http_response \<times> 'w) option" where
  "http_exchange api request body contentTypeHeader w =
     (let w = WinHttpAddRequestHeaders api request contentTypeHeader w;
          (sent, w) = WinHttpSendRequest api request (if body \<noteq> [] then Some body else None) w
      in if \<not> sent then Some (http_error ''WinHttpSendRequest failed'', w)
         else
           let (received, w) = WinHttpReceiveResponse api request w
           in if \<not> received then Some (http_error ''WinHttpReceiveResponse failed'', w)
              else
                let (code, w) = WinHttpQueryStatusCode api request w
                in do {
                  (text, w) \<leftarrow> http_body api request [] w;
                  Some (\<lparr>statusCode = sint (case code of None \<Rightarrow> 0 | Some code \<Rightarrow> code), response_body = text\<rparr>, w)
                })"

definition DoRequest ::
    "'w winhttp_api \<Rightarrow> string \<Rightarrow> string \<Rightarrow> string \<Rightarrow> string \<Rightarrow> 'w \<Rightarrow> (http_response \<times> 'w) option" where
  "DoRequest api url verb body contentTypeHeader w =
     (case WinHttpCrackUrl api (to_wide api url) 256 2048 of
        None \<Rightarrow> Some (http_error ''Failed to parse URL'', w)
      | Some (isHttps, hostName, port, urlPath) \<Rightarrow>
          with_owned (InternetTraits api) (WinHttpOpen api ''RootHerald/1.0'') (\<lambda>session w.
            if \<not> uh_valid (InternetTraits api) session then Some (http_error ''WinHttpOpen failed'', w)
            else with_owned (InternetTraits api) (WinHttpConnect api session hostName port) (\<lambda>connection w.
              if \<not> uh_valid (InternetTraits api) connection then Some (http_error ''WinHttpConnect failed'', w)
              else with_owned (InternetTraits api)
                  (WinHttpOpenRequest api connection (to_wide api verb) urlPath isHttps) (\<lambda>request w.
                if \<not> uh_valid (InternetTraits api) request then Some (http_error ''WinHttpOpenRequest failed'', w)
                else http_exchange api request body contentTypeHeader w) w) w) w)"

definition HttpGet :: "'w winhttp_api \<Rightarrow> string \<Rightarrow> 'w \<Rightarrow> (http_response \<times> 'w) option" where
  "HttpGet api url w = DoRequest api url ''GET'' [] ''Content-Type: application/json'' w"

section \<open>A body that ends\<close>

text \<open>
  The answers of the loop to its two calls, as the list of buffers they deliver; the empty list is
  a query that fails or finds nothing.
\<close>

fun delivers :: "'w winhttp_api \<Rightarrow> u64 \<Rightarrow> string list \<Rightarrow> 'w \<Rightarrow> 'w \<Rightarrow> bool" where
  "delivers api request [] w w' \<longleftrightarrow>
     (\<exists>ok available. WinHttpQueryDataAvailable api request w = (ok, available, w') \<and> \<not> (ok \<and> available > 0))"
| "delivers api request (chunk # chunks) w w' \<longleftrightarrow>
     (\<exists>available w1 written w2. WinHttpQueryDataAvailable api request w = (True, available, w1)
       \<and> 0 < available \<and> WinHttpReadData api request available w1 = (written, of_nat (length chunk), w2)
       \<and> take (length chunk) written = chunk \<and> length chunk \<le> unat available
       \<and> delivers api request chunks w2 w')"

lemma body_chunk_written:
  assumes "take (length chunk) written = chunk" and "length chunk \<le> unat available"
  shows "body_chunk available written (of_nat (length chunk)) = Some chunk"
proof -
  have "length chunk < 2 ^ 32"
    using assms(2) unsigned_less [of available, where ?'a = nat] by simp
  then have n: "unat (of_nat (length chunk) :: u32) = length chunk" by (simp add: unat_of_nat)
  have "length chunk \<le> length written" using assms(1) by (metis length_take min.cobounded1 min_def)
  then show ?thesis
    using assms n by (simp add: body_chunk_def word_le_nat_alt Let_def min_def take_append)
qed

lemma http_body_delivers:
  "delivers api request chunks w w' \<Longrightarrow> http_body api request body w = Some (body @ concat chunks, w')"
proof (induction chunks arbitrary: body w)
  case Nil
  then show ?case by (subst http_body.simps) auto
next
  case (Cons chunk chunks)
  then obtain available w1 written w2 where q: "WinHttpQueryDataAvailable api request w = (True, available, w1)"
    "0 < available" "WinHttpReadData api request available w1 = (written, of_nat (length chunk), w2)"
    and c: "body_chunk available written (of_nat (length chunk)) = Some chunk"
    and d: "delivers api request chunks w2 w'"
    using body_chunk_written by (auto simp del: of_nat_numeral)
  have "http_body api request body w = http_body api request (body @ chunk) w2"
    by (subst http_body.simps) (simp add: q c)
  then show ?case using Cons.IH [OF d, of "body @ chunk"] by simp
qed

text \<open>A server that answers a GET of the URL: every call succeeds, the body arrives in buffers.\<close>

definition exchange_answers ::
    "'w winhttp_api \<Rightarrow> u64 \<Rightarrow> string \<Rightarrow> u32 \<Rightarrow> string list \<Rightarrow> 'w \<Rightarrow> 'w \<Rightarrow> bool" where
  "exchange_answers api request header code chunks w w' \<longleftrightarrow>
     (\<exists>w1 w2 w3. WinHttpSendRequest api request None (WinHttpAddRequestHeaders api request header w) = (True, w1)
       \<and> WinHttpReceiveResponse api request w1 = (True, w2)
       \<and> WinHttpQueryStatusCode api request w2 = (Some code, w3)
       \<and> delivers api request chunks w3 w')"

definition answers_get ::
    "'w winhttp_api \<Rightarrow> string \<Rightarrow> u32 \<Rightarrow> string list \<Rightarrow> 'w \<Rightarrow> 'w \<Rightarrow> bool" where
  "answers_get api url code chunks w w' \<longleftrightarrow>
     (\<exists>isHttps hostName port urlPath session connection request w1 w2 w3 w4.
        WinHttpCrackUrl api (to_wide api url) 256 2048 = Some (isHttps, hostName, port, urlPath)
        \<and> WinHttpOpen api ''RootHerald/1.0'' w = (session, w1) \<and> session \<noteq> 0
        \<and> WinHttpConnect api session hostName port w1 = (connection, w2) \<and> connection \<noteq> 0
        \<and> WinHttpOpenRequest api connection (to_wide api ''GET'') urlPath isHttps w2 = (request, w3) \<and> request \<noteq> 0
        \<and> exchange_answers api request ''Content-Type: application/json'' code chunks w3 w4
        \<and> w' = WinHttpCloseHandle api session (WinHttpCloseHandle api connection (WinHttpCloseHandle api request w4)))"

lemma http_exchange_answers:
  assumes "exchange_answers api request header code chunks w w'"
  shows "http_exchange api request [] header w
    = Some (\<lparr>statusCode = sint code, response_body = concat chunks\<rparr>, w')"
proof -
  obtain w1 w2 w3 where "WinHttpSendRequest api request None (WinHttpAddRequestHeaders api request header w) = (True, w1)"
    "WinHttpReceiveResponse api request w1 = (True, w2)" "WinHttpQueryStatusCode api request w2 = (Some code, w3)"
    and d: "delivers api request chunks w3 w'"
    using assms by (auto simp: exchange_answers_def)
  then show ?thesis using http_body_delivers [OF d, of "[]"] by (simp add: http_exchange_def)
qed

lemma HttpGet_answers:
  assumes "answers_get api url code chunks w w'"
  shows "HttpGet api url w = Some (\<lparr>statusCode = sint code, response_body = concat chunks\<rparr>, w')"
proof -
  obtain isHttps hostName port urlPath session connection request w1 w2 w3 w4 where
    u: "WinHttpCrackUrl api (to_wide api url) 256 2048 = Some (isHttps, hostName, port, urlPath)"
    and s: "WinHttpOpen api ''RootHerald/1.0'' w = (session, w1)" "session \<noteq> 0"
    and c: "WinHttpConnect api session hostName port w1 = (connection, w2)" "connection \<noteq> 0"
    and r: "WinHttpOpenRequest api connection (to_wide api ''GET'') urlPath isHttps w2 = (request, w3)" "request \<noteq> 0"
    and e: "exchange_answers api request ''Content-Type: application/json'' code chunks w3 w4"
    and w': "w' = WinHttpCloseHandle api session (WinHttpCloseHandle api connection (WinHttpCloseHandle api request w4))"
    using assms unfolding answers_get_def by blast
  show ?thesis
    unfolding HttpGet_def DoRequest_def u w'
    by (simp add: with_owned_def uh_Destroy_def uh_Reset_def uh_valid_def InternetTraits_def s c r
        http_exchange_answers [OF e])
qed

end
