(* ===== verification/Endian.thy ===== *)
theory Endian
  imports Prelude
begin

text \<open>
  The byte order primitives of \<open>tpm_commands.cpp\<close> (big-endian writers and readers of the TPM
  wire format) and the little-endian readers of the firmware event log, of the EFI variable
  records and of the \<open>BCRYPT_RSAKEY_BLOB\<close> header. Every reader is checked: \<open>None\<close> when one of its
  bytes lies outside the vector.

  The locale \<open>byte_codec\<close> is the contract a fixed-width writer and reader share; it is
  interpreted on all five pairs. Its lemmas are what the message parsers and their
  round trips are proved with.
\<close>

section \<open>Writers of the TPM wire format\<close>

definition WriteU16 :: "bytes \<Rightarrow> u16 \<Rightarrow> bytes" where
  "WriteU16 buf v = buf @ [ucast (drop_bit 8 v AND 0xFF), ucast (v AND 0xFF)]"

definition WriteU32 :: "bytes \<Rightarrow> u32 \<Rightarrow> bytes" where
  "WriteU32 buf v = buf @
     [ucast (drop_bit 24 v AND 0xFF), ucast (drop_bit 16 v AND 0xFF),
      ucast (drop_bit 8 v AND 0xFF), ucast (v AND 0xFF)]"

definition WriteBytes :: "bytes \<Rightarrow> bytes \<Rightarrow> bytes" where
  "WriteBytes buf data = buf @ data"

text \<open>\<open>(uint16_t)len\<close> truncates the length of a vector of 65536 bytes or more.\<close>

definition WriteTPM2B :: "bytes \<Rightarrow> bytes \<Rightarrow> bytes" where
  "WriteTPM2B buf data =
     (let buf = WriteU16 buf (of_nat (length data))
      in if length data > 0 then WriteBytes buf data else buf)"

definition push_back :: "bytes \<Rightarrow> u8 \<Rightarrow> bytes" where
  "push_back buf b = buf @ [b]"

section \<open>Readers\<close>

definition ReadU16 :: "bytes \<Rightarrow> nat \<Rightarrow> u16 option" where
  "ReadU16 p i = do {
     b0 \<leftarrow> byte_at p i;
     b1 \<leftarrow> byte_at p (i + 1);
     Some (push_bit 8 (ucast b0) OR ucast b1)
   }"

definition ReadU32 :: "bytes \<Rightarrow> nat \<Rightarrow> u32 option" where
  "ReadU32 p i = do {
     b0 \<leftarrow> byte_at p i;
     b1 \<leftarrow> byte_at p (i + 1);
     b2 \<leftarrow> byte_at p (i + 2);
     b3 \<leftarrow> byte_at p (i + 3);
     Some (push_bit 24 (ucast b0) OR push_bit 16 (ucast b1) OR push_bit 8 (ucast b2) OR ucast b3)
   }"

definition ReadU16LE :: "bytes \<Rightarrow> nat \<Rightarrow> u16 option" where
  "ReadU16LE p i = do {
     b0 \<leftarrow> byte_at p i;
     b1 \<leftarrow> byte_at p (i + 1);
     Some (ucast b0 OR push_bit 8 (ucast b1))
   }"

definition ReadU32LE :: "bytes \<Rightarrow> nat \<Rightarrow> u32 option" where
  "ReadU32LE p i = do {
     b0 \<leftarrow> byte_at p i;
     b1 \<leftarrow> byte_at p (i + 1);
     b2 \<leftarrow> byte_at p (i + 2);
     b3 \<leftarrow> byte_at p (i + 3);
     Some (ucast b0 OR push_bit 8 (ucast b1) OR push_bit 16 (ucast b2) OR push_bit 24 (ucast b3))
   }"

text \<open>\<open>memcpy(&v, p, 8)\<close> into a \<open>uint64_t\<close> on the little-endian targets of the SDK.\<close>

definition ReadU64LE :: "bytes \<Rightarrow> nat \<Rightarrow> u64 option" where
  "ReadU64LE p i = do {
     lo \<leftarrow> ReadU32LE p i;
     hi \<leftarrow> ReadU32LE p (i + 4);
     Some (ucast lo OR push_bit 32 (ucast hi))
   }"

text \<open>
  The byte images of a value: what the writers append (big-endian), and what firmware and CNG
  leave for the little-endian readers.
\<close>

definition u16_be :: "u16 \<Rightarrow> bytes" where
  "u16_be v = [ucast (drop_bit 8 v), ucast v]"

definition u32_be :: "u32 \<Rightarrow> bytes" where
  "u32_be v = [ucast (drop_bit 24 v), ucast (drop_bit 16 v), ucast (drop_bit 8 v), ucast v]"

definition u16_le :: "u16 \<Rightarrow> bytes" where
  "u16_le v = [ucast v, ucast (drop_bit 8 v)]"

definition u32_le :: "u32 \<Rightarrow> bytes" where
  "u32_le v = [ucast v, ucast (drop_bit 8 v), ucast (drop_bit 16 v), ucast (drop_bit 24 v)]"

definition u64_le :: "u64 \<Rightarrow> bytes" where
  "u64_le v = u32_le (ucast v) @ u32_le (ucast (drop_bit 32 v))"

named_theorems writer_simps \<open>the writers as appending an image\<close>

section \<open>The contract of a fixed-width codec\<close>

locale byte_codec =
  fixes width :: nat
    and wr :: "'v \<Rightarrow> bytes"
    and rd :: "bytes \<Rightarrow> nat \<Rightarrow> 'v option"
  assumes width_pos: "0 < width"
    and wr_length: "length (wr v) = width"
    and rd_outside: "length bs < i + width \<Longrightarrow> rd bs i = None"
    and rd_inside: "i + width \<le> length bs \<Longrightarrow> rd bs i \<noteq> None"
    and rd_wr: "rd (pre @ wr v @ post) (length pre) = Some v"
    and wr_rd: "rd bs i = Some v \<Longrightarrow> take width (drop i bs) = wr v"
begin

lemma rd_iff_inside: "(\<exists>v. rd bs i = Some v) \<longleftrightarrow> i + width \<le> length bs"
  using rd_inside [of i bs] rd_outside [of bs i] by fastforce

lemma rd_wr_at: "drop i bs = wr v @ post \<Longrightarrow> i \<le> length bs \<Longrightarrow> rd bs i = Some v"
  using rd_wr [of "take i bs" v post] append_take_drop_id [of i bs] by simp

lemma rd_wr_front: "rd (wr v @ post) 0 = Some v"
  using rd_wr [of "[]" v post] by simp

lemma rd_skip: "rd (xs @ bs) (length xs + i) = rd bs i"
proof (cases "rd bs i")
  case None
  then have "length bs < i + width" using rd_inside [of i bs] by fastforce
  then show ?thesis using None by (simp add: rd_outside)
next
  case (Some v)
  then have i: "i + width \<le> length bs" using rd_iff_inside [of bs i] by blast
  have "drop (length xs + i) (xs @ bs) = wr v @ drop width (drop i bs)"
    using wr_rd [OF Some] append_take_drop_id [of width "drop i bs"] by simp
  then have "rd (xs @ bs) (length xs + i) = Some v" using i by (intro rd_wr_at) auto
  then show ?thesis using Some by simp
qed

lemma wr_inj: "wr v = wr v' \<Longrightarrow> v = v'"
  using rd_wr_front [of v "[]"] rd_wr_front [of v' "[]"] by simp

end

section \<open>Lemmas\<close>

subsection \<open>Bytes of a word\<close>

lemma ucast_and_255 [simp]: "(ucast (w AND 255 :: 'a::len word) :: u8) = ucast w"
proof -
  have m: "(255 :: 'a word) = mask 8" by (simp add: mask_eq_exp_minus_1)
  show ?thesis
    unfolding m by (rule bit_word_eqI) (auto simp: bit_simps dest: bit_imp_le_length)
qed

lemma be16_join: "push_bit 8 (ucast (ucast (drop_bit 8 v) :: u8)) OR ucast (ucast v :: u8) = (v :: u16)"
  by (rule bit_word_eqI) (auto simp: bit_simps)

lemma le16_join: "ucast (ucast v :: u8) OR push_bit 8 (ucast (ucast (drop_bit 8 v) :: u8)) = (v :: u16)"
  by (rule bit_word_eqI) (auto simp: bit_simps)

lemma be32_join:
  "push_bit 24 (ucast (ucast (drop_bit 24 v) :: u8)) OR push_bit 16 (ucast (ucast (drop_bit 16 v) :: u8))
   OR push_bit 8 (ucast (ucast (drop_bit 8 v) :: u8)) OR ucast (ucast v :: u8) = (v :: u32)"
  proof (rule bit_word_eqI, goal_cases)
  case (1 n)
  then show ?case by (cases "n < 8"; cases "n < 16"; cases "n < 24") (auto simp: bit_simps)
qed

lemma le32_join:
  "ucast (ucast v :: u8) OR push_bit 8 (ucast (ucast (drop_bit 8 v) :: u8))
   OR push_bit 16 (ucast (ucast (drop_bit 16 v) :: u8)) OR push_bit 24 (ucast (ucast (drop_bit 24 v) :: u8))
   = (v :: u32)"
  proof (rule bit_word_eqI, goal_cases)
  case (1 n)
  then show ?case by (cases "n < 8"; cases "n < 16"; cases "n < 24") (auto simp: bit_simps)
qed

lemma le64_join: "ucast (ucast v :: u32) OR push_bit 32 (ucast (ucast (drop_bit 32 v) :: u32)) = (v :: u64)"
  by (rule bit_word_eqI) (auto simp: bit_simps)

lemma u16_byte_hi: "(ucast (drop_bit 8 (push_bit 8 (ucast a) OR ucast (b :: u8) :: u16)) :: u8) = a"
  by (rule bit_word_eqI) (auto simp: bit_simps dest: bit_imp_le_length)

lemma u16_byte_lo: "(ucast (push_bit 8 (ucast (a :: u8)) OR ucast b :: u16) :: u8) = b"
  by (rule bit_word_eqI) (auto simp: bit_simps dest: bit_imp_le_length)

lemma u32_byte3: "(ucast (drop_bit 24 (push_bit 24 (ucast a) OR push_bit 16 (ucast (b :: u8)) OR push_bit 8 (ucast (c :: u8)) OR ucast (d :: u8) :: u32)) :: u8) = a"
  by (rule bit_word_eqI) (auto simp: bit_simps dest: bit_imp_le_length)

lemma u32_byte2: "(ucast (drop_bit 16 (push_bit 24 (ucast (a :: u8)) OR push_bit 16 (ucast b) OR push_bit 8 (ucast (c :: u8)) OR ucast (d :: u8) :: u32)) :: u8) = b"
  by (rule bit_word_eqI) (auto simp: bit_simps dest: bit_imp_le_length)

lemma u32_byte1: "(ucast (drop_bit 8 (push_bit 24 (ucast (a :: u8)) OR push_bit 16 (ucast (b :: u8)) OR push_bit 8 (ucast c) OR ucast (d :: u8) :: u32)) :: u8) = c"
  by (rule bit_word_eqI) (auto simp: bit_simps dest: bit_imp_le_length)

lemma u32_byte0: "(ucast (push_bit 24 (ucast (a :: u8)) OR push_bit 16 (ucast (b :: u8)) OR push_bit 8 (ucast (c :: u8)) OR ucast d :: u32) :: u8) = d"
  by (rule bit_word_eqI) (auto simp: bit_simps dest: bit_imp_le_length)

lemmas u32_bytes = u32_byte3 u32_byte2 u32_byte1 u32_byte0

lemma u16_bytes_le:
  fixes a b :: u8
  shows "(ucast (ucast a OR push_bit 8 (ucast b) :: u16) :: u8) = a"
    and "(ucast (drop_bit 8 (ucast a OR push_bit 8 (ucast b) :: u16)) :: u8) = b"
  by (rule bit_word_eqI; auto simp: bit_simps dest: bit_imp_le_length)+

lemma u64_hi: "(ucast (drop_bit 32 (ucast (lo :: u32) OR push_bit 32 (ucast hi) :: u64)) :: u32) = hi"
  by (rule bit_word_eqI) (auto simp: bit_simps dest: bit_imp_le_length)

lemma u64_lo: "(ucast (ucast lo OR push_bit 32 (ucast (hi :: u32)) :: u64) :: u32) = lo"
  by (rule bit_word_eqI) (auto simp: bit_simps dest: bit_imp_le_length)

lemma u32_bytes_le:
  fixes a b c d :: u8
  defines "v \<equiv> (ucast a OR push_bit 8 (ucast b) OR push_bit 16 (ucast c) OR push_bit 24 (ucast d) :: u32)"
  shows "ucast v = a" "ucast (drop_bit 8 v) = b" "ucast (drop_bit 16 v) = c" "ucast (drop_bit 24 v) = d"
  unfolding v_def by (rule bit_word_eqI; auto simp: bit_simps dest: bit_imp_le_length)+

subsection \<open>Two and four bytes at a position\<close>

lemma take2_drop: "i + 2 \<le> length bs \<Longrightarrow> take 2 (drop i bs) = [bs ! i, bs ! (i + 1)]"
  by (rule nth_equalityI) (auto simp: less_Suc_eq numeral_2_eq_2)

lemma take4_drop:
  "i + 4 \<le> length bs \<Longrightarrow> take 4 (drop i bs) = [bs ! i, bs ! (i + 1), bs ! (i + 2), bs ! (i + 3)]"
  by (rule nth_equalityI) (auto simp: less_Suc_eq numeral_eq_Suc)

lemma ReadU16_inside [access_simps]:
  "i + 2 \<le> length p \<Longrightarrow> ReadU16 p i = Some (push_bit 8 (ucast (p ! i)) OR ucast (p ! (i + 1)))"
  by (simp add: ReadU16_def byte_at_def)

lemma ReadU32_inside [access_simps]:
  "i + 4 \<le> length p \<Longrightarrow> ReadU32 p i =
     Some (push_bit 24 (ucast (p ! i)) OR push_bit 16 (ucast (p ! (i + 1)))
           OR push_bit 8 (ucast (p ! (i + 2))) OR ucast (p ! (i + 3)))"
  by (simp add: ReadU32_def byte_at_def)

lemma ReadU16LE_inside [access_simps]:
  "i + 2 \<le> length p \<Longrightarrow> ReadU16LE p i = Some (ucast (p ! i) OR push_bit 8 (ucast (p ! (i + 1))))"
  by (simp add: ReadU16LE_def byte_at_def)

lemma ReadU32LE_inside [access_simps]:
  "i + 4 \<le> length p \<Longrightarrow> ReadU32LE p i =
     Some (ucast (p ! i) OR push_bit 8 (ucast (p ! (i + 1)))
           OR push_bit 16 (ucast (p ! (i + 2))) OR push_bit 24 (ucast (p ! (i + 3))))"
  by (simp add: ReadU32LE_def byte_at_def)

lemma defined_byte_at [never_faults]: "defined (byte_at bs i) \<longleftrightarrow> i < length bs"
  by (simp add: byte_at_def)

lemma defined_vec_range [never_faults]: "defined (vec_range bs i j) \<longleftrightarrow> i \<le> j \<and> j \<le> length bs"
  by (simp add: vec_range_def)

section \<open>The codecs of the program\<close>

lemma WriteU16_append [writer_simps]: "WriteU16 buf v = buf @ u16_be v"
  by (simp add: WriteU16_def u16_be_def)

lemma WriteU32_append [writer_simps]: "WriteU32 buf v = buf @ u32_be v"
  by (simp add: WriteU32_def u32_be_def)

lemma WriteTPM2B_append [writer_simps]:
  "WriteTPM2B buf data = buf @ u16_be (of_nat (length data)) @ data"
  by (simp add: WriteTPM2B_def Let_def WriteBytes_def WriteU16_append)

lemmas WriteBytes_append [writer_simps] = WriteBytes_def
lemmas push_back_append [writer_simps] = push_back_def

lemma length_u16_be [simp]: "length (u16_be v) = 2"
  by (simp add: u16_be_def)

lemma length_u32_be [simp]: "length (u32_be v) = 4"
  by (simp add: u32_be_def)

lemma length_u16_le [simp]: "length (u16_le v) = 2"
  by (simp add: u16_le_def)

lemma length_u32_le [simp]: "length (u32_le v) = 4"
  by (simp add: u32_le_def)

lemma length_u64_le [simp]: "length (u64_le v) = 8"
  by (simp add: u64_le_def)

interpretation be16: byte_codec 2 u16_be ReadU16
proof unfold_locales
  fix bs i v pre post
  show "length bs < i + 2 \<Longrightarrow> ReadU16 bs i = None"
    by (auto simp: ReadU16_def byte_at_def Option.bind_eq_None_conv split: if_splits)
  show "i + 2 \<le> length bs \<Longrightarrow> ReadU16 bs i \<noteq> None"
    by (simp add: access_simps)
  show "ReadU16 (pre @ u16_be v @ post) (length pre) = Some v"
    by (simp add: ReadU16_def byte_at_def nth_append u16_be_def be16_join)
  show "ReadU16 bs i = Some v \<Longrightarrow> take 2 (drop i bs) = u16_be v"
    by (auto simp: ReadU16_def byte_at_def take2_drop u16_be_def u16_byte_hi u16_byte_lo
        simp del: drop_bit_or split: if_splits bind_splits)
qed simp_all

interpretation be32: byte_codec 4 u32_be ReadU32
proof unfold_locales
  fix bs i v pre post
  show "length bs < i + 4 \<Longrightarrow> ReadU32 bs i = None"
    by (auto simp: ReadU32_def byte_at_def split: if_splits bind_splits)
  show "i + 4 \<le> length bs \<Longrightarrow> ReadU32 bs i \<noteq> None"
    by (simp add: access_simps)
  show "ReadU32 (pre @ u32_be v @ post) (length pre) = Some v"
    by (simp add: ReadU32_def byte_at_def nth_append u32_be_def be32_join)
  show "ReadU32 bs i = Some v \<Longrightarrow> take 4 (drop i bs) = u32_be v"
    by (auto simp: ReadU32_def byte_at_def take4_drop u32_be_def u32_bytes
        simp del: drop_bit_or split: if_splits bind_splits)
qed simp_all

interpretation le16: byte_codec 2 u16_le ReadU16LE
proof unfold_locales
  fix bs i v pre post
  show "length bs < i + 2 \<Longrightarrow> ReadU16LE bs i = None"
    by (auto simp: ReadU16LE_def byte_at_def split: if_splits bind_splits)
  show "i + 2 \<le> length bs \<Longrightarrow> ReadU16LE bs i \<noteq> None"
    by (simp add: access_simps)
  show "ReadU16LE (pre @ u16_le v @ post) (length pre) = Some v"
    by (simp add: ReadU16LE_def byte_at_def nth_append u16_le_def le16_join)
  show "ReadU16LE bs i = Some v \<Longrightarrow> take 2 (drop i bs) = u16_le v"
    by (auto simp: ReadU16LE_def byte_at_def take2_drop u16_le_def
        u16_bytes_le simp del: drop_bit_or split: if_splits bind_splits)
qed simp_all

interpretation le32: byte_codec 4 u32_le ReadU32LE
proof unfold_locales
  fix bs i v pre post
  show "length bs < i + 4 \<Longrightarrow> ReadU32LE bs i = None"
    by (auto simp: ReadU32LE_def byte_at_def split: if_splits bind_splits)
  show "i + 4 \<le> length bs \<Longrightarrow> ReadU32LE bs i \<noteq> None"
    by (simp add: access_simps)
  show "ReadU32LE (pre @ u32_le v @ post) (length pre) = Some v"
    by (simp add: ReadU32LE_def byte_at_def nth_append u32_le_def le32_join)
  show "ReadU32LE bs i = Some v \<Longrightarrow> take 4 (drop i bs) = u32_le v"
    by (auto simp: ReadU32LE_def byte_at_def take4_drop u32_le_def u32_bytes_le
        simp del: drop_bit_or split: if_splits bind_splits)
qed simp_all

interpretation le64: byte_codec 8 u64_le ReadU64LE
proof unfold_locales
  fix bs i v pre post
  show "length bs < i + 8 \<Longrightarrow> ReadU64LE bs i = None"
    by (cases "i + 4 \<le> length bs") (auto simp: ReadU64LE_def le32.rd_outside split: bind_splits)
  show "i + 8 \<le> length bs \<Longrightarrow> ReadU64LE bs i \<noteq> None"
    by (simp add: ReadU64LE_def access_simps)
  have "drop (length pre + 4) (pre @ u64_le v @ post) = u32_le (ucast (drop_bit 32 v)) @ post"
    by (simp add: u64_le_def)
  then have hi: "ReadU32LE (pre @ u64_le v @ post) (length pre + 4) = Some (ucast (drop_bit 32 v))"
    by (intro le32.rd_wr_at) auto
  have lo: "ReadU32LE (pre @ u64_le v @ post) (length pre) = Some (ucast v)"
    by (simp add: u64_le_def le32.rd_wr)
  show "ReadU64LE (pre @ u64_le v @ post) (length pre) = Some v"
    by (simp add: ReadU64LE_def lo hi le64_join)
  show "ReadU64LE bs i = Some v \<Longrightarrow> take 8 (drop i bs) = u64_le v"
  proof -
    assume "ReadU64LE bs i = Some v"
    then obtain lo hi where r: "ReadU32LE bs i = Some lo" "ReadU32LE bs (i + 4) = Some hi"
      and v: "v = ucast lo OR push_bit 32 (ucast hi)"
      by (auto simp: ReadU64LE_def split: bind_splits)
    have "take 8 (drop i bs) = take 4 (drop i bs) @ take 4 (drop (i + 4) bs)"
      using take_add [of 4 4 "drop i bs"] by (simp add: add.commute)
    then show ?thesis
      using r [THEN le32.wr_rd] by (simp add: u64_le_def v u64_hi u64_lo del: drop_bit_or)
  qed
qed simp_all

lemma defined_ReadU16 [never_faults]: "defined (ReadU16 p i) \<longleftrightarrow> i + 2 \<le> length p"
  by (simp add: defined_def be16.rd_iff_inside)

lemma defined_ReadU32 [never_faults]: "defined (ReadU32 p i) \<longleftrightarrow> i + 4 \<le> length p"
  by (simp add: defined_def be32.rd_iff_inside)

lemma defined_ReadU16LE [never_faults]: "defined (ReadU16LE p i) \<longleftrightarrow> i + 2 \<le> length p"
  by (simp add: defined_def le16.rd_iff_inside)

lemma defined_ReadU32LE [never_faults]: "defined (ReadU32LE p i) \<longleftrightarrow> i + 4 \<le> length p"
  by (simp add: defined_def le32.rd_iff_inside)

lemma defined_ReadU64LE [never_faults]: "defined (ReadU64LE p i) \<longleftrightarrow> i + 8 \<le> length p"
  by (simp add: defined_def le64.rd_iff_inside)

end
