(* ===== verification/Client_Encoding.thy ===== *)
theory Client_Encoding
  imports Bcrypt Http Endian
begin

text \<open>
  The file-local helpers of \<open>src/client/rootherald_win.cpp\<close> that turn bytes into text: Base64 over the
  two CryptoAPI calls, hexadecimal, PEM, and the device id, a name-based UUID in the byte order of a
  .NET \<open>Guid\<close>.
\<close>

section \<open>Base64\<close>

text \<open>
  The two conversions, each with an optional buffer size: \<open>None\<close> is the query for the size. The
  result is what was written into the buffer and the length the call leaves in its argument; a call
  that fails writes nothing. Neither keeps a state.
\<close>

record crypt_string_api =
  CryptBinaryToStringA :: "bytes \<Rightarrow> u32 option \<Rightarrow> string \<times> u32"
  CryptStringToBinaryA :: "string \<Rightarrow> u32 option \<Rightarrow> bytes \<times> u32"

definition str_resize :: "nat \<Rightarrow> string \<Rightarrow> string" where
  "str_resize n s = take n s @ replicate (n - length s) (CHR 0x00)"

definition trim_back :: "string \<Rightarrow> string" where
  "trim_back s = rev (dropWhile (\<lambda>c. c = CHR 0x00 \<or> c = newline \<or> c = CHR 0x0D) (rev s))"

definition Base64Encode :: "crypt_string_api \<Rightarrow> bytes \<Rightarrow> string" where
  "Base64Encode api data =
     (let (_, outLen) = CryptBinaryToStringA api (ulong_prefix data) None;
          (written, got) = CryptBinaryToStringA api (ulong_prefix data) (Some outLen)
      in trim_back (str_resize (unat got) (str_resize (unat outLen) written)))"

definition Base64Decode :: "crypt_string_api \<Rightarrow> string \<Rightarrow> bytes" where
  "Base64Decode api encoded =
     (let (_, outLen) = CryptStringToBinaryA api (c_str encoded) None;
          (written, got) = CryptStringToBinaryA api (c_str encoded) (Some outLen)
      in vec_resize (unat got) (vec_resize (unat outLen) written))"

section \<open>Hexadecimal and PEM\<close>

definition BytesToHex :: "bytes \<Rightarrow> string" where
  "BytesToHex data = hex_render hex_lower data"

definition DerToPem :: "crypt_string_api \<Rightarrow> bytes \<Rightarrow> string" where
  "DerToPem api der =
     ''-----BEGIN CERTIFICATE-----'' @ [newline] @ Base64Encode api der @ [newline] @ ''-----END CERTIFICATE-----''"

section \<open>The device id\<close>

definition DEVICE_ID_NAMESPACE :: bytes where
  "DEVICE_ID_NAMESPACE = [0x52, 0x6F, 0x6F, 0x74, 0x48, 0x65, 0x72, 0x61,
     0x6C, 0x64, 0x44, 0x65, 0x76, 0x49, 0x44, 0x76]"

definition hexByte :: "u8 \<Rightarrow> string" where
  "hexByte v = [hex_lower ! unat (drop_bit 4 v), hex_lower ! unat (v AND 0x0F)]"

text \<open>Version 5 and the RFC 4122 variant.\<close>

definition stamp_uuid :: "bytes \<Rightarrow> bytes" where
  "stamp_uuid b = b[6 := (b ! 6 AND 0x0F) OR 0x50, 8 := (b ! 8 AND 0x3F) OR 0x80]"

definition hex_group :: "bytes \<Rightarrow> nat list \<Rightarrow> string" where
  "hex_group b idx = concat (map (\<lambda>i. hexByte (b ! i)) idx)"

definition device_id_text :: "bytes \<Rightarrow> string" where
  "device_id_text b = hex_group b [3, 2, 1, 0] @ ''-'' @ hex_group b [5, 4] @ ''-'' @ hex_group b [7, 6] @ ''-''
     @ hex_group b [8, 9] @ ''-'' @ hex_group b [10..<16]"

definition ComputeDeviceIdFromFingerprint :: "'w bcrypt_api \<Rightarrow> bytes \<Rightarrow> 'w \<Rightarrow> string \<times> 'w" where
  "ComputeDeviceIdFromFingerprint api fingerprint w =
     (if length fingerprint \<noteq> 32 then ([], w)
      else
        let (sha1, w) = Sha1 api (DEVICE_ID_NAMESPACE @ fingerprint) w
        in if length sha1 < 16 then ([], w)
           else (device_id_text (stamp_uuid (take 16 sha1)), w))"

section \<open>Base64 text\<close>

definition base64_alphabet :: string where
  "base64_alphabet = ''ABCDEFGHIJKLMNOPQRSTUVWXYZabcdefghijklmnopqrstuvwxyz0123456789+/=''"

text \<open>Documented behaviour: whatever the encoder writes is Base64 text, followed at most by terminators.\<close>

definition writes_base64 :: "crypt_string_api \<Rightarrow> bool" where
  "writes_base64 api \<longleftrightarrow> (\<forall>data size. \<exists>text n. fst (CryptBinaryToStringA api data size) = text @ replicate n (CHR 0x00)
     \<and> set text \<subseteq> set base64_alphabet)"

lemma set_base64_plain:
  assumes "c \<in> set base64_alphabet"
  shows "c \<noteq> CHR 0x00" "c \<noteq> newline" "c \<noteq> CHR 0x0D" "32 \<le> (of_char c :: nat)"
    "c \<noteq> CHR ''{''" "c \<noteq> CHR ''[''" "c \<noteq> quote_char" "c \<noteq> backslash_char"
  using assms by (auto simp: base64_alphabet_def newline_def quote_char_def backslash_char_def)

lemma trim_back_terminators:
  assumes "set s \<subseteq> set base64_alphabet"
  shows "trim_back (s @ replicate n (CHR 0x00)) = s"
proof -
  have "dropWhile P (replicate n x @ r) = dropWhile P r" if "P x" for P :: "char \<Rightarrow> bool" and x r
    using that by (induction n) auto
  then have "trim_back (s @ replicate n (CHR 0x00)) = trim_back s"
    by (simp add: trim_back_def)
  moreover have "trim_back s = s"
    using assms set_base64_plain [of "last s"]
    by (cases s rule: rev_cases) (auto simp: trim_back_def)
  ultimately show ?thesis by simp
qed

lemma str_resize_terminated:
  assumes "set s \<subseteq> A"
  obtains s' k where "str_resize m (s @ replicate n (CHR 0x00)) = s' @ replicate k (CHR 0x00)" and "set s' \<subseteq> A"
proof
  show "str_resize m (s @ replicate n (CHR 0x00)) = take m s @ replicate (min (m - length s) n + (m - (length s + n))) (CHR 0x00)"
    by (simp add: str_resize_def replicate_add)
  show "set (take m s) \<subseteq> A" using assms set_take_subset by fast
qed

lemma Base64Encode_over:
  assumes A: "A \<subseteq> set base64_alphabet"
    and w: "\<And>data size. \<exists>s n. fst (CryptBinaryToStringA api data size) = s @ replicate n (CHR 0x00) \<and> set s \<subseteq> A"
  shows "set (Base64Encode api data) \<subseteq> A"
proof -
  let ?data = "ulong_prefix data"
  obtain t0 outLen where o: "CryptBinaryToStringA api ?data None = (t0, outLen)" by (metis prod.exhaust)
  obtain written got where g: "CryptBinaryToStringA api ?data (Some outLen) = (written, got)" by (metis prod.exhaust)
  obtain s n where "written = s @ replicate n (CHR 0x00)" and s: "set s \<subseteq> A"
    using w [of ?data "Some outLen"] g by auto
  moreover obtain s1 n1 where "str_resize (unat outLen) (s @ replicate n (CHR 0x00)) = s1 @ replicate n1 (CHR 0x00)"
    and s1: "set s1 \<subseteq> A" using str_resize_terminated [OF s] .
  moreover obtain s2 n2 where "str_resize (unat got) (s1 @ replicate n1 (CHR 0x00)) = s2 @ replicate n2 (CHR 0x00)"
    and s2: "set s2 \<subseteq> A" using str_resize_terminated [OF s1] .
  ultimately have "Base64Encode api data = trim_back (s2 @ replicate n2 (CHR 0x00))"
    by (simp add: Base64Encode_def o g)
  then show ?thesis using s2 A trim_back_terminators [of s2] by auto
qed

lemma Base64Encode_alphabet: "writes_base64 api \<Longrightarrow> set (Base64Encode api data) \<subseteq> set base64_alphabet"
  by (rule Base64Encode_over) (auto simp: writes_base64_def)

text \<open>A codec: what the two calls do on data of a size.\<close>

definition serves_base64 :: "crypt_string_api \<Rightarrow> nat \<Rightarrow> (bytes \<Rightarrow> string) \<Rightarrow> bool" where
  "serves_base64 api n enc \<longleftrightarrow> n < 2 ^ 32 \<and> (\<forall>data. length data \<le> n \<longrightarrow>
     set (enc data) \<subseteq> set base64_alphabet \<and> length (enc data) + 1 < 2 ^ 32
     \<and> snd (CryptBinaryToStringA api data None) = of_nat (length (enc data) + 1)
     \<and> CryptBinaryToStringA api data (Some (of_nat (length (enc data) + 1))) = (enc data, of_nat (length (enc data)))
     \<and> snd (CryptStringToBinaryA api (enc data) None) = of_nat (length data)
     \<and> CryptStringToBinaryA api (enc data) (Some (of_nat (length data))) = (data, of_nat (length data)))"

lemma Base64Encode_serves:
  assumes "serves_base64 api n enc" and "length data \<le> n"
  shows "Base64Encode api data = enc data"
proof -
  have e: "set (enc data) \<subseteq> set base64_alphabet" "length (enc data) + 1 < 2 ^ 32" "length data < 2 ^ 32"
    and q: "snd (CryptBinaryToStringA api data None) = of_nat (length (enc data) + 1)"
    and c: "CryptBinaryToStringA api data (Some (of_nat (length (enc data) + 1))) = (enc data, of_nat (length (enc data)))"
    using assms by (auto simp: serves_base64_def)
  obtain t where "CryptBinaryToStringA api data None = (t, of_nat (length (enc data) + 1))"
    using q by (metis prod.collapse)
  moreover have "unat (of_nat (length (enc data)) :: u32) = length (enc data)"
    "unat (of_nat (length (enc data) + 1) :: u32) = length (enc data) + 1"
    using e(2) by (simp_all only: unat_of_nat) simp_all
  ultimately have "Base64Encode api data = trim_back (enc data @ replicate 0 (CHR 0x00))"
    using c by (simp add: Base64Encode_def ulong_prefix_id [OF e(3)] str_resize_def del: of_nat_add of_nat_Suc)
  then show ?thesis using trim_back_terminators [OF e(1), of 0] by simp
qed

lemma Base64Decode_serves:
  assumes "serves_base64 api n enc" and "length data \<le> n"
  shows "Base64Decode api (enc data) = data"
proof -
  have e: "set (enc data) \<subseteq> set base64_alphabet" "length data < 2 ^ 32"
    and q: "snd (CryptStringToBinaryA api (enc data) None) = of_nat (length data)"
    and c: "CryptStringToBinaryA api (enc data) (Some (of_nat (length data))) = (data, of_nat (length data))"
    using assms by (auto simp: serves_base64_def)
  have "c_str (enc data) = enc data"
    unfolding c_str_def takeWhile_eq_all_conv using e(1) set_base64_plain(1) by blast
  moreover obtain t where "CryptStringToBinaryA api (enc data) None = (t, of_nat (length data))"
    using q by (metis prod.collapse)
  moreover have "unat (of_nat (length data) :: u32) = length data" using e(2) by (simp add: unat_of_nat)
  ultimately show ?thesis using c by (simp add: Base64Decode_def)
qed

section \<open>The device id as a .NET Guid\<close>

text \<open>
  The text of a \<open>System.Guid\<close>: three little-endian fields written as numbers, then eight bytes in
  order. That is the specification of the server; the code permutes bytes.
\<close>

definition guid_text :: "u32 \<Rightarrow> u16 \<Rightarrow> u16 \<Rightarrow> bytes \<Rightarrow> string" where
  "guid_text a b c d =
     hex_render hex_lower (u32_be a) @ ''-'' @ hex_render hex_lower (u16_be b) @ ''-'' @
     hex_render hex_lower (u16_be c) @ ''-'' @ hex_render hex_lower (take 2 d) @ ''-'' @
     hex_render hex_lower (drop 2 d)"

definition guid_bytes :: "u32 \<Rightarrow> u16 \<Rightarrow> u16 \<Rightarrow> bytes \<Rightarrow> bytes" where
  "guid_bytes a b c d = u32_le a @ u16_le b @ u16_le c @ d"

lemma hex_group_render: "hex_group b idx = hex_render hex_lower (map ((!) b) idx)"
  by (simp add: hex_group_def hexByte_def hex_render_def comp_def)

lemma device_id_text_guid:
  assumes "length d = 8"
  shows "device_id_text (guid_bytes a b c d) = guid_text a b c d"
proof -
  obtain d0 d1 d2 d3 d4 d5 d6 d7 where d: "d = [d0, d1, d2, d3, d4, d5, d6, d7]"
    using assms by (auto simp: length_Suc_conv eval_nat_numeral)
  have r: "[10..<16] = [10, 11, 12, 13, 14, 15 :: nat]" by (simp add: upt_conv_Cons)
  show ?thesis
    by (simp add: device_id_text_def hex_group_render guid_bytes_def guid_text_def d r
        u32_le_def u32_be_def u16_le_def u16_be_def)
qed

lemma guid_fields:
  assumes "length bs = 16"
  obtains a b c d where "bs = guid_bytes a b c d" and "length d = 8"
proof -
  obtain a b c where r: "ReadU32LE bs 0 = Some a" "ReadU16LE bs 4 = Some b" "ReadU16LE bs 6 = Some c"
    using assms le32.rd_iff_inside [of bs 0] le16.rd_iff_inside [of bs 4] le16.rd_iff_inside [of bs 6] by auto
  have chunk: "drop i bs = take n (drop i bs) @ drop (i + n) bs" for i n
    by (metis append_take_drop_id drop_drop add.commute)
  have "bs = guid_bytes a b c (drop 8 bs)"
    using le32.wr_rd [OF r(1)] le16.wr_rd [OF r(2)] le16.wr_rd [OF r(3)] chunk [of 0 4] chunk [of 4 2] chunk [of 6 2]
    by (simp add: guid_bytes_def)
  then show thesis using that assms by simp
qed

lemma device_id_text_inj:
  assumes "length x = 16" and "length y = 16"
  shows "device_id_text x = device_id_text y \<longleftrightarrow> x = y"
proof
  assume eq: "device_id_text x = device_id_text y"
  obtain a b c d where x: "x = guid_bytes a b c d" "length d = 8" using guid_fields [OF assms(1)] .
  obtain a' b' c' d' where y: "y = guid_bytes a' b' c' d'" "length d' = 8" using guid_fields [OF assms(2)] .
  have l: "length (u32_be v) = 4" "length (u16_be u) = 2" for v u by (simp_all add: u32_be_def u16_be_def)
  have "guid_text a b c d = guid_text a' b' c' d'"
    using eq device_id_text_guid [OF x(2)] device_id_text_guid [OF y(2)] x y by simp
  then have "u32_be a = u32_be a'" "u16_be b = u16_be b'" "u16_be c = u16_be c'"
    "take 2 d = take 2 d'" "drop 2 d = drop 2 d'"
    using x(2) y(2) by (simp_all add: guid_text_def lower.render_length lower.render_inj l)
  then show "x = y"
    using be32.wr_inj be16.wr_inj x(1) y(1) by (metis append_take_drop_id)
qed simp

text \<open>
  The stamped nibbles in the text. The version goes into byte 6, which the byte order of a \<open>Guid\<close> prints
  behind byte 7: the digit \<open>5\<close> is the third of its group, not the first.
\<close>

lemma stamped_nibbles:
  "drop_bit 4 (((v :: u8) AND 0x0F) OR 0x50) = 5"
  "drop_bit 6 (((v :: u8) AND 0x3F) OR 0x80) = 2"
  by (simp_all add: drop_bit_or drop_bit_and)

lemma variant_digit:
  fixes v :: u8
  assumes "drop_bit 6 v = 2"
  shows "hex_lower ! unat (drop_bit 4 v) \<in> {CHR ''8'', CHR ''9'', CHR ''a'', CHR ''b''}"
proof -
  have "unat (drop_bit 6 v) = 2" using assms by simp
  then have "unat v div 64 = 2" by (simp add: drop_bit_eq_div unat_div_distrib)
  moreover have "unat (drop_bit 4 v) = unat v div 16" by (simp add: drop_bit_eq_div unat_div_distrib)
  ultimately have "unat (drop_bit 4 v) div 4 = 2" by (simp add: div_mult2_eq [symmetric])
  then have "unat (drop_bit 4 v) \<in> {8, 9, 10, 11}" by auto
  then show ?thesis by (auto simp: hex_lower_def)
qed

lemma device_id_text_shape:
  assumes "length b = 16"
  shows "length (device_id_text (stamp_uuid b)) = 36"
    and "device_id_text (stamp_uuid b) ! 16 = CHR ''5''"
    and "device_id_text (stamp_uuid b) ! 19 \<in> {CHR ''8'', CHR ''9'', CHR ''a'', CHR ''b''}"
proof -
  have r: "[10..<16] = [10, 11, 12, 13, 14, 15 :: nat]" by (simp add: upt_conv_Cons)
  have s: "stamp_uuid b ! 6 = (b ! 6 AND 0x0F) OR 0x50" "stamp_uuid b ! 8 = (b ! 8 AND 0x3F) OR 0x80"
    using assms by (simp_all add: stamp_uuid_def)
  have "device_id_text (stamp_uuid b) ! 16 = hex_lower ! unat (drop_bit 4 (stamp_uuid b ! 6))"
    by (simp add: device_id_text_def hex_group_def hexByte_def r)
  also have "\<dots> = CHR ''5''" unfolding s stamped_nibbles by (simp add: hex_lower_def)
  finally show "device_id_text (stamp_uuid b) ! 16 = CHR ''5''" .
  have "device_id_text (stamp_uuid b) ! 19 = hex_lower ! unat (drop_bit 4 (stamp_uuid b ! 8))"
    by (simp add: device_id_text_def hex_group_def hexByte_def r)
  then show "device_id_text (stamp_uuid b) ! 19 \<in> {CHR ''8'', CHR ''9'', CHR ''a'', CHR ''b''}"
    using variant_digit [OF stamped_nibbles(2)] by (simp only: s)
  show "length (device_id_text (stamp_uuid b)) = 36"
    by (simp add: device_id_text_def hex_group_def hexByte_def r)
qed

end
