(* ===== verification/Amd_Aia.thy ===== *)
theory Amd_Aia
  imports Bcrypt Http Endian
begin

text \<open>
  \<open>src/certs/amd_aia_fetch.cpp\<close>: the RSA modulus of a \<open>BCRYPT_RSAKEY_BLOB\<close>, and the best-effort fetch of
  the EK certificate AMD publishes under the digest of that modulus.
\<close>

section \<open>The modulus\<close>

definition BCRYPT_RSA_PUBLIC_MAGIC :: u32 where "BCRYPT_RSA_PUBLIC_MAGIC = 0x31415352"
definition MAX_MODULUS_BYTES :: u32 where "MAX_MODULUS_BYTES = 1024"

definition aia_ReadU32Le :: "bytes \<Rightarrow> nat \<Rightarrow> u32 option" where
  "aia_ReadU32Le data i = do {
     b0 \<leftarrow> byte_at data i;
     b1 \<leftarrow> byte_at data (i + 1);
     b2 \<leftarrow> byte_at data (i + 2);
     b3 \<leftarrow> byte_at data (i + 3);
     Some (ucast b0 OR push_bit 8 (ucast b1) OR push_bit 16 (ucast b2) OR push_bit 24 (ucast b3))
   }"

text \<open>\<open>SizeTAdd\<close> of \<open>intsafe.h\<close> at 64 bits; \<open>None\<close> is its failure.\<close>

definition SizeTAdd :: "u64 \<Rightarrow> u64 \<Rightarrow> u64 option" where
  "SizeTAdd a b = (if a + b < a then None else Some (a + b))"

definition ExtractRsaModulusFromEkPub :: "bytes \<Rightarrow> bytes option" where
  "ExtractRsaModulusFromEkPub ekPubBlob =
     (if length ekPubBlob < 24 then Some []
      else do {
        magic \<leftarrow> aia_ReadU32Le ekPubBlob 0;
        cbPublicExp \<leftarrow> aia_ReadU32Le ekPubBlob 8;
        cbModulus \<leftarrow> aia_ReadU32Le ekPubBlob 12;
        if magic \<noteq> BCRYPT_RSA_PUBLIC_MAGIC then Some []
        else if cbModulus = 0 \<or> cbModulus > MAX_MODULUS_BYTES then Some []
        else (case SizeTAdd 24 (ucast cbPublicExp) of
                None \<Rightarrow> Some []
              | Some modulusOffset \<Rightarrow>
                  (case SizeTAdd modulusOffset (ucast cbModulus) of
                     None \<Rightarrow> Some []
                   | Some modulusEnd \<Rightarrow>
                       if unat modulusEnd > length ekPubBlob then Some []
                       else vec_range ekPubBlob (unat modulusOffset) (unat modulusEnd)))
      })"

section \<open>The fetch\<close>

definition HexLower :: "bytes \<Rightarrow> string" where
  "HexLower data = hex_render hex_lower data"

definition AIA_URL :: string where
  "AIA_URL = ''https://ftpm.amd.com/pki/aia/''"

definition FetchAmdAiaEkCert ::
    "'w bcrypt_api \<Rightarrow> 'w winhttp_api \<Rightarrow> bytes \<Rightarrow> 'w \<Rightarrow> (bytes \<times> 'w) option" where
  "FetchAmdAiaEkCert bapi hapi ekPubModulus w =
     (if ekPubModulus = [] then Some ([], w)
      else
        let (digest, w) = aia_Sha256 bapi ekPubModulus w
        in (case digest of
              None \<Rightarrow> Some ([], w)
            | Some digest \<Rightarrow> do {
                (response, w) \<leftarrow> HttpGet hapi (AIA_URL @ HexLower digest) w;
                if statusCode response \<noteq> 200 then Some ([], w)
                else Some (map u8_of_char (response_body response), w)
              }))"

section \<open>Key blobs\<close>

text \<open>The blob of an RSA public key as CNG lays it out, and what the extraction makes of any blob.\<close>

definition rsa_public_blob :: "u32 \<Rightarrow> u32 \<Rightarrow> u32 \<Rightarrow> bytes \<Rightarrow> bytes \<Rightarrow> bytes \<Rightarrow> bytes" where
  "rsa_public_blob bitLength cbPrime1 cbPrime2 exponent modulus rest =
     u32_le BCRYPT_RSA_PUBLIC_MAGIC @ u32_le bitLength @ u32_le (of_nat (length exponent)) @
     u32_le (of_nat (length modulus)) @ u32_le cbPrime1 @ u32_le cbPrime2 @ exponent @ modulus @ rest"

lemma aia_ReadU32Le_eq: "aia_ReadU32Le = ReadU32LE"
  by (intro ext) (simp add: aia_ReadU32Le_def ReadU32LE_def)

lemma SizeTAdd_fits: "unat a + unat b < 2 ^ 64 \<Longrightarrow> SizeTAdd a b = Some (a + b) \<and> unat (a + b) = unat a + unat b"
  by (simp add: SizeTAdd_def word_less_nat_alt unat_word_ariths)

lemma modulus_offsets:
  fixes e m :: u32
  shows "SizeTAdd 24 (ucast e) = Some (24 + ucast e)"
    and "SizeTAdd (24 + ucast e) (ucast m) = Some (24 + ucast e + ucast m)"
    and "unat (24 + ucast e :: u64) = 24 + unat e"
    and "unat (24 + ucast e + ucast m :: u64) = 24 + unat e + unat m"
proof -
  have less: "unat e < 2 ^ 32" "unat m < 2 ^ 32"
    using unsigned_less [of e, where ?'a = nat] unsigned_less [of m, where ?'a = nat] by simp_all
  then have e: "unat (ucast e :: u64) = unat e" and m: "unat (ucast m :: u64) = unat m"
    by (simp_all add: unsigned_ucast_eq take_bit_nat_eq_self)
  have a: "SizeTAdd 24 (ucast e) = Some (24 + ucast e) \<and> unat (24 + ucast e :: u64) = unat (24 :: u64) + unat (ucast e :: u64)"
    using less e by (intro SizeTAdd_fits) simp
  then have "SizeTAdd (24 + ucast e) (ucast m) = Some (24 + ucast e + ucast m)
      \<and> unat (24 + ucast e + ucast m :: u64) = unat (24 + ucast e :: u64) + unat (ucast m :: u64)"
    using less e m by (intro SizeTAdd_fits) simp
  with a e m show "SizeTAdd 24 (ucast e) = Some (24 + ucast e)"
    "SizeTAdd (24 + ucast e) (ucast m) = Some (24 + ucast e + ucast m)"
    "unat (24 + ucast e :: u64) = 24 + unat e"
    "unat (24 + ucast e + ucast m :: u64) = 24 + unat e + unat m" by simp_all
qed

lemma ExtractRsaModulusFromEkPub_total [never_faults]: "defined (ExtractRsaModulusFromEkPub blob)"
proof (cases "length blob < 24")
  case True
  then show ?thesis by (simp add: ExtractRsaModulusFromEkPub_def)
next
  case False
  then have r: "defined (ReadU32LE blob 0)" "defined (ReadU32LE blob 8)" "defined (ReadU32LE blob 12)"
    by (auto simp: defined_def le32.rd_iff_inside intro!: le32.rd_inside)
  have v: "defined (vec_range blob (24 + unat e) (24 + unat e + unat m))"
    if "24 + unat e + unat m \<le> length blob" for e m :: u32
    using that by (simp add: vec_range_def)
  show ?thesis
    using r v False
    by (auto simp: ExtractRsaModulusFromEkPub_def aia_ReadU32Le_eq modulus_offsets never_faults)
qed

lemma modulus_header:
  "length (rsa_public_blob bl p1 p2 e m rest) = 24 + length e + length m + length rest"
  "ReadU32LE (rsa_public_blob bl p1 p2 e m rest) 0 = Some BCRYPT_RSA_PUBLIC_MAGIC"
  "ReadU32LE (rsa_public_blob bl p1 p2 e m rest) 8 = Some (of_nat (length e))"
  "ReadU32LE (rsa_public_blob bl p1 p2 e m rest) 12 = Some (of_nat (length m))"
proof -
  show "length (rsa_public_blob bl p1 p2 e m rest) = 24 + length e + length m + length rest"
    by (simp add: rsa_public_blob_def le32.wr_length)
  show "ReadU32LE (rsa_public_blob bl p1 p2 e m rest) 0 = Some BCRYPT_RSA_PUBLIC_MAGIC"
    unfolding rsa_public_blob_def by (rule le32.rd_wr_front)
  show "ReadU32LE (rsa_public_blob bl p1 p2 e m rest) 8 = Some (of_nat (length e))"
    unfolding rsa_public_blob_def by (rule le32.rd_wr_at) (simp_all add: le32.wr_length)
  show "ReadU32LE (rsa_public_blob bl p1 p2 e m rest) 12 = Some (of_nat (length m))"
    unfolding rsa_public_blob_def by (rule le32.rd_wr_at) (simp_all add: le32.wr_length)
qed

lemma modulus_of_blob:
  assumes "m \<noteq> []" and "length m \<le> 1024" and "length e < 2 ^ 32"
  shows "ExtractRsaModulusFromEkPub (rsa_public_blob bl p1 p2 e m rest) = Some m"
proof -
  let ?blob = "rsa_public_blob bl p1 p2 e m rest"
  have n: "unat (of_nat (length e) :: u32) = length e" "unat (of_nat (length m) :: u32) = length m"
    using assms by (simp_all add: unat_of_nat)
  then have z: "(of_nat (length m) :: u32) \<noteq> 0" using assms(1) by (metis length_0_conv unat_0)
  have c: "\<not> MAX_MODULUS_BYTES < (of_nat (length m) :: u32)"
    using n assms(2) by (simp add: word_less_nat_alt MAX_MODULUS_BYTES_def)
  have split: "?blob = (u32_le BCRYPT_RSA_PUBLIC_MAGIC @ u32_le bl @ u32_le (of_nat (length e)) @
     u32_le (of_nat (length m)) @ u32_le p1 @ u32_le p2 @ e) @ m @ rest"
    by (simp add: rsa_public_blob_def)
  have "vec_range ?blob (24 + length e) (24 + length e + length m) = Some m"
    unfolding split by (simp add: vec_range_def le32.wr_length)
  then show ?thesis
    using z c
    by (simp add: ExtractRsaModulusFromEkPub_def aia_ReadU32Le_eq modulus_header modulus_offsets n)
qed

lemma blob_of_modulus:
  assumes "ExtractRsaModulusFromEkPub blob = Some m" and "m \<noteq> []"
  obtains bl p1 p2 e rest where "blob = rsa_public_blob bl p1 p2 e m rest"
    and "length m \<le> 1024" and "length e < 2 ^ 32"
proof -
  have long: "\<not> length blob < 24" using assms by (auto simp: ExtractRsaModulusFromEkPub_def)
  then have w: "i + 4 \<le> length blob \<Longrightarrow> \<exists>v. ReadU32LE blob i = Some v" for i
    by (simp add: le32.rd_iff_inside)
  obtain magic bl ce cm p1 p2 where r: "ReadU32LE blob 0 = Some magic" "ReadU32LE blob 4 = Some bl"
    "ReadU32LE blob 8 = Some ce" "ReadU32LE blob 12 = Some cm" "ReadU32LE blob 16 = Some p1"
    "ReadU32LE blob 20 = Some p2"
    using w [of 0] w [of 4] w [of 8] w [of 12] w [of 16] w [of 20] long by auto
  have ok: "magic = BCRYPT_RSA_PUBLIC_MAGIC" "cm \<le> MAX_MODULUS_BYTES"
    "vec_range blob (24 + unat ce) (24 + unat ce + unat cm) = Some m"
    using assms long r
    by (auto simp: ExtractRsaModulusFromEkPub_def aia_ReadU32Le_eq modulus_offsets not_less split: if_splits)
  then have m: "24 + unat ce + unat cm \<le> length blob" "m = take (unat cm) (drop (24 + unat ce) blob)"
    by (auto simp: vec_range_def split: if_splits)
  define e where "e = take (unat ce) (drop 24 blob)"
  define rest where "rest = drop (24 + unat ce + unat cm) blob"
  have lens: "length e = unat ce" "length m = unat cm" using m by (auto simp: e_def)
  have chunk: "drop i blob = take n (drop i blob) @ drop (i + n) blob" for i n
    by (metis append_take_drop_id drop_drop add.commute)
  have word: "drop i blob = u32_le v @ drop (i + 4) blob" if "ReadU32LE blob i = Some v" for i v
    using le32.wr_rd [OF that] chunk [of i 4] by simp
  have "blob = u32_le magic @ u32_le bl @ u32_le ce @ u32_le cm @ u32_le p1 @ u32_le p2 @ drop 24 blob"
    using word [OF r(1)] word [OF r(2)] word [OF r(3)] word [OF r(4)] word [OF r(5)] word [OF r(6)] by simp
  also have "drop 24 blob = e @ m @ rest"
    using chunk [of 24 "unat ce"] chunk [of "24 + unat ce" "unat cm"] m(2) by (simp add: e_def rest_def add.assoc)
  finally have "blob = rsa_public_blob bl p1 p2 e m rest"
    using ok(1) lens by (simp add: rsa_public_blob_def)
  moreover have "length m \<le> 1024" using ok(2) lens by (simp add: word_le_nat_alt MAX_MODULUS_BYTES_def)
  moreover have "length e < 2 ^ 32" using lens(1) unsigned_less [of ce, where ?'a = nat] by simp
  ultimately show thesis using that by blast
qed

section \<open>The certificate\<close>

lemma FetchAmdAiaEkCert_answers:
  assumes "computes bapi W BCRYPT_SHA256_ALGORITHM 32 H" and "w \<in> W"
    and "modulus \<noteq> []" and "length modulus < 2 ^ 32"
    and "\<forall>w \<in> W. \<exists>w' \<in> V. answers_get hapi (AIA_URL @ HexLower (H modulus)) code chunks w w'"
  obtains w' where "w' \<in> V" and "FetchAmdAiaEkCert bapi hapi modulus w
    = Some (if code = 200 then map u8_of_char (concat chunks) else [], w')"
proof -
  obtain w1 where s: "aia_Sha256 bapi modulus w = (Some (H modulus), w1)" and w1: "w1 \<in> W"
    using aia_Sha256_computes [OF assms(1,2,4)] .
  obtain w' where a: "answers_get hapi (AIA_URL @ HexLower (H modulus)) code chunks w1 w'" and w': "w' \<in> V"
    using assms(5) w1 by blast
  have "sint code = 200 \<longleftrightarrow> code = 200"
  proof
    assume "sint code = 200"
    then have "(word_of_int (sint code) :: u32) = word_of_int 200" by simp
    then show "code = 200" by simp
  qed simp
  then show thesis
    using that [OF w'] HttpGet_answers [OF a] assms(3) s by (simp add: FetchAmdAiaEkCert_def)
qed

text \<open>Only a status 200 gives a certificate.\<close>

lemma FetchAmdAiaEkCert_needs_200:
  assumes "FetchAmdAiaEkCert bapi hapi modulus w = Some (cert, w')" and "cert \<noteq> []"
  obtains digest w1 r where "aia_Sha256 bapi modulus w = (Some digest, w1)"
    and "HttpGet hapi (AIA_URL @ HexLower digest) w1 = Some (r, w')"
    and "statusCode r = 200" and "cert = map u8_of_char (response_body r)"
proof -
  obtain d w1 where s: "aia_Sha256 bapi modulus w = (d, w1)" by (metis prod.exhaust)
  with assms that show thesis
    by (cases d) (auto simp: FetchAmdAiaEkCert_def Let_def split: if_splits bind_splits)
qed

end
