(* ===== verification/Efi_Variable.thy ===== *)
theory Efi_Variable
  imports Endian Std_String
begin

text \<open>
  \<open>src/boot/efi_variable.h\<close>: the one parser of \<open>UEFI_VARIABLE_DATA\<close>. Both of its lengths are 64-bit
  values an attacker can choose, so \<open>TryParseEfiVariableData\<close> is modelled at its width: \<open>size_t\<close> and
  \<open>uint64_t\<close> are 64-bit words and every subtraction, product and comparison is the one of the code.
  That the order of the checks makes this equal to the specification over the natural numbers,
  where nothing wraps, is a theorem. A pointer into \<open>raw\<close> is an offset.
\<close>

section \<open>Parsing\<close>

record efi_variable_data =
  nameUtf16 :: nat
  nameChars :: nat
  var_data :: nat
  dataBytes :: nat

definition MAX_EFI_VARIABLE_NAME_CHARS :: u64 where
  "MAX_EFI_VARIABLE_NAME_CHARS = 1024"

text \<open>\<open>None\<close> is a read outside \<open>raw\<close>, \<open>Some None\<close> the result \<open>false\<close>.\<close>

definition TryParseEfiVariableData :: "bytes \<Rightarrow> efi_variable_data option option" where
  "TryParseEfiVariableData raw =
     (let size = (of_nat (length raw) :: u64); HEADER_BYTES = 32
      in if size < HEADER_BYTES then Some None
         else do {
           name_chars \<leftarrow> ReadU64LE raw 16;
           data_bytes \<leftarrow> ReadU64LE raw 24;
           if name_chars > MAX_EFI_VARIABLE_NAME_CHARS then Some None
           else let afterHeader = size - HEADER_BYTES
           in if name_chars > afterHeader div 2 then Some None
           else let nameBytes = name_chars * 2
           in if data_bytes > afterHeader - nameBytes then Some None
           else Some (Some \<lparr>nameUtf16 = 32, nameChars = unat name_chars,
                  var_data = unat (HEADER_BYTES + nameBytes), dataBytes = unat data_bytes\<rparr>)
         })"

fun efi_name_from :: "bytes \<Rightarrow> nat \<Rightarrow> nat \<Rightarrow> string option" where
  "efi_name_from raw p 0 = Some []"
| "efi_name_from raw p (Suc n) = do {
     ch \<leftarrow> ReadU16LE raw p;
     if ch = 0 then Some []
     else do {
       rest \<leftarrow> efi_name_from raw (p + 2) n;
       Some ((if ch < 128 then char_of (unat ch) else CHR ''?'') # rest)
     }
   }"

definition EfiVariableName :: "bytes \<Rightarrow> efi_variable_data \<Rightarrow> string option" where
  "EfiVariableName raw var = efi_name_from raw (nameUtf16 var) (nameChars var)"

text \<open>\<open>ExtractEfiVariableName\<close> and \<open>ExtractVarName\<close>: the empty string for a malformed record.\<close>

definition ExtractEfiVariableName :: "bytes \<Rightarrow> string option" where
  "ExtractEfiVariableName data = do {
     r \<leftarrow> TryParseEfiVariableData data;
     case r of None \<Rightarrow> Some [] | Some var \<Rightarrow> EfiVariableName data var
   }"

section \<open>Specification over the natural numbers\<close>

definition efi_u64 :: "bytes \<Rightarrow> nat \<Rightarrow> nat" where
  "efi_u64 raw i = unat (the (ReadU64LE raw i))"

definition efi_spec :: "bytes \<Rightarrow> efi_variable_data option" where
  "efi_spec raw =
     (if 32 \<le> length raw \<and> efi_u64 raw 16 \<le> 1024
         \<and> 32 + 2 * efi_u64 raw 16 + efi_u64 raw 24 \<le> length raw
      then Some \<lparr>nameUtf16 = 32, nameChars = efi_u64 raw 16,
             var_data = 32 + 2 * efi_u64 raw 16, dataBytes = efi_u64 raw 24\<rparr>
      else None)"

text \<open>Both spans of a parsed record lie inside the bytes they were parsed from.\<close>

definition spans_inside :: "bytes \<Rightarrow> efi_variable_data \<Rightarrow> bool" where
  "spans_inside raw var \<longleftrightarrow>
     nameUtf16 var + 2 * nameChars var \<le> length raw \<and> var_data var + dataBytes var \<le> length raw"

section \<open>The checks at 64 bits\<close>

lemma TryParse_refines:
  assumes "length raw < 2 ^ 64"
  shows "TryParseEfiVariableData raw = Some (efi_spec raw)"
proof -
  define size where "size = (of_nat (length raw) :: u64)"
  have size: "unat size = length raw"
    unfolding size_def unat_of_nat using assms by simp
  show ?thesis
  proof (cases "length raw < 32")
    case True
    then have "size < 32" by (simp add: word_less_nat_alt size)
    then show ?thesis using True by (simp add: TryParseEfiVariableData_def efi_spec_def size_def)
  next
    case False
    then have ge: "32 \<le> size" by (simp add: word_le_nat_alt size)
    obtain n d where n: "ReadU64LE raw 16 = Some n" and d: "ReadU64LE raw 24 = Some d"
      using le64.rd_iff_inside [of raw 16] le64.rd_iff_inside [of raw 24] False by auto
    have after: "unat (size - 32) = length raw - 32"
      using ge by (simp add: unat_sub size)
    show ?thesis
    proof (cases "unat n \<le> 1024 \<and> unat n \<le> (length raw - 32) div 2")
      case fit: True
      have two: "unat (n * 2) = 2 * unat n"
      proof -
        have "unat n * unat (2 :: u64) < 2 ^ LENGTH(64)" using fit by simp
        then have "unat (n * 2) = unat n * unat (2 :: u64)" by (rule unat_mult_lem [THEN iffD1])
        then show ?thesis by simp
      qed
      have le: "n * 2 \<le> size - 32" using fit by (simp add: word_le_nat_alt after two) presburger
      have rest: "unat (size - 32 - n * 2) = length raw - 32 - 2 * unat n"
        using le by (simp add: unat_sub after two)
      have start: "unat (32 + n * 2 :: u64) = 32 + 2 * unat n"
      proof -
        have "unat (32 :: u64) + unat (n * 2) < 2 ^ LENGTH(64)" using fit two by simp
        then have "unat (32 + n * 2 :: u64) = unat (32 :: u64) + unat (n * 2)"
          by (rule unat_add_lem [THEN iffD1])
        then show ?thesis by (simp add: two)
      qed
      show ?thesis
        using fit False ge
        by (auto simp: TryParseEfiVariableData_def efi_spec_def efi_u64_def n d Let_def start
            MAX_EFI_VARIABLE_NAME_CHARS_def word_less_nat_alt word_le_nat_alt unat_div_distrib
            rest size after simp flip: size_def)
    next
      case False
      then show ?thesis
        using \<open>\<not> length raw < 32\<close> ge
        by (auto simp: TryParseEfiVariableData_def efi_spec_def efi_u64_def n d Let_def
            MAX_EFI_VARIABLE_NAME_CHARS_def word_less_nat_alt word_le_nat_alt unat_div_distrib
            size after simp flip: size_def)
    qed
  qed
qed

section \<open>Memory safety\<close>

lemma TryParse_total [never_faults]: "defined (TryParseEfiVariableData raw)"
proof (cases "(of_nat (length raw) :: u64) < 32")
  case False
  have "unat (of_nat (length raw) :: u64) \<le> length raw"
    unfolding unat_of_nat by simp
  then have "32 \<le> length raw" using False by (simp add: word_less_nat_alt)
  then show ?thesis by (simp add: TryParseEfiVariableData_def Let_def never_faults)
qed (simp add: TryParseEfiVariableData_def)

lemma TryParse_spans:
  assumes "TryParseEfiVariableData raw = Some (Some var)" and "length raw < 2 ^ 64"
  shows "spans_inside raw var \<and> nameChars var \<le> 1024"
  using assms TryParse_refines [OF assms(2)]
  by (auto simp: efi_spec_def spans_inside_def split: if_splits)

lemma efi_name_from_total: "p + 2 * n \<le> length raw \<Longrightarrow> defined (efi_name_from raw p n)"
  by (induction n arbitrary: p) (auto simp: never_faults)

lemma EfiVariableName_total: "spans_inside raw var \<Longrightarrow> defined (EfiVariableName raw var)"
  unfolding EfiVariableName_def spans_inside_def by (rule efi_name_from_total) simp

lemma ExtractEfiVariableName_total:
  assumes "length data < 2 ^ 64"
  shows "defined (ExtractEfiVariableName data)"
  using TryParse_spans [OF _ assms] EfiVariableName_total
  by (auto simp: ExtractEfiVariableName_def never_faults split: option.split)

text \<open>Every character of a name is ASCII and none is NUL, and there are at most \<open>nameChars\<close> of them.\<close>

lemma efi_name_from_ascii:
  "efi_name_from raw p n = Some s \<Longrightarrow>
   length s \<le> n \<and> (\<forall>c \<in> set s. 0 < (of_char c :: nat) \<and> (of_char c :: nat) < 128)"
proof (induction n arbitrary: p s)
  case (Suc n)
  show ?case
  proof (cases "s = []")
    case False
    then obtain ch rest where r: "efi_name_from raw (p + 2) n = Some rest" "ch \<noteq> 0"
      and s: "s = (if ch < 128 then char_of (unat (ch :: u16)) else CHR ''?'') # rest"
      using Suc.prems by (auto split: bind_splits if_splits)
    have "0 < unat ch" using r(2) by (simp add: unat_gt_0)
    then show ?thesis using Suc.IH [OF r(1)] by (auto simp: s word_less_nat_alt)
  qed simp
qed simp

section \<open>The bytes firmware writes\<close>

definition utf16_ascii :: "string \<Rightarrow> bytes" where
  "utf16_ascii s = concat (map (\<lambda>c. u16_le (of_nat (of_char c))) s)"

definition efi_variable_bytes :: "bytes \<Rightarrow> string \<Rightarrow> bytes \<Rightarrow> bytes" where
  "efi_variable_bytes guid name data =
     guid @ u64_le (of_nat (length name)) @ u64_le (of_nat (length data)) @ utf16_ascii name @ data"

lemma length_utf16_ascii [simp]: "length (utf16_ascii s) = 2 * length s"
  by (induction s) (auto simp: utf16_ascii_def)

lemma efi_name_from_utf16:
  "\<forall>c \<in> set s. 0 < (of_char c :: nat) \<and> (of_char c :: nat) < 128 \<Longrightarrow>
   efi_name_from (pre @ utf16_ascii s @ post) (length pre) (length s) = Some s"
proof (induction s arbitrary: pre)
  case (Cons c s)
  let ?ch = "of_nat (of_char c) :: u16"
  have u: "unat ?ch = of_char c"
    unfolding unat_of_nat using Cons.prems by simp
  have rd: "ReadU16LE (pre @ utf16_ascii (c # s) @ post) (length pre) = Some ?ch"
    using le16.rd_wr [of pre ?ch "utf16_ascii s @ post"] by (simp add: utf16_ascii_def)
  have "efi_name_from ((pre @ u16_le ?ch) @ utf16_ascii s @ post) (length (pre @ u16_le ?ch)) (length s) = Some s"
    using Cons.prems by (intro Cons.IH) simp
  then have rest: "efi_name_from (pre @ utf16_ascii (c # s) @ post) (length pre + 2) (length s) = Some s"
    by (simp add: utf16_ascii_def)
  have "?ch \<noteq> 0" using u Cons.prems by (metis list.set_intros(1) unat_0 less_numeral_extra(3))
  moreover have "?ch < 128" using u Cons.prems by (simp add: word_less_nat_alt)
  ultimately show ?case using rd rest u by simp
qed (simp add: utf16_ascii_def)

lemma efi_variable_bytes_parse:
  assumes "length guid = 16" and "length name \<le> 1024" and "length (efi_variable_bytes guid name data) < 2 ^ 64"
  shows "TryParseEfiVariableData (efi_variable_bytes guid name data) =
    Some (Some \<lparr>nameUtf16 = 32, nameChars = length name, var_data = 32 + 2 * length name,
      dataBytes = length data\<rparr>)"
proof -
  let ?raw = "efi_variable_bytes guid name data"
  have n: "ReadU64LE ?raw 16 = Some (of_nat (length name))"
    unfolding efi_variable_bytes_def
    by (rule le64.rd_wr_at [where post = "u64_le (of_nat (length data)) @ utf16_ascii name @ data"])
      (simp_all add: assms(1))
  have d: "ReadU64LE ?raw 24 = Some (of_nat (length data))"
    unfolding efi_variable_bytes_def
    by (rule le64.rd_wr_at [where post = "utf16_ascii name @ data"]) (simp_all add: assms(1))
  have len: "length ?raw = 32 + 2 * length name + length data"
    by (simp add: efi_variable_bytes_def assms(1))
  have "efi_u64 ?raw 16 = length name" "efi_u64 ?raw 24 = length data"
    using assms(2,3) len by (simp_all add: efi_u64_def n d unat_of_nat)
  then show ?thesis
    using TryParse_refines [OF assms(3)] len assms(2) by (simp add: efi_spec_def)
qed

lemma ExtractEfiVariableName_bytes:
  assumes "length guid = 16" and "length name \<le> 1024" and "length (efi_variable_bytes guid name data) < 2 ^ 64"
    and "\<forall>c \<in> set name. 0 < (of_char c :: nat) \<and> (of_char c :: nat) < 128"
  shows "ExtractEfiVariableName (efi_variable_bytes guid name data) = Some name"
proof -
  let ?pre = "guid @ u64_le (of_nat (length name)) @ u64_le (of_nat (length data))"
  have "length ?pre = 32" using assms(1) by simp
  then show ?thesis
    using efi_name_from_utf16 [OF assms(4), of ?pre data] efi_variable_bytes_parse [OF assms(1-3)]
    by (simp add: ExtractEfiVariableName_def EfiVariableName_def efi_variable_bytes_def)
qed

section \<open>Properties\<close>

text \<open>C32. The 64-bit checks of the variable parser, evaluated in their order, accept exactly the records
  whose name has at most 1024 characters and whose header, name and data fit the buffer as natural
  numbers, and give the spans the layout prescribes: no choice of the two attacker-controlled lengths
  makes a product or a sum wrap past a check, and both spans of an accepted record lie inside it.\<close>

theorem efi_variable_checks_do_not_wrap:
  assumes "length raw < 2 ^ 64"
  shows "TryParseEfiVariableData raw = Some (efi_spec raw)
    \<and> pred_option (\<lambda>var. spans_inside raw var \<and> defined (EfiVariableName raw var)) (efi_spec raw)"
  using TryParse_refines [OF assms] TryParse_spans [OF _ assms] EfiVariableName_total
  by (cases "efi_spec raw") auto

theorem efi_variable_checks_do_not_wrap_witness:
  "TryParseEfiVariableData (replicate 16 0 @ u64_le 0x8000000000000000 @ u64_le 0)
     = Some (efi_spec (replicate 16 0 @ u64_le 0x8000000000000000 @ u64_le 0))
   \<and> pred_option (\<lambda>var. spans_inside (replicate 16 0 @ u64_le 0x8000000000000000 @ u64_le 0) var
       \<and> defined (EfiVariableName (replicate 16 0 @ u64_le 0x8000000000000000 @ u64_le 0) var))
     (efi_spec (replicate 16 0 @ u64_le 0x8000000000000000 @ u64_le 0))"
  by (rule efi_variable_checks_do_not_wrap) simp

text \<open>C33. A variable record as firmware writes it is parsed back: the name, for every ASCII name without
  NUL of up to 1024 characters, and the span of the data.\<close>

theorem efi_variable_round_trip:
  assumes "length guid = 16" and "length name \<le> 1024" and "length (efi_variable_bytes guid name data) < 2 ^ 64"
    and "\<forall>c \<in> set name. 0 < (of_char c :: nat) \<and> (of_char c :: nat) < 128"
  shows "\<exists>var. TryParseEfiVariableData (efi_variable_bytes guid name data) = Some (Some var)
    \<and> EfiVariableName (efi_variable_bytes guid name data) var = Some name
    \<and> vec_range (efi_variable_bytes guid name data) (var_data var) (var_data var + dataBytes var) = Some data"
proof -
  let ?pre = "guid @ u64_le (of_nat (length name)) @ u64_le (of_nat (length data)) @ utf16_ascii name"
  have "length ?pre = 32 + 2 * length name" using assms(1) by simp
  then have "vec_range (efi_variable_bytes guid name data) (32 + 2 * length name)
      (32 + 2 * length name + length data) = Some data"
    using vec_range_append [of ?pre data "[]"] by (simp add: efi_variable_bytes_def)
  then show ?thesis
    using efi_variable_bytes_parse [OF assms(1-3)] ExtractEfiVariableName_bytes [OF assms]
    by (simp add: ExtractEfiVariableName_def)
qed

theorem efi_variable_round_trip_witness:
  "\<exists>var. TryParseEfiVariableData (efi_variable_bytes (replicate 16 7) ''SecureBoot'' [1]) = Some (Some var)
    \<and> EfiVariableName (efi_variable_bytes (replicate 16 7) ''SecureBoot'' [1]) var = Some ''SecureBoot''
    \<and> vec_range (efi_variable_bytes (replicate 16 7) ''SecureBoot'' [1]) (var_data var) (var_data var + dataBytes var)
      = Some [1]"
  by (rule efi_variable_round_trip) (simp_all add: efi_variable_bytes_def)

end
