(* ===== verification/Event_Log.thy ===== *)
theory Event_Log
  imports Efi_Variable
begin

text \<open>
  \<open>src/boot/event_log_parser.cpp\<close>: the TCG event log. The cursor of the code is a pointer and a
  count of remaining bytes; here it is an offset \<open>p\<close> into the log and \<open>remaining\<close>, kept apart as the
  code keeps them, so that a step that advances one and not the other reads outside the log and is
  \<open>None\<close>. A value \<open>Some None\<close> of a step is the \<open>break\<close> that discards a truncated entry.
\<close>

section \<open>Event types\<close>

abbreviation EV_PREBOOT_CERT :: u32 where "EV_PREBOOT_CERT \<equiv> 0x00000000"
abbreviation EV_POST_CODE :: u32 where "EV_POST_CODE \<equiv> 0x00000001"
abbreviation EV_NO_ACTION :: u32 where "EV_NO_ACTION \<equiv> 0x00000003"
abbreviation EV_SEPARATOR :: u32 where "EV_SEPARATOR \<equiv> 0x00000004"
abbreviation EV_ACTION :: u32 where "EV_ACTION \<equiv> 0x00000005"
abbreviation EV_S_CRTM_CONTENTS :: u32 where "EV_S_CRTM_CONTENTS \<equiv> 0x00000007"
abbreviation EV_S_CRTM_VERSION :: u32 where "EV_S_CRTM_VERSION \<equiv> 0x00000008"
abbreviation EV_CPU_MICROCODE :: u32 where "EV_CPU_MICROCODE \<equiv> 0x00000009"
abbreviation EV_PLATFORM_CONFIG_FLAGS :: u32 where "EV_PLATFORM_CONFIG_FLAGS \<equiv> 0x0000000A"
abbreviation EV_TABLE_OF_DEVICES :: u32 where "EV_TABLE_OF_DEVICES \<equiv> 0x0000000B"
abbreviation EV_COMPACT_HASH :: u32 where "EV_COMPACT_HASH \<equiv> 0x0000000C"
abbreviation EV_IPL :: u32 where "EV_IPL \<equiv> 0x0000000D"
abbreviation EV_NONHOST_CODE :: u32 where "EV_NONHOST_CODE \<equiv> 0x0000000F"
abbreviation EV_NONHOST_CONFIG :: u32 where "EV_NONHOST_CONFIG \<equiv> 0x00000010"
abbreviation EV_EFI_VARIABLE_DRIVER_CONFIG :: u32 where "EV_EFI_VARIABLE_DRIVER_CONFIG \<equiv> 0x80000001"
abbreviation EV_EFI_VARIABLE_BOOT :: u32 where "EV_EFI_VARIABLE_BOOT \<equiv> 0x80000002"
abbreviation EV_EFI_BOOT_SERVICES_APPLICATION :: u32 where "EV_EFI_BOOT_SERVICES_APPLICATION \<equiv> 0x80000003"
abbreviation EV_EFI_BOOT_SERVICES_DRIVER :: u32 where "EV_EFI_BOOT_SERVICES_DRIVER \<equiv> 0x80000004"
abbreviation EV_EFI_RUNTIME_SERVICES_DRIVER :: u32 where "EV_EFI_RUNTIME_SERVICES_DRIVER \<equiv> 0x80000005"
abbreviation EV_EFI_GPT_EVENT :: u32 where "EV_EFI_GPT_EVENT \<equiv> 0x80000006"
abbreviation EV_EFI_ACTION :: u32 where "EV_EFI_ACTION \<equiv> 0x80000007"
abbreviation EV_EFI_PLATFORM_FIRMWARE_BLOB :: u32 where "EV_EFI_PLATFORM_FIRMWARE_BLOB \<equiv> 0x80000008"
abbreviation EV_EFI_PLATFORM_FIRMWARE_BLOB2 :: u32 where "EV_EFI_PLATFORM_FIRMWARE_BLOB2 \<equiv> 0x8000000A"
abbreviation EV_EFI_HANDOFF_TABLES :: u32 where "EV_EFI_HANDOFF_TABLES \<equiv> 0x80000009"
abbreviation EV_EFI_VARIABLE_AUTHORITY :: u32 where "EV_EFI_VARIABLE_AUTHORITY \<equiv> 0x800000E0"
abbreviation EV_EFI_SPDM_FIRMWARE_BLOB :: u32 where "EV_EFI_SPDM_FIRMWARE_BLOB \<equiv> 0x800000E1"
abbreviation EV_EFI_HANDOFF_TABLES2 :: u32 where "EV_EFI_HANDOFF_TABLES2 \<equiv> 0x8000000B"
abbreviation EV_EFI_VARIABLE_BOOT2 :: u32 where "EV_EFI_VARIABLE_BOOT2 \<equiv> 0x8000000C"

definition event_type_names :: "(u32 \<times> string) list" where
  "event_type_names = [(EV_PREBOOT_CERT, ''EV_PREBOOT_CERT''),
     (EV_POST_CODE, ''EV_POST_CODE''),
     (EV_NO_ACTION, ''EV_NO_ACTION''),
     (EV_SEPARATOR, ''EV_SEPARATOR''),
     (EV_ACTION, ''EV_ACTION''),
     (EV_S_CRTM_CONTENTS, ''EV_S_CRTM_CONTENTS''),
     (EV_S_CRTM_VERSION, ''EV_S_CRTM_VERSION''),
     (EV_CPU_MICROCODE, ''EV_CPU_MICROCODE''),
     (EV_PLATFORM_CONFIG_FLAGS, ''EV_PLATFORM_CONFIG_FLAGS''),
     (EV_TABLE_OF_DEVICES, ''EV_TABLE_OF_DEVICES''),
     (EV_COMPACT_HASH, ''EV_COMPACT_HASH''),
     (EV_IPL, ''EV_IPL''),
     (EV_NONHOST_CODE, ''EV_NONHOST_CODE''),
     (EV_NONHOST_CONFIG, ''EV_NONHOST_CONFIG''),
     (EV_EFI_VARIABLE_DRIVER_CONFIG, ''EV_EFI_VARIABLE_DRIVER_CONFIG''),
     (EV_EFI_VARIABLE_BOOT, ''EV_EFI_VARIABLE_BOOT''),
     (EV_EFI_BOOT_SERVICES_APPLICATION, ''EV_EFI_BOOT_SERVICES_APPLICATION''),
     (EV_EFI_BOOT_SERVICES_DRIVER, ''EV_EFI_BOOT_SERVICES_DRIVER''),
     (EV_EFI_RUNTIME_SERVICES_DRIVER, ''EV_EFI_RUNTIME_SERVICES_DRIVER''),
     (EV_EFI_GPT_EVENT, ''EV_EFI_GPT_EVENT''),
     (EV_EFI_ACTION, ''EV_EFI_ACTION''),
     (EV_EFI_PLATFORM_FIRMWARE_BLOB, ''EV_EFI_PLATFORM_FIRMWARE_BLOB''),
     (EV_EFI_PLATFORM_FIRMWARE_BLOB2, ''EV_EFI_PLATFORM_FIRMWARE_BLOB2''),
     (EV_EFI_HANDOFF_TABLES, ''EV_EFI_HANDOFF_TABLES''),
     (EV_EFI_VARIABLE_AUTHORITY, ''EV_EFI_VARIABLE_AUTHORITY''),
     (EV_EFI_SPDM_FIRMWARE_BLOB, ''EV_EFI_SPDM_FIRMWARE_BLOB'')]"

definition EventTypeName :: "u32 \<Rightarrow> string" where
  "EventTypeName eventType =
     (case map_of event_type_names eventType of Some n \<Rightarrow> n | None \<Rightarrow> ''UNKNOWN'')"

text \<open>The enumeration \<open>EventType\<close> of \<open>boot/event_log_parser.h\<close>; every name \<open>EventTypeName\<close> gives is its enumerator's.\<close>

definition event_type_codes :: "(string \<times> u32) list" where
  "event_type_codes =
    [(''EV_PREBOOT_CERT'', 0x00000000),
     (''EV_POST_CODE'', 0x00000001),
     (''EV_UNUSED'', 0x00000002),
     (''EV_NO_ACTION'', 0x00000003),
     (''EV_SEPARATOR'', 0x00000004),
     (''EV_ACTION'', 0x00000005),
     (''EV_EVENT_TAG'', 0x00000006),
     (''EV_S_CRTM_CONTENTS'', 0x00000007),
     (''EV_S_CRTM_VERSION'', 0x00000008),
     (''EV_CPU_MICROCODE'', 0x00000009),
     (''EV_PLATFORM_CONFIG_FLAGS'', 0x0000000A),
     (''EV_TABLE_OF_DEVICES'', 0x0000000B),
     (''EV_COMPACT_HASH'', 0x0000000C),
     (''EV_IPL'', 0x0000000D),
     (''EV_IPL_PARTITION_DATA'', 0x0000000E),
     (''EV_NONHOST_CODE'', 0x0000000F),
     (''EV_NONHOST_CONFIG'', 0x00000010),
     (''EV_NONHOST_INFO'', 0x00000011),
     (''EV_OMIT_BOOT_DEVICE_EVENTS'', 0x00000012),
     (''EV_EFI_EVENT_BASE'', 0x80000000),
     (''EV_EFI_VARIABLE_DRIVER_CONFIG'', 0x80000001),
     (''EV_EFI_VARIABLE_BOOT'', 0x80000002),
     (''EV_EFI_BOOT_SERVICES_APPLICATION'', 0x80000003),
     (''EV_EFI_BOOT_SERVICES_DRIVER'', 0x80000004),
     (''EV_EFI_RUNTIME_SERVICES_DRIVER'', 0x80000005),
     (''EV_EFI_GPT_EVENT'', 0x80000006),
     (''EV_EFI_ACTION'', 0x80000007),
     (''EV_EFI_PLATFORM_FIRMWARE_BLOB'', 0x80000008),
     (''EV_EFI_HANDOFF_TABLES'', 0x80000009),
     (''EV_EFI_PLATFORM_FIRMWARE_BLOB2'', 0x8000000A),
     (''EV_EFI_HANDOFF_TABLES2'', 0x8000000B),
     (''EV_EFI_VARIABLE_BOOT2'', 0x8000000C),
     (''EV_EFI_HCRTM_EVENT'', 0x80000010),
     (''EV_EFI_VARIABLE_AUTHORITY'', 0x800000E0),
     (''EV_EFI_SPDM_FIRMWARE_BLOB'', 0x800000E1),
     (''EV_EFI_SPDM_FIRMWARE_CONFIG'', 0x800000E2)]"

lemma event_names_declared: "list_all (\<lambda>(code, name). map_of event_type_codes name = Some code) event_type_names"
  by code_simp

lemma event_codes_distinct: "distinct (map snd event_type_codes)" "distinct (map fst event_type_codes)"
  by code_simp+

lemma EventTypeName_declared:
  "EventTypeName c = ''UNKNOWN'' \<or> map_of event_type_codes (EventTypeName c) = Some c"
  using event_names_declared
  by (auto simp: EventTypeName_def list_all_iff dest!: map_of_SomeD split: option.split)

section \<open>Entries\<close>

record event_log_entry =
  pcrIndex :: u32
  eventType :: u32
  eventTypeName :: string
  digests :: "u16 \<rightharpoonup> bytes"
  eventData :: bytes
  description :: string
  classification :: string

record event_log_analysis =
  entries :: "event_log_entry list"
  secureBootEnabled :: bool
  secureBootMicrosoftKeys :: bool
  verifiedCount :: nat
  unknownCount :: nat
  policyCount :: nat
  verdict :: string
  verdictReason :: string

definition new_analysis :: event_log_analysis where
  "new_analysis = \<lparr>entries = [], secureBootEnabled = False, secureBootMicrosoftKeys = False,
     verifiedCount = 0, unknownCount = 0, policyCount = 0, verdict = [], verdictReason = []\<rparr>"

definition digest_size :: "u16 \<Rightarrow> nat" where
  "digest_size algId =
     (if algId = 0x0004 then 20 else if algId = 0x000B then 32 else if algId = 0x000C then 48
      else if algId = 0x000D then 64 else if algId = 0x0012 then 32 else 0)"

fun parse_digests ::
    "bytes \<Rightarrow> nat \<Rightarrow> nat \<Rightarrow> nat \<Rightarrow> (u16 \<rightharpoonup> bytes) \<Rightarrow> ((u16 \<rightharpoonup> bytes) \<times> nat \<times> nat) option option" where
  "parse_digests log 0 p remaining ds = Some (Some (ds, p, remaining))"
| "parse_digests log (Suc n) p remaining ds =
     (if remaining < 2 then Some None
      else do {
        algId \<leftarrow> ReadU16LE log p;
        let p = p + 2; let remaining = remaining - 2;
        let digestSize = digest_size algId;
        if digestSize = 0 then Some None
        else if remaining < digestSize then Some None
        else do {
          d \<leftarrow> vec_range log p (p + digestSize);
          parse_digests log n (p + digestSize) (remaining - digestSize) (ds(algId \<mapsto> d))
        }
      })"

definition parse_event_data ::
    "bytes \<Rightarrow> u32 \<Rightarrow> u32 \<Rightarrow> (u16 \<rightharpoonup> bytes) \<Rightarrow> nat \<Rightarrow> nat \<Rightarrow> (event_log_entry \<times> nat \<times> nat) option option" where
  "parse_event_data log pcr type ds p remaining =
     (if remaining < 4 then Some None
      else do {
        eventDataSize \<leftarrow> ReadU32LE log p;
        let p = p + 4; let remaining = remaining - 4;
        if remaining < unat eventDataSize then Some None
        else do {
          data \<leftarrow> vec_range log p (p + unat eventDataSize);
          Some (Some (\<lparr>pcrIndex = pcr, eventType = type, eventTypeName = EventTypeName type,
             digests = ds, eventData = data, description = [], classification = []\<rparr>,
             p + unat eventDataSize, remaining - unat eventDataSize))
        }
      })"

definition parse_entry :: "bytes \<Rightarrow> nat \<Rightarrow> nat \<Rightarrow> (event_log_entry \<times> nat \<times> nat) option option" where
  "parse_entry log p remaining = do {
     pcr \<leftarrow> ReadU32LE log p;
     let p = p + 4; let remaining = remaining - 4;
     type \<leftarrow> ReadU32LE log p;
     let p = p + 4; let remaining = remaining - 4;
     if remaining < 4 then Some None
     else do {
       digestCount \<leftarrow> ReadU32LE log p;
       let p = p + 4; let remaining = remaining - 4;
       if digestCount > 8 then Some None
       else do {
         r \<leftarrow> parse_digests log (unat digestCount) p remaining Map.empty;
         case r of
           None \<Rightarrow> Some None
         | Some (ds, p, remaining) \<Rightarrow> parse_event_data log pcr type ds p remaining
       }
     }
   }"

section \<open>Descriptions\<close>

definition path_char :: "u16 \<Rightarrow> bool" where
  "path_char ch \<longleftrightarrow> ch = 0x5C \<or> ch = 0x2F \<or> (0x41 \<le> ch \<and> ch \<le> 0x7A) \<or> ch = 0x2E \<or> ch = 0x2D \<or> ch = 0x5F"

definition backslash :: string where
  "backslash = [char_of (0x5C :: nat)]"

definition looks_like_path :: "string \<Rightarrow> bool" where
  "looks_like_path result \<longleftrightarrow> length result > 4 \<and>
     (str_contains result ''.efi'' \<or> str_contains result ''.EFI'' \<or> str_contains result backslash)"

function boot_path_from :: "bytes \<Rightarrow> nat \<Rightarrow> string \<Rightarrow> string option" where
  "boot_path_from data i result =
     (if i + 1 < length data
      then do {
        ch \<leftarrow> ReadU16LE data i;
        if path_char ch
        then boot_path_from data (i + 2) (if ch < 128 then result @ [char_of (unat ch)] else result)
        else if ch = 0 \<and> result \<noteq> []
        then (if looks_like_path result then Some result else boot_path_from data (i + 2) [])
        else boot_path_from data (i + 2) []
      }
      else Some (if result = [] then ''(binary device path)'' else result))"
  by pat_completeness auto
termination
  by (relation "measure (\<lambda>(data, i, result). length data - i)") auto

declare boot_path_from.simps [simp del]

definition ExtractBootAppPath :: "bytes \<Rightarrow> string option" where
  "ExtractBootAppPath data =
     (if length data < 32 then Some ''(unknown path)'' else boot_path_from data 32 [])"

definition IsSecureBootEnabled :: "string \<Rightarrow> bytes \<Rightarrow> bool option" where
  "IsSecureBootEnabled varName data =
     (if varName \<noteq> ''SecureBoot'' then Some False
      else if length data < 33 then Some False
      else do {
        r \<leftarrow> TryParseEfiVariableData data;
        case r of
          None \<Rightarrow> Some False
        | Some var \<Rightarrow> (if dataBytes var < 1 then Some False
                       else do { b \<leftarrow> byte_at data (var_data var); Some (b = 1) })
      })"

function crtm_version_from :: "bytes \<Rightarrow> nat \<Rightarrow> string option" where
  "crtm_version_from data i =
     (if i + 1 < length data
      then do {
        ch \<leftarrow> ReadU16LE data i;
        if ch = 0 then Some []
        else do {
          rest \<leftarrow> crtm_version_from data (i + 2);
          Some (if ch < 128 then char_of (unat ch) # rest else rest)
        }
      }
      else Some [])"
  by pat_completeness auto
termination
  by (relation "measure (\<lambda>(data, i). length data - i)") auto

declare crtm_version_from.simps [simp del]

section \<open>Classification\<close>

definition emit_verified ::
    "event_log_analysis \<Rightarrow> event_log_entry \<Rightarrow> string \<Rightarrow> event_log_analysis \<times> event_log_entry" where
  "emit_verified a e d = (a\<lparr>verifiedCount := verifiedCount a + 1\<rparr>,
     e\<lparr>description := d, classification := ''verified''\<rparr>)"

definition emit_policy ::
    "event_log_analysis \<Rightarrow> event_log_entry \<Rightarrow> string \<Rightarrow> event_log_analysis \<times> event_log_entry" where
  "emit_policy a e d = (a\<lparr>policyCount := policyCount a + 1\<rparr>,
     e\<lparr>description := d, classification := ''policy''\<rparr>)"

definition emit_unknown ::
    "event_log_analysis \<Rightarrow> event_log_entry \<Rightarrow> string \<Rightarrow> event_log_analysis \<times> event_log_entry" where
  "emit_unknown a e d = (a\<lparr>unknownCount := unknownCount a + 1\<rparr>,
     e\<lparr>description := d, classification := ''unknown''\<rparr>)"

definition is_key_database :: "string \<Rightarrow> bool" where
  "is_key_database varName \<longleftrightarrow> varName = ''PK'' \<or> varName = ''KEK'' \<or> varName = ''db'' \<or> varName = ''dbx''"

definition holds_microsoft_keys :: "string \<Rightarrow> bool" where
  "holds_microsoft_keys varName \<longleftrightarrow> varName = ''db'' \<or> varName = ''KEK''"

definition classify_variable ::
    "event_log_analysis \<Rightarrow> event_log_entry \<Rightarrow> (event_log_analysis \<times> event_log_entry) option" where
  "classify_variable a e = do {
     varName \<leftarrow> ExtractEfiVariableName (eventData e);
     let (a, e) = emit_policy a e (''EFI Variable: '' @ varName);
     (a, e) \<leftarrow> (if varName = ''SecureBoot''
        then do {
          on \<leftarrow> IsSecureBootEnabled varName (eventData e);
          Some (a\<lparr>secureBootEnabled := on\<rparr>,
            e\<lparr>description := description e @ (if on then '' (ENABLED)'' else '' (DISABLED)'')\<rparr>)
        }
        else Some (a, e));
     if is_key_database varName
     then Some (if holds_microsoft_keys varName then a\<lparr>secureBootMicrosoftKeys := True\<rparr> else a,
            e\<lparr>description := description e @ '' (Secure Boot key database)''\<rparr>)
     else Some (a, e)
   }"

definition is_variable_event :: "u32 \<Rightarrow> bool" where
  "is_variable_event t \<longleftrightarrow>
     t = EV_EFI_VARIABLE_DRIVER_CONFIG \<or> t = EV_EFI_VARIABLE_BOOT \<or> t = EV_EFI_VARIABLE_BOOT2"

definition classify_entry ::
    "event_log_analysis \<Rightarrow> event_log_entry \<Rightarrow> (event_log_analysis \<times> event_log_entry) option" where
  "classify_entry a e =
     (let t = eventType e
      in if is_variable_event t then classify_variable a e
      else if t = EV_EFI_BOOT_SERVICES_APPLICATION then do {
        path \<leftarrow> ExtractBootAppPath (eventData e);
        Some (emit_verified a e (''Boot Application: '' @ path)) }
      else if t = EV_EFI_BOOT_SERVICES_DRIVER then do {
        path \<leftarrow> ExtractBootAppPath (eventData e);
        Some (emit_verified a e (''Boot Driver: '' @ path)) }
      else if t = EV_EFI_PLATFORM_FIRMWARE_BLOB \<or> t = EV_EFI_PLATFORM_FIRMWARE_BLOB2 then
        Some (emit_verified a e ''Platform Firmware Blob'')
      else if t = EV_S_CRTM_VERSION then do {
        version \<leftarrow> crtm_version_from (eventData e) 0;
        Some (emit_verified a e (''CRTM/BIOS Version: '' @ version)) }
      else if t = EV_POST_CODE \<or> t = EV_S_CRTM_CONTENTS \<or> t = EV_CPU_MICROCODE then
        Some (emit_verified a e (EventTypeName t))
      else if t = EV_SEPARATOR then
        Some (emit_policy a e ''Separator (transition to OS measurements)'')
      else if t = EV_EFI_ACTION then
        Some (emit_policy a e (''EFI Action: '' @ map char_of_u8 (eventData e)))
      else if t = EV_EFI_VARIABLE_AUTHORITY then
        Some (emit_policy a e ''EFI Variable Authority (certificate used for Secure Boot verification)'')
      else if t = EV_EFI_GPT_EVENT then Some (emit_policy a e ''GPT Partition Table'')
      else if t = EV_NO_ACTION then Some (emit_policy a e ''No Action (informational)'')
      else if t = EV_EFI_HANDOFF_TABLES \<or> t = EV_EFI_HANDOFF_TABLES2 then
        Some (emit_policy a e ''EFI Handoff Tables (SMBIOS/ACPI)'')
      else if t = EV_PLATFORM_CONFIG_FLAGS then
        Some (emit_policy a e ''Platform Configuration Flags'')
      else if t = EV_COMPACT_HASH then
        Some (emit_verified a e ''Compact Hash (Windows integrity measurement)'')
      else if t = EV_EFI_RUNTIME_SERVICES_DRIVER then do {
        path \<leftarrow> ExtractBootAppPath (eventData e);
        Some (emit_verified a e (''Runtime Driver: '' @ path)) }
      else if 11 \<le> pcrIndex e \<and> pcrIndex e \<le> 14 then
        Some (emit_verified a e (''Windows OS measurement (PCR['' @ to_string (unat (pcrIndex e)) @ ''])''))
      else
        Some (emit_unknown a e (EventTypeName t @ '' (PCR['' @ to_string (unat (pcrIndex e)) @ ''])'')))"

section \<open>The walk\<close>

lemma parse_digests_shrinks:
  "parse_digests log n p remaining ds = Some (Some (ds', p', remaining')) \<Longrightarrow> remaining' \<le> remaining"
  by (induction n arbitrary: p remaining ds) (fastforce simp: Let_def split: if_splits bind_splits)+

lemma parse_entry_shrinks:
  "parse_entry log p remaining = Some (Some (e, p', remaining')) \<Longrightarrow> 12 \<le> remaining \<Longrightarrow> remaining' < remaining"
  by (fastforce simp: parse_entry_def parse_event_data_def Let_def dest: parse_digests_shrinks
      split: if_splits bind_splits option.splits)

function parse_entries :: "bytes \<Rightarrow> nat \<Rightarrow> nat \<Rightarrow> event_log_analysis \<Rightarrow> event_log_analysis option" where
  "parse_entries log p remaining analysis =
     (if remaining \<ge> 12
      then do {
        r \<leftarrow> parse_entry log p remaining;
        case r of
          None \<Rightarrow> Some analysis
        | Some (entry, p, remaining) \<Rightarrow> do {
            (analysis, entry) \<leftarrow> classify_entry analysis entry;
            parse_entries log p remaining (analysis\<lparr>entries := entries analysis @ [entry]\<rparr>)
          }
      }
      else Some analysis)"
  by pat_completeness auto
termination
  by (relation "measure (\<lambda>(log, p, remaining, analysis). remaining)") (auto dest: parse_entry_shrinks)

declare parse_entries.simps [simp del]

text \<open>The legacy header, when the first event is one: how many bytes it takes.\<close>

definition header_skip :: "bytes \<Rightarrow> nat option" where
  "header_skip log =
     (let remaining = length log
      in if remaining \<ge> 32
         then do {
           eventType \<leftarrow> ReadU32LE log 4;
           if eventType = EV_NO_ACTION
           then do {
             eventDataSize \<leftarrow> ReadU32LE log 28;
             let skip = 32 + unat eventDataSize;
             Some (if skip \<le> remaining then skip else 0)
           }
           else Some 0
         }
         else Some 0)"

text \<open>The dash of the last reason is three bytes of UTF-8.\<close>

definition em_dash :: string where
  "em_dash = map char_of_u8 [0xE2, 0x80, 0x94]"

definition set_verdict :: "event_log_analysis \<Rightarrow> event_log_analysis" where
  "set_verdict a =
     (if secureBootEnabled a
      then if unknownCount a = 0
        then a\<lparr>verdict := ''PASS'', verdictReason := ''Secure Boot enabled, all boot components verified''\<rparr>
        else a\<lparr>verdict := ''WARNING'', verdictReason := ''Secure Boot enabled, but ''
               @ to_string (unknownCount a) @ '' unknown measurement(s) detected''\<rparr>
      else a\<lparr>verdict := ''FAIL'', verdictReason := ''Secure Boot is DISABLED '' @ em_dash
             @ '' boot chain integrity cannot be guaranteed''\<rparr>)"

definition ParseAndAnalyzeEventLog :: "bytes \<Rightarrow> event_log_analysis option" where
  "ParseAndAnalyzeEventLog rawLog = do {
     skip \<leftarrow> header_skip rawLog;
     analysis \<leftarrow> parse_entries rawLog skip (length rawLog - skip) new_analysis;
     Some (set_verdict analysis)
   }"

section \<open>Memory safety\<close>

lemma parse_digests_step:
  "2 \<le> remaining \<Longrightarrow> ReadU16LE log p = Some alg \<Longrightarrow> digest_size alg = s \<Longrightarrow> s \<noteq> 0 \<Longrightarrow> s \<le> remaining - 2 \<Longrightarrow>
   vec_range log (p + 2) (p + 2 + s) = Some d \<Longrightarrow>
   parse_digests log (Suc n) p remaining ds =
     parse_digests log n (p + 2 + s) (remaining - 2 - s) (ds(alg \<mapsto> d))"
  by (simp add: Let_def)

lemma parse_digests_stop:
  "2 \<le> remaining \<Longrightarrow> ReadU16LE log p = Some alg \<Longrightarrow> digest_size alg = s \<Longrightarrow> s = 0 \<or> remaining - 2 < s \<Longrightarrow>
   parse_digests log (Suc n) p remaining ds = Some None"
  by (auto simp: Let_def)

lemma parse_digests_short: "remaining < 2 \<Longrightarrow> parse_digests log (Suc n) p remaining ds = Some None"
  by simp

lemma parse_digests_safe:
  "p + remaining \<le> length log \<Longrightarrow> defined (parse_digests log n p remaining ds)
   \<and> (\<forall>ds' p' remaining'. parse_digests log n p remaining ds = Some (Some (ds', p', remaining'))
      \<longrightarrow> p' + remaining' = p + remaining)"
proof (induction n arbitrary: p remaining ds)
  case 0
  then show ?case by simp
next
  case (Suc n)
  show ?case
  proof (cases "remaining < 2")
    case True
    show ?thesis unfolding parse_digests_short [OF True] by simp
  next
    case False
    then have two: "2 \<le> remaining" by simp
    with Suc.prems have "p + 2 \<le> length log" by simp
    then obtain alg where alg: "ReadU16LE log p = Some alg"
      using le16.rd_iff_inside [of log p] by blast
    define s where "s = digest_size alg"
    show ?thesis
    proof (cases "s = 0 \<or> remaining - 2 < s")
      case True
      show ?thesis unfolding parse_digests_stop [OF two alg s_def [symmetric] True] by simp
    next
      case False
      then have s: "s \<noteq> 0" "2 + s \<le> remaining" using \<open>\<not> remaining < 2\<close> by auto
      then have fits: "p + 2 + s \<le> length log" using Suc.prems by simp
      have r: "p + 2 + s + (remaining - 2 - s) = p + remaining" using s by simp
      have range: "vec_range log (p + 2) (p + 2 + s) = Some (take s (drop (p + 2) log))"
        using fits by (simp add: vec_range_def)
      have step: "parse_digests log (Suc n) p remaining ds =
          parse_digests log n (p + 2 + s) (remaining - 2 - s) (ds(alg \<mapsto> take s (drop (p + 2) log)))"
        by (rule parse_digests_step [OF _ alg s_def [symmetric] s(1) _ range]) (use s(2) in simp_all)
      show ?thesis
        unfolding step by (rule Suc.IH [of "p + 2 + s" "remaining - 2 - s", unfolded r, OF Suc.prems])
    qed
  qed
qed

lemma parse_event_data_safe:
  assumes "p + remaining \<le> length log"
  shows "defined (parse_event_data log pcr type ds p remaining)
    \<and> (\<forall>e p' remaining'. parse_event_data log pcr type ds p remaining = Some (Some (e, p', remaining'))
       \<longrightarrow> p' + remaining' = p + remaining \<and> length (eventData e) < 2 ^ 32)"
proof (cases "remaining < 4")
  case False
  then obtain n where n: "ReadU32LE log p = Some n"
    using le32.rd_iff_inside [of log p] assms by auto
  show ?thesis
  proof (cases "remaining - 4 < unat n")
    case True
    then show ?thesis using n by (simp add: parse_event_data_def Let_def)
  next
    case fit: False
    then have "p + 4 + unat n \<le> length log" and "p + 4 + unat n + (remaining - 4 - unat n) = p + remaining"
      using assms False by simp_all
    moreover have "unat n < 2 ^ 32" using unsigned_less [of n, where ?'a = nat] by simp
    ultimately show ?thesis using n fit False by (simp add: parse_event_data_def Let_def vec_range_def)
  qed
qed (simp add: parse_event_data_def)

lemma parse_entry_steps:
  assumes "ReadU32LE log p = Some pcr" "ReadU32LE log (p + 4) = Some type" "ReadU32LE log (p + 8) = Some n"
    and "12 \<le> remaining"
  shows "parse_entry log p remaining = (if n > 8 then Some None
     else parse_digests log (unat n) (p + 12) (remaining - 12) Map.empty \<bind> (\<lambda>r. case r of
       None \<Rightarrow> Some None
     | Some (ds, p, remaining) \<Rightarrow> parse_event_data log pcr type ds p remaining))"
proof -
  have "p + 4 + 4 = p + 8" "p + 8 + 4 = p + 12" "remaining - 4 - 4 - 4 = remaining - 12"
    "\<not> remaining - 8 < 4" using assms(4) by simp_all
  then show ?thesis using assms by (simp add: parse_entry_def Let_def ac_simps)
qed

lemma parse_entry_safe:
  assumes "p + remaining \<le> length log" and "12 \<le> remaining"
  shows "defined (parse_entry log p remaining)"
    and "parse_entry log p remaining = Some (Some (e, p', remaining')) \<Longrightarrow>
      p' + remaining' = p + remaining \<and> length (eventData e) < 2 ^ 32"
proof -
  obtain pcr type n where r: "ReadU32LE log p = Some pcr" "ReadU32LE log (p + 4) = Some type"
    "ReadU32LE log (p + 8) = Some n"
    using assms le32.rd_iff_inside [of log p] le32.rd_iff_inside [of log "p + 4"]
      le32.rd_iff_inside [of log "p + 8"] by auto
  have inner: "p + 12 + (remaining - 12) \<le> length log" using assms by simp
  note entry = parse_entry_steps [OF r assms(2)]
  have eq: "p + 12 + (remaining - 12) = p + remaining" using assms(2) by simp
  note safe = parse_digests_safe [OF inner, of "unat n" Map.empty, unfolded eq]
  have data: "q + rest = p + remaining"
    if "parse_digests log (unat n) (p + 12) (remaining - 12) Map.empty = Some (Some (ds, q, rest))" for ds q rest
    using safe that by blast
  have tail: "defined (parse_event_data log pcr type ds q rest)
      \<and> (\<forall>e p' remaining'. parse_event_data log pcr type ds q rest = Some (Some (e, p', remaining'))
         \<longrightarrow> p' + remaining' = p + remaining \<and> length (eventData e) < 2 ^ 32)"
    if "parse_digests log (unat n) (p + 12) (remaining - 12) Map.empty = Some (Some (ds, q, rest))" for ds q rest
    by (rule parse_event_data_safe [of q rest log pcr type ds, unfolded data [OF that], OF assms(1)])
  obtain d where d: "parse_digests log (unat n) (p + 12) (remaining - 12) Map.empty = Some d"
    using safe by (auto simp: defined_def)
  show "defined (parse_entry log p remaining)"
    using tail d unfolding entry by (auto split: option.split)
  show "p' + remaining' = p + remaining \<and> length (eventData e) < 2 ^ 32"
    if e: "parse_entry log p remaining = Some (Some (e, p', remaining'))"
  proof -
    obtain ds q rest where d': "d = Some (ds, q, rest)"
      and e': "parse_event_data log pcr type ds q rest = Some (Some (e, p', remaining'))"
      using e d unfolding entry by (auto split: if_splits option.splits)
    show ?thesis using tail [OF d [unfolded d']] e' by blast
  qed
qed

lemma boot_path_total: "defined (boot_path_from data i result)"
proof (induction data i result rule: boot_path_from.induct)
  case (1 data i result)
  then show ?case
    by (subst boot_path_from.simps) (auto simp: never_faults)
qed

lemma ExtractBootAppPath_total [never_faults]: "defined (ExtractBootAppPath data)"
  by (simp add: ExtractBootAppPath_def boot_path_total)

lemma crtm_version_total [never_faults]: "defined (crtm_version_from data i)"
proof (induction data i rule: crtm_version_from.induct)
  case (1 data i)
  then show ?case
    by (subst crtm_version_from.simps) (auto simp: never_faults)
qed

lemma IsSecureBootEnabled_total:
  assumes "length data < 2 ^ 64"
  shows "defined (IsSecureBootEnabled varName data)"
  using TryParse_spans [OF _ assms]
  by (fastforce simp: IsSecureBootEnabled_def never_faults spans_inside_def split: option.split)

lemma classify_entry_total:
  assumes "length (eventData e) < 2 ^ 64"
  shows "defined (classify_entry a e)"
proof -
  have "defined (classify_variable a e)"
    using ExtractEfiVariableName_total [OF assms] IsSecureBootEnabled_total [OF assms]
    by (simp add: classify_variable_def emit_policy_def never_faults)
  then show ?thesis
    by (simp add: classify_entry_def Let_def never_faults)
qed

lemma parse_entries_total: "p + remaining \<le> length log \<Longrightarrow> defined (parse_entries log p remaining a)"
proof (induction log p remaining a rule: parse_entries.induct)
  case (1 log p remaining a)
  show ?case
  proof (cases "12 \<le> remaining")
    case True
    obtain r where r: "parse_entry log p remaining = Some r"
      using parse_entry_safe(1) [OF 1(2) True] by (auto simp: defined_def)
    show ?thesis
    proof (cases r)
      case None
      then show ?thesis using r by (subst parse_entries.simps) simp
    next
      case (Some x)
      obtain e p' remaining' where x: "x = (e, p', remaining')" by (cases x)
      note inv = parse_entry_safe(2) [OF 1(2) True r [unfolded Some x]]
      then have "defined (classify_entry a e)" by (intro classify_entry_total) simp
      then obtain a' e' where c: "classify_entry a e = Some (a', e')" by (auto simp: defined_def)
      have "defined (parse_entries log p' remaining' (a'\<lparr>entries := entries a' @ [e']\<rparr>))"
        using 1(1) [OF True r Some x [symmetric] refl c refl] 1(2) inv by simp
      then show ?thesis
        using True r c by (subst parse_entries.simps) (simp add: Some x)
    qed
  qed (subst parse_entries.simps, simp)
qed

lemma header_skip_safe:
  "defined (header_skip log) \<and> (\<forall>n. header_skip log = Some n \<longrightarrow> n \<le> length log)"
  by (auto simp: header_skip_def Let_def never_faults split: if_splits bind_splits)

lemma ParseAndAnalyze_total: "defined (ParseAndAnalyzeEventLog rawLog)"
proof -
  obtain n where "header_skip rawLog = Some n" "n \<le> length rawLog"
    using header_skip_safe [of rawLog] by (auto simp: defined_def)
  then show ?thesis
    using parse_entries_total [of n "length rawLog - n" rawLog new_analysis]
    by (simp add: ParseAndAnalyzeEventLog_def never_faults)
qed

section \<open>What the analysis counts\<close>

text \<open>The state of the \<open>SecureBoot\<close> variable as one entry reports it, if it does.\<close>

definition entry_secure_boot :: "event_log_entry \<Rightarrow> bool option" where
  "entry_secure_boot e =
     (if is_variable_event (eventType e) \<and> ExtractEfiVariableName (eventData e) = Some ''SecureBoot''
      then IsSecureBootEnabled ''SecureBoot'' (eventData e) else None)"

definition last_secure_boot :: "event_log_entry list \<Rightarrow> bool" where
  "last_secure_boot es = foldl (\<lambda>b e. case entry_secure_boot e of None \<Rightarrow> b | Some b' \<Rightarrow> b') False es"

definition count_class :: "string \<Rightarrow> event_log_entry list \<Rightarrow> nat" where
  "count_class c es = length (filter (\<lambda>e. classification e = c) es)"

text \<open>\<open>P\<close> holds of the result, if there is one.\<close>

definition all_results :: "('a \<Rightarrow> bool) \<Rightarrow> 'a option \<Rightarrow> bool" where
  "all_results P m \<longleftrightarrow> (\<forall>x. m = Some x \<longrightarrow> P x)"

definition classes :: "string set" where
  "classes = {''verified'', ''policy'', ''unknown''}"

definition analysis_ok :: "event_log_analysis \<Rightarrow> bool" where
  "analysis_ok a \<longleftrightarrow>
     verifiedCount a = count_class ''verified'' (entries a)
     \<and> policyCount a = count_class ''policy'' (entries a)
     \<and> unknownCount a = count_class ''unknown'' (entries a)
     \<and> (\<forall>e \<in> set (entries a). classification e \<in> classes)
     \<and> secureBootEnabled a = last_secure_boot (entries a)"

definition push_entry :: "event_log_analysis \<Rightarrow> event_log_entry \<Rightarrow> event_log_analysis" where
  "push_entry a e = a\<lparr>entries := entries a @ [e]\<rparr>"

text \<open>One entry goes into exactly one of the three counts, and keeps what was parsed.\<close>

definition same_measurement :: "event_log_entry \<Rightarrow> event_log_entry \<Rightarrow> bool" where
  "same_measurement e e' \<longleftrightarrow> pcrIndex e' = pcrIndex e \<and> eventType e' = eventType e
     \<and> eventTypeName e' = eventTypeName e \<and> digests e' = digests e \<and> eventData e' = eventData e"

text \<open>What one step of the classification does to the counts.\<close>

definition emitted ::
    "event_log_analysis \<Rightarrow> event_log_entry \<Rightarrow> event_log_analysis \<Rightarrow> event_log_entry \<Rightarrow> bool" where
  "emitted a e a' e' \<longleftrightarrow> same_measurement e e' \<and> entries a' = entries a \<and> classification e' \<in> classes
     \<and> verifiedCount a' = verifiedCount a + (if classification e' = ''verified'' then 1 else 0)
     \<and> policyCount a' = policyCount a + (if classification e' = ''policy'' then 1 else 0)
     \<and> unknownCount a' = unknownCount a + (if classification e' = ''unknown'' then 1 else 0)
     \<and> secureBootEnabled a' =
         (case entry_secure_boot e of None \<Rightarrow> secureBootEnabled a | Some on \<Rightarrow> on)"

lemma emit_emitted:
  assumes "\<not> is_variable_event (eventType e)"
  shows "emit_verified a e d = (a', e') \<Longrightarrow> emitted a e a' e'"
    and "emit_policy a e d = (a', e') \<Longrightarrow> emitted a e a' e'"
    and "emit_unknown a e d = (a', e') \<Longrightarrow> emitted a e a' e'"
  using assms
  by (auto simp: emitted_def same_measurement_def emit_verified_def emit_policy_def emit_unknown_def
      classes_def entry_secure_boot_def)

lemma classify_variable_emitted:
  assumes "classify_variable a e = Some (a', e')" and "is_variable_event (eventType e)"
  shows "emitted a e a' e'"
proof -
  obtain name where n: "ExtractEfiVariableName (eventData e) = Some name"
    using assms(1) by (auto simp: classify_variable_def split: bind_splits)
  define keys where "keys = is_key_database name"
  define sb where "sb = entry_secure_boot e"
  have "e' = e\<lparr>description := description e', classification := ''policy''\<rparr>
      \<and> a' = a\<lparr>policyCount := policyCount a + 1, secureBootMicrosoftKeys := secureBootMicrosoftKeys a',
            secureBootEnabled := (case sb of None \<Rightarrow> secureBootEnabled a | Some on \<Rightarrow> on)\<rparr>"
  proof (cases "name = ''SecureBoot''")
    case True
    then obtain on where on: "IsSecureBootEnabled name (eventData e) = Some on"
      using assms(1) n by (auto simp: classify_variable_def emit_policy_def split: bind_splits)
    have "sb = Some on" using n True on assms(2) by (simp add: sb_def entry_secure_boot_def)
    moreover have "\<not> is_key_database name" by (simp add: True is_key_database_def)
    ultimately show ?thesis
      using assms(1) n on
      by (auto simp: classify_variable_def emit_policy_def True)
  next
    case False
    then have "sb = None" using n by (simp add: sb_def entry_secure_boot_def)
    then show ?thesis
      using assms(1) n False
      by (cases keys) (auto simp: classify_variable_def emit_policy_def keys_def)
  qed
  then obtain d ms where "e' = e\<lparr>description := d, classification := ''policy''\<rparr>"
    "a' = a\<lparr>policyCount := policyCount a + 1, secureBootMicrosoftKeys := ms,
        secureBootEnabled := (case sb of None \<Rightarrow> secureBootEnabled a | Some on \<Rightarrow> on)\<rparr>" by blast
  then show ?thesis
    by (simp add: emitted_def same_measurement_def classes_def sb_def)
qed

lemma all_results_Some: "P x \<Longrightarrow> all_results P (Some x)"
  by (simp add: all_results_def)

lemma all_results_bind: "(\<And>x. all_results P (f x)) \<Longrightarrow> all_results P (m \<bind> f)"
  by (cases m) (auto simp: all_results_def)

lemma all_results_if:
  "(b \<Longrightarrow> all_results P m) \<Longrightarrow> (\<not> b \<Longrightarrow> all_results P n) \<Longrightarrow> all_results P (if b then m else n)"
  by simp

lemma emit_all:
  assumes "\<not> is_variable_event (eventType e)"
  shows "case_prod (emitted a e) (emit_verified a e d)" "case_prod (emitted a e) (emit_policy a e d)"
    "case_prod (emitted a e) (emit_unknown a e d)"
  using emit_emitted [OF assms] by (auto split: prod.split)

lemma classify_emitted:
  assumes "classify_entry a e = Some (a', e')"
  shows "emitted a e a' e'"
proof (cases "is_variable_event (eventType e)")
  case True
  then show ?thesis
    using assms by (intro classify_variable_emitted) (simp_all add: classify_entry_def Let_def)
next
  case False
  have "all_results (case_prod (emitted a e)) (classify_entry a e)"
    unfolding classify_entry_def Let_def
    by (intro all_results_if all_results_bind all_results_Some emit_all False) (use False in simp)
  then show ?thesis using assms by (simp add: all_results_def)
qed

lemma last_secure_boot_snoc:
  "last_secure_boot (es @ [e]) = (case entry_secure_boot e of None \<Rightarrow> last_secure_boot es | Some on \<Rightarrow> on)"
  unfolding last_secure_boot_def by simp

lemma count_class_snoc: "count_class c (es @ [e]) = count_class c es + (if classification e = c then 1 else 0)"
  by (simp add: count_class_def)

lemma push_entry_ok:
  assumes "emitted a e a' e'" and "analysis_ok a"
  shows "analysis_ok (push_entry a' e')"
proof -
  have "entry_secure_boot e' = entry_secure_boot e"
    using assms(1) by (simp add: emitted_def same_measurement_def entry_secure_boot_def)
  then show ?thesis
    using assms unfolding emitted_def analysis_ok_def push_entry_def
    by (simp add: count_class_snoc last_secure_boot_snoc split: option.split)
qed

lemma parse_entries_ok:
  "parse_entries log p remaining a = Some a' \<Longrightarrow> analysis_ok a \<Longrightarrow> analysis_ok a'"
proof (induction log p remaining a rule: parse_entries.induct)
  case (1 log p remaining a)
  show ?case
  proof (cases "\<exists>x. 12 \<le> remaining \<and> parse_entry log p remaining = Some (Some x)")
    case True
    then obtain e p' remaining' where ge: "12 \<le> remaining"
      and e: "parse_entry log p remaining = Some (Some (e, p', remaining'))" by auto
    with 1(2) obtain b e' where c: "classify_entry a e = Some (b, e')"
      and rec: "parse_entries log p' remaining' (push_entry b e') = Some a'"
      by (subst (asm) parse_entries.simps) (auto simp: push_entry_def split: bind_splits)
    show ?thesis
      using 1(1) [OF ge e refl refl refl c refl] rec push_entry_ok [OF classify_emitted [OF c] 1(3)]
      by (simp add: push_entry_def)
  next
    case False
    then have "a' = a"
      using 1(2) by (subst (asm) parse_entries.simps) (auto split: if_splits bind_splits option.splits)
    then show ?thesis using 1(3) by simp
  qed
qed

lemma new_analysis_ok: "analysis_ok new_analysis"
  by (simp add: analysis_ok_def new_analysis_def count_class_def last_secure_boot_def)

section \<open>The log firmware writes\<close>

record tcg_event =
  ev_pcr :: u32
  ev_type :: u32
  ev_digests :: "(u16 \<times> bytes) list"
  ev_data :: bytes

definition digests_bytes :: "(u16 \<times> bytes) list \<Rightarrow> bytes" where
  "digests_bytes ds = concat (map (\<lambda>(alg, d). u16_le alg @ d) ds)"

definition event_bytes :: "tcg_event \<Rightarrow> bytes" where
  "event_bytes ev = u32_le (ev_pcr ev) @ u32_le (ev_type ev) @ u32_le (of_nat (length (ev_digests ev)))
     @ digests_bytes (ev_digests ev) @ u32_le (of_nat (length (ev_data ev))) @ ev_data ev"

definition wf_digests :: "(u16 \<times> bytes) list \<Rightarrow> bool" where
  "wf_digests ds \<longleftrightarrow> (\<forall>(alg, d) \<in> set ds. digest_size alg \<noteq> 0 \<and> length d = digest_size alg)"

definition wf_event :: "tcg_event \<Rightarrow> bool" where
  "wf_event ev \<longleftrightarrow> length (ev_digests ev) \<le> 8 \<and> wf_digests (ev_digests ev) \<and> length (ev_data ev) < 2 ^ 32"

definition put_digest :: "(u16 \<rightharpoonup> bytes) \<Rightarrow> u16 \<times> bytes \<Rightarrow> (u16 \<rightharpoonup> bytes)" where
  "put_digest m x = m(fst x \<mapsto> snd x)"

definition digest_map :: "(u16 \<times> bytes) list \<Rightarrow> (u16 \<rightharpoonup> bytes)" where
  "digest_map ds = foldl put_digest Map.empty ds"

definition raw_entry :: "tcg_event \<Rightarrow> event_log_entry" where
  "raw_entry ev = \<lparr>pcrIndex = ev_pcr ev, eventType = ev_type ev, eventTypeName = EventTypeName (ev_type ev),
     digests = digest_map (ev_digests ev), eventData = ev_data ev, description = [], classification = []\<rparr>"

definition spec_id_header :: "u32 \<Rightarrow> bytes \<Rightarrow> bytes \<Rightarrow> bytes" where
  "spec_id_header pcr sha1 data = u32_le pcr @ u32_le EV_NO_ACTION @ sha1 @ u32_le (of_nat (length data)) @ data"

lemma length_event_bytes:
  "length (event_bytes ev) = 16 + length (digests_bytes (ev_digests ev)) + length (ev_data ev)"
  by (simp add: event_bytes_def)

lemma parse_digests_encoded:
  assumes "wf_digests ds"
  shows "parse_digests (pre @ digests_bytes ds @ post) (length ds) (length pre) (length (digests_bytes ds) + rest) m
    = Some (Some (foldl put_digest m ds, length pre + length (digests_bytes ds), rest))"
  using assms
proof (induction ds arbitrary: pre m)
  case Nil
  then show ?case by (simp add: digests_bytes_def)
next
  case (Cons x ds)
  obtain alg d where x: "x = (alg, d)" by (cases x)
  have size: "digest_size alg = length d" "length d \<noteq> 0" and wf: "wf_digests ds"
    using Cons.prems by (auto simp: wf_digests_def x)
  let ?log = "pre @ digests_bytes (x # ds) @ post"
  have log: "?log = (pre @ u16_le alg @ d) @ digests_bytes ds @ post"
    by (simp add: digests_bytes_def x)
  have alg: "ReadU16LE ?log (length pre) = Some alg"
    using le16.rd_wr [of pre alg] by (simp add: digests_bytes_def x)
  have d: "vec_range ?log (length pre + 2) (length pre + 2 + length d) = Some d"
    using vec_range_append [of "pre @ u16_le alg" d "digests_bytes ds @ post"]
    by (simp add: digests_bytes_def x)
  have rem: "length (digests_bytes (x # ds)) + rest = 2 + length d + (length (digests_bytes ds) + rest)"
    by (simp add: digests_bytes_def x)
  have "parse_digests ?log (Suc (length ds)) (length pre) (length (digests_bytes (x # ds)) + rest) m
      = parse_digests ?log (length ds) (length pre + 2 + length d) (length (digests_bytes (x # ds)) + rest - 2 - length d)
          (m(alg \<mapsto> d))"
    by (rule parse_digests_step [OF _ alg size(1) size(2) _ d]) (simp_all add: rem)
  also have "length (digests_bytes (x # ds)) + rest - 2 - length d = length (digests_bytes ds) + rest"
    by (simp add: rem)
  also have "parse_digests ?log (length ds) (length pre + 2 + length d) (length (digests_bytes ds) + rest) (m(alg \<mapsto> d))
      = Some (Some (foldl put_digest (put_digest m x) ds, length pre + length (digests_bytes (x # ds)), rest))"
  proof -
    have "m(alg \<mapsto> d) = put_digest m x" by (simp add: put_digest_def x)
    moreover have "length pre + 2 + length d = length (pre @ u16_le alg @ d)" by simp
    moreover have "length pre + length (digests_bytes (x # ds))
        = length (pre @ u16_le alg @ d) + length (digests_bytes ds)"
      by (simp add: digests_bytes_def x)
    ultimately show ?thesis
      using Cons.IH [OF wf, of "pre @ u16_le alg @ d" "put_digest m x"] unfolding log by simp
  qed
  finally show ?case by simp
qed

text \<open>A digest list that is cut short is not accepted.\<close>

lemma parse_digests_cut:
  assumes "wf_digests ds" and "k < length (digests_bytes ds)"
  shows "parse_digests (pre @ take k (digests_bytes ds)) (length ds) (length pre) k m = Some None"
  using assms
proof (induction ds arbitrary: pre m k)
  case Nil
  then show ?case by (simp add: digests_bytes_def)
next
  case (Cons x ds)
  obtain alg d where x: "x = (alg, d)" by (cases x)
  have size: "digest_size alg = length d" "length d \<noteq> 0" and wf: "wf_digests ds"
    using Cons.prems by (auto simp: wf_digests_def x)
  have bytes: "digests_bytes (x # ds) = u16_le alg @ d @ digests_bytes ds"
    by (simp add: digests_bytes_def x)
  let ?log = "pre @ take k (digests_bytes (x # ds))"
  show ?case
  proof (cases "k < 2")
    case True
    then show ?thesis by simp
  next
    case False
    then have "take k (digests_bytes (x # ds)) = u16_le alg @ take (k - 2) (d @ digests_bytes ds)"
      by (simp add: bytes)
    then have log: "?log = pre @ u16_le alg @ take (k - 2) (d @ digests_bytes ds)" by simp
    have alg: "ReadU16LE ?log (length pre) = Some alg"
      unfolding log by (rule le16.rd_wr)
    show ?thesis
    proof (cases "k - 2 < length d")
      case True
      have "parse_digests ?log (Suc (length ds)) (length pre) k m = Some None"
        by (rule parse_digests_stop [OF _ alg size(1)]) (use False True in simp_all)
      then show ?thesis by simp
    next
      case le: False
      then have log': "?log = (pre @ u16_le alg @ d) @ take (k - 2 - length d) (digests_bytes ds)"
        unfolding log by simp
      have d: "vec_range ?log (length pre + 2) (length pre + 2 + length d) = Some d"
        unfolding log' using vec_range_append [of "pre @ u16_le alg" d] by simp
      have step: "parse_digests ?log (Suc (length ds)) (length pre) k m
          = parse_digests ?log (length ds) (length pre + 2 + length d) (k - 2 - length d) (m(alg \<mapsto> d))"
        by (rule parse_digests_step [OF _ alg size(1) size(2) _ d]) (use False le in simp_all)
      have "k - 2 - length d < length (digests_bytes ds)"
        using Cons.prems(2) False le by (simp add: bytes)
      from Cons.IH [OF wf this, of "pre @ u16_le alg @ d"]
      have "parse_digests ?log (length ds) (length pre + 2 + length d) (k - 2 - length d) (m(alg \<mapsto> d)) = Some None"
        unfolding log' by (simp add: add.assoc)
      then show ?thesis using step by simp
    qed
  qed
qed

lemma event_fields:
  fixes pre post ev
  defines "log \<equiv> pre @ u32_le (ev_pcr ev) @ u32_le (ev_type ev) @ u32_le (of_nat (length (ev_digests ev))) @ post"
  shows "ReadU32LE log (length pre) = Some (ev_pcr ev)"
    and "ReadU32LE log (length pre + 4) = Some (ev_type ev)"
    and "ReadU32LE log (length pre + 8) = Some (of_nat (length (ev_digests ev)))"
  unfolding log_def
  by (rule le32.rd_wr)
    (rule le32.rd_wr_at [where post = "u32_le (of_nat (length (ev_digests ev))) @ post"], simp_all,
     rule le32.rd_wr_at [where post = post], simp_all)

lemma digest_count:
  assumes "wf_event ev"
  shows "\<not> (of_nat (length (ev_digests ev)) :: u32) > 8"
    and "unat (of_nat (length (ev_digests ev)) :: u32) = length (ev_digests ev)"
proof -
  show u: "unat (of_nat (length (ev_digests ev)) :: u32) = length (ev_digests ev)"
    using assms by (simp add: wf_event_def unat_of_nat)
  show "\<not> (of_nat (length (ev_digests ev)) :: u32) > 8"
    using assms u by (simp add: wf_event_def word_less_nat_alt)
qed

lemma parse_event_data_encoded:
  assumes "length data < 2 ^ 32"
  shows "parse_event_data (pre @ u32_le (of_nat (length data)) @ data @ post) pcr type ds (length pre)
      (4 + length data + rest)
    = Some (Some (\<lparr>pcrIndex = pcr, eventType = type, eventTypeName = EventTypeName type, digests = ds,
        eventData = data, description = [], classification = []\<rparr>, length pre + 4 + length data, rest))"
proof -
  let ?log = "pre @ u32_le (of_nat (length data)) @ data @ post"
  have n: "ReadU32LE ?log (length pre) = Some (of_nat (length data))" by (rule le32.rd_wr)
  have u: "unat (of_nat (length data) :: u32) = length data"
    unfolding unat_of_nat using assms by simp
  have "vec_range ?log (length pre + 4) (length pre + 4 + length data) = Some data"
    using vec_range_append [of "pre @ u32_le (of_nat (length data))" data post] by simp
  then show ?thesis by (simp add: parse_event_data_def n u Let_def)
qed

lemma parse_event_data_cut:
  assumes "length data < 2 ^ 32" and "k < 4 + length data"
  shows "parse_event_data (pre @ take k (u32_le (of_nat (length data)) @ data)) pcr type ds (length pre) k = Some None"
proof (cases "k < 4")
  case True
  then show ?thesis by (simp add: parse_event_data_def)
next
  case False
  then have "take k (u32_le (of_nat (length data)) @ data) = u32_le (of_nat (length data)) @ take (k - 4) data"
    by simp
  then have n: "ReadU32LE (pre @ take k (u32_le (of_nat (length data)) @ data)) (length pre) = Some (of_nat (length data))"
    by (simp add: le32.rd_wr)
  have u: "unat (of_nat (length data) :: u32) = length data"
    unfolding unat_of_nat using assms(1) by simp
  have "k - 4 < length data" using False assms(2) by arith
  then show ?thesis using False n u by (simp add: parse_event_data_def Let_def)
qed

lemma parse_entry_encoded:
  assumes "wf_event ev"
  shows "parse_entry (pre @ event_bytes ev @ post) (length pre) (length (event_bytes ev) + rest)
    = Some (Some (raw_entry ev, length pre + length (event_bytes ev), rest))"
proof -
  let ?head = "u32_le (ev_pcr ev) @ u32_le (ev_type ev) @ u32_le (of_nat (length (ev_digests ev)))"
  let ?ds = "digests_bytes (ev_digests ev)" and ?data = "ev_data ev"
  let ?tail = "u32_le (of_nat (length ?data)) @ ?data @ post"
  let ?log = "pre @ event_bytes ev @ post"
  have wf: "wf_digests (ev_digests ev)" "length ?data < 2 ^ 32" using assms by (simp_all add: wf_event_def)
  have log1: "?log = pre @ u32_le (ev_pcr ev) @ u32_le (ev_type ev) @ u32_le (of_nat (length (ev_digests ev))) @ ?ds @ ?tail"
    by (simp add: event_bytes_def)
  have log2: "?log = (pre @ ?head) @ ?ds @ ?tail" and log3: "?log = (pre @ ?head @ ?ds) @ ?tail"
    by (simp_all add: log1)
  define m where "m = length ?ds + (4 + length ?data + rest)"
  have len: "length (event_bytes ev) + rest = 12 + m"
    by (simp add: length_event_bytes m_def)
  have d: "parse_digests ?log (length (ev_digests ev)) (length pre + 12) m Map.empty
      = Some (Some (digest_map (ev_digests ev), length pre + 12 + length ?ds, 4 + length ?data + rest))"
    using parse_digests_encoded [OF wf(1), of "pre @ ?head" ?tail "4 + length ?data + rest" Map.empty]
    unfolding log2 m_def by (simp add: digest_map_def)
  have e: "parse_event_data ?log (ev_pcr ev) (ev_type ev) (digest_map (ev_digests ev))
      (length pre + 12 + length ?ds) (4 + length ?data + rest)
      = Some (Some (raw_entry ev, length pre + length (event_bytes ev), rest))"
    using parse_event_data_encoded [OF wf(2), of "pre @ ?head @ ?ds" post "ev_pcr ev" "ev_type ev"
        "digest_map (ev_digests ev)" rest]
    unfolding log3 by (simp add: raw_entry_def length_event_bytes ac_simps)
  have "parse_entry ?log (length pre) (12 + m)
      = Some (Some (raw_entry ev, length pre + length (event_bytes ev), rest))"
    using parse_entry_steps [OF event_fields [of pre ev "?ds @ ?tail", folded log1], of "12 + m"]
      d e digest_count [OF assms] by simp
  then show ?thesis unfolding len .
qed

lemma parse_entry_cut:
  assumes "wf_event ev" and "12 \<le> k" and "k < length (event_bytes ev)"
  shows "parse_entry (pre @ take k (event_bytes ev)) (length pre) k = Some None"
proof -
  let ?head = "u32_le (ev_pcr ev) @ u32_le (ev_type ev) @ u32_le (of_nat (length (ev_digests ev)))"
  let ?ds = "digests_bytes (ev_digests ev)" and ?data = "ev_data ev"
  let ?tail = "u32_le (of_nat (length ?data)) @ ?data"
  let ?log = "pre @ take k (event_bytes ev)"
  have wf: "wf_digests (ev_digests ev)" "length ?data < 2 ^ 32" using assms(1) by (simp_all add: wf_event_def)
  have "event_bytes ev = ?head @ ?ds @ ?tail" by (simp add: event_bytes_def)
  then have "take k (event_bytes ev) = ?head @ take (k - 12) (?ds @ ?tail)" using assms(2) by simp
  then have log1: "?log = pre @ u32_le (ev_pcr ev) @ u32_le (ev_type ev) @ u32_le (of_nat (length (ev_digests ev)))
      @ take (k - 12) (?ds @ ?tail)"
    by simp
  then have log2: "?log = (pre @ ?head) @ take (k - 12) (?ds @ ?tail)" by simp
  note steps = parse_entry_steps [OF event_fields [of pre ev "take (k - 12) (?ds @ ?tail)", folded log1] assms(2)]
  show ?thesis
  proof (cases "k - 12 < length ?ds")
    case True
    then have "?log = (pre @ ?head) @ take (k - 12) ?ds" using log2 by simp
    then have "parse_digests ?log (length (ev_digests ev)) (length pre + 12) (k - 12) Map.empty = Some None"
      using parse_digests_cut [OF wf(1) True, of "pre @ ?head" Map.empty] by simp
    then show ?thesis using steps digest_count [OF assms(1)] by simp
  next
    case False
    define r where "r = k - 12 - length ?ds"
    have k: "k - 12 = length ?ds + r" using False by (simp add: r_def)
    have log3: "?log = (pre @ ?head) @ ?ds @ take r ?tail" using log2 k by simp
    have d: "parse_digests ?log (length (ev_digests ev)) (length pre + 12) (k - 12) Map.empty
        = Some (Some (digest_map (ev_digests ev), length pre + 12 + length ?ds, r))"
      using parse_digests_encoded [OF wf(1), of "pre @ ?head" "take r ?tail" r Map.empty]
      unfolding log3 k by (simp add: digest_map_def)
    have "r < 4 + length ?data"
      using assms(2,3) k by (simp add: length_event_bytes)
    from parse_event_data_cut [OF wf(2) this, of "pre @ ?head @ ?ds"]
    have "parse_event_data ?log (ev_pcr ev) (ev_type ev) (digest_map (ev_digests ev))
        (length pre + 12 + length ?ds) r = Some None"
      unfolding log3 by (simp add: ac_simps)
    then show ?thesis using steps d digest_count [OF assms(1)] by simp
  qed
qed

lemma parse_entries_break:
  "\<not> 12 \<le> remaining \<or> parse_entry log p remaining = Some None \<Longrightarrow> parse_entries log p remaining a = Some a"
  by (subst parse_entries.simps) auto

lemma parse_entries_next:
  "12 \<le> remaining \<Longrightarrow> parse_entry log p remaining = Some (Some (e, p', remaining')) \<Longrightarrow>
   classify_entry a e = Some (a', e') \<Longrightarrow>
   parse_entries log p remaining a = parse_entries log p' remaining' (push_entry a' e')"
  by (subst parse_entries.simps) (simp add: push_entry_def)

lemma parse_entries_encoded:
  assumes "\<forall>ev \<in> set evs. wf_event ev" and last: "wf_event ev'" "k < length (event_bytes ev')"
  shows "\<exists>a' new. parse_entries (pre @ concat (map event_bytes evs) @ take k (event_bytes ev')) (length pre)
        (length (concat (map event_bytes evs)) + k) a = Some a'
      \<and> entries a' = entries a @ new \<and> list_all2 same_measurement (map raw_entry evs) new"
  using assms(1)
proof (induction evs arbitrary: pre a)
  case Nil
  have "\<not> 12 \<le> k \<or> parse_entry (pre @ take k (event_bytes ev')) (length pre) k = Some None"
    using parse_entry_cut [OF last(1) _ last(2)] by blast
  from parse_entries_break [OF this] show ?case by simp
next
  case (Cons ev evs)
  let ?rest = "concat (map event_bytes evs) @ take k (event_bytes ev')"
  let ?n = "length (concat (map event_bytes evs)) + k"
  let ?log = "pre @ event_bytes ev @ ?rest"
  have wf: "wf_event ev" using Cons.prems by simp
  have e: "parse_entry ?log (length pre) (length (event_bytes ev) + ?n)
      = Some (Some (raw_entry ev, length pre + length (event_bytes ev), ?n))"
    by (rule parse_entry_encoded [OF wf])
  have ge: "12 \<le> length (event_bytes ev) + ?n" by (simp add: length_event_bytes)
  have "defined (classify_entry a (raw_entry ev))"
    using wf by (intro classify_entry_total) (simp add: raw_entry_def wf_event_def)
  then obtain b e' where c: "classify_entry a (raw_entry ev) = Some (b, e')" by (auto simp: defined_def)
  have em: "emitted a (raw_entry ev) b e'" by (rule classify_emitted [OF c])
  obtain a' new where IH: "parse_entries ((pre @ event_bytes ev) @ ?rest) (length (pre @ event_bytes ev)) ?n (push_entry b e') = Some a'"
    "entries a' = entries (push_entry b e') @ new" "list_all2 same_measurement (map raw_entry evs) new"
    using Cons.IH [of "pre @ event_bytes ev" "push_entry b e'"] Cons.prems by auto
  have "parse_entries ?log (length pre) (length (event_bytes ev) + ?n) a = Some a'"
    using parse_entries_next [OF ge e c] IH(1) by simp
  moreover have "entries a' = entries a @ e' # new"
    using IH(2) em by (simp add: push_entry_def emitted_def)
  moreover have "same_measurement (raw_entry ev) e'" using em by (simp add: emitted_def)
  ultimately show ?case
    using IH(3) by (intro exI [of _ a'] exI [of _ "e' # new"]) (simp add: add.assoc)
qed

lemma header_skip_spec_id:
  assumes "length sha1 = 20" and "length data < 2 ^ 32"
  shows "header_skip (spec_id_header pcr sha1 data @ rest) = Some (length (spec_id_header pcr sha1 data))"
proof -
  let ?log = "spec_id_header pcr sha1 data @ rest"
  have "ReadU32LE ?log 4 = Some EV_NO_ACTION"
    unfolding spec_id_header_def
    by (rule le32.rd_wr_at [where post = "sha1 @ u32_le (of_nat (length data)) @ data @ rest"]) simp_all
  moreover have "ReadU32LE ?log 28 = Some (of_nat (length data))"
    unfolding spec_id_header_def
    by (rule le32.rd_wr_at [where post = "data @ rest"]) (simp_all add: assms(1))
  moreover have "unat (of_nat (length data) :: u32) = length data"
    unfolding unat_of_nat using assms(2) by simp
  moreover have "length (spec_id_header pcr sha1 data) = 32 + length data"
    by (simp add: spec_id_header_def assms(1))
  ultimately show ?thesis by (simp add: header_skip_def Let_def)
qed

lemma counts_partition:
  "\<forall>e \<in> set es. classification e \<in> classes \<Longrightarrow>
   count_class ''verified'' es + count_class ''policy'' es + count_class ''unknown'' es = length es"
  by (induction es) (auto simp: count_class_def classes_def)

lemma set_verdict_keeps:
  "entries (set_verdict a) = entries a" "secureBootEnabled (set_verdict a) = secureBootEnabled a"
  "unknownCount (set_verdict a) = unknownCount a" "verifiedCount (set_verdict a) = verifiedCount a"
  "policyCount (set_verdict a) = policyCount a"
  by (simp_all add: set_verdict_def)

lemma set_verdict_cases:
  "verdict (set_verdict a) = (if \<not> secureBootEnabled a then ''FAIL''
     else if unknownCount a = 0 then ''PASS'' else ''WARNING'')"
  by (simp add: set_verdict_def)

section \<open>Properties\<close>

text \<open>C20. The event log is untrusted: for every byte vector the parser and the analysis return, and no step
  reads outside the log or outside the data of an event.\<close>

theorem event_log_memory_safe: "defined (ParseAndAnalyzeEventLog rawLog)"
  by (rule ParseAndAnalyze_total)

text \<open>C24. A log as firmware writes it, a Spec ID header and any number of events with up to eight digests
  of the known algorithms, is parsed into exactly these events in order; when the log is cut anywhere
  inside a further event, the events before it are all kept and the partial one is discarded.\<close>

theorem event_log_parses_and_truncates:
  assumes "\<forall>ev \<in> set evs. wf_event ev" and "wf_event ev'" and "k < length (event_bytes ev')"
    and "length sha1 = 20" and "length data < 2 ^ 32"
  shows "\<exists>a. ParseAndAnalyzeEventLog (spec_id_header pcr sha1 data @ concat (map event_bytes evs)
        @ take k (event_bytes ev')) = Some a
      \<and> list_all2 same_measurement (map raw_entry evs) (entries a)"
proof -
  let ?h = "spec_id_header pcr sha1 data"
  let ?log = "?h @ concat (map event_bytes evs) @ take k (event_bytes ev')"
  obtain a new where "parse_entries ?log (length ?h) (length (concat (map event_bytes evs)) + k) new_analysis = Some a"
    and "entries a = entries new_analysis @ new" "list_all2 same_measurement (map raw_entry evs) new"
    using parse_entries_encoded [OF assms(1-3), of ?h new_analysis] by blast
  moreover have "length ?log - length ?h = length (concat (map event_bytes evs)) + k"
    using assms(3) by simp
  ultimately show ?thesis
    using header_skip_spec_id [OF assms(4,5)]
    by (intro exI [of _ "set_verdict a"]) (simp add: ParseAndAnalyzeEventLog_def set_verdict_keeps new_analysis_def)
qed

definition sample_event :: tcg_event where
  "sample_event = \<lparr>ev_pcr = 7, ev_type = EV_SEPARATOR, ev_digests = [(0x0004, replicate 20 1)], ev_data = [0, 0, 0, 0]\<rparr>"

theorem event_log_parses_and_truncates_witness:
  "\<exists>a. ParseAndAnalyzeEventLog (spec_id_header 0 (replicate 20 0) [1, 2, 3]
        @ concat (map event_bytes [sample_event, sample_event]) @ take 30 (event_bytes sample_event)) = Some a
      \<and> list_all2 same_measurement (map raw_entry [sample_event, sample_event]) (entries a)"
proof (rule event_log_parses_and_truncates)
  have wf: "wf_event sample_event"
    by (simp add: wf_event_def sample_event_def wf_digests_def digest_size_def)
  then show "\<forall>ev \<in> set [sample_event, sample_event]. wf_event ev" "wf_event sample_event" by simp_all
  show "30 < length (event_bytes sample_event)"
    by (simp add: length_event_bytes sample_event_def digests_bytes_def)
qed simp_all



end
