(* ===== verification/Secure_Boot.thy ===== *)
theory Secure_Boot
  imports Event_Log
begin

text \<open>
  \<open>src/boot/secureboot_validator.cpp\<close>: the signature lists inside PK, KEK, db and dbx, the
  classification of their certificates, and the advisory report on the chain. The CryptoAPI calls
  are the fields of a \<open>crypt_api\<close>: which DER buffers open as a certificate, what its names render
  to, and what the hash provider answers. Nothing is assumed about them. \<open>Crypt_Handles\<close> has the calls
  themselves with their handles.
\<close>

section \<open>Certificates\<close>

record 'c crypt_api =
  CertCreateCertificateContext :: "bytes \<Rightarrow> 'c option"
  subject_to_str :: "'c \<Rightarrow> string"
  issuer_to_str :: "'c \<Rightarrow> string"
  CertGetNameString :: "'c \<Rightarrow> string \<Rightarrow> u32 \<times> string"
  CryptAcquireContext :: bool
  CryptCreateHash :: bool
  CryptHashData :: "bytes \<Rightarrow> bool"
  CryptGetHashParam :: "bytes \<Rightarrow> bytes option"

record cert_info =
  subject :: string
  issuer :: string
  thumbprintSha256 :: string
  notBefore :: string
  notAfter :: string
  isMicrosoftCert :: bool
  isKnownOem :: bool
  oemName :: string

definition empty_cert_info :: cert_info where
  "empty_cert_info = \<lparr>subject = [], issuer = [], thumbprintSha256 = [], notBefore = [], notAfter = [],
     isMicrosoftCert = False, isKnownOem = False, oemName = []\<rparr>"

definition MS_UEFI_CA_2011_THUMBPRINT :: string where
  "MS_UEFI_CA_2011_THUMBPRINT = ''46DEF63B5CE61CF8BA0DE2E6639C1019D0ED14F3D65B68D78BA2B0461D4C2D65''"

definition MS_WIN_PCA_2011_THUMBPRINT :: string where
  "MS_WIN_PCA_2011_THUMBPRINT = ''580A6F4CC4E4B669B9EBDC1B2B3E087B80D0678D5E2A7BC341A0DC4B50BF2E27''"

definition MS_KEK_CA_2011_THUMBPRINT :: string where
  "MS_KEK_CA_2011_THUMBPRINT = ''31590BFD89C9D74ED087DFAC6637B34BCA2028A586CA9CF9B79EF23B2C27A4A8''"

definition MS_UEFI_CA_2023_THUMBPRINT :: string where
  "MS_UEFI_CA_2023_THUMBPRINT = ''45A0FA32604773C82433C3B7D59E7466B3AC0C7CEEE2B40EA4EE0E14A0925F28''"

definition PLATFORM_OWNER_NAMES :: "string list" where
  "PLATFORM_OWNER_NAMES = [
     ''Lenovo'', ''Dell'', ''Hewlett-Packard'', ''Hewlett Packard'', ''HP Inc'',
     ''ASUSTeK'', ''ASUS'', ''Acer'', ''Microsoft'', ''Samsung'', ''Toshiba'', ''Fujitsu'',
     ''ASRock'', ''Gigabyte'', ''MSI'', ''Micro-Star'', ''Supermicro'', ''Panasonic'',
     ''Sony'', ''LG Electronics'', ''Razer'', ''Framework'', ''System76'']"

definition FIRMWARE_VENDOR_NAMES :: "string list" where
  "FIRMWARE_VENDOR_NAMES = [''American Megatrends'', ''AMI'', ''Phoenix'', ''Insyde'', ''Intel'', ''Byosoft'']"

definition UNTRUSTED_PK_MARKERS :: "string list" where
  "UNTRUSTED_PK_MARKERS = [''DO NOT TRUST'', ''DO_NOT_TRUST'', ''Test PK'', ''TestPK'', ''Insyde Test'',
     ''Default PK'', ''Sample'', ''Do Not Ship'']"

definition ToUpper :: "string \<Rightarrow> string" where
  "ToUpper s = map c_toupper s"

definition CertThumbprint :: "'c crypt_api \<Rightarrow> bytes \<Rightarrow> string" where
  "CertThumbprint api der =
     (if \<not> CryptAcquireContext api then []
      else if \<not> CryptCreateHash api then []
      else if \<not> CryptHashData api der then []
      else case CryptGetHashParam api der of
             None \<Rightarrow> []
           | Some digest \<Rightarrow> hex_render hex_upper (vec_resize 32 digest))"

definition szOID_ORGANIZATION_NAME :: string where
  "szOID_ORGANIZATION_NAME = ''2.5.4.10''"

definition szOID_COMMON_NAME :: string where
  "szOID_COMMON_NAME = ''2.5.4.3''"

definition RdnValue :: "'c crypt_api \<Rightarrow> 'c \<Rightarrow> string \<Rightarrow> string" where
  "RdnValue api ctx oid = (let (n, s) = CertGetNameString api ctx oid in if n > 1 then s else [])"

definition is_microsoft :: "string \<Rightarrow> string \<Rightarrow> bool" where
  "is_microsoft thumbUpper org \<longleftrightarrow>
     (if thumbUpper = MS_UEFI_CA_2011_THUMBPRINT \<or> thumbUpper = MS_WIN_PCA_2011_THUMBPRINT
         \<or> thumbUpper = MS_KEK_CA_2011_THUMBPRINT \<or> thumbUpper = MS_UEFI_CA_2023_THUMBPRINT
      then True
      else if ContainsNoCase org ''Microsoft Corporation'' then True else False)"

text \<open>The three loops over the name tables, in their order and with their early returns.\<close>

definition classify_pk :: "string \<Rightarrow> string \<Rightarrow> cert_info \<Rightarrow> cert_info" where
  "classify_pk cn org info =
     (if list_ex (\<lambda>m. ContainsNoCase cn m \<or> ContainsNoCase org m) UNTRUSTED_PK_MARKERS
      then info\<lparr>oemName := ''untrusted-default-key''\<rparr>
      else if list_ex (ContainsNoCase org) FIRMWARE_VENDOR_NAMES
      then info\<lparr>oemName := ''firmware-vendor''\<rparr>
      else case find (ContainsNoCase org) PLATFORM_OWNER_NAMES of
             None \<Rightarrow> info
           | Some n \<Rightarrow> info\<lparr>isKnownOem := True, oemName := n\<rparr>)"

definition ParseDerCertificate :: "'c crypt_api \<Rightarrow> bytes \<Rightarrow> cert_info" where
  "ParseDerCertificate api der =
     (case CertCreateCertificateContext api der of
        None \<Rightarrow> empty_cert_info
      | Some ctx \<Rightarrow>
          let info = empty_cert_info\<lparr>subject := subject_to_str api ctx, issuer := issuer_to_str api ctx,
                thumbprintSha256 := CertThumbprint api der\<rparr>;
              thumbUpper = ToUpper (thumbprintSha256 info);
              org = RdnValue api ctx szOID_ORGANIZATION_NAME;
              cn = RdnValue api ctx szOID_COMMON_NAME;
              info = info\<lparr>isMicrosoftCert := is_microsoft thumbUpper org\<rparr>
          in classify_pk cn org info)"

section \<open>Signature lists\<close>

definition EFI_CERT_X509_GUID :: bytes where
  "EFI_CERT_X509_GUID = [0xa1, 0x59, 0xc0, 0xa5, 0xe4, 0x94, 0xa7, 0x4a,
     0x87, 0xb5, 0xab, 0x15, 0x5c, 0x2b, 0xf0, 0x72]"

definition EFI_CERT_SHA256_GUID :: bytes where
  "EFI_CERT_SHA256_GUID = [0x26, 0x16, 0xc4, 0xc1, 0x4c, 0x50, 0x92, 0x40,
     0xac, 0xa9, 0x41, 0xf9, 0x36, 0x93, 0x43, 0x28]"

text \<open>
  The walk over the entries of one X.509 list at \<open>p\<close>. The caller only starts it when \<open>sigSize > 16\<close>;
  the second conjunct of its guard says so again, since without it the recursion would not end.
\<close>

function x509_entries ::
    "'c crypt_api \<Rightarrow> bytes \<Rightarrow> nat \<Rightarrow> nat \<Rightarrow> nat \<Rightarrow> nat \<Rightarrow> cert_info list \<Rightarrow> cert_info list option" where
  "x509_entries api raw p listSize sigSize offset certs =
     (if offset + sigSize \<le> listSize \<and> 0 < sigSize
      then let certLen = sigSize - 16; certData = p + offset + 16
        in if certLen > 0 \<and> certLen < 65536
        then do {
          der \<leftarrow> vec_range raw certData (certData + certLen);
          let info = ParseDerCertificate api der;
          x509_entries api raw p listSize sigSize (offset + sigSize)
            (if subject info \<noteq> [] then certs @ [info] else certs)
        }
        else x509_entries api raw p listSize sigSize (offset + sigSize) certs
      else Some certs)"
  by pat_completeness auto
termination
  by (relation "measure (\<lambda>(api, raw, p, listSize, sigSize, offset, certs). Suc listSize - offset)") auto

declare x509_entries.simps [simp del]

function signature_lists ::
    "'c crypt_api \<Rightarrow> bytes \<Rightarrow> nat \<Rightarrow> nat \<Rightarrow> cert_info list \<Rightarrow> nat \<Rightarrow> (cert_info list \<times> nat) option" where
  "signature_lists api raw p remaining certs sha256Entries =
     (if remaining \<ge> 28
      then do {
        sigType \<leftarrow> vec_range raw p (p + 16);
        listSize \<leftarrow> ReadU32LE raw (p + 16);
        headerSize \<leftarrow> ReadU32LE raw (p + 20);
        sigSize \<leftarrow> ReadU32LE raw (p + 24);
        if listSize = 0 \<or> unat listSize > remaining then Some (certs, sha256Entries)
        else do {
          let isX509 = (sigType = EFI_CERT_X509_GUID);
          let isSha256 = (sigType = EFI_CERT_SHA256_GUID);
          let entriesOffset = 28 + unat headerSize;
          certs \<leftarrow> (if isX509 \<and> sigSize > 16
             then x509_entries api raw p (unat listSize) (unat sigSize) entriesOffset certs
             else Some certs);
          let sha256Entries =
            (if \<not> (isX509 \<and> sigSize > 16) \<and> isSha256 \<and> sigSize > 16 \<and> entriesOffset < unat listSize
             then sha256Entries + (unat listSize - entriesOffset) div unat sigSize
             else sha256Entries);
          signature_lists api raw (p + unat listSize) (remaining - unat listSize) certs sha256Entries
        }
      }
      else Some (certs, sha256Entries))"
  by pat_completeness auto
termination
  by (relation "measure (\<lambda>(api, raw, p, remaining, certs, n). remaining)") (auto simp: unat_gt_0)

declare signature_lists.simps [simp del]

definition INT_MAX :: nat where
  "INT_MAX = 2147483647"

definition ParseEfiSignatureList :: "'c crypt_api \<Rightarrow> bytes \<Rightarrow> (cert_info list \<times> int) option" where
  "ParseEfiSignatureList api variableData = do {
     r \<leftarrow> TryParseEfiVariableData variableData;
     case r of
       None \<Rightarrow> Some ([], 0)
     | Some var \<Rightarrow> do {
         (certs, n) \<leftarrow> signature_lists api variableData (var_data var) (dataBytes var) [] 0;
         Some (certs, if n > INT_MAX then int INT_MAX else int n)
       }
   }"

section \<open>The report\<close>

record secure_boot_report =
  sb_enabled :: bool
  pkCerts :: "cert_info list"
  pkIsKnownOem :: bool
  pkOemName :: string
  kekCerts :: "cert_info list"
  kekHasMicrosoft :: bool
  dbCerts :: "cert_info list"
  dbHasMicrosoftUefiCa2011 :: bool
  dbHasMicrosoftUefiCa2023 :: bool
  dbHasWindowsPca2011 :: bool
  dbxHashCount :: int
  chainValid :: bool
  sb_verdict :: string
  warnings :: "string list"
  errors :: "string list"

definition new_report :: secure_boot_report where
  "new_report = \<lparr>sb_enabled = False, pkCerts = [], pkIsKnownOem = False, pkOemName = [], kekCerts = [],
     kekHasMicrosoft = False, dbCerts = [], dbHasMicrosoftUefiCa2011 = False, dbHasMicrosoftUefiCa2023 = False,
     dbHasWindowsPca2011 = False, dbxHashCount = 0, chainValid = False, sb_verdict = [], warnings = [],
     errors = []\<rparr>"

definition report_pk :: "secure_boot_report \<Rightarrow> cert_info \<Rightarrow> secure_boot_report" where
  "report_pk r c = (if isKnownOem c then r\<lparr>pkIsKnownOem := True, pkOemName := oemName c\<rparr> else r)"

definition report_kek :: "secure_boot_report \<Rightarrow> cert_info \<Rightarrow> secure_boot_report" where
  "report_kek r c = (if isMicrosoftCert c then r\<lparr>kekHasMicrosoft := True\<rparr> else r)"

definition report_db :: "secure_boot_report \<Rightarrow> cert_info \<Rightarrow> secure_boot_report" where
  "report_db r c =
     (let r = (if str_contains (subject c) ''Microsoft Corporation UEFI CA 2011''
               then r\<lparr>dbHasMicrosoftUefiCa2011 := True\<rparr> else r);
          r = (if str_contains (subject c) ''Microsoft UEFI CA 2023'' \<or> str_contains (subject c) ''Windows UEFI CA 2023''
               then r\<lparr>dbHasMicrosoftUefiCa2023 := True\<rparr> else r)
      in if str_contains (subject c) ''Microsoft Windows Production PCA 2011''
         then r\<lparr>dbHasWindowsPca2011 := True\<rparr> else r)"

definition report_variable :: "secure_boot_report \<Rightarrow> string \<Rightarrow> cert_info list \<Rightarrow> int \<Rightarrow> secure_boot_report" where
  "report_variable r varName certs sha256Count =
     (if varName = ''PK'' then foldl report_pk (r\<lparr>pkCerts := certs\<rparr>) certs
     else if varName = ''KEK'' then foldl report_kek (r\<lparr>kekCerts := certs\<rparr>) certs
     else if varName = ''db'' then foldl report_db (r\<lparr>dbCerts := certs\<rparr>) certs
     else if varName = ''dbx'' then r\<lparr>dbxHashCount := sha256Count\<rparr>
     else r)"

definition report_entry ::
    "'c crypt_api \<Rightarrow> secure_boot_report \<Rightarrow> event_log_entry \<Rightarrow> secure_boot_report option" where
  "report_entry api r entry =
     (if pcrIndex entry \<noteq> 7 then Some r
      else if eventType entry \<noteq> EV_EFI_VARIABLE_DRIVER_CONFIG \<and> eventType entry \<noteq> EV_EFI_VARIABLE_BOOT
      then Some r
      else do {
        varName \<leftarrow> ExtractEfiVariableName (eventData entry);
        (certs, sha256Count) \<leftarrow> ParseEfiSignatureList api (eventData entry);
        Some (report_variable r varName certs sha256Count)
      })"

fun report_entries ::
    "'c crypt_api \<Rightarrow> secure_boot_report \<Rightarrow> event_log_entry list \<Rightarrow> secure_boot_report option" where
  "report_entries api r [] = Some r"
| "report_entries api r (e # es) = do { r \<leftarrow> report_entry api r e; report_entries api r es }"

text \<open>The messages of the verdict.\<close>

definition msg_no_pk :: string where
  "msg_no_pk = ''No Platform Key (PK) found '' @ em_dash @ '' Secure Boot is in setup mode''"

definition msg_unknown_oem :: string where
  "msg_unknown_oem = ''Platform Key issuer not recognized as a known OEM: ''"

definition msg_no_kek :: string where
  "msg_no_kek = ''KEK does not contain Microsoft's KEK certificate '' @ em_dash
     @ '' boot chain may not be controlled by Microsoft''"

definition msg_no_db :: string where
  "msg_no_db = ''db does not contain Microsoft's UEFI CA '' @ em_dash
     @ '' only Microsoft-signed boot components are trusted on standard systems''"

definition msg_validated :: "string \<Rightarrow> string" where
  "msg_validated oem = ''Secure Boot chain fully validated '' @ em_dash @ '' PK from '' @ oem
     @ '', Microsoft UEFI CA in db, Microsoft KEK present''"

definition report_verdict :: "secure_boot_report \<Rightarrow> secure_boot_report" where
  "report_verdict r =
     (if \<not> sb_enabled r then
        r\<lparr>errors := errors r @ [''Secure Boot is DISABLED''], sb_verdict := ''FAIL: '' @ ''Secure Boot disabled''\<rparr>
      else if pkCerts r = [] then
        r\<lparr>errors := errors r @ [msg_no_pk], sb_verdict := ''FAIL: '' @ ''No Platform Key''\<rparr>
      else
        let r = (if \<not> pkIsKnownOem r
              then r\<lparr>warnings := warnings r @ [msg_unknown_oem
                 @ (if pkCerts r = [] then ''(none)'' else subject (hd (pkCerts r)))]\<rparr> else r);
            r = (if \<not> kekHasMicrosoft r then r\<lparr>errors := errors r @ [msg_no_kek]\<rparr> else r);
            r = (if \<not> dbHasMicrosoftUefiCa2011 r \<and> \<not> dbHasMicrosoftUefiCa2023 r
              then r\<lparr>errors := errors r @ [msg_no_db]\<rparr> else r)
        in if errors r \<noteq> [] then r\<lparr>chainValid := False, sb_verdict := ''FAIL: '' @ hd (errors r)\<rparr>
        else if warnings r \<noteq> [] then r\<lparr>chainValid := True, sb_verdict := ''WARNING: '' @ hd (warnings r)\<rparr>
        else r\<lparr>chainValid := True, sb_verdict := ''PASS: '' @ msg_validated (pkOemName r)\<rparr>)"

definition ValidateSecureBootChain :: "'c crypt_api \<Rightarrow> bytes \<Rightarrow> secure_boot_report option" where
  "ValidateSecureBootChain api rawEventLog = do {
     analysis \<leftarrow> ParseAndAnalyzeEventLog rawEventLog;
     r \<leftarrow> report_entries api (new_report\<lparr>sb_enabled := secureBootEnabled analysis\<rparr>) (entries analysis);
     Some (report_verdict r)
   }"

section \<open>Memory safety\<close>

lemma x509_entries_safe:
  "p + listSize \<le> length raw \<Longrightarrow> 16 < sigSize \<Longrightarrow> defined (x509_entries api raw p listSize sigSize offset certs)"
proof (induction api raw p listSize sigSize offset certs rule: x509_entries.induct)
  case (1 api raw p listSize sigSize offset certs)
  show ?case
  proof (cases "offset + sigSize \<le> listSize")
    case False
    then show ?thesis by (subst x509_entries.simps) simp
  next
    case True
    then have le: "offset + sigSize \<le> listSize \<and> 0 < sigSize" using 1(4) by simp
    show ?thesis
    proof (cases "sigSize - 16 < 65536")
      case False
      then have "defined (x509_entries api raw p listSize sigSize (offset + sigSize) certs)"
        using 1(2) [OF le refl refl] 1(3,4) by simp
      then show ?thesis using le False by (subst x509_entries.simps) simp
    next
      case small: True
      let ?d = "take (sigSize - 16) (drop (p + offset + 16) raw)"
      have d: "vec_range raw (p + offset + 16) (p + offset + 16 + (sigSize - 16)) = Some ?d"
        using le 1(3,4) by (simp add: vec_range_def)
      have cond: "0 < sigSize - 16 \<and> sigSize - 16 < 65536" using small 1(4) by simp
      have "defined (x509_entries api raw p listSize sigSize (offset + sigSize)
          (if subject (ParseDerCertificate api ?d) \<noteq> [] then certs @ [ParseDerCertificate api ?d] else certs))"
        using 1(1) [OF le refl refl cond d refl] 1(3,4) by simp
      then show ?thesis
        using le cond d by (subst x509_entries.simps) (simp add: Let_def)
    qed
  qed
qed

lemma signature_lists_safe:
  "p + remaining \<le> length raw \<Longrightarrow> defined (signature_lists api raw p remaining certs n)"
proof (induction remaining arbitrary: p certs n rule: less_induct)
  case (less remaining)
  show ?case
  proof (cases "28 \<le> remaining")
    case False
    then show ?thesis by (subst signature_lists.simps) simp
  next
    case True
    obtain l h s where r: "ReadU32LE raw (p + 16) = Some l" "ReadU32LE raw (p + 20) = Some h"
      "ReadU32LE raw (p + 24) = Some s"
      using True less.prems le32.rd_iff_inside [of raw "p + 16"] le32.rd_iff_inside [of raw "p + 20"]
        le32.rd_iff_inside [of raw "p + 24"] by auto
    have ty: "vec_range raw p (p + 16) = Some (take 16 (drop p raw))"
      using True less.prems by (simp add: vec_range_def)
    show ?thesis
    proof (cases "l = 0 \<or> unat l > remaining")
      case stop: True
      then show ?thesis using True r ty by (subst signature_lists.simps) auto
    next
      case False
      then have l: "0 < unat l" "unat l \<le> remaining" by (simp_all add: unat_gt_0)
      have rec: "defined (signature_lists api raw (p + unat l) (remaining - unat l) certs' n')" for certs' n'
        using less.IH [of "remaining - unat l" "p + unat l"] l less.prems by simp
      have inner: "defined (x509_entries api raw p (unat l) (unat s) offset certs)" if "16 < s" for offset
        by (rule x509_entries_safe) (use l less.prems that in \<open>simp_all add: word_less_nat_alt\<close>)
      show ?thesis
        using True False r ty rec inner
        by (subst signature_lists.simps) (simp add: Let_def never_faults)
    qed
  qed
qed

lemma ParseEfiSignatureList_safe:
  assumes "length variableData < 2 ^ 64"
  shows "defined (ParseEfiSignatureList api variableData)"
  using TryParse_spans [OF _ assms] signature_lists_safe
  by (auto simp: ParseEfiSignatureList_def never_faults spans_inside_def split: option.split)

lemma report_entry_safe:
  assumes "length (eventData e) < 2 ^ 64"
  shows "defined (report_entry api r e)"
  using ExtractEfiVariableName_total [OF assms] ParseEfiSignatureList_safe [OF assms, of api]
  by (simp add: report_entry_def never_faults)

lemma report_entries_safe:
  "\<forall>e \<in> set es. length (eventData e) < 2 ^ 64 \<Longrightarrow> defined (report_entries api r es)"
  by (induction es arbitrary: r) (simp_all add: never_faults report_entry_safe)

lemma parse_entries_sizes:
  assumes "p + remaining \<le> length log" and "parse_entries log p remaining a = Some a'"
    and "\<forall>e \<in> set (entries a). length (eventData e) < 2 ^ 32"
  shows "\<forall>e \<in> set (entries a'). length (eventData e) < 2 ^ 32"
  using assms
proof (induction log p remaining a rule: parse_entries.induct)
  case (1 log p remaining a)
  show ?case
  proof (cases "\<exists>x. 12 \<le> remaining \<and> parse_entry log p remaining = Some (Some x)")
    case True
    then obtain e p' remaining' where ge: "12 \<le> remaining"
      and e: "parse_entry log p remaining = Some (Some (e, p', remaining'))" by auto
    with 1(3) obtain b e' where c: "classify_entry a e = Some (b, e')"
      and rec: "parse_entries log p' remaining' (push_entry b e') = Some a'"
      by (subst (asm) parse_entries.simps) (auto simp: push_entry_def split: bind_splits)
    have inv: "p' + remaining' = p + remaining" "length (eventData e) < 2 ^ 32"
      using parse_entry_safe(2) [OF 1(2) ge e] by simp_all
    have "\<forall>x \<in> set (entries (push_entry b e')). length (eventData x) < 2 ^ 32"
      using classify_emitted [OF c] 1(4) inv(2) by (auto simp: emitted_def same_measurement_def push_entry_def)
    then show ?thesis
      using 1(1) [OF ge e refl refl refl c refl] rec inv(1) 1(2) by (simp add: push_entry_def)
  next
    case False
    then have "a' = a"
      using 1(3) by (subst (asm) parse_entries.simps) (auto split: if_splits bind_splits option.splits)
    then show ?thesis using 1(4) by simp
  qed
qed

lemma analysis_entry_sizes:
  assumes "ParseAndAnalyzeEventLog log = Some a"
  shows "\<forall>e \<in> set (entries a). length (eventData e) < 2 ^ 32"
proof -
  obtain n b where n: "header_skip log = Some n"
    and b: "parse_entries log n (length log - n) new_analysis = Some b" and a: "a = set_verdict b"
    using assms by (auto simp: ParseAndAnalyzeEventLog_def split: bind_splits)
  have "n + (length log - n) \<le> length log" using header_skip_safe [of log] n by auto
  from parse_entries_sizes [OF this b] show ?thesis
    by (simp add: a set_verdict_keeps new_analysis_def)
qed

lemma ValidateSecureBootChain_total: "defined (ValidateSecureBootChain api rawEventLog)"
proof -
  obtain a where a: "ParseAndAnalyzeEventLog rawEventLog = Some a"
    using ParseAndAnalyze_total by (auto simp: defined_def)
  have "\<forall>e \<in> set (entries a). length (eventData e) < 2 ^ 64"
    using analysis_entry_sizes [OF a] by fastforce
  from report_entries_safe [OF this] show ?thesis
    by (simp add: ValidateSecureBootChain_def a never_faults)
qed

section \<open>The signature lists firmware writes\<close>

record signature_list =
  sl_type :: bytes
  sl_header :: bytes
  sl_size :: nat
  sl_entries :: "(bytes \<times> bytes) list"

definition entries_bytes :: "(bytes \<times> bytes) list \<Rightarrow> bytes" where
  "entries_bytes es = concat (map (\<lambda>(owner, data). owner @ data) es)"

definition list_size :: "signature_list \<Rightarrow> nat" where
  "list_size l = 28 + length (sl_header l) + length (entries_bytes (sl_entries l))"

definition signature_list_bytes :: "signature_list \<Rightarrow> bytes" where
  "signature_list_bytes l = sl_type l @ u32_le (of_nat (list_size l)) @ u32_le (of_nat (length (sl_header l)))
     @ u32_le (of_nat (16 + sl_size l)) @ sl_header l @ entries_bytes (sl_entries l)"

definition wf_signature_list :: "signature_list \<Rightarrow> bool" where
  "wf_signature_list l \<longleftrightarrow> length (sl_type l) = 16 \<and> 0 < sl_size l \<and> sl_size l < 65536
     \<and> (\<forall>(owner, data) \<in> set (sl_entries l). length owner = 16 \<and> length data = sl_size l)
     \<and> list_size l < 2 ^ 32"

definition certs_of :: "'c crypt_api \<Rightarrow> signature_list \<Rightarrow> cert_info list" where
  "certs_of api l = (if sl_type l = EFI_CERT_X509_GUID
     then filter (\<lambda>c. subject c \<noteq> []) (map (\<lambda>(owner, data). ParseDerCertificate api data) (sl_entries l)) else [])"

definition hashes_of :: "signature_list \<Rightarrow> nat" where
  "hashes_of l = (if sl_type l = EFI_CERT_SHA256_GUID then length (sl_entries l) else 0)"

lemma length_entries_bytes:
  "\<forall>(owner, data) \<in> set es. length owner = 16 \<and> length data = n \<Longrightarrow> length (entries_bytes es) = length es * (16 + n)"
  by (induction es) (auto simp: entries_bytes_def)

lemma length_signature_list_bytes: "length (sl_type l) = 16 \<Longrightarrow> length (signature_list_bytes l) = list_size l"
  by (simp add: signature_list_bytes_def list_size_def)

lemma x509_entries_step:
  assumes "offset + sigSize \<le> listSize" and "16 < sigSize" and "sigSize - 16 < 65536"
    and "vec_range raw (p + offset + 16) (p + offset + 16 + (sigSize - 16)) = Some der"
  shows "x509_entries api raw p listSize sigSize offset certs =
    x509_entries api raw p listSize sigSize (offset + sigSize)
      (certs @ filter (\<lambda>c. subject c \<noteq> []) [ParseDerCertificate api der])"
  using assms by (subst x509_entries.simps) (simp add: Let_def)

text \<open>
  The walk over well-formed entries. The bytes before the entries of the list are \<open>before\<close>, of which
  the list itself begins after \<open>p\<close>.
\<close>

lemma x509_entries_encoded:
  assumes "\<forall>(owner, data) \<in> set es. length owner = 16 \<and> length data = n" and "0 < n" and "n < 65536"
    and "length before = p + offset" and "listSize = offset + length (entries_bytes es)"
  shows "x509_entries api (before @ entries_bytes es @ post) p listSize (16 + n) offset certs
    = Some (certs @ filter (\<lambda>c. subject c \<noteq> []) (map (\<lambda>(owner, data). ParseDerCertificate api data) es))"
  using assms
proof (induction es arbitrary: before offset certs)
  case Nil
  then show ?case by (subst x509_entries.simps) (simp add: entries_bytes_def)
next
  case (Cons x es)
  obtain owner data where x: "x = (owner, data)" by (cases x)
  have len: "length owner = 16" "length data = n" using Cons.prems(1) by (auto simp: x)
  let ?raw = "before @ entries_bytes (x # es) @ post"
  have raw: "?raw = (before @ owner @ data) @ entries_bytes es @ post"
    by (simp add: entries_bytes_def x)
  have range: "vec_range ?raw (p + offset + 16) (p + offset + 16 + (16 + n - 16)) = Some data"
    using vec_range_append [of "before @ owner" data "entries_bytes es @ post"] len Cons.prems(4)
    by (simp add: entries_bytes_def x add.assoc)
  have size: "length (entries_bytes (x # es)) = 16 + n + length (entries_bytes es)"
    by (simp add: entries_bytes_def x len)
  have "x509_entries api ?raw p listSize (16 + n) offset certs
      = x509_entries api ?raw p listSize (16 + n) (offset + (16 + n))
          (certs @ filter (\<lambda>c. subject c \<noteq> []) [ParseDerCertificate api data])"
    by (rule x509_entries_step [OF _ _ _ range]) (use Cons.prems(2,3,5) size in simp_all)
  also have "\<dots> = Some ((certs @ filter (\<lambda>c. subject c \<noteq> []) [ParseDerCertificate api data])
      @ filter (\<lambda>c. subject c \<noteq> []) (map (\<lambda>(owner, data). ParseDerCertificate api data) es))"
    unfolding raw
    by (rule Cons.IH) (use Cons.prems len size in auto)
  finally show ?case by (simp add: x)
qed

lemma signature_lists_step:
  assumes "28 \<le> remaining" and "vec_range raw p (p + 16) = Some ty"
    and "ReadU32LE raw (p + 16) = Some l" and "ReadU32LE raw (p + 20) = Some h" and "ReadU32LE raw (p + 24) = Some s"
    and "l \<noteq> 0" and "unat l \<le> remaining" and "16 < s"
    and "ty = EFI_CERT_X509_GUID \<Longrightarrow>
      x509_entries api raw p (unat l) (unat s) (28 + unat h) certs = Some (certs @ new)"
    and "ty \<noteq> EFI_CERT_X509_GUID \<Longrightarrow> new = []"
    and "k = (if ty = EFI_CERT_SHA256_GUID \<and> 28 + unat h < unat l then (unat l - (28 + unat h)) div unat s else 0)"
  shows "signature_lists api raw p remaining certs n =
    signature_lists api raw (p + unat l) (remaining - unat l) (certs @ new) (n + k)"
proof -
  have "EFI_CERT_X509_GUID \<noteq> EFI_CERT_SHA256_GUID"
    by (simp add: EFI_CERT_X509_GUID_def EFI_CERT_SHA256_GUID_def)
  then show ?thesis
    using assms by (subst signature_lists.simps) (auto simp: Let_def)
qed

lemma signature_lists_encoded:
  assumes "\<forall>l \<in> set ls. wf_signature_list l" and "length junk < 28"
  shows "signature_lists api (pre @ concat (map signature_list_bytes ls) @ junk @ post) (length pre)
      (length (concat (map signature_list_bytes ls)) + length junk) certs n
    = Some (certs @ concat (map (certs_of api) ls), n + sum_list (map hashes_of ls))"
  using assms(1)
proof (induction ls arbitrary: pre certs n)
  case Nil
  then show ?case using assms(2) by (subst signature_lists.simps) simp
next
  case (Cons l ls)
  have wf: "length (sl_type l) = 16" "0 < sl_size l" "sl_size l < 65536" "list_size l < 2 ^ 32"
    and es: "\<forall>(owner, data) \<in> set (sl_entries l). length owner = 16 \<and> length data = sl_size l"
    using Cons.prems by (simp_all add: wf_signature_list_def)
  let ?rest = "concat (map signature_list_bytes ls) @ junk @ post"
  let ?raw = "pre @ signature_list_bytes l @ ?rest"
  let ?L = "of_nat (list_size l) :: u32" and ?H = "of_nat (length (sl_header l)) :: u32"
    and ?S = "of_nat (16 + sl_size l) :: u32"
  have u: "unat ?L = list_size l" "unat ?S = 16 + sl_size l" "unat ?H = length (sl_header l)"
    unfolding unat_of_nat using wf(3,4) by (simp_all add: list_size_def)
  have raw: "?raw = pre @ sl_type l @ u32_le ?L @ u32_le ?H @ u32_le ?S @ sl_header l
      @ entries_bytes (sl_entries l) @ ?rest"
    by (simp add: signature_list_bytes_def)
  have ty: "vec_range ?raw (length pre) (length pre + 16) = Some (sl_type l)"
    unfolding raw using vec_range_append [of pre "sl_type l"] wf(1) by simp
  have L: "ReadU32LE ?raw (length pre + 16) = Some ?L"
    unfolding raw by (rule le32.rd_wr_at [where post = "u32_le ?H @ u32_le ?S @ sl_header l
      @ entries_bytes (sl_entries l) @ ?rest"]) (simp_all add: wf(1))
  have H: "ReadU32LE ?raw (length pre + 20) = Some ?H"
    unfolding raw by (rule le32.rd_wr_at [where post = "u32_le ?S @ sl_header l
      @ entries_bytes (sl_entries l) @ ?rest"]) (simp_all add: wf(1))
  have S: "ReadU32LE ?raw (length pre + 24) = Some ?S"
    unfolding raw by (rule le32.rd_wr_at [where post = "sl_header l
      @ entries_bytes (sl_entries l) @ ?rest"]) (simp_all add: wf(1))
  have x509: "x509_entries api ?raw (length pre) (unat ?L) (unat ?S) (28 + unat ?H) certs
      = Some (certs @ certs_of api l)" if "sl_type l = EFI_CERT_X509_GUID"
  proof -
    have certs: "certs_of api l = filter (\<lambda>c. subject c \<noteq> [])
        (map (\<lambda>(owner, data). ParseDerCertificate api data) (sl_entries l))"
      using that by (simp add: certs_of_def)
    let ?before = "pre @ sl_type l @ u32_le ?L @ u32_le ?H @ u32_le ?S @ sl_header l"
    have "length ?before = length pre + (28 + length (sl_header l))" by (simp add: wf(1))
    from x509_entries_encoded [OF es wf(2,3) this, of "list_size l" api ?rest certs]
    show ?thesis unfolding u raw certs by (simp add: list_size_def)
  qed
  have hashes: "hashes_of l = (if sl_type l = EFI_CERT_SHA256_GUID \<and> 28 + unat ?H < unat ?L
      then (unat ?L - (28 + unat ?H)) div unat ?S else 0)"
    unfolding u by (auto simp: hashes_of_def list_size_def length_entries_bytes [OF es])
  have rem: "length (concat (map signature_list_bytes (l # ls))) + length junk
      = list_size l + (length (concat (map signature_list_bytes ls)) + length junk)"
    by (simp add: length_signature_list_bytes wf(1))
  have "signature_lists api ?raw (length pre) (list_size l + (length (concat (map signature_list_bytes ls)) + length junk)) certs n
      = signature_lists api ?raw (length pre + unat ?L)
          (list_size l + (length (concat (map signature_list_bytes ls)) + length junk) - unat ?L)
          (certs @ certs_of api l) (n + hashes_of l)"
  proof (rule signature_lists_step [OF _ ty L H S _ _ _ x509 _ hashes])
    show "28 \<le> list_size l + (length (concat (map signature_list_bytes ls)) + length junk)"
      by (simp add: list_size_def)
    show "?L \<noteq> 0" using u(1) by (metis list_size_def add_is_0 unat_0 zero_neq_numeral)
    show "16 < ?S" using u(2) wf(2) by (simp add: word_less_nat_alt)
  qed (simp_all add: u certs_of_def)
  also have "\<dots> = Some ((certs @ certs_of api l) @ concat (map (certs_of api) ls),
      (n + hashes_of l) + sum_list (map hashes_of ls))"
    using Cons.IH [of "pre @ signature_list_bytes l" "certs @ certs_of api l" "n + hashes_of l"] Cons.prems
    by (simp add: u length_signature_list_bytes wf(1))
  finally show ?case
    unfolding rem by (simp add: add.assoc)
qed

section \<open>What the report says\<close>

text \<open>The certificates one entry of the log contributes to the variable \<open>name\<close>.\<close>

definition entry_certs :: "'c crypt_api \<Rightarrow> string \<Rightarrow> event_log_entry \<Rightarrow> cert_info list" where
  "entry_certs api name e =
     (if pcrIndex e = 7 \<and> (eventType e = EV_EFI_VARIABLE_DRIVER_CONFIG \<or> eventType e = EV_EFI_VARIABLE_BOOT)
         \<and> ExtractEfiVariableName (eventData e) = Some name
      then fst (the (ParseEfiSignatureList api (eventData e))) else [])"

definition log_certs :: "'c crypt_api \<Rightarrow> string \<Rightarrow> event_log_entry list \<Rightarrow> cert_info list" where
  "log_certs api name es = concat (map (entry_certs api name) es)"

definition is_uefi_ca :: "cert_info \<Rightarrow> bool" where
  "is_uefi_ca c \<longleftrightarrow> str_contains (subject c) ''Microsoft Corporation UEFI CA 2011''
     \<or> str_contains (subject c) ''Microsoft UEFI CA 2023'' \<or> str_contains (subject c) ''Windows UEFI CA 2023''"

definition has_uefi_ca :: "secure_boot_report \<Rightarrow> bool" where
  "has_uefi_ca r \<longleftrightarrow> dbHasMicrosoftUefiCa2011 r \<or> dbHasMicrosoftUefiCa2023 r"

text \<open>The part of the report that only the verdict writes.\<close>

definition same_frame :: "secure_boot_report \<Rightarrow> secure_boot_report \<Rightarrow> bool" where
  "same_frame r r' \<longleftrightarrow> sb_enabled r' = sb_enabled r \<and> errors r' = errors r \<and> warnings r' = warnings r"

lemma foldl_report_pk:
  "pkIsKnownOem (foldl report_pk r cs) \<longleftrightarrow> pkIsKnownOem r \<or> (\<exists>c \<in> set cs. isKnownOem c)"
  "kekHasMicrosoft (foldl report_pk r cs) = kekHasMicrosoft r" "has_uefi_ca (foldl report_pk r cs) = has_uefi_ca r"
  "same_frame r (foldl report_pk r cs)"
  by (induction cs arbitrary: r) (auto simp: report_pk_def has_uefi_ca_def same_frame_def)

lemma foldl_report_kek:
  "kekHasMicrosoft (foldl report_kek r cs) \<longleftrightarrow> kekHasMicrosoft r \<or> (\<exists>c \<in> set cs. isMicrosoftCert c)"
  "pkIsKnownOem (foldl report_kek r cs) = pkIsKnownOem r" "has_uefi_ca (foldl report_kek r cs) = has_uefi_ca r"
  "same_frame r (foldl report_kek r cs)"
  by (induction cs arbitrary: r) (auto simp: report_kek_def has_uefi_ca_def same_frame_def)

lemma report_db_fields:
  "has_uefi_ca (report_db r c) \<longleftrightarrow> has_uefi_ca r \<or> is_uefi_ca c"
  "pkIsKnownOem (report_db r c) = pkIsKnownOem r" "kekHasMicrosoft (report_db r c) = kekHasMicrosoft r"
  "same_frame r (report_db r c)"
  by (auto simp: report_db_def has_uefi_ca_def is_uefi_ca_def same_frame_def Let_def)

lemma foldl_report_db:
  "has_uefi_ca (foldl report_db r cs) \<longleftrightarrow> has_uefi_ca r \<or> (\<exists>c \<in> set cs. is_uefi_ca c)"
  "pkIsKnownOem (foldl report_db r cs) = pkIsKnownOem r" "kekHasMicrosoft (foldl report_db r cs) = kekHasMicrosoft r"
  "same_frame r (foldl report_db r cs)"
proof (induction cs arbitrary: r)
  case (Cons c cs)
  { case 1 show ?case using Cons(1) report_db_fields(1) by auto }
  { case 2 show ?case using Cons(2) report_db_fields(2) by simp }
  { case 3 show ?case using Cons(3) report_db_fields(3) by simp }
  { case 4 show ?case using Cons(4) [of "report_db r c"] report_db_fields(4) [of r c] by (simp add: same_frame_def) }
qed (simp_all add: same_frame_def)

lemma report_entry_fields:
  assumes "report_entry api r e = Some r'"
  shows "(pkIsKnownOem r' \<longleftrightarrow> pkIsKnownOem r \<or> (\<exists>c \<in> set (entry_certs api ''PK'' e). isKnownOem c))
    \<and> (kekHasMicrosoft r' \<longleftrightarrow> kekHasMicrosoft r \<or> (\<exists>c \<in> set (entry_certs api ''KEK'' e). isMicrosoftCert c))
    \<and> (has_uefi_ca r' \<longleftrightarrow> has_uefi_ca r \<or> (\<exists>c \<in> set (entry_certs api ''db'' e). is_uefi_ca c))
    \<and> same_frame r r'"
proof (cases "pcrIndex e = 7 \<and> (eventType e = EV_EFI_VARIABLE_DRIVER_CONFIG \<or> eventType e = EV_EFI_VARIABLE_BOOT)")
  case False
  then have "r' = r" using assms by (auto simp: report_entry_def split: if_splits)
  moreover have "entry_certs api name e = []" for name using False by (auto simp: entry_certs_def)
  ultimately show ?thesis by (simp add: same_frame_def)
next
  case True
  obtain name where n: "ExtractEfiVariableName (eventData e) = Some name"
    using assms True by (auto simp: report_entry_def split: bind_splits)
  obtain certs count where c: "ParseEfiSignatureList api (eventData e) = Some (certs, count)"
    using assms True n by (auto simp: report_entry_def split: bind_splits)
  have certs: "entry_certs api m e = (if m = name then certs else [])" for m
    using True n c by (simp add: entry_certs_def)
  have r': "r' = report_variable r name certs count"
    using assms True n c by (auto simp: report_entry_def)
  consider "name = ''PK''" | "name = ''KEK''" | "name = ''db''" | "name \<notin> {''PK'', ''KEK'', ''db''}" by blast
  then show ?thesis
  proof cases
    case 1
    then show ?thesis
      using foldl_report_pk [of "r\<lparr>pkCerts := certs\<rparr>" certs]
      by (simp add: r' report_variable_def certs same_frame_def has_uefi_ca_def)
  next
    case 2
    then show ?thesis
      using foldl_report_kek [of "r\<lparr>kekCerts := certs\<rparr>" certs]
      by (simp add: r' report_variable_def certs same_frame_def has_uefi_ca_def)
  next
    case 3
    then show ?thesis
      using foldl_report_db [of "r\<lparr>dbCerts := certs\<rparr>" certs]
      by (simp add: r' report_variable_def certs same_frame_def has_uefi_ca_def)
  next
    case 4
    then have ne: "name \<noteq> ''PK''" "name \<noteq> ''KEK''" "name \<noteq> ''db''" by simp_all
    then have "r' = (if name = ''dbx'' then r\<lparr>dbxHashCount := count\<rparr> else r)"
      unfolding r' report_variable_def by (simp only: if_False)
    then show ?thesis using ne ne [symmetric] by (simp add: certs same_frame_def has_uefi_ca_def)
  qed
qed

lemma report_entries_fields:
  "report_entries api r es = Some r' \<Longrightarrow>
    (pkIsKnownOem r' \<longleftrightarrow> pkIsKnownOem r \<or> (\<exists>c \<in> set (log_certs api ''PK'' es). isKnownOem c))
    \<and> (kekHasMicrosoft r' \<longleftrightarrow> kekHasMicrosoft r \<or> (\<exists>c \<in> set (log_certs api ''KEK'' es). isMicrosoftCert c))
    \<and> (has_uefi_ca r' \<longleftrightarrow> has_uefi_ca r \<or> (\<exists>c \<in> set (log_certs api ''db'' es). is_uefi_ca c))
    \<and> same_frame r r'"
proof (induction es arbitrary: r)
  case (Cons e es)
  then obtain r1 where r1: "report_entry api r e = Some r1" "report_entries api r1 es = Some r'"
    by (auto split: bind_splits)
  have "log_certs api name (e # es) = entry_certs api name e @ log_certs api name es" for name
    by (simp add: log_certs_def)
  then show ?case
    using report_entry_fields [OF r1(1)] Cons.IH [OF r1(2)] by (simp add: same_frame_def) blast
qed (simp add: log_certs_def same_frame_def)

lemma report_verdict_fields:
  assumes "errors r = []" and "warnings r = []" and "\<not> chainValid r"
  shows "(chainValid (report_verdict r) \<longleftrightarrow> sb_enabled r \<and> pkCerts r \<noteq> [] \<and> kekHasMicrosoft r \<and> has_uefi_ca r)
    \<and> (errors (report_verdict r) = [] \<longleftrightarrow> chainValid (report_verdict r))
    \<and> take 6 (sb_verdict (report_verdict r)) =
      (if \<not> chainValid (report_verdict r) then ''FAIL: '' else if pkIsKnownOem r then ''PASS: '' else ''WARNIN'')
    \<and> pkCerts (report_verdict r) = pkCerts r \<and> sb_enabled (report_verdict r) = sb_enabled r
    \<and> pkIsKnownOem (report_verdict r) = pkIsKnownOem r"
proof (cases "sb_enabled r \<and> pkCerts r \<noteq> []")
  case False
  then show ?thesis
    by (cases "sb_enabled r") (simp_all add: report_verdict_def assms)
next
  case True
  then show ?thesis
    by (cases "pkIsKnownOem r"; cases "kekHasMicrosoft r";
        cases "dbHasMicrosoftUefiCa2011 r \<or> dbHasMicrosoftUefiCa2023 r")
      (simp_all add: report_verdict_def has_uefi_ca_def assms Let_def)
qed

lemma same_frame_ok:
  "same_frame r r' \<Longrightarrow> errors r = [] \<Longrightarrow> warnings r = [] \<Longrightarrow> errors r' = [] \<and> warnings r' = []"
  by (simp add: same_frame_def)

lemma report_entry_chainValid: "report_entry api r e = Some r' \<Longrightarrow> chainValid r' = chainValid r"
proof -
  have "chainValid (foldl report_pk r cs) = chainValid r" "chainValid (foldl report_kek r cs) = chainValid r"
    "chainValid (foldl report_db r cs) = chainValid r" for r cs
    by (induction cs arbitrary: r) (auto simp: report_pk_def report_kek_def report_db_def Let_def)
  then have "chainValid (report_variable r name cs n) = chainValid r" for name cs n
    by (simp add: report_variable_def)
  then show "report_entry api r e = Some r' \<Longrightarrow> chainValid r' = chainValid r"
    by (auto simp: report_entry_def split: if_splits bind_splits)
qed

lemma report_entries_chainValid: "report_entries api r es = Some r' \<Longrightarrow> chainValid r' = chainValid r"
  by (induction es arbitrary: r) (auto dest: report_entry_chainValid split: bind_splits)

section \<open>Properties\<close>

text \<open>C21. The Secure Boot report is computed without reading outside the log for every byte vector and
  every behaviour of the certificate and hash providers.\<close>

theorem secure_boot_report_memory_safe: "defined (ValidateSecureBootChain api rawEventLog)"
  by (rule ValidateSecureBootChain_total)

text \<open>C31. The variables firmware measures are parsed exactly: from any sequence of signature lists, with
  extra list headers and a tail too short for another list, every X.509 entry that opens as a
  certificate is returned in order, and the number of SHA-256 entries is counted.\<close>

theorem signature_lists_parse:
  assumes "length guid = 16" and "length name \<le> 1024" and "\<forall>l \<in> set ls. wf_signature_list l" and "length junk < 28"
    and "length (efi_variable_bytes guid name (concat (map signature_list_bytes ls) @ junk)) < 2 ^ 64"
    and "sum_list (map hashes_of ls) \<le> INT_MAX"
  shows "ParseEfiSignatureList api (efi_variable_bytes guid name (concat (map signature_list_bytes ls) @ junk))
    = Some (concat (map (certs_of api) ls), int (sum_list (map hashes_of ls)))"
proof -
  let ?data = "concat (map signature_list_bytes ls) @ junk"
  let ?pre = "guid @ u64_le (of_nat (length name)) @ u64_le (of_nat (length ?data)) @ utf16_ascii name"
  have raw: "efi_variable_bytes guid name ?data = ?pre @ concat (map signature_list_bytes ls) @ junk @ []"
    by (simp add: efi_variable_bytes_def)
  have pre: "length ?pre = 32 + 2 * length name" using assms(1) by simp
  have "signature_lists api (efi_variable_bytes guid name ?data) (32 + 2 * length name) (length ?data) [] 0
      = Some (concat (map (certs_of api) ls), sum_list (map hashes_of ls))"
    using signature_lists_encoded [OF assms(3,4), of api ?pre "[]" "[]" 0]
    unfolding raw pre by simp
  then show ?thesis
    using efi_variable_bytes_parse [OF assms(1,2,5)] assms(6) by (simp add: ParseEfiSignatureList_def)
qed

definition sample_crypt_api :: "bytes crypt_api" where
  "sample_crypt_api = \<lparr>CertCreateCertificateContext = (\<lambda>der. Some der), subject_to_str = (\<lambda>_. ''CN=PK''),
     issuer_to_str = (\<lambda>_. ''CN=PK''), CertGetNameString = (\<lambda>_ _. (0, [])), CryptAcquireContext = False,
     CryptCreateHash = False, CryptHashData = (\<lambda>_. False), CryptGetHashParam = (\<lambda>_. None)\<rparr>"

definition sample_lists :: "signature_list list" where
  "sample_lists = [
     \<lparr>sl_type = EFI_CERT_X509_GUID, sl_header = [1, 2], sl_size = 3, sl_entries = [(replicate 16 0, [7, 8, 9])]\<rparr>,
     \<lparr>sl_type = EFI_CERT_SHA256_GUID, sl_header = [], sl_size = 32,
      sl_entries = [(replicate 16 0, replicate 32 1), (replicate 16 0, replicate 32 2)]\<rparr>]"

theorem signature_lists_parse_witness:
  "ParseEfiSignatureList sample_crypt_api
      (efi_variable_bytes (replicate 16 0) ''db'' (concat (map signature_list_bytes sample_lists) @ [1]))
    = Some (concat (map (certs_of sample_crypt_api) sample_lists), int (sum_list (map hashes_of sample_lists)))"
proof (rule signature_lists_parse)
  show wf: "\<forall>l \<in> set sample_lists. wf_signature_list l"
    by (simp add: sample_lists_def wf_signature_list_def list_size_def entries_bytes_def
        EFI_CERT_X509_GUID_def EFI_CERT_SHA256_GUID_def)
  have "length (concat (map signature_list_bytes sample_lists)) < 1000"
    by (simp add: sample_lists_def signature_list_bytes_def entries_bytes_def
        EFI_CERT_X509_GUID_def EFI_CERT_SHA256_GUID_def)
  then show "length (efi_variable_bytes (replicate 16 0) ''db''
      (concat (map signature_list_bytes sample_lists) @ [1])) < 2 ^ 64"
    by (simp add: efi_variable_bytes_def)
  show "sum_list (map hashes_of sample_lists) \<le> INT_MAX"
    by (simp add: sample_lists_def hashes_of_def INT_MAX_def)
qed simp_all

text \<open>A Platform Key whose common name or organization carries a default or test marker is never
  reported as keyed by its owner, whatever vendor or owner names it also carries, and neither is one
  whose organization names a firmware vendor; an owner-keyed certificate names a platform owner in
  its organization and none of the others.\<close>

theorem default_keys_are_not_owner_keyed:
  assumes "CertCreateCertificateContext api der = Some ctx"
  shows "isKnownOem (ParseDerCertificate api der) \<longleftrightarrow>
      (\<forall>m \<in> set UNTRUSTED_PK_MARKERS. \<not> ContainsNoCase (RdnValue api ctx szOID_COMMON_NAME) m
         \<and> \<not> ContainsNoCase (RdnValue api ctx szOID_ORGANIZATION_NAME) m)
      \<and> (\<forall>m \<in> set FIRMWARE_VENDOR_NAMES. \<not> ContainsNoCase (RdnValue api ctx szOID_ORGANIZATION_NAME) m)
      \<and> (\<exists>m \<in> set PLATFORM_OWNER_NAMES. ContainsNoCase (RdnValue api ctx szOID_ORGANIZATION_NAME) m)"
proof -
  define cn where "cn = RdnValue api ctx szOID_COMMON_NAME"
  define org where "org = RdnValue api ctx szOID_ORGANIZATION_NAME"
  have "isKnownOem (classify_pk cn org info) \<longleftrightarrow>
      \<not> list_ex (\<lambda>m. ContainsNoCase cn m \<or> ContainsNoCase org m) UNTRUSTED_PK_MARKERS
      \<and> \<not> list_ex (ContainsNoCase org) FIRMWARE_VENDOR_NAMES
      \<and> list_ex (ContainsNoCase org) PLATFORM_OWNER_NAMES" if "\<not> isKnownOem info" for info
    using that by (auto simp: classify_pk_def find_None_iff find_Some_iff list_ex_iff split: option.split)
  then show ?thesis
    using assms by (simp add: ParseDerCertificate_def Let_def empty_cert_info_def list_ex_iff
        flip: cn_def org_def)
qed

definition ami_test_api :: "bytes crypt_api" where
  "ami_test_api = sample_crypt_api\<lparr>CertGetNameString := (\<lambda>_ oid.
     if oid = szOID_COMMON_NAME then (26, ''DO NOT TRUST - AMI Test PK'') else (9, ''Dell Inc''))\<rparr>"

theorem default_keys_are_not_owner_keyed_witness:
  "isKnownOem (ParseDerCertificate ami_test_api [1]) \<longleftrightarrow>
      (\<forall>m \<in> set UNTRUSTED_PK_MARKERS. \<not> ContainsNoCase (RdnValue ami_test_api [1] szOID_COMMON_NAME) m
         \<and> \<not> ContainsNoCase (RdnValue ami_test_api [1] szOID_ORGANIZATION_NAME) m)
      \<and> (\<forall>m \<in> set FIRMWARE_VENDOR_NAMES. \<not> ContainsNoCase (RdnValue ami_test_api [1] szOID_ORGANIZATION_NAME) m)
      \<and> (\<exists>m \<in> set PLATFORM_OWNER_NAMES. ContainsNoCase (RdnValue ami_test_api [1] szOID_ORGANIZATION_NAME) m)"
  by (rule default_keys_are_not_owner_keyed) (simp add: ami_test_api_def sample_crypt_api_def)



end
