(* ===== verification/Tpm_Wire.thy ===== *)
theory Tpm_Wire
  imports Endian
begin

text \<open>
  What a TPM 2.0 command is, independently of the code that writes one: a tag, a command code,
  handles, an authorization area when the tag announces sessions, and parameters. \<open>encode_command\<close>
  is the image the TPM specification prescribes (the size field counts the whole command, every
  sized buffer carries its length) and \<open>decode_command\<close> reads an image back, refusing a command
  whose size field or whose authorization size is wrong. The marshalling code is proved against
  this pair, so a wrong length or a misplaced field in the code is a command that does not decode.
\<close>

section \<open>Commands\<close>

record tpm_session =
  s_handle :: u32
  s_nonce :: bytes
  s_attributes :: u8
  s_hmac :: bytes

record tpm_command =
  c_sessions_tag :: bool
  c_code :: u32
  c_handles :: "u32 list"
  c_auth :: "tpm_session list"
  c_params :: bytes

definition ST_NO_SESSIONS :: u16 where "ST_NO_SESSIONS = 0x8001"
definition ST_SESSIONS :: u16 where "ST_SESSIONS = 0x8002"

section \<open>The image of a command\<close>

definition sized_buffer :: "bytes \<Rightarrow> bytes" where
  "sized_buffer b = u16_be (of_nat (length b)) @ b"

definition encode_session :: "tpm_session \<Rightarrow> bytes" where
  "encode_session s =
     u32_be (s_handle s) @ sized_buffer (s_nonce s) @ [s_attributes s] @ sized_buffer (s_hmac s)"

definition encode_body :: "tpm_command \<Rightarrow> bytes" where
  "encode_body c = concat (map u32_be (c_handles c))
     @ (if c_sessions_tag c
        then (let a = concat (map encode_session (c_auth c)) in u32_be (of_nat (length a)) @ a)
        else [])
     @ c_params c"

definition encode_command :: "tpm_command \<Rightarrow> bytes" where
  "encode_command c = u16_be (if c_sessions_tag c then ST_SESSIONS else ST_NO_SESSIONS)
     @ u32_be (of_nat (10 + length (encode_body c))) @ u32_be (c_code c) @ encode_body c"

text \<open>A command the format can express: lengths fit their fields.\<close>

definition wf_session :: "tpm_session \<Rightarrow> bool" where
  "wf_session s \<longleftrightarrow> length (s_nonce s) < 2 ^ 16 \<and> length (s_hmac s) < 2 ^ 16"

definition wf_command :: "tpm_command \<Rightarrow> bool" where
  "wf_command c \<longleftrightarrow> list_all wf_session (c_auth c) \<and> (\<not> c_sessions_tag c \<longrightarrow> c_auth c = [])
     \<and> 10 + length (encode_body c) < 2 ^ 32"

section \<open>Reading an image back\<close>

definition take_u16 :: "bytes \<Rightarrow> (u16 \<times> bytes) option" where
  "take_u16 bs = do { v \<leftarrow> ReadU16 bs 0; Some (v, drop 2 bs) }"

definition take_u32 :: "bytes \<Rightarrow> (u32 \<times> bytes) option" where
  "take_u32 bs = do { v \<leftarrow> ReadU32 bs 0; Some (v, drop 4 bs) }"

definition take_bytes :: "nat \<Rightarrow> bytes \<Rightarrow> (bytes \<times> bytes) option" where
  "take_bytes n bs = (if n \<le> length bs then Some (take n bs, drop n bs) else None)"

definition take_sized :: "bytes \<Rightarrow> (bytes \<times> bytes) option" where
  "take_sized bs = do { (n, bs) \<leftarrow> take_u16 bs; take_bytes (unat n) bs }"

fun take_handles :: "nat \<Rightarrow> bytes \<Rightarrow> (u32 list \<times> bytes) option" where
  "take_handles 0 bs = Some ([], bs)"
| "take_handles (Suc n) bs = do {
     (h, bs) \<leftarrow> take_u32 bs;
     (hs, bs) \<leftarrow> take_handles n bs;
     Some (h # hs, bs)
   }"

definition take_session :: "bytes \<Rightarrow> (tpm_session \<times> bytes) option" where
  "take_session bs = do {
     (h, bs) \<leftarrow> take_u32 bs;
     (nonce, bs) \<leftarrow> take_sized bs;
     (attrs, bs) \<leftarrow> take_bytes 1 bs;
     (hmac, bs) \<leftarrow> take_sized bs;
     Some (\<lparr>s_handle = h, s_nonce = nonce, s_attributes = attrs ! 0, s_hmac = hmac\<rparr>, bs)
   }"

lemma take_session_shrinks: "take_session bs = Some (s, bs') \<Longrightarrow> length bs' < length bs"
  by (auto simp: take_session_def take_u32_def take_sized_def take_u16_def take_bytes_def
      split: bind_splits if_splits) arith

function take_sessions :: "bytes \<Rightarrow> tpm_session list option" where
  "take_sessions bs =
     (if bs = [] then Some []
      else case take_session bs of
             None \<Rightarrow> None
           | Some (s, bs') \<Rightarrow> map_option ((#) s) (take_sessions bs'))"
  by pat_completeness auto
termination
  by (relation "measure length") (auto dest: take_session_shrinks)

text \<open>The number of handles is a property of the command code, so it is an argument.\<close>

definition decode_command :: "nat \<Rightarrow> bytes \<Rightarrow> tpm_command option" where
  "decode_command n bs = do {
     (tag, r) \<leftarrow> take_u16 bs;
     (size, r) \<leftarrow> take_u32 r;
     (code, r) \<leftarrow> take_u32 r;
     if unat size \<noteq> length bs \<or> (tag \<noteq> ST_SESSIONS \<and> tag \<noteq> ST_NO_SESSIONS) then None
     else do {
       (hs, r) \<leftarrow> take_handles n r;
       if tag = ST_SESSIONS
       then do {
         (asize, r) \<leftarrow> take_u32 r;
         (a, r) \<leftarrow> take_bytes (unat asize) r;
         ss \<leftarrow> take_sessions a;
         Some \<lparr>c_sessions_tag = True, c_code = code, c_handles = hs, c_auth = ss, c_params = r\<rparr>
       }
       else Some \<lparr>c_sessions_tag = False, c_code = code, c_handles = hs, c_auth = [], c_params = r\<rparr>
     }
   }"

section \<open>RSA key templates\<close>

text \<open>
  A \<open>TPM2B_PUBLIC\<close> holding an RSA key: type, name algorithm, attributes, policy, a symmetric
  definition (none, or algorithm, key bits and mode), a signing scheme (none, or scheme and hash),
  key bits, exponent and the modulus slot.
\<close>

record rsa_public =
  r_name_alg :: u16
  r_attributes :: u32
  r_policy :: bytes
  r_symmetric :: "(u16 \<times> u16 \<times> u16) option"
  r_scheme :: "(u16 \<times> u16) option"
  r_key_bits :: u16
  r_exponent :: u32
  r_unique :: bytes

definition take_symmetric :: "bytes \<Rightarrow> ((u16 \<times> u16 \<times> u16) option \<times> bytes) option" where
  "take_symmetric bs = do {
     (alg, bs) \<leftarrow> take_u16 bs;
     if alg = 0x0010 then Some (None, bs)
     else do { (bits, bs) \<leftarrow> take_u16 bs; (mode, bs) \<leftarrow> take_u16 bs; Some (Some (alg, bits, mode), bs) }
   }"

definition take_scheme :: "bytes \<Rightarrow> ((u16 \<times> u16) option \<times> bytes) option" where
  "take_scheme bs = do {
     (alg, bs) \<leftarrow> take_u16 bs;
     if alg = 0x0010 then Some (None, bs)
     else do { (hash, bs) \<leftarrow> take_u16 bs; Some (Some (alg, hash), bs) }
   }"

definition decode_rsa_area :: "bytes \<Rightarrow> rsa_public option" where
  "decode_rsa_area bs = do {
     (type, bs) \<leftarrow> take_u16 bs;
     (name, bs) \<leftarrow> take_u16 bs;
     (attrs, bs) \<leftarrow> take_u32 bs;
     (policy, bs) \<leftarrow> take_sized bs;
     (sym, bs) \<leftarrow> take_symmetric bs;
     (scheme, bs) \<leftarrow> take_scheme bs;
     (bits, bs) \<leftarrow> take_u16 bs;
     (exponent, bs) \<leftarrow> take_u32 bs;
     (unique, bs) \<leftarrow> take_sized bs;
     if type \<noteq> 0x0001 \<or> bs \<noteq> [] then None
     else Some \<lparr>r_name_alg = name, r_attributes = attrs, r_policy = policy, r_symmetric = sym,
            r_scheme = scheme, r_key_bits = bits, r_exponent = exponent, r_unique = unique\<rparr>
   }"

text \<open>The parameters of \<open>TPM2_CreatePrimary\<close>: user authorization and sealed data (the sensitive
  area), the template, the outside information and the number of creation PCR selections.\<close>

record create_primary =
  cp_user_auth :: bytes
  cp_data :: bytes
  cp_public :: rsa_public
  cp_outside :: bytes
  cp_pcr_count :: u32

definition decode_create_primary :: "bytes \<Rightarrow> create_primary option" where
  "decode_create_primary bs = do {
     (sensitive, bs) \<leftarrow> take_sized bs;
     (user_auth, sensitive) \<leftarrow> take_sized sensitive;
     (data, sensitive) \<leftarrow> take_sized sensitive;
     (area, bs) \<leftarrow> take_sized bs;
     pub \<leftarrow> decode_rsa_area area;
     (outside, bs) \<leftarrow> take_sized bs;
     (count, bs) \<leftarrow> take_u32 bs;
     if sensitive \<noteq> [] \<or> bs \<noteq> [] then None
     else Some \<lparr>cp_user_auth = user_auth, cp_data = data, cp_public = pub, cp_outside = outside,
            cp_pcr_count = count\<rparr>
   }"

text \<open>Bits of \<open>TPMA_OBJECT\<close>.\<close>

definition object_bit :: "rsa_public \<Rightarrow> nat \<Rightarrow> bool" where
  "object_bit p n \<longleftrightarrow> bit (r_attributes p) n"

section \<open>Decoding inverts encoding\<close>

declare take_sessions.simps [simp del]

lemma length_sized_buffer [simp]: "length (sized_buffer b) = 2 + length b"
  by (simp add: sized_buffer_def)

lemma take_u16_image [simp]: "take_u16 (u16_be v @ r) = Some (v, r)"
  by (simp add: take_u16_def be16.rd_wr_front)

lemma take_u32_image [simp]: "take_u32 (u32_be v @ r) = Some (v, r)"
  by (simp add: take_u32_def be32.rd_wr_front)

lemma take_bytes_image [simp]: "length b = n \<Longrightarrow> take_bytes n (b @ r) = Some (b, r)"
  by (simp add: take_bytes_def)

lemma take_bytes_one [simp]: "take_bytes (Suc 0) (b # r) = Some ([b], r)"
  by (simp add: take_bytes_def)

lemma take_sized_image [simp]:
  "length b < 2 ^ 16 \<Longrightarrow> take_sized (sized_buffer b @ r) = Some (b, r)"
  by (simp add: take_sized_def sized_buffer_def unat_of_nat)

lemma take_u16_last [simp]: "take_u16 (u16_be v) = Some (v, [])"
  using take_u16_image [of v "[]"] by simp

lemma take_u32_last [simp]: "take_u32 (u32_be v) = Some (v, [])"
  using take_u32_image [of v "[]"] by simp

lemma take_sized_last [simp]: "length b < 2 ^ 16 \<Longrightarrow> take_sized (sized_buffer b) = Some (b, [])"
  using take_sized_image [of b "[]"] by simp

lemma take_handles_image [simp]:
  "take_handles (length hs) (concat (map u32_be hs) @ r) = Some (hs, r)"
  by (induction hs) auto

lemma take_session_image: "wf_session s \<Longrightarrow> take_session (encode_session s @ r) = Some (s, r)"
  by (simp add: take_session_def encode_session_def wf_session_def)

lemma encode_session_nonempty: "encode_session s \<noteq> []"
  by (simp add: encode_session_def u32_be_def)

lemma take_sessions_image:
  "list_all wf_session ss \<Longrightarrow> take_sessions (concat (map encode_session ss)) = Some ss"
proof (induction ss)
  case Nil
  then show ?case by (simp add: take_sessions.simps)
next
  case (Cons s ss)
  then show ?case
    by (simp add: take_sessions.simps [of "encode_session s @ concat (map encode_session ss)"]
        encode_session_nonempty take_session_image)
qed

lemma length_auth_le_body:
  "c_sessions_tag c \<Longrightarrow> length (concat (map encode_session (c_auth c))) \<le> length (encode_body c)"
  by (simp add: encode_body_def Let_def)

lemma decode_encode:
  assumes "wf_command c" and n: "n = length (c_handles c)"
  shows "decode_command n (encode_command c) = Some c"
proof (cases "c_sessions_tag c")
  case True
  let ?a = "concat (map encode_session (c_auth c))"
  have "length ?a < 2 ^ 32" and len: "length (encode_body c) + 10 < 2 ^ 32"
    using assms(1) length_auth_le_body [OF True] by (auto simp: wf_command_def)
  then have a: "unat (of_nat (length ?a) :: u32) = length ?a"
    by (simp add: unat_of_nat)
  have body: "encode_body c =
      concat (map u32_be (c_handles c)) @ u32_be (of_nat (length ?a)) @ ?a @ c_params c"
    using True by (simp add: encode_body_def Let_def)
  have size: "unat (of_nat (10 + length (encode_body c)) :: u32) = 10 + length (encode_body c)"
    using len by (simp add: unat_of_nat del: of_nat_add)
  have ss: "take_sessions ?a = Some (c_auth c)"
    using assms(1) by (simp add: wf_command_def take_sessions_image)
  show ?thesis
    using True size ss a
    by (simp add: decode_command_def encode_command_def n body ST_SESSIONS_def ST_NO_SESSIONS_def
        del: of_nat_add)
next
  case False
  have len: "length (encode_body c) + 10 < 2 ^ 32" and auth: "c_auth c = []"
    using assms(1) False by (auto simp: wf_command_def)
  have body: "encode_body c = concat (map u32_be (c_handles c)) @ c_params c"
    using False by (simp add: encode_body_def)
  have size: "unat (of_nat (10 + length (encode_body c)) :: u32) = 10 + length (encode_body c)"
    using len by (simp add: unat_of_nat del: of_nat_add)
  show ?thesis
    using False size auth
    by (simp add: decode_command_def encode_command_def n body ST_SESSIONS_def ST_NO_SESSIONS_def
        del: of_nat_add)
qed

end
