(* ===== verification/Tpm_Marshal.thy ===== *)
theory Tpm_Marshal
  imports Tpm_Wire
begin

text \<open>
  The command half of \<open>src/tpm/tpm_commands.cpp\<close>: how each operation of \<open>TpmCommands\<close> appends its
  command to a byte vector, and the back-patching of \<open>commandSize\<close> in \<open>SendCommand\<close>. Each
  \<open><Operation>_command\<close> is the marshalling prefix of the operation of that name. The lemmas at the
  end say which abstract command of \<open>Tpm_Wire\<close> each of them sends.
\<close>

section \<open>Constants\<close>

abbreviation TPM2_CC_PCR_Read :: u32 where "TPM2_CC_PCR_Read \<equiv> 0x0000017E"
abbreviation TPM2_CC_Quote :: u32 where "TPM2_CC_Quote \<equiv> 0x00000158"
abbreviation TPM2_CC_FlushContext :: u32 where "TPM2_CC_FlushContext \<equiv> 0x00000165"
abbreviation TPM2_CC_CreatePrimary :: u32 where "TPM2_CC_CreatePrimary \<equiv> 0x00000131"
abbreviation TPM2_CC_ActivateCredential :: u32 where "TPM2_CC_ActivateCredential \<equiv> 0x00000147"
abbreviation TPM2_CC_StartAuthSession :: u32 where "TPM2_CC_StartAuthSession \<equiv> 0x00000176"
abbreviation TPM2_CC_PolicySecret :: u32 where "TPM2_CC_PolicySecret \<equiv> 0x00000151"
abbreviation TPM2_CC_EvictControl :: u32 where "TPM2_CC_EvictControl \<equiv> 0x00000120"
abbreviation TPM2_CC_ReadPublic :: u32 where "TPM2_CC_ReadPublic \<equiv> 0x00000173"
abbreviation TPM2_CC_NV_Read :: u32 where "TPM2_CC_NV_Read \<equiv> 0x0000014E"
abbreviation TPM2_CC_NV_ReadPublic :: u32 where "TPM2_CC_NV_ReadPublic \<equiv> 0x00000169"

abbreviation TPM2_ST_NO_SESSIONS :: u16 where "TPM2_ST_NO_SESSIONS \<equiv> 0x8001"
abbreviation TPM2_ST_SESSIONS :: u16 where "TPM2_ST_SESSIONS \<equiv> 0x8002"

abbreviation TPM2_ALG_SHA256 :: u16 where "TPM2_ALG_SHA256 \<equiv> 0x000B"
abbreviation TPM2_ALG_RSASSA :: u16 where "TPM2_ALG_RSASSA \<equiv> 0x0014"
abbreviation TPM2_ALG_NULL :: u16 where "TPM2_ALG_NULL \<equiv> 0x0010"

abbreviation TPM2_RH_OWNER :: u32 where "TPM2_RH_OWNER \<equiv> 0x40000001"

definition TPM2_RH_ENDORSEMENT :: u32 where "TPM2_RH_ENDORSEMENT = 0x40000009"

section \<open>Shared parts\<close>

definition BeginCommand :: "bytes \<Rightarrow> u16 \<Rightarrow> u32 \<Rightarrow> bytes" where
  "BeginCommand buf tag commandCode =
     (let buf = WriteU16 buf tag;
          buf = WriteU32 buf 0
      in WriteU32 buf commandCode)"

definition WritePasswordAuth :: "bytes \<Rightarrow> bytes" where
  "WritePasswordAuth buf =
     (let auth = [];
          auth = WriteU32 auth 0x40000009;
          auth = WriteU16 auth 0;
          auth = push_back auth 0x01;
          auth = WriteU16 auth 0;
          buf = WriteU32 buf (of_nat (length auth))
      in WriteBytes buf auth)"

definition ak_attributes :: u32 where
  "ak_attributes = push_bit 1 1 OR push_bit 4 1 OR push_bit 5 1 OR push_bit 6 1
     OR push_bit 16 1 OR push_bit 18 1"

definition WriteAkTemplate :: "bytes \<Rightarrow> bytes" where
  "WriteAkTemplate buf =
     (let pub = [];
          pub = WriteU16 pub 0x0001;
          pub = WriteU16 pub 0x000B;
          pub = WriteU32 pub ak_attributes;
          pub = WriteU16 pub 0;
          pub = WriteU16 pub 0x0010;
          pub = WriteU16 pub 0x0014;
          pub = WriteU16 pub 0x000B;
          pub = WriteU16 pub 2048;
          pub = WriteU32 pub 0;
          pub = WriteU16 pub 256;
          pub = pub @ replicate 256 0;
          buf = WriteU16 buf (of_nat (length pub))
      in WriteBytes buf pub)"

definition ek_attributes :: u32 where
  "ek_attributes = push_bit 1 1 OR push_bit 4 1 OR push_bit 5 1 OR push_bit 7 1
     OR push_bit 16 1 OR push_bit 17 1"

definition EK_POLICY :: bytes where
  "EK_POLICY =
     [0x83, 0x71, 0x97, 0x67, 0x44, 0x84, 0xB3, 0xF8,
      0x1A, 0x90, 0xCC, 0x8D, 0x46, 0xA5, 0xD7, 0x24,
      0xFD, 0x52, 0xD7, 0x6E, 0x06, 0x52, 0x0B, 0x64,
      0xF2, 0xA1, 0xDA, 0x1B, 0x33, 0x14, 0x69, 0xAA]"

definition WriteEkTemplate :: "bytes \<Rightarrow> bytes" where
  "WriteEkTemplate buf =
     (let pub = [];
          pub = WriteU16 pub 0x0001;
          pub = WriteU16 pub 0x000B;
          pub = WriteU32 pub ek_attributes;
          pub = WriteU16 pub 32;
          pub = WriteBytes pub EK_POLICY;
          pub = WriteU16 pub 0x0006;
          pub = WriteU16 pub 128;
          pub = WriteU16 pub 0x0043;
          pub = WriteU16 pub 0x0010;
          pub = WriteU16 pub 2048;
          pub = WriteU32 pub 0;
          pub = WriteU16 pub 256;
          pub = pub @ replicate 256 0;
          buf = WriteU16 buf (of_nat (length pub))
      in WriteBytes buf pub)"

text \<open>The back-patch at the head of \<open>SendCommand\<close>.\<close>

definition patch_command_size :: "bytes \<Rightarrow> bytes" where
  "patch_command_size command =
     (if length command \<ge> 6
      then let size = of_nat (length command) :: u32
           in command[2 := ucast (drop_bit 24 size AND 0xFF), 3 := ucast (drop_bit 16 size AND 0xFF),
                4 := ucast (drop_bit 8 size AND 0xFF), 5 := ucast (size AND 0xFF)]
      else command)"

section \<open>The commands\<close>

definition PcrRead_command :: "u32 \<Rightarrow> bytes" where
  "PcrRead_command pcrIndex =
     (let cmd = BeginCommand [] TPM2_ST_NO_SESSIONS TPM2_CC_PCR_Read;
          cmd = WriteU32 cmd 1;
          cmd = WriteU16 cmd TPM2_ALG_SHA256;
          cmd = push_back cmd 3;
          bitmap = [0, 0, 0];
          bitmap = (if pcrIndex < 24
                    then bitmap[unat (pcrIndex div 8) := push_bit (unat (pcrIndex mod 8)) 1]
                    else bitmap)
      in WriteBytes cmd bitmap)"

fun quote_bitmap :: "bytes \<Rightarrow> u32 list \<Rightarrow> bytes" where
  "quote_bitmap bitmap [] = bitmap"
| "quote_bitmap bitmap (index # indices) =
     quote_bitmap
       (if index < 24
        then bitmap[unat (index div 8) :=
               bitmap ! unat (index div 8) OR push_bit (unat (index mod 8)) 1]
        else bitmap) indices"

definition Quote_command :: "u32 \<Rightarrow> bytes \<Rightarrow> u32 list \<Rightarrow> bytes" where
  "Quote_command akHandle nonce pcrIndices =
     (let cmd = BeginCommand [] TPM2_ST_SESSIONS TPM2_CC_Quote;
          cmd = WriteU32 cmd akHandle;
          cmd = WritePasswordAuth cmd;
          cmd = WriteTPM2B cmd nonce;
          cmd = WriteU16 cmd TPM2_ALG_RSASSA;
          cmd = WriteU16 cmd TPM2_ALG_SHA256;
          cmd = WriteU32 cmd 1;
          cmd = WriteU16 cmd TPM2_ALG_SHA256;
          cmd = push_back cmd 3;
          bitmap = quote_bitmap [0, 0, 0] pcrIndices
      in WriteBytes cmd bitmap)"

definition FlushContext_command :: "u32 \<Rightarrow> bytes" where
  "FlushContext_command handle =
     (let cmd = BeginCommand [] TPM2_ST_NO_SESSIONS TPM2_CC_FlushContext
      in WriteU32 cmd handle)"

definition CreateAndLoadAk_command :: "u32 \<Rightarrow> bytes" where
  "CreateAndLoadAk_command parentHandle =
     (let cmd = BeginCommand [] TPM2_ST_SESSIONS TPM2_CC_CreatePrimary;
          cmd = WriteU32 cmd parentHandle;
          cmd = WritePasswordAuth cmd;
          cmd = WriteU16 cmd 4;
          cmd = WriteU16 cmd 0;
          cmd = WriteU16 cmd 0;
          cmd = WriteAkTemplate cmd;
          cmd = WriteU16 cmd 0
      in WriteU32 cmd 0)"

definition CreateEk_command :: bytes where
  "CreateEk_command =
     (let cmd = BeginCommand [] TPM2_ST_SESSIONS TPM2_CC_CreatePrimary;
          cmd = WriteU32 cmd 0x4000000B;
          cmd = WritePasswordAuth cmd;
          cmd = WriteU16 cmd 4;
          cmd = WriteU16 cmd 0;
          cmd = WriteU16 cmd 0;
          cmd = WriteEkTemplate cmd;
          cmd = WriteU16 cmd 0
      in WriteU32 cmd 0)"

definition sessionNonce :: bytes where
  "sessionNonce = map (\<lambda>i. of_nat (i * 7 + 3)) [0..<32]"

definition StartAuthSession_command :: bytes where
  "StartAuthSession_command =
     (let startCmd = BeginCommand [] TPM2_ST_NO_SESSIONS TPM2_CC_StartAuthSession;
          startCmd = WriteU32 startCmd 0x40000007;
          startCmd = WriteU32 startCmd 0x40000007;
          startCmd = WriteU16 startCmd 32;
          startCmd = WriteBytes startCmd sessionNonce;
          startCmd = WriteU16 startCmd 0;
          startCmd = push_back startCmd 0x01;
          startCmd = WriteU16 startCmd 0x0010
      in WriteU16 startCmd 0x000B)"

definition PolicySecret_command :: "u32 \<Rightarrow> bytes" where
  "PolicySecret_command sessionHandle =
     (let policyCmd = BeginCommand [] TPM2_ST_SESSIONS TPM2_CC_PolicySecret;
          policyCmd = WriteU32 policyCmd 0x4000000B;
          policyCmd = WriteU32 policyCmd sessionHandle;
          policyCmd = WritePasswordAuth policyCmd;
          policyCmd = WriteU16 policyCmd 0;
          policyCmd = WriteU16 policyCmd 0;
          policyCmd = WriteU16 policyCmd 0
      in WriteU32 policyCmd 0)"

definition activate_auth_area :: "u32 \<Rightarrow> bytes" where
  "activate_auth_area sessionHandle =
     (let authArea = [];
          authArea = WriteU32 authArea 0x40000009;
          authArea = WriteU16 authArea 0;
          authArea = push_back authArea 0x01;
          authArea = WriteU16 authArea 0;
          authArea = WriteU32 authArea sessionHandle;
          authArea = WriteU16 authArea 0;
          authArea = push_back authArea 0x01
      in WriteU16 authArea 0)"

definition ActivateCredential_command :: "u32 \<Rightarrow> u32 \<Rightarrow> u32 \<Rightarrow> bytes \<Rightarrow> bytes \<Rightarrow> bytes" where
  "ActivateCredential_command akHandle ekHandle sessionHandle credentialBlob encryptedSecret =
     (let authArea = activate_auth_area sessionHandle;
          actCmd = BeginCommand [] TPM2_ST_SESSIONS TPM2_CC_ActivateCredential;
          actCmd = WriteU32 actCmd akHandle;
          actCmd = WriteU32 actCmd ekHandle;
          actCmd = WriteU32 actCmd (of_nat (length authArea));
          actCmd = WriteBytes actCmd authArea;
          actCmd = WriteBytes actCmd credentialBlob
      in WriteBytes actCmd encryptedSecret)"

definition ReadPublic_command :: "u32 \<Rightarrow> bytes" where
  "ReadPublic_command persistentHandle =
     (let cmd = BeginCommand [] TPM2_ST_NO_SESSIONS TPM2_CC_ReadPublic
      in WriteU32 cmd persistentHandle)"

text \<open>Both uses of \<open>TPM2_EvictControl\<close>: with the slot itself as the object to clear it.\<close>

definition EvictControl_command :: "u32 \<Rightarrow> u32 \<Rightarrow> bytes" where
  "EvictControl_command objectHandle persistentHandle =
     (let cmd = BeginCommand [] TPM2_ST_SESSIONS TPM2_CC_EvictControl;
          cmd = WriteU32 cmd TPM2_RH_OWNER;
          cmd = WriteU32 cmd objectHandle;
          cmd = WritePasswordAuth cmd
      in WriteU32 cmd persistentHandle)"

definition NV_ReadPublic_command :: "u32 \<Rightarrow> bytes" where
  "NV_ReadPublic_command nvIndex =
     (let cmd = BeginCommand [] TPM2_ST_NO_SESSIONS TPM2_CC_NV_ReadPublic
      in WriteU32 cmd nvIndex)"

definition NV_Read_command :: "u32 \<Rightarrow> u16 \<Rightarrow> u16 \<Rightarrow> bytes" where
  "NV_Read_command nvIndex want readOffset =
     (let readCmd = BeginCommand [] TPM2_ST_SESSIONS TPM2_CC_NV_Read;
          readCmd = WriteU32 readCmd nvIndex;
          readCmd = WriteU32 readCmd nvIndex;
          readCmd = WritePasswordAuth readCmd;
          readCmd = WriteU16 readCmd want
      in WriteU16 readCmd readOffset)"

section \<open>What is sent\<close>

definition password_session :: tpm_session where
  "password_session =
     \<lparr>s_handle = 0x40000009, s_nonce = [], s_attributes = 0x01, s_hmac = []\<rparr>"

definition policy_session :: "u32 \<Rightarrow> tpm_session" where
  "policy_session h = \<lparr>s_handle = h, s_nonce = [], s_attributes = 0x01, s_hmac = []\<rparr>"

lemma empty_sized_buffer: "sized_buffer [] = u16_be 0"
  by (simp add: sized_buffer_def)

lemma wf_password_session [simp]: "wf_session password_session"
  by (simp add: wf_session_def password_session_def)

lemma wf_policy_session [simp]: "wf_session (policy_session h)"
  by (simp add: wf_session_def policy_session_def)

lemma encode_password_session:
  "encode_session password_session = u32_be 0x40000009 @ u16_be 0 @ [0x01] @ u16_be 0"
  by (simp add: encode_session_def password_session_def empty_sized_buffer)

lemma WritePasswordAuth_append [writer_simps]:
  "WritePasswordAuth buf = buf @ u32_be 9 @ encode_session password_session"
  by (simp add: WritePasswordAuth_def encode_password_session writer_simps)

lemma length_password_session [simp]: "length (encode_session password_session) = 9"
  by (simp add: encode_password_session)

lemma BeginCommand_append [writer_simps]:
  "BeginCommand buf tag cc = buf @ u16_be tag @ u32_be 0 @ u32_be cc"
  by (simp add: BeginCommand_def writer_simps)

lemma patch_command_size_begin:
  "patch_command_size (u16_be tag @ u32_be 0 @ u32_be cc @ params) =
     u16_be tag @ u32_be (of_nat (10 + length params)) @ u32_be cc @ params"
  by (simp add: patch_command_size_def u16_be_def u32_be_def Let_def eval_nat_numeral)

text \<open>
  A command begun with a tag and a code, whose appended bytes are the body of an abstract command,
  is that command's image once its size is patched in.
\<close>

lemma sends_command:
  assumes "wf_command c"
    and "cmd = u16_be (if c_sessions_tag c then ST_SESSIONS else ST_NO_SESSIONS) @ u32_be 0
           @ u32_be (c_code c) @ encode_body c"
    and "n = length (c_handles c)"
  shows "decode_command n (patch_command_size cmd) = Some c"
  using assms decode_encode [OF assms(1) refl]
  by (simp add: patch_command_size_begin encode_command_def)

lemma tag_values: "ST_SESSIONS = 0x8002" "ST_NO_SESSIONS = 0x8001"
  by (simp_all add: ST_SESSIONS_def ST_NO_SESSIONS_def)

lemmas sends_simps = tag_values encode_body_def wf_command_def writer_simps

subsection \<open>The PCR selection bitmap\<close>

lemma length_quote_bitmap [simp]: "length (quote_bitmap bm is) = length bm"
  by (induction bm "is" rule: quote_bitmap.induct) auto

definition bitmap_has :: "bytes \<Rightarrow> nat \<Rightarrow> bool" where
  "bitmap_has bm i \<longleftrightarrow> bit (bm ! (i div 8)) (i mod 8)"

lemma bitmap_set_bit:
  assumes "length bm = 3" "i < 24" "index < (24 :: u32)"
  shows "bitmap_has (bm[unat (index div 8) := bm ! unat (index div 8) OR push_bit (unat (index mod 8)) 1]) i
     \<longleftrightarrow> bitmap_has bm i \<or> index = of_nat i"
proof -
  let ?k = "unat index"
  have k: "?k < 24" using assms(3) by (simp add: word_less_nat_alt)
  have dm: "unat (index div 8) = ?k div 8" "unat (index mod 8) = ?k mod 8"
    by (simp_all add: unat_div_distrib unat_mod_distrib)
  have eq: "index = of_nat i \<longleftrightarrow> ?k = i"
    using assms(2) by (auto simp: unat_of_nat)
  have "?k = i \<longleftrightarrow> ?k div 8 = i div 8 \<and> ?k mod 8 = i mod 8"
    by (metis div_mult_mod_eq)
  then show ?thesis
    using assms(1,2) k unfolding bitmap_has_def dm eq
    by (auto simp: nth_list_update bit_or_iff bit_exp_iff)
qed

lemma quote_bitmap_has:
  "length bm = 3 \<Longrightarrow> i < 24 \<Longrightarrow>
   bitmap_has (quote_bitmap bm is) i \<longleftrightarrow> bitmap_has bm i \<or> of_nat i \<in> set is"
proof (induction bm "is" rule: quote_bitmap.induct)
  case (2 bm index "is")
  show ?case
  proof (cases "index < 24")
    case True
    then show ?thesis
      using 2 bitmap_set_bit [of bm i index] by auto
  next
    case False
    then have "index \<noteq> of_nat i"
      using 2 by (auto simp: word_less_nat_alt unat_of_nat)
    then show ?thesis using 2 False by auto
  qed
qed simp

lemma bitmap_has_empty: "i < 24 \<Longrightarrow> \<not> bitmap_has [0, 0, 0] i"
  by (auto simp: bitmap_has_def nth_Cons split: nat.split)

lemma quote_bitmap_single:
  "quote_bitmap [0, 0, 0] [pcrIndex] =
     (if pcrIndex < 24 then [0, 0, 0][unat (pcrIndex div 8) := push_bit (unat (pcrIndex mod 8)) 1]
      else [0, 0, 0])"
proof (cases "pcrIndex < 24")
  case True
  then have "unat pcrIndex < 24" by (simp add: word_less_nat_alt)
  then have "unat (pcrIndex div 8) < 3" by (simp add: unat_div_distrib)
  then have "[0, 0, 0 :: u8] ! unat (pcrIndex div 8) = 0"
    by (auto simp: nth_Cons split: nat.split)
  with True show ?thesis by simp
next
  case False
  then show ?thesis by simp
qed

definition sha256_selection :: "bytes \<Rightarrow> bytes" where
  "sha256_selection bitmap = u32_be 1 @ u16_be TPM2_ALG_SHA256 @ [3] @ bitmap"

subsection \<open>Each operation's command\<close>

lemma PcrRead_command_eq:
  "PcrRead_command i = u16_be TPM2_ST_NO_SESSIONS @ u32_be 0 @ u32_be TPM2_CC_PCR_Read
     @ sha256_selection (quote_bitmap [0, 0, 0] [i])"
  unfolding quote_bitmap_single
  by (simp add: PcrRead_command_def writer_simps sha256_selection_def Let_def)

lemma length_sha256_selection [simp]: "length (sha256_selection bm) = 7 + length bm"
  by (simp add: sha256_selection_def)

lemma PcrRead_command_sends:
  "decode_command 0 (patch_command_size (PcrRead_command i)) =
     Some \<lparr>c_sessions_tag = False, c_code = TPM2_CC_PCR_Read, c_handles = [], c_auth = [],
           c_params = sha256_selection (quote_bitmap [0, 0, 0] [i])\<rparr>"
  by (rule sends_command) (simp_all add: sends_simps PcrRead_command_eq del: quote_bitmap.simps)

lemma Quote_command_eq:
  "Quote_command ak nonce pcrs = u16_be TPM2_ST_SESSIONS @ u32_be 0 @ u32_be TPM2_CC_Quote
     @ u32_be ak @ u32_be 9 @ encode_session password_session @ sized_buffer nonce
     @ u16_be TPM2_ALG_RSASSA @ u16_be TPM2_ALG_SHA256 @ sha256_selection (quote_bitmap [0, 0, 0] pcrs)"
  by (simp add: Quote_command_def writer_simps sha256_selection_def sized_buffer_def)

lemma Quote_command_sends:
  assumes "length nonce < 2 ^ 16"
  shows "decode_command 1 (patch_command_size (Quote_command ak nonce pcrs)) =
     Some \<lparr>c_sessions_tag = True, c_code = TPM2_CC_Quote, c_handles = [ak],
           c_auth = [password_session],
           c_params = sized_buffer nonce @ u16_be TPM2_ALG_RSASSA @ u16_be TPM2_ALG_SHA256
             @ sha256_selection (quote_bitmap [0, 0, 0] pcrs)\<rparr>"
  using assms by (intro sends_command) (simp_all add: sends_simps Quote_command_eq)

lemma FlushContext_command_sends:
  "decode_command 0 (patch_command_size (FlushContext_command h)) =
     Some \<lparr>c_sessions_tag = False, c_code = TPM2_CC_FlushContext, c_handles = [], c_auth = [],
           c_params = u32_be h\<rparr>"
  by (rule sends_command) (simp_all add: sends_simps FlushContext_command_def)

lemma StartAuthSession_command_sends:
  "decode_command 2 (patch_command_size StartAuthSession_command) =
     Some \<lparr>c_sessions_tag = False, c_code = TPM2_CC_StartAuthSession,
           c_handles = [0x40000007, 0x40000007], c_auth = [],
           c_params = sized_buffer sessionNonce @ sized_buffer [] @ [0x01] @ u16_be 0x0010
             @ u16_be 0x000B\<rparr>"
  by (rule sends_command) (simp_all add: sends_simps StartAuthSession_command_def sized_buffer_def sessionNonce_def)

lemma PolicySecret_command_sends:
  "decode_command 2 (patch_command_size (PolicySecret_command s)) =
     Some \<lparr>c_sessions_tag = True, c_code = TPM2_CC_PolicySecret, c_handles = [0x4000000B, s],
           c_auth = [password_session],
           c_params = sized_buffer [] @ sized_buffer [] @ sized_buffer [] @ u32_be 0\<rparr>"
  by (rule sends_command) (simp_all add: sends_simps PolicySecret_command_def empty_sized_buffer)

lemma activate_auth_area_eq:
  "activate_auth_area s = encode_session password_session @ encode_session (policy_session s)"
  by (simp add: activate_auth_area_def writer_simps encode_session_def password_session_def
      policy_session_def empty_sized_buffer)

lemma length_policy_session [simp]: "length (encode_session (policy_session h)) = 9"
  by (simp add: encode_session_def policy_session_def empty_sized_buffer)

lemma ActivateCredential_command_sends:
  assumes "length cred + length secret < 2 ^ 31"
  shows "decode_command 2 (patch_command_size (ActivateCredential_command ak ek s cred secret)) =
     Some \<lparr>c_sessions_tag = True, c_code = TPM2_CC_ActivateCredential, c_handles = [ak, ek],
           c_auth = [password_session, policy_session s], c_params = cred @ secret\<rparr>"
  using assms by (intro sends_command) (simp_all add: sends_simps ActivateCredential_command_def activate_auth_area_eq)

lemma ReadPublic_command_sends:
  "decode_command 1 (patch_command_size (ReadPublic_command h)) =
     Some \<lparr>c_sessions_tag = False, c_code = TPM2_CC_ReadPublic, c_handles = [h], c_auth = [],
           c_params = []\<rparr>"
  by (rule sends_command) (simp_all add: sends_simps ReadPublic_command_def)

lemma EvictControl_command_sends:
  "decode_command 2 (patch_command_size (EvictControl_command obj p)) =
     Some \<lparr>c_sessions_tag = True, c_code = TPM2_CC_EvictControl, c_handles = [TPM2_RH_OWNER, obj],
           c_auth = [password_session], c_params = u32_be p\<rparr>"
  by (rule sends_command) (simp_all add: sends_simps EvictControl_command_def)

lemma NV_ReadPublic_command_sends:
  "decode_command 1 (patch_command_size (NV_ReadPublic_command i)) =
     Some \<lparr>c_sessions_tag = False, c_code = TPM2_CC_NV_ReadPublic, c_handles = [i], c_auth = [],
           c_params = []\<rparr>"
  by (rule sends_command) (simp_all add: sends_simps NV_ReadPublic_command_def)

lemma NV_Read_command_sends:
  "decode_command 2 (patch_command_size (NV_Read_command i want off)) =
     Some \<lparr>c_sessions_tag = True, c_code = TPM2_CC_NV_Read, c_handles = [i, i],
           c_auth = [password_session], c_params = u16_be want @ u16_be off\<rparr>"
  by (rule sends_command) (simp_all add: sends_simps NV_Read_command_def)

subsection \<open>The key templates\<close>

definition ak_area :: bytes where
  "ak_area = u16_be 0x0001 @ u16_be 0x000B @ u32_be ak_attributes @ sized_buffer [] @ u16_be 0x0010
     @ u16_be 0x0014 @ u16_be 0x000B @ u16_be 2048 @ u32_be 0 @ sized_buffer (replicate 256 0)"

definition ek_area :: bytes where
  "ek_area = u16_be 0x0001 @ u16_be 0x000B @ u32_be ek_attributes @ sized_buffer EK_POLICY
     @ u16_be 0x0006 @ u16_be 128 @ u16_be 0x0043 @ u16_be 0x0010 @ u16_be 2048 @ u32_be 0
     @ sized_buffer (replicate 256 0)"

lemma length_EK_POLICY [simp]: "length EK_POLICY = 32"
  by (simp add: EK_POLICY_def)

lemma length_ak_area [simp]: "length ak_area = 280"
  by (simp add: ak_area_def)

lemma length_ek_area [simp]: "length ek_area = 314"
  by (simp add: ek_area_def)

lemma WriteAkTemplate_append [writer_simps]: "WriteAkTemplate buf = buf @ sized_buffer ak_area"
  by (simp add: WriteAkTemplate_def writer_simps sized_buffer_def ak_area_def)

lemma WriteEkTemplate_append [writer_simps]: "WriteEkTemplate buf = buf @ sized_buffer ek_area"
  by (simp add: WriteEkTemplate_def writer_simps sized_buffer_def ek_area_def)

definition ak_public :: rsa_public where
  "ak_public = \<lparr>r_name_alg = TPM2_ALG_SHA256, r_attributes = ak_attributes, r_policy = [],
     r_symmetric = None, r_scheme = Some (TPM2_ALG_RSASSA, TPM2_ALG_SHA256), r_key_bits = 2048,
     r_exponent = 0, r_unique = replicate 256 0\<rparr>"

definition ek_public :: rsa_public where
  "ek_public = \<lparr>r_name_alg = TPM2_ALG_SHA256, r_attributes = ek_attributes, r_policy = EK_POLICY,
     r_symmetric = Some (0x0006, 128, 0x0043), r_scheme = None, r_key_bits = 2048,
     r_exponent = 0, r_unique = replicate 256 0\<rparr>"

lemma decode_ak_area: "decode_rsa_area ak_area = Some ak_public"
  by (simp add: decode_rsa_area_def ak_area_def ak_public_def take_symmetric_def take_scheme_def)

lemma decode_ek_area: "decode_rsa_area ek_area = Some ek_public"
  by (simp add: decode_rsa_area_def ek_area_def ek_public_def take_symmetric_def take_scheme_def)

text \<open>The parameters of both key creations: an empty sensitive area around the template.\<close>

definition primary_params :: "bytes \<Rightarrow> bytes" where
  "primary_params area = sized_buffer (sized_buffer [] @ sized_buffer []) @ sized_buffer area
     @ sized_buffer [] @ u32_be 0"

lemma length_primary_params [simp]: "length (primary_params area) = length area + 14"
  by (simp add: primary_params_def)

lemma decode_primary_params:
  "decode_rsa_area area = Some pub \<Longrightarrow> length area < 2 ^ 16 \<Longrightarrow>
   decode_create_primary (primary_params area) =
     Some \<lparr>cp_user_auth = [], cp_data = [], cp_public = pub, cp_outside = [], cp_pcr_count = 0\<rparr>"
  by (simp add: decode_create_primary_def primary_params_def)

lemma CreateAndLoadAk_command_sends:
  "decode_command 1 (patch_command_size (CreateAndLoadAk_command h)) =
     Some \<lparr>c_sessions_tag = True, c_code = TPM2_CC_CreatePrimary, c_handles = [h],
           c_auth = [password_session], c_params = primary_params ak_area\<rparr>"
proof -
  have "CreateAndLoadAk_command h = u16_be TPM2_ST_SESSIONS @ u32_be 0 @ u32_be TPM2_CC_CreatePrimary
     @ u32_be h @ u32_be 9 @ encode_session password_session @ primary_params ak_area"
    by (simp add: CreateAndLoadAk_command_def writer_simps primary_params_def sized_buffer_def)
  then show ?thesis by (intro sends_command) (simp_all add: sends_simps)
qed

lemma CreateEk_command_sends:
  "decode_command 1 (patch_command_size CreateEk_command) =
     Some \<lparr>c_sessions_tag = True, c_code = TPM2_CC_CreatePrimary, c_handles = [0x4000000B],
           c_auth = [password_session], c_params = primary_params ek_area\<rparr>"
proof -
  have "CreateEk_command = u16_be TPM2_ST_SESSIONS @ u32_be 0 @ u32_be TPM2_CC_CreatePrimary
     @ u32_be 0x4000000B @ u32_be 9 @ encode_session password_session @ primary_params ek_area"
    by (simp add: CreateEk_command_def writer_simps primary_params_def sized_buffer_def)
  then show ?thesis by (intro sends_command) (simp_all add: sends_simps)
qed

lemma single_bit: "bit (push_bit m 1 :: u32) n \<longleftrightarrow> n = m \<and> m < 32"
  by (auto simp: bit_exp_iff)

lemma ak_attribute_bits:
  "bit ak_attributes n \<longleftrightarrow> n \<in> {1, 4, 5, 6, 16, 18}"
  by (simp only: ak_attributes_def bit_or_iff single_bit) auto

lemma ek_attribute_bits:
  "bit ek_attributes n \<longleftrightarrow> n \<in> {1, 4, 5, 7, 16, 17}"
  by (simp only: ek_attributes_def bit_or_iff single_bit) auto

section \<open>Properties\<close>

text \<open>C39. The command that creates the attestation key decodes, as a TPM decodes it, to a
  \<open>TPM2_CreatePrimary\<close> under the given hierarchy with a password session, and its template is the key
  the attestation relies on: RSA 2048 with RSASSA and SHA-256, restricted, fixed to the TPM, able to
  sign and not to decrypt, and without \<open>stClear\<close>, which would make it impossible to persist.\<close>

theorem ak_command_creates_attestation_key:
  "\<exists>c cp. decode_command 1 (patch_command_size (CreateAndLoadAk_command h)) = Some c
    \<and> c_code c = TPM2_CC_CreatePrimary \<and> c_handles c = [h] \<and> c_auth c = [password_session]
    \<and> decode_create_primary (c_params c) = Some cp
    \<and> r_key_bits (cp_public cp) = 2048 \<and> r_name_alg (cp_public cp) = TPM2_ALG_SHA256
    \<and> r_symmetric (cp_public cp) = None
    \<and> r_scheme (cp_public cp) = Some (TPM2_ALG_RSASSA, TPM2_ALG_SHA256)
    \<and> (\<forall>n. object_bit (cp_public cp) n \<longleftrightarrow> n \<in> {1, 4, 5, 6, 16, 18})"
proof -
  have "decode_create_primary (primary_params ak_area) = Some \<lparr>cp_user_auth = [], cp_data = [],
      cp_public = ak_public, cp_outside = [], cp_pcr_count = 0\<rparr>"
    by (rule decode_primary_params [OF decode_ak_area]) simp
  then show ?thesis
    unfolding CreateAndLoadAk_command_sends
    by (simp add: ak_public_def object_bit_def ak_attribute_bits)
qed

text \<open>The command that recreates the endorsement key decodes to a \<open>TPM2_CreatePrimary\<close> under the
  endorsement hierarchy with the standard EK template: restricted decryption under the standard
  policy digest, AES-128-CFB, RSA 2048, and authorised by policy only.\<close>

lemma ek_command_creates_endorsement_key:
  "\<exists>c cp. decode_command 1 (patch_command_size CreateEk_command) = Some c
    \<and> c_code c = TPM2_CC_CreatePrimary \<and> c_handles c = [0x4000000B] \<and> c_auth c = [password_session]
    \<and> decode_create_primary (c_params c) = Some cp
    \<and> r_key_bits (cp_public cp) = 2048 \<and> r_policy (cp_public cp) = EK_POLICY
    \<and> r_symmetric (cp_public cp) = Some (0x0006, 128, 0x0043) \<and> r_scheme (cp_public cp) = None
    \<and> (\<forall>n. object_bit (cp_public cp) n \<longleftrightarrow> n \<in> {1, 4, 5, 7, 16, 17})"
proof -
  have "decode_create_primary (primary_params ek_area) = Some \<lparr>cp_user_auth = [], cp_data = [],
      cp_public = ek_public, cp_outside = [], cp_pcr_count = 0\<rparr>"
    by (rule decode_primary_params [OF decode_ek_area]) simp
  then show ?thesis
    unfolding CreateEk_command_sends
    by (simp add: ek_public_def object_bit_def ek_attribute_bits)
qed

text \<open>The three commands of a credential activation decode to a policy session with no salt, to
  \<open>TPM2_PolicySecret\<close> of the endorsement hierarchy for that session, and to
  \<open>TPM2_ActivateCredential\<close> with a password session for the attestation key, the policy session for
  the endorsement key, and the two blobs of the server unchanged.\<close>

theorem activation_commands_decode:
  assumes "length cred + length secret < 2 ^ 31"
  shows "(\<exists>c. decode_command 2 (patch_command_size StartAuthSession_command) = Some c
      \<and> c_code c = TPM2_CC_StartAuthSession \<and> c_handles c = [0x40000007, 0x40000007])
    \<and> (\<exists>c. decode_command 2 (patch_command_size (PolicySecret_command s)) = Some c
      \<and> c_code c = TPM2_CC_PolicySecret \<and> c_handles c = [0x4000000B, s] \<and> c_auth c = [password_session])
    \<and> decode_command 2 (patch_command_size (ActivateCredential_command ak ek s cred secret)) =
       Some \<lparr>c_sessions_tag = True, c_code = TPM2_CC_ActivateCredential, c_handles = [ak, ek],
             c_auth = [password_session, policy_session s], c_params = cred @ secret\<rparr>"
  unfolding StartAuthSession_command_sends PolicySecret_command_sends
    ActivateCredential_command_sends [OF assms]
  by simp

theorem activation_commands_decode_witness:
  "(\<exists>c. decode_command 2 (patch_command_size StartAuthSession_command) = Some c
      \<and> c_code c = TPM2_CC_StartAuthSession \<and> c_handles c = [0x40000007, 0x40000007])
    \<and> (\<exists>c. decode_command 2 (patch_command_size (PolicySecret_command 3)) = Some c
      \<and> c_code c = TPM2_CC_PolicySecret \<and> c_handles c = [0x4000000B, 3] \<and> c_auth c = [password_session])
    \<and> decode_command 2 (patch_command_size (ActivateCredential_command 1 2 3 [4, 5] [6])) =
       Some \<lparr>c_sessions_tag = True, c_code = TPM2_CC_ActivateCredential, c_handles = [1, 2],
             c_auth = [password_session, policy_session 3], c_params = [4, 5] @ [6]\<rparr>"
  by (rule activation_commands_decode) simp

end
