(* ===== verification/Win_Status.thy ===== *)
theory Win_Status
  imports Endian
begin

text \<open>
  \<open>src/internal/win_status.h\<close>: the one carrier of a failure below the ABI edge. An \<open>HRESULT\<close> is
  a 32-bit value whose sign is its severity. The numeric constants of \<open>winerror.h\<close> are the
  documented ones.
\<close>

section \<open>HRESULT\<close>

type_synonym HRESULT = u32
type_synonym TBS_RESULT = u32

abbreviation S_OK :: HRESULT where "S_OK \<equiv> 0"
abbreviation E_FAIL :: HRESULT where "E_FAIL \<equiv> 0x80004005"
abbreviation E_NOT_VALID_STATE :: HRESULT where "E_NOT_VALID_STATE \<equiv> 0x8007139F"
abbreviation TBS_SUCCESS :: TBS_RESULT where "TBS_SUCCESS \<equiv> 0"

definition FAILED :: "HRESULT \<Rightarrow> bool" where
  "FAILED hr \<longleftrightarrow> sint hr < 0"

definition SUCCEEDED :: "HRESULT \<Rightarrow> bool" where
  "SUCCEEDED hr \<longleftrightarrow> 0 \<le> sint hr"

definition RH_E_MALFORMED_RESPONSE :: HRESULT where
  "RH_E_MALFORMED_RESPONSE = 0x8007000D"

definition RH_E_NOT_OPEN :: HRESULT where
  "RH_E_NOT_OPEN = E_NOT_VALID_STATE"

definition HrFromTbs :: "TBS_RESULT \<Rightarrow> HRESULT" where
  "HrFromTbs result = result"

definition HrFromSecurityStatus :: "u32 \<Rightarrow> HRESULT" where
  "HrFromSecurityStatus status = status"

definition HrFromTpmRc :: "u32 \<Rightarrow> HRESULT" where
  "HrFromTpmRc responseCode =
     (if responseCode = 0 then S_OK else 0x80290000 OR (responseCode AND 0x0000FFFF))"

section \<open>Lemmas\<close>

lemma SUCCEEDED_iff: "SUCCEEDED hr \<longleftrightarrow> \<not> FAILED hr"
  by (auto simp: SUCCEEDED_def FAILED_def)

lemma FAILED_S_OK [simp]: "\<not> FAILED S_OK"
  by (simp add: FAILED_def)

lemma FAILED_E_FAIL [simp]: "FAILED E_FAIL"
  by (simp add: FAILED_def)

lemma FAILED_malformed [simp]: "FAILED RH_E_MALFORMED_RESPONSE"
  by (simp add: FAILED_def RH_E_MALFORMED_RESPONSE_def)

lemma FAILED_not_open [simp]: "FAILED RH_E_NOT_OPEN"
  by (simp add: FAILED_def RH_E_NOT_OPEN_def)

lemma FAILED_iff_bit31: "FAILED hr \<longleftrightarrow> bit hr 31"
  using bit_last_iff [of hr] by (simp add: FAILED_def)

lemma FAILED_HrFromTpmRc [simp]: "FAILED (HrFromTpmRc rc) \<longleftrightarrow> rc \<noteq> 0"
proof -
  have "bit (0x80290000 :: u32) 31" by simp
  then show ?thesis
    by (auto simp: FAILED_iff_bit31 HrFromTpmRc_def bit_or_iff)
qed

lemma HrFromTpmRc_0 [simp]: "HrFromTpmRc 0 = S_OK"
  by (simp add: HrFromTpmRc_def)

text \<open>A failure is never reported as a success, and success never as a failure.\<close>

lemma HrFromTpmRc_eq_S_OK: "HrFromTpmRc rc = S_OK \<longleftrightarrow> rc = 0"
  using FAILED_HrFromTpmRc [of rc] FAILED_S_OK HrFromTpmRc_0 by metis

lemma HrFromTpmRc_code: "rc \<noteq> 0 \<Longrightarrow> take_bit 16 (HrFromTpmRc rc) = take_bit 16 rc"
proof -
  assume "rc \<noteq> 0"
  have m: "(0xFFFF :: u32) = mask 16" by (simp add: mask_eq_exp_minus_1)
  have "take_bit 16 (0x80290000 :: u32) = 0" by simp
  then show ?thesis
    using \<open>rc \<noteq> 0\<close> by (simp add: HrFromTpmRc_def m take_bit_or flip: take_bit_eq_mask)
qed

end
