(* ===== verification/Tpm_Commands.thy ===== *)
theory Tpm_Commands
  imports Tpm_Marshal Win_Status Unique_Handle
begin

text \<open>
  The class \<open>TpmCommands\<close> of \<open>src/tpm/tpm_commands.cpp\<close>: the TBS context it owns, \<open>SendCommand\<close>,
  and the operations with the parsing of their responses (the NV reads are in \<open>Tpm_Nv\<close>).

  TBS is Windows code: its entry points are the fields of a \<open>tbs_api\<close>, functions over a world \<open>'w\<close>
  that stands for the driver and the TPM behind it and about which nothing is assumed. A response
  is therefore an arbitrary byte vector, and the parsers are proved for every one of them.

  An operation returns \<open>None\<close> when it has no defined return (a read outside a vector). Otherwise
  \<open>Inl hr\<close> is the early return of the failure \<open>hr\<close> with the out-parameters left cleared, and
  \<open>Inr x\<close> is \<open>S_OK\<close> with the out-parameters set to \<open>x\<close>.
\<close>

section \<open>TBS and the context\<close>

record 'w tbs_api =
  Tbsi_Context_Create :: "'w \<Rightarrow> TBS_RESULT \<times> u64 \<times> 'w"
  Tbsip_Submit_Command :: "u64 \<Rightarrow> bytes \<Rightarrow> 'w \<Rightarrow> TBS_RESULT \<times> bytes \<times> u32 \<times> 'w"
  Tbsip_Context_Close :: "u64 \<Rightarrow> 'w \<Rightarrow> 'w"
  Tbsi_Get_TCG_Log_Ex :: "u32 option \<Rightarrow> 'w \<Rightarrow> TBS_RESULT \<times> bytes \<times> u32 \<times> 'w"

record tpm_commands =
  tc_context :: u64

definition TbsContextTraits :: "'w tbs_api \<Rightarrow> (u64, 'w) handle_traits" where
  "TbsContextTraits api = \<lparr>Invalid = 0, Close = Tbsip_Context_Close api\<rparr>"

definition new_TpmCommands :: tpm_commands where
  "new_TpmCommands = \<lparr>tc_context = 0\<rparr>"

definition TpmCommands_Open :: "'w tbs_api \<Rightarrow> tpm_commands \<Rightarrow> 'w \<Rightarrow> HRESULT \<times> tpm_commands \<times> 'w" where
  "TpmCommands_Open api tc w =
     (if uh_valid (TbsContextTraits api) (tc_context tc) then (S_OK, tc, w)
      else
        let (_, w) = uh_Put (TbsContextTraits api) (tc_context tc) w;
            (result, h, w) = Tbsi_Context_Create api w;
            tc = tc\<lparr>tc_context := h\<rparr>
        in if result \<noteq> TBS_SUCCESS then (HrFromTbs result, tc, w) else (S_OK, tc, w))"

definition TpmCommands_Close :: "'w tbs_api \<Rightarrow> tpm_commands \<Rightarrow> 'w \<Rightarrow> tpm_commands \<times> 'w" where
  "TpmCommands_Close api tc w =
     (let (h, w) = uh_Reset (TbsContextTraits api) 0 (tc_context tc) w
      in (tc\<lparr>tc_context := h\<rparr>, w))"

text \<open>
  The response buffer is a vector of 4096 bytes: what the driver writes lands in it, and it is
  then cut to the length the driver reports.
\<close>

definition SendCommand ::
    "'w tbs_api \<Rightarrow> tpm_commands \<Rightarrow> bytes \<Rightarrow> 'w \<Rightarrow> HRESULT \<times> bytes \<times> 'w" where
  "SendCommand api tc command w =
     (if \<not> uh_valid (TbsContextTraits api) (tc_context tc) then (RH_E_NOT_OPEN, [], w)
      else
        let command = patch_command_size command;
            (result, response, responseLen, w) = Tbsip_Submit_Command api (tc_context tc) command w
        in if result \<noteq> TBS_SUCCESS then (HrFromTbs result, [], w)
           else (S_OK, vec_resize (unat responseLen) (vec_resize 4096 response), w))"

section \<open>Responses\<close>

text \<open>
  The preamble every parser starts with: the least size, then the response code at offset 6, and
  only then the body.
\<close>

definition on_success :: "nat \<Rightarrow> (bytes \<Rightarrow> (HRESULT + 'o) option) \<Rightarrow> bytes \<Rightarrow> (HRESULT + 'o) option" where
  "on_success need body resp =
     (if length resp < need then Some (Inl RH_E_MALFORMED_RESPONSE)
      else do {
        rc \<leftarrow> ReadU32 resp 6;
        if rc \<noteq> 0 then Some (Inl (HrFromTpmRc rc)) else body resp
      })"

fun skip_selections :: "bytes \<Rightarrow> nat \<Rightarrow> nat \<Rightarrow> (HRESULT + nat) option" where
  "skip_selections resp 0 offset = Some (Inr offset)"
| "skip_selections resp (Suc n) offset =
     (let offset = offset + 2
      in if offset \<ge> length resp then Some (Inl RH_E_MALFORMED_RESPONSE)
         else do {
           selectSize \<leftarrow> byte_at resp offset;
           skip_selections resp n (offset + (1 + unat selectSize))
         })"

definition PcrRead_digest :: "bytes \<Rightarrow> nat \<Rightarrow> (HRESULT + bytes) option" where
  "PcrRead_digest resp offset =
     (if offset + 4 > length resp then Some (Inl RH_E_MALFORMED_RESPONSE)
      else do {
        digestCount \<leftarrow> ReadU32 resp offset;
        let offset = offset + 4;
        if digestCount > 0 \<and> offset + 2 \<le> length resp
        then do {
          digestSize \<leftarrow> ReadU16 resp offset;
          let offset = offset + 2;
          if offset + unat digestSize \<le> length resp
          then do { d \<leftarrow> vec_range resp offset (offset + unat digestSize); Some (Inr d) }
          else Some (Inl RH_E_MALFORMED_RESPONSE)
        }
        else Some (Inl RH_E_MALFORMED_RESPONSE)
      })"

definition PcrRead_body :: "bytes \<Rightarrow> (HRESULT + bytes) option" where
  "PcrRead_body resp =
     (let offset = 10 + 4
      in if offset + 4 > length resp then Some (Inl RH_E_MALFORMED_RESPONSE)
         else do {
           selectionCount \<leftarrow> ReadU32 resp offset;
           r \<leftarrow> skip_selections resp (unat selectionCount) (offset + 4);
           case r of Inl hr \<Rightarrow> Some (Inl hr) | Inr offset \<Rightarrow> PcrRead_digest resp offset
         })"

definition PcrRead_response :: "bytes \<Rightarrow> (HRESULT + bytes) option" where
  "PcrRead_response = on_success 10 PcrRead_body"

definition Quote_response :: "bytes \<Rightarrow> (HRESULT + bytes \<times> bytes) option" where
  "Quote_response = on_success 10 (\<lambda>resp.
     let offset = 10
     in if offset + 4 > length resp then Some (Inl RH_E_MALFORMED_RESPONSE)
        else let offset = offset + 4
     in if offset + 2 > length resp then Some (Inl RH_E_MALFORMED_RESPONSE)
        else do {
          attestSize \<leftarrow> ReadU16 resp offset;
          let offset = offset + 2;
          if offset + unat attestSize > length resp then Some (Inl RH_E_MALFORMED_RESPONSE)
          else do {
            quoted \<leftarrow> vec_range resp offset (offset + unat attestSize);
            let offset = offset + unat attestSize;
            signature \<leftarrow> (if offset < length resp then vec_range resp offset (length resp) else Some []);
            Some (Inr (quoted, signature))
          }
        })"

text \<open>The public area is kept only when both of its length fields fit.\<close>

definition ak_public_area :: "bytes \<Rightarrow> bytes option" where
  "ak_public_area resp =
     (if length resp \<ge> 20
      then do {
        paramSize \<leftarrow> ReadU32 resp 14;
        if paramSize > 0 \<and> 18 + unat paramSize \<le> length resp
        then do {
          pubSize \<leftarrow> ReadU16 resp 18;
          if pubSize > 0 \<and> 20 + unat pubSize \<le> length resp
          then vec_range resp 18 (20 + unat pubSize)
          else Some []
        }
        else Some []
      }
      else Some [])"

definition CreateAndLoadAk_response :: "bytes \<Rightarrow> (HRESULT + u32 \<times> bytes) option" where
  "CreateAndLoadAk_response = on_success 14 (\<lambda>resp. do {
     handle \<leftarrow> ReadU32 resp 10;
     publicArea \<leftarrow> ak_public_area resp;
     Some (Inr (handle, publicArea))
   })"

definition CreateEk_response :: "bytes \<Rightarrow> (HRESULT + u32) option" where
  "CreateEk_response = on_success 14 (\<lambda>resp. do {
     handle \<leftarrow> ReadU32 resp 10;
     Some (Inr handle)
   })"

definition StartAuthSession_response :: "bytes \<Rightarrow> (HRESULT + u32) option" where
  "StartAuthSession_response = on_success 14 (\<lambda>resp. do {
     tag \<leftarrow> ReadU16 resp 0;
     let handleOffset = (if tag = TPM2_ST_SESSIONS then 14 else 10);
     if length resp < handleOffset + 4 then Some (Inl RH_E_MALFORMED_RESPONSE)
     else do { h \<leftarrow> ReadU32 resp handleOffset; Some (Inr h) }
   })"

text \<open>A response of which only the code matters: \<open>TPM2_PolicySecret\<close> and \<open>TPM2_EvictControl\<close>.\<close>

definition code_only_response :: "bytes \<Rightarrow> (HRESULT + unit) option" where
  "code_only_response = on_success 10 (\<lambda>resp. Some (Inr ()))"

definition ActivateCredential_response :: "bytes \<Rightarrow> (HRESULT + bytes) option" where
  "ActivateCredential_response = on_success 10 (\<lambda>resp.
     if length resp < 16 then Some (Inl RH_E_MALFORMED_RESPONSE)
     else do {
       parameterSize \<leftarrow> ReadU32 resp 10;
       if parameterSize < 2 then Some (Inl RH_E_MALFORMED_RESPONSE)
       else do {
         secretSize \<leftarrow> ReadU16 resp 14;
         if 16 + unat secretSize > length resp then Some (Inl RH_E_MALFORMED_RESPONSE)
         else do { s \<leftarrow> vec_range resp 16 (16 + unat secretSize); Some (Inr s) }
       }
     })"

section \<open>Operations\<close>

text \<open>\<open>SendCommand\<close>, the early return of its failure, and the parsing of the response.\<close>

definition transact ::
    "'w tbs_api \<Rightarrow> tpm_commands \<Rightarrow> bytes \<Rightarrow> (bytes \<Rightarrow> (HRESULT + 'o) option) \<Rightarrow> 'w
     \<Rightarrow> ((HRESULT + 'o) \<times> 'w) option" where
  "transact api tc command parse w =
     (let (hr, resp, w) = SendCommand api tc command w
      in if FAILED hr then Some (Inl hr, w) else do { r \<leftarrow> parse resp; Some (r, w) })"

definition PcrRead ::
    "'w tbs_api \<Rightarrow> tpm_commands \<Rightarrow> u32 \<Rightarrow> 'w \<Rightarrow> ((HRESULT + bytes) \<times> 'w) option" where
  "PcrRead api tc pcrIndex w = transact api tc (PcrRead_command pcrIndex) PcrRead_response w"

definition Quote ::
    "'w tbs_api \<Rightarrow> tpm_commands \<Rightarrow> u32 \<Rightarrow> bytes \<Rightarrow> u32 list \<Rightarrow> 'w
     \<Rightarrow> ((HRESULT + bytes \<times> bytes) \<times> 'w) option" where
  "Quote api tc akHandle nonce pcrIndices w =
     transact api tc (Quote_command akHandle nonce pcrIndices) Quote_response w"

definition FlushContext :: "'w tbs_api \<Rightarrow> tpm_commands \<Rightarrow> u32 \<Rightarrow> 'w \<Rightarrow> HRESULT \<times> 'w" where
  "FlushContext api tc handle w =
     (let (hr, _, w) = SendCommand api tc (FlushContext_command handle) w in (hr, w))"

definition CreateAndLoadAk ::
    "'w tbs_api \<Rightarrow> tpm_commands \<Rightarrow> u32 \<Rightarrow> 'w \<Rightarrow> ((HRESULT + u32 \<times> bytes) \<times> 'w) option" where
  "CreateAndLoadAk api tc parentHandle w =
     transact api tc (CreateAndLoadAk_command parentHandle) CreateAndLoadAk_response w"

definition CreateEk :: "'w tbs_api \<Rightarrow> tpm_commands \<Rightarrow> 'w \<Rightarrow> ((HRESULT + u32) \<times> 'w) option" where
  "CreateEk api tc w = transact api tc CreateEk_command CreateEk_response w"

text \<open>The lambda \<open>run\<close>: its result and the session handle it leaves in the captured variable.\<close>

definition ActivateCredential_run ::
    "'w tbs_api \<Rightarrow> tpm_commands \<Rightarrow> u32 \<Rightarrow> u32 \<Rightarrow> bytes \<Rightarrow> bytes \<Rightarrow> 'w
     \<Rightarrow> ((HRESULT + bytes) \<times> u32 \<times> 'w) option" where
  "ActivateCredential_run api tc akHandle ekHandle credentialBlob encryptedSecret w = do {
     (r, w) \<leftarrow> transact api tc StartAuthSession_command StartAuthSession_response w;
     case r of
       Inl hr \<Rightarrow> Some (Inl hr, 0, w)
     | Inr sessionHandle \<Rightarrow> do {
         (r, w) \<leftarrow> transact api tc (PolicySecret_command sessionHandle) code_only_response w;
         case r of
           Inl hr \<Rightarrow> Some (Inl hr, sessionHandle, w)
         | Inr _ \<Rightarrow> do {
             (r, w) \<leftarrow> transact api tc
                (ActivateCredential_command akHandle ekHandle sessionHandle credentialBlob encryptedSecret)
                ActivateCredential_response w;
             Some (r, sessionHandle, w)
           }
       }
   }"

definition ActivateCredential ::
    "'w tbs_api \<Rightarrow> tpm_commands \<Rightarrow> u32 \<Rightarrow> u32 \<Rightarrow> bytes \<Rightarrow> bytes \<Rightarrow> 'w
     \<Rightarrow> ((HRESULT + bytes) \<times> 'w) option" where
  "ActivateCredential api tc akHandle ekHandle credentialBlob encryptedSecret w = do {
     (hr, sessionHandle, w) \<leftarrow>
       ActivateCredential_run api tc akHandle ekHandle credentialBlob encryptedSecret w;
     let w = (if sessionHandle \<noteq> 0 then snd (FlushContext api tc sessionHandle w) else w);
     Some (hr, w)
   }"

definition IsPersistentPresent :: "'w tbs_api \<Rightarrow> tpm_commands \<Rightarrow> u32 \<Rightarrow> 'w \<Rightarrow> (bool \<times> 'w) option" where
  "IsPersistentPresent api tc persistentHandle w =
     (let (hr, resp, w) = SendCommand api tc (ReadPublic_command persistentHandle) w
      in if FAILED hr then Some (False, w)
         else if length resp < 10 then Some (False, w)
         else do { rc \<leftarrow> ReadU32 resp 6; Some (rc = 0, w) })"

definition EvictControl ::
    "'w tbs_api \<Rightarrow> tpm_commands \<Rightarrow> u32 \<Rightarrow> u32 \<Rightarrow> 'w \<Rightarrow> ((HRESULT + unit) \<times> 'w) option" where
  "EvictControl api tc transientHandle persistentHandle w = do {
     (present, w) \<leftarrow> IsPersistentPresent api tc persistentHandle w;
     (r, w) \<leftarrow> (if present
        then transact api tc (EvictControl_command persistentHandle persistentHandle) code_only_response w
        else Some (Inr (), w));
     case r of
       Inl hr \<Rightarrow> Some (Inl hr, w)
     | Inr _ \<Rightarrow>
         transact api tc (EvictControl_command transientHandle persistentHandle) code_only_response w
   }"

text \<open>What a caller of an operation sees: the \<open>HRESULT\<close>, and an out-parameter with its cleared value.\<close>

definition hr_of :: "(HRESULT + 'o) \<Rightarrow> HRESULT" where
  "hr_of r = (case r of Inl hr \<Rightarrow> hr | Inr _ \<Rightarrow> S_OK)"

definition out_of :: "'o \<Rightarrow> (HRESULT + 'o) \<Rightarrow> 'o" where
  "out_of cleared r = (case r of Inl _ \<Rightarrow> cleared | Inr x \<Rightarrow> x)"

section \<open>The contract of a response parser\<close>

text \<open>
  What every operation relies on: a parser is defined on every byte vector, answers a response
  that is too short with \<open>RH_E_MALFORMED_RESPONSE\<close> and a response code other than success with
  that code widened, and never calls a success a failure.
\<close>

locale response_parser =
  fixes parse :: "bytes \<Rightarrow> (HRESULT + 'o) option"
    and need :: nat
  assumes need_header: "10 \<le> need"
    and parse_total: "defined (parse resp)"
    and parse_short: "length resp < need \<Longrightarrow> parse resp = Some (Inl RH_E_MALFORMED_RESPONSE)"
    and parse_code: "need \<le> length resp \<Longrightarrow> ReadU32 resp 6 = Some rc \<Longrightarrow> rc \<noteq> 0 \<Longrightarrow>
      parse resp = Some (Inl (HrFromTpmRc rc))"
    and parse_error: "parse resp = Some (Inl hr) \<Longrightarrow> FAILED hr"
begin

lemma parse_success:
  assumes "parse resp = Some (Inr x)"
  shows "need \<le> length resp" and "ReadU32 resp 6 = Some 0"
proof -
  show len: "need \<le> length resp"
    using assms parse_short [of resp] by (cases "length resp < need") auto
  then obtain rc where rc: "ReadU32 resp 6 = Some rc"
    using need_header be32.rd_iff_inside [of resp 6] by auto
  then show "ReadU32 resp 6 = Some 0"
    using assms parse_code [OF len rc] by (cases "rc = 0") auto
qed

lemma transact_total: "defined (transact api tc cmd parse w)"
  by (simp add: transact_def Let_def never_faults parse_total split: prod.split)

lemma transact_error: "transact api tc cmd parse w = Some (Inl hr, w') \<Longrightarrow> FAILED hr"
  by (auto simp: transact_def Let_def dest: parse_error split: prod.splits if_splits bind_splits)

lemma transact_cases:
  obtains (failed) hr w' where "transact api tc cmd parse w = Some (Inl hr, w')" "FAILED hr"
  | (ok) x w' where "transact api tc cmd parse w = Some (Inr x, w')"
proof -
  obtain r w' where r: "transact api tc cmd parse w = Some (r, w')"
    using transact_total [of api tc cmd w] by (auto simp: defined_def)
  show thesis
  proof (cases r)
    case (Inl hr)
    show thesis by (rule failed [OF r [unfolded Inl] transact_error [OF r [unfolded Inl]]])
  next
    case (Inr x)
    show thesis by (rule ok [OF r [unfolded Inr]])
  qed
qed

lemma transact_hr_of: "transact api tc cmd parse w = Some (r, w') \<Longrightarrow> FAILED (hr_of r) \<longleftrightarrow> (\<exists>hr. r = Inl hr)"
  by (cases r) (auto simp: hr_of_def dest: transact_error)

end

section \<open>The parsers meet it\<close>

lemma on_success_total:
  assumes "10 \<le> need" and "\<And>r. need \<le> length r \<Longrightarrow> defined (body r)"
  shows "defined (on_success need body resp)"
  using assms by (simp add: on_success_def never_faults)

lemma on_success_parser:
  assumes "10 \<le> need" and "\<And>r. need \<le> length r \<Longrightarrow> defined (body r)"
    and "\<And>r hr. body r = Some (Inl hr) \<Longrightarrow> FAILED hr"
  shows "response_parser (on_success need body) need"
proof
  fix resp rc hr
  show "10 \<le> need" by fact
  show "defined (on_success need body resp)"
    using assms(1,2) by (rule on_success_total)
  show "length resp < need \<Longrightarrow> on_success need body resp = Some (Inl RH_E_MALFORMED_RESPONSE)"
    by (simp add: on_success_def)
  show "need \<le> length resp \<Longrightarrow> ReadU32 resp 6 = Some rc \<Longrightarrow> rc \<noteq> 0 \<Longrightarrow>
      on_success need body resp = Some (Inl (HrFromTpmRc rc))"
    by (simp add: on_success_def)
  show "on_success need body resp = Some (Inl hr) \<Longrightarrow> FAILED hr"
    by (auto simp: on_success_def dest: assms(3) split: if_splits bind_splits)
qed

lemma skip_selections_total [never_faults]: "defined (skip_selections resp n offset)"
  by (induction resp n offset rule: skip_selections.induct) (simp_all add: Let_def never_faults)

lemma skip_selections_error: "skip_selections resp n offset = Some (Inl hr) \<Longrightarrow> FAILED hr"
  by (induction resp n offset rule: skip_selections.induct)
     (auto simp: Let_def split: if_splits bind_splits)

lemma PcrRead_digest_total [never_faults]: "defined (PcrRead_digest resp offset)"
  by (simp add: PcrRead_digest_def Let_def never_faults)

lemma PcrRead_digest_error: "PcrRead_digest resp offset = Some (Inl hr) \<Longrightarrow> FAILED hr"
  by (auto simp: PcrRead_digest_def Let_def split: if_splits bind_splits)

lemma PcrRead_body_total: "defined (PcrRead_body resp)"
  by (simp add: PcrRead_body_def Let_def never_faults)

lemma PcrRead_body_error: "PcrRead_body resp = Some (Inl hr) \<Longrightarrow> FAILED hr"
  by (auto simp: PcrRead_body_def Let_def dest: skip_selections_error PcrRead_digest_error
      split: if_splits bind_splits sum.splits)

interpretation pcr_read: response_parser PcrRead_response 10
  unfolding PcrRead_response_def
  by (rule on_success_parser) (auto dest: PcrRead_body_error simp: PcrRead_body_total)

interpretation quote: response_parser Quote_response 10
  unfolding Quote_response_def
  by (rule on_success_parser) (auto simp: Let_def never_faults split: if_splits bind_splits)

lemma ak_public_area_total [never_faults]: "defined (ak_public_area resp)"
  by (simp add: ak_public_area_def never_faults)

interpretation create_ak: response_parser CreateAndLoadAk_response 14
  unfolding CreateAndLoadAk_response_def
  by (rule on_success_parser) (auto simp: never_faults split: bind_splits)

interpretation create_ek: response_parser CreateEk_response 14
  unfolding CreateEk_response_def
  by (rule on_success_parser) (auto simp: never_faults split: bind_splits)

interpretation start_session: response_parser StartAuthSession_response 14
  unfolding StartAuthSession_response_def
  by (rule on_success_parser) (auto simp: Let_def never_faults split: if_splits bind_splits)

interpretation code_only: response_parser code_only_response 10
  unfolding code_only_response_def
  by (rule on_success_parser) auto

interpretation activate: response_parser ActivateCredential_response 10
  unfolding ActivateCredential_response_def
  by (rule on_success_parser) (auto simp: never_faults split: if_splits bind_splits)

section \<open>Memory safety and errors\<close>

lemmas parsers_total [never_faults] =
  pcr_read.transact_total quote.transact_total create_ak.transact_total create_ek.transact_total
  start_session.transact_total code_only.transact_total activate.transact_total

lemma IsPersistentPresent_total [never_faults]: "defined (IsPersistentPresent api tc h w)"
  by (simp add: IsPersistentPresent_def Let_def never_faults)

lemma PcrRead_total [never_faults]: "defined (PcrRead api tc i w)"
  by (simp add: PcrRead_def never_faults)

lemma Quote_total [never_faults]: "defined (Quote api tc ak nonce pcrs w)"
  by (simp add: Quote_def never_faults)

lemma CreateAndLoadAk_total [never_faults]: "defined (CreateAndLoadAk api tc p w)"
  by (simp add: CreateAndLoadAk_def never_faults)

lemma CreateEk_total [never_faults]: "defined (CreateEk api tc w)"
  by (simp add: CreateEk_def never_faults)

lemma ActivateCredential_run_total [never_faults]:
  "defined (ActivateCredential_run api tc ak ek cb es w)"
  by (simp add: ActivateCredential_run_def never_faults)

lemma ActivateCredential_total [never_faults]: "defined (ActivateCredential api tc ak ek cb es w)"
  by (simp add: ActivateCredential_def Let_def never_faults)

lemma EvictControl_total [never_faults]: "defined (EvictControl api tc t p w)"
  by (simp add: EvictControl_def never_faults)

lemmas transact_errors =
  start_session.transact_error code_only.transact_error activate.transact_error

lemma ActivateCredential_run_error:
  "ActivateCredential_run api tc ak ek cb es w = Some (Inl hr, s, w') \<Longrightarrow> FAILED hr"
  by (auto simp: ActivateCredential_run_def split: bind_splits sum.splits)
     (erule transact_errors)+

lemma ActivateCredential_error:
  "ActivateCredential api tc ak ek cb es w = Some (Inl hr, w') \<Longrightarrow> FAILED hr"
  by (auto simp: ActivateCredential_def Let_def split: bind_splits
      dest: ActivateCredential_run_error)

lemma EvictControl_error: "EvictControl api tc t p w = Some (Inl hr, w') \<Longrightarrow> FAILED hr"
  by (auto simp: EvictControl_def split: bind_splits sum.splits if_splits)
     (erule transact_errors)+

section \<open>What reaches the TPM\<close>

text \<open>
  TBS with a log: the same answers, and every command buffer submitted is appended to a list. The
  operations are functions of the API they are given, so what they submit can be read off.
\<close>

definition logging :: "'w tbs_api \<Rightarrow> ('w \<times> bytes list) tbs_api" where
  "logging api = \<lparr>
     Tbsi_Context_Create = (\<lambda>(w, l). let (r, h, w) = Tbsi_Context_Create api w in (r, h, w, l)),
     Tbsip_Submit_Command = (\<lambda>h cmd (w, l).
       let (r, resp, n, w) = Tbsip_Submit_Command api h cmd w in (r, resp, n, w, l @ [cmd])),
     Tbsip_Context_Close = (\<lambda>h (w, l). (Tbsip_Context_Close api h w, l)),
     Tbsi_Get_TCG_Log_Ex = (\<lambda>size (w, l).
       let (r, log, n, w) = Tbsi_Get_TCG_Log_Ex api size w in (r, log, n, w, l))\<rparr>"

lemma valid_context [simp]: "uh_valid (TbsContextTraits api) h \<longleftrightarrow> h \<noteq> 0"
  by (simp add: uh_valid_def TbsContextTraits_def)

lemma SendCommand_logging:
  "tc_context tc \<noteq> 0 \<Longrightarrow>
   SendCommand (logging api) tc cmd (w, l) =
     (let (hr, resp, w) = SendCommand api tc cmd w in (hr, resp, w, l @ [patch_command_size cmd]))"
  by (simp add: SendCommand_def logging_def Let_def split: prod.split)

lemma SendCommand_not_open:
  "tc_context tc = 0 \<Longrightarrow> SendCommand api tc cmd w = (RH_E_NOT_OPEN, [], w)"
  by (simp add: SendCommand_def)

lemma transact_logged:
  assumes "tc_context tc \<noteq> 0" and "transact (logging api) tc cmd parse s = Some (r, s')"
  shows "snd s' = snd s @ [patch_command_size cmd]"
proof -
  obtain w l where s: "s = (w, l)" by (cases s)
  show ?thesis
    using assms(2) unfolding transact_def Let_def s SendCommand_logging [OF assms(1)]
    by (auto split: prod.splits if_splits bind_splits)
qed

lemma FlushContext_logged:
  assumes "tc_context tc \<noteq> 0"
  shows "snd (snd (FlushContext (logging api) tc h s)) = snd s @ [patch_command_size (FlushContext_command h)]"
proof -
  obtain w l where s: "s = (w, l)" by (cases s)
  show ?thesis
    unfolding FlushContext_def Let_def s SendCommand_logging [OF assms]
    by (simp split: prod.splits)
qed

lemma IsPersistentPresent_logged:
  assumes "tc_context tc \<noteq> 0" and "IsPersistentPresent (logging api) tc h s = Some (b, s')"
  shows "snd s' = snd s @ [patch_command_size (ReadPublic_command h)]"
proof -
  obtain w l where s: "s = (w, l)" by (cases s)
  show ?thesis
    using assms(2) unfolding IsPersistentPresent_def Let_def s SendCommand_logging [OF assms(1)]
    by (auto split: prod.splits if_splits bind_splits)
qed

text \<open>
  \<open>run\<close> either stops at \<open>TPM2_StartAuthSession\<close> with no session, or sends \<open>TPM2_PolicySecret\<close> for
  the session it got, and \<open>TPM2_ActivateCredential\<close> only after it.
\<close>

lemma ActivateCredential_run_logged:
  assumes op: "tc_context tc \<noteq> 0"
    and run: "ActivateCredential_run (logging api) tc ak ek cb es s = Some (r, h, s')"
  obtains (no_session) hr where "r = Inl hr" "h = 0"
      "snd s' = snd s @ [patch_command_size StartAuthSession_command]"
  | (refused) hr where "r = Inl hr"
      "snd s' = snd s @ map patch_command_size [StartAuthSession_command, PolicySecret_command h]"
  | (sent) "snd s' = snd s @ map patch_command_size
      [StartAuthSession_command, PolicySecret_command h, ActivateCredential_command ak ek h cb es]"
proof -
  obtain r1 s1 where t1: "transact (logging api) tc StartAuthSession_command StartAuthSession_response s = Some (r1, s1)"
    using run by (auto simp: ActivateCredential_run_def split: bind_splits)
  note l1 = transact_logged [OF op t1]
  show thesis
  proof (cases r1)
    case (Inl hr)
    then show thesis using run t1 l1 by (intro no_session [of hr]) (simp_all add: ActivateCredential_run_def)
  next
    case (Inr h1)
    then obtain r2 s2 where t2: "transact (logging api) tc (PolicySecret_command h1) code_only_response s1 = Some (r2, s2)"
      using run t1 by (auto simp: ActivateCredential_run_def split: bind_splits)
    note l2 = transact_logged [OF op t2]
    show thesis
    proof (cases r2)
      case (Inl hr)
      then show thesis using run t1 t2 l1 l2 \<open>r1 = Inr h1\<close>
        by (intro refused [of hr]) (simp_all add: ActivateCredential_run_def)
    next
      case (Inr u)
      then obtain s3 where "h = h1" and t3: "transact (logging api) tc
          (ActivateCredential_command ak ek h1 cb es) ActivateCredential_response s2 = Some (r, s3)" "s' = s3"
        using run t1 t2 \<open>r1 = Inr h1\<close> by (auto simp: ActivateCredential_run_def split: bind_splits)
      then show thesis using l1 l2 transact_logged [OF op t3(1)] by (intro sent) simp
    qed
  qed
qed

lemma ActivateCredential_then_flush:
  "ActivateCredential api tc ak ek cb es w = Some (r, w') \<Longrightarrow>
   \<exists>s w1. ActivateCredential_run api tc ak ek cb es w = Some (r, s, w1)
     \<and> w' = (if s \<noteq> 0 then snd (FlushContext api tc s w1) else w1)"
  by (auto simp: ActivateCredential_def Let_def split: bind_splits)

section \<open>The responses a TPM sends\<close>

definition response_bytes :: "u16 \<Rightarrow> u32 \<Rightarrow> bytes \<Rightarrow> bytes" where
  "response_bytes tag rc body = u16_be tag @ u32_be (of_nat (10 + length body)) @ u32_be rc @ body"

definition pcr_selection_bytes :: "(u16 \<times> bytes) list \<Rightarrow> bytes" where
  "pcr_selection_bytes sels = concat (map (\<lambda>(alg, sel). u16_be alg @ of_nat (length sel) # sel) sels)"

definition pcr_read_body :: "u32 \<Rightarrow> (u16 \<times> bytes) list \<Rightarrow> bytes list \<Rightarrow> bytes" where
  "pcr_read_body counter sels digests =
     u32_be counter @ u32_be (of_nat (length sels)) @ pcr_selection_bytes sels
     @ u32_be (of_nat (length digests)) @ concat (map sized_buffer digests)"

lemma length_response_bytes [simp]: "length (response_bytes tag rc body) = 10 + length body"
  by (simp add: response_bytes_def)

lemma response_skip [simp]:
  "ReadU16 (response_bytes tag rc body) (10 + i) = ReadU16 body i"
  "ReadU32 (response_bytes tag rc body) (10 + i) = ReadU32 body i"
proof -
  define pre where "pre = u16_be tag @ u32_be (of_nat (10 + length body)) @ u32_be rc"
  have r: "response_bytes tag rc body = pre @ body" "length pre = 10"
    by (simp_all add: response_bytes_def pre_def)
  show "ReadU16 (response_bytes tag rc body) (10 + i) = ReadU16 body i"
    "ReadU32 (response_bytes tag rc body) (10 + i) = ReadU32 body i"
    using be16.rd_skip [of pre body i] be32.rd_skip [of pre body i] by (simp_all add: r)
qed

lemma response_range: "vec_range (response_bytes tag rc body) (10 + i) (10 + j) = vec_range body i j"
  by (simp add: vec_range_def response_bytes_def)

lemma ReadU32_response_code [simp]: "ReadU32 (response_bytes tag rc body) 6 = Some rc"
  by (rule be32.rd_wr_at [where post = body]) (simp_all add: response_bytes_def)

lemma ReadU16_response_tag [simp]: "ReadU16 (response_bytes tag rc body) 0 = Some tag"
  by (rule be16.rd_wr_at [where post = "drop 2 (response_bytes tag rc body)"])
    (simp_all add: response_bytes_def)

lemma on_success_response:
  "need \<le> 10 + length body \<Longrightarrow>
   on_success need f (response_bytes tag rc body) =
     (if rc = 0 then f (response_bytes tag rc body) else Some (Inl (HrFromTpmRc rc)))"
  by (simp add: on_success_def)

text \<open>The walk over the selections stops exactly behind them.\<close>

lemma skip_selections_step:
  "offset + 2 < length resp \<Longrightarrow> byte_at resp (offset + 2) = Some n \<Longrightarrow>
   skip_selections resp (Suc k) offset = skip_selections resp k (offset + 2 + (1 + unat n))"
  by (simp add: Let_def)

lemma skip_selections_walks:
  assumes "\<forall>(alg, sel) \<in> set sels. length sel < 256" and "post \<noteq> []"
  shows "skip_selections (pre @ pcr_selection_bytes sels @ post) (length sels) (length pre)
    = Some (Inr (length pre + length (pcr_selection_bytes sels)))"
  using assms(1)
proof (induction sels arbitrary: pre)
  case Nil
  then show ?case by (simp add: pcr_selection_bytes_def)
next
  case (Cons s sels)
  obtain alg sel where s: "s = (alg, sel)" by (cases s)
  let ?step = "u16_be alg @ of_nat (length sel) # sel"
  let ?bs = "pre @ pcr_selection_bytes (s # sels) @ post"
  have bs: "?bs = (pre @ u16_be alg) @ of_nat (length sel) # sel @ pcr_selection_bytes sels @ post"
    by (simp add: pcr_selection_bytes_def s)
  have size: "byte_at ?bs (length pre + 2) = Some (of_nat (length sel))"
    unfolding bs by (simp add: byte_at_def nth_append)
  have len: "unat (of_nat (length sel) :: u8) = length sel"
    using Cons.prems s by (simp add: unat_of_nat)
  have "skip_selections ((pre @ ?step) @ pcr_selection_bytes sels @ post) (length sels) (length (pre @ ?step))
      = Some (Inr (length (pre @ ?step) + length (pcr_selection_bytes sels)))"
    using Cons.prems by (intro Cons.IH) auto
  moreover have "(pre @ ?step) @ pcr_selection_bytes sels @ post = ?bs"
    by (simp add: bs)
  ultimately have IH: "skip_selections ?bs (length sels) (length pre + 2 + (1 + length sel))
      = Some (Inr (length pre + length (pcr_selection_bytes (s # sels))))"
    by (simp add: pcr_selection_bytes_def s)
  have "length pre + 2 < length ?bs" unfolding bs by simp
  then have "skip_selections ?bs (Suc (length sels)) (length pre)
      = skip_selections ?bs (length sels) (length pre + 2 + (1 + unat (of_nat (length sel) :: u8)))"
    using size by (rule skip_selections_step)
  then show ?case unfolding len IH by simp
qed

lemma PcrRead_digest_first:
  assumes "length d < 65536" and "0 < (of_nat n :: u32)"
  shows "PcrRead_digest (pre @ u32_be (of_nat n) @ sized_buffer d @ post) (length pre) = Some (Inr d)"
proof -
  let ?bs = "pre @ u32_be (of_nat n) @ sized_buffer d @ post"
  have "ReadU32 ?bs (length pre) = Some (of_nat n)" by (rule be32.rd_wr)
  moreover have "ReadU16 ?bs (length pre + 4) = Some (of_nat (length d))"
    by (rule be16.rd_wr_at [where post = "d @ post"]) (simp_all add: sized_buffer_def)
  moreover have "unat (of_nat (length d) :: u16) = length d"
    using assms(1) by (simp add: unat_of_nat)
  moreover have "vec_range ?bs (length pre + 4 + 2) (length pre + 4 + 2 + length d) = Some d"
    using vec_range_append [of "pre @ u32_be (of_nat n) @ u16_be (of_nat (length d))" d post]
    by (simp add: sized_buffer_def ac_simps)
  ultimately show ?thesis
    using assms by (simp add: PcrRead_digest_def Let_def)
qed

text \<open>A field at a fixed place of a response.\<close>

lemma response_u16:
  "length pre = i \<Longrightarrow> ReadU16 (response_bytes tag rc (pre @ u16_be v @ post)) (10 + i) = Some v"
  using be16.rd_wr [of pre v post] by simp

lemma response_u32:
  "length pre = i \<Longrightarrow> ReadU32 (response_bytes tag rc (pre @ u32_be v @ post)) (10 + i) = Some v"
  using be32.rd_wr [of pre v post] by simp

lemma response_part:
  "length pre = i \<Longrightarrow>
   vec_range (response_bytes tag rc (pre @ part @ post)) (10 + i) (10 + i + length part) = Some part"
  using response_range [of tag rc "pre @ part @ post" i "i + length part"]
    vec_range_append [of pre part post]
  by (simp add: add.assoc)

lemma response_rest:
  "length pre = i \<Longrightarrow>
   vec_range (response_bytes tag rc (pre @ part)) (10 + i) (10 + i + length part) = Some part"
  using response_part [of pre i tag rc part "[]"] by simp

lemma unat_u16_length: "length xs < 65536 \<Longrightarrow> unat (of_nat (length xs) :: u16) = length xs"
  by (simp add: unat_of_nat)

lemma PcrRead_response_reads:
  assumes "\<forall>(alg, sel) \<in> set sels. length sel < 256" and "length sels < 2 ^ 32"
    and "length (d # ds) < 2 ^ 32" and "length d < 65536"
  shows "PcrRead_response (response_bytes tag 0 (pcr_read_body counter sels (d # ds))) = Some (Inr d)"
proof -
  let ?body = "pcr_read_body counter sels (d # ds)"
  define resp where "resp = response_bytes tag 0 ?body"
  let ?pre = "u16_be tag @ u32_be (of_nat (10 + length ?body)) @ u32_be 0 @ u32_be counter
    @ u32_be (of_nat (length sels))"
  let ?post = "u32_be (of_nat (length (d # ds))) @ sized_buffer d @ concat (map sized_buffer ds)"
  have resp: "resp = ?pre @ pcr_selection_bytes sels @ ?post"
    by (simp add: resp_def response_bytes_def pcr_read_body_def)
  have pre: "length ?pre = 18" by simp
  have n: "unat (of_nat (length sels) :: u32) = length sels"
    using assms(2) by (simp add: unat_of_nat)
  have count: "ReadU32 resp 14 = Some (of_nat (length sels))"
    unfolding resp by (rule be32.rd_wr_at [where post = "pcr_selection_bytes sels @ ?post"]) simp_all
  have walk: "skip_selections resp (length sels) 18
      = Some (Inr (18 + length (pcr_selection_bytes sels)))"
    using skip_selections_walks [OF assms(1), of ?post ?pre] unfolding resp pre by (simp add: u32_be_def)
  have "0 < (of_nat (length (d # ds)) :: u32)"
    using assms(3) by (simp add: word_greater_zero_iff of_nat_eq_0_iff word_of_nat_eq_0_iff
        nat_dvd_not_less del: of_nat_Suc)
  from PcrRead_digest_first [OF assms(4) this, of "?pre @ pcr_selection_bytes sels" "concat (map sized_buffer ds)"]
  have digest: "PcrRead_digest resp (18 + length (pcr_selection_bytes sels)) = Some (Inr d)"
    unfolding resp using pre by (simp del: of_nat_Suc)
  have "PcrRead_body resp = Some (Inr d)"
    using walk digest count n by (simp add: PcrRead_body_def resp)
  then show ?thesis
    by (simp add: PcrRead_response_def on_success_response resp_def)
qed

lemma Quote_response_reads:
  assumes "length attest < 65536"
  shows "Quote_response (response_bytes tag 0 (u32_be n @ sized_buffer attest @ sig)) = Some (Inr (attest, sig))"
proof -
  define resp where "resp = response_bytes tag 0 (u32_be n @ sized_buffer attest @ sig)"
  have size: "ReadU16 resp 14 = Some (of_nat (length attest))"
    using response_u16 [of "u32_be n" 4] by (simp add: resp_def sized_buffer_def)
  have quoted: "vec_range resp 16 (16 + length attest) = Some attest"
    using response_part [of "u32_be n @ u16_be (of_nat (length attest))" 6]
    by (simp add: resp_def sized_buffer_def)
  have len: "length resp = 16 + length attest + length sig"
    by (simp add: resp_def)
  have "vec_range resp (16 + length attest) (length resp) = Some sig"
    using response_rest [of "u32_be n @ sized_buffer attest" "6 + length attest"]
    by (simp add: resp_def add.assoc)
  then have "Quote_response resp = Some (Inr (attest, sig))"
    using size quoted unat_u16_length [OF assms] resp_def
    by (auto simp: Quote_response_def on_success_def len Let_def)
  then show ?thesis by (simp add: resp_def)
qed

lemma ActivateCredential_response_reads:
  assumes "length secret < 65536" and "2 \<le> n"
  shows "ActivateCredential_response (response_bytes tag 0 (u32_be n @ sized_buffer secret @ auth))
    = Some (Inr secret)"
proof -
  define resp where "resp = response_bytes tag 0 (u32_be n @ sized_buffer secret @ auth)"
  have size: "ReadU16 resp 14 = Some (of_nat (length secret))"
    using response_u16 [of "u32_be n" 4] by (simp add: resp_def sized_buffer_def)
  have psize: "ReadU32 resp 10 = Some n"
    using response_u32 [of "[]" 0] by (simp add: resp_def)
  have secret: "vec_range resp 16 (16 + length secret) = Some secret"
    using response_part [of "u32_be n @ u16_be (of_nat (length secret))" 6]
    by (simp add: resp_def sized_buffer_def)
  have "ActivateCredential_response resp = Some (Inr secret)"
    using size psize secret unat_u16_length [OF assms(1)] assms(2)
    by (simp add: ActivateCredential_response_def on_success_def resp_def not_less)
  then show ?thesis by (simp add: resp_def)
qed

lemma CreateAndLoadAk_response_reads:
  assumes "length pub < 65536" and "0 < length pub" and "0 < n" and "unat n \<le> 2 + length pub + length rest"
  shows "CreateAndLoadAk_response (response_bytes tag 0 (u32_be h @ u32_be n @ sized_buffer pub @ rest))
    = Some (Inr (h, sized_buffer pub))"
proof -
  define resp where "resp = response_bytes tag 0 (u32_be h @ u32_be n @ sized_buffer pub @ rest)"
  have handle: "ReadU32 resp 10 = Some h"
    using response_u32 [of "[]" 0] by (simp add: resp_def)
  have psize: "ReadU32 resp 14 = Some n"
    using response_u32 [of "u32_be h" 4] by (simp add: resp_def)
  have size: "ReadU16 resp 18 = Some (of_nat (length pub))"
    using response_u16 [of "u32_be h @ u32_be n" 8] by (simp add: resp_def sized_buffer_def)
  have part: "vec_range resp 18 (20 + length pub) = Some (sized_buffer pub)"
    using response_part [of "u32_be h @ u32_be n" 8 tag 0 "sized_buffer pub" rest] by (simp add: resp_def)
  have len: "length resp = 20 + length pub + length rest" by (simp add: resp_def)
  have "0 < (of_nat (length pub) :: u16)"
    using unat_u16_length [OF assms(1)] assms(2) by (simp add: word_less_nat_alt)
  then have "ak_public_area resp = Some (sized_buffer pub)"
    using psize size part unat_u16_length [OF assms(1)] assms(3,4)
    by (simp add: ak_public_area_def len)
  then have "CreateAndLoadAk_response resp = Some (Inr (h, sized_buffer pub))"
    using handle by (simp add: CreateAndLoadAk_response_def on_success_def resp_def)
  then show ?thesis by (simp add: resp_def)
qed

section \<open>The operations on a TPM that answers\<close>

definition tbs_answers :: "'w tbs_api \<Rightarrow> tpm_commands \<Rightarrow> bytes \<Rightarrow> 'w \<Rightarrow> bytes \<Rightarrow> 'w \<Rightarrow> bool" where
  "tbs_answers api tc command w resp w' \<longleftrightarrow>
     tc_context tc \<noteq> 0 \<and> length resp \<le> 4096 \<and>
     Tbsip_Submit_Command api (tc_context tc) (patch_command_size command) w
       = (TBS_SUCCESS, resp, of_nat (length resp), w')"

lemma SendCommand_answered:
  assumes "tbs_answers api tc cmd w resp w'"
  shows "SendCommand api tc cmd w = (S_OK, resp, w')"
proof -
  have n: "unat (of_nat (length resp) :: u32) = length resp"
    using assms by (simp add: tbs_answers_def unat_of_nat)
  have "take (length resp) (vec_resize 4096 resp) = resp"
    using assms by (simp add: tbs_answers_def vec_resize_def)
  then show ?thesis
    using assms by (simp add: SendCommand_def tbs_answers_def Let_def n vec_resize_cut)
qed

lemma transact_answered:
  assumes "tbs_answers api tc cmd w resp w'" and "parse resp = Some r"
  shows "transact api tc cmd parse w = Some (r, w')"
  using assms(2) by (simp add: transact_def SendCommand_answered [OF assms(1)])

text \<open>A TBS that plays a list of responses back, for concrete runs.\<close>

definition scripted :: "bytes list tbs_api" where
  "scripted = \<lparr>
     Tbsi_Context_Create = (\<lambda>w. (TBS_SUCCESS, 1, w)),
     Tbsip_Submit_Command = (\<lambda>_ _ w. case w of [] \<Rightarrow> (E_FAIL, [], 0, [])
        | r # rs \<Rightarrow> (TBS_SUCCESS, r, of_nat (length r), rs)),
     Tbsip_Context_Close = (\<lambda>_ w. w),
     Tbsi_Get_TCG_Log_Ex = (\<lambda>_ w. (E_FAIL, [], 0, w))\<rparr>"

lemma scripted_answers [simp]:
  "tbs_answers scripted tc cmd (r # rs) r rs \<longleftrightarrow> tc_context tc \<noteq> 0 \<and> length r \<le> 4096"
  by (simp add: tbs_answers_def scripted_def)

lemma logging_answers:
  "tbs_answers api tc cmd w resp w' \<Longrightarrow>
   tbs_answers (logging api) tc cmd (w, l) resp (w', l @ [patch_command_size cmd])"
  by (simp add: tbs_answers_def logging_def)

text \<open>The three responses of a credential activation that succeeds.\<close>

definition session_response :: "u32 \<Rightarrow> bytes \<Rightarrow> bytes" where
  "session_response s nonce = response_bytes TPM2_ST_NO_SESSIONS 0 (u32_be s @ sized_buffer nonce)"

definition ok_response :: "bytes \<Rightarrow> bytes" where
  "ok_response body = response_bytes TPM2_ST_SESSIONS 0 body"

definition secret_response :: "bytes \<Rightarrow> bytes \<Rightarrow> bytes" where
  "secret_response secret auth =
     response_bytes TPM2_ST_SESSIONS 0 (u32_be (of_nat (2 + length secret)) @ sized_buffer secret @ auth)"

lemma StartAuthSession_response_reads:
  "StartAuthSession_response (session_response s nonce) = Some (Inr s)"
proof -
  have "ReadU32 (session_response s nonce) 10 = Some s"
    unfolding session_response_def using response_u32 [of "[]" 0] by simp
  then show ?thesis
    by (simp add: StartAuthSession_response_def on_success_def session_response_def
        ST_NO_SESSIONS_def ST_SESSIONS_def)
qed

lemma code_only_response_ok: "code_only_response (ok_response body) = Some (Inr ())"
  by (simp add: code_only_response_def on_success_def ok_response_def)

lemma secret_response_reads:
  assumes "length secret \<le> 64"
  shows "ActivateCredential_response (secret_response secret auth) = Some (Inr secret)"
proof -
  have "unat (of_nat (2 + length secret) :: u32) = 2 + length secret"
    unfolding unat_of_nat using assms by simp
  then have "(2 :: u32) \<le> of_nat (2 + length secret)"
    unfolding word_le_nat_alt by simp
  then show ?thesis
    unfolding secret_response_def using assms by (intro ActivateCredential_response_reads) simp_all
qed

lemma ActivateCredential_run_answered:
  assumes "tbs_answers api tc StartAuthSession_command w (session_response s nonce) w1"
    and "tbs_answers api tc (PolicySecret_command s) w1 (ok_response body) w2"
    and "tbs_answers api tc (ActivateCredential_command ak ek s cb es) w2 (secret_response secret auth) w3"
    and "length secret \<le> 64"
  shows "ActivateCredential_run api tc ak ek cb es w = Some (Inr secret, s, w3)"
  using transact_answered [where parse = StartAuthSession_response, OF assms(1)]
    transact_answered [where parse = code_only_response, OF assms(2)]
    transact_answered [where parse = ActivateCredential_response, OF assms(3)]
  by (simp add: ActivateCredential_run_def StartAuthSession_response_reads code_only_response_ok
      secret_response_reads assms(4))

section \<open>Properties\<close>

text \<open>C19. Every operation on the TPM has a defined result whatever the driver and the TPM answer:
  no response, however short, long or corrupt, makes a parser read outside its vector.\<close>

theorem tpm_operations_memory_safe:
  "defined (PcrRead api tc i w) \<and> defined (Quote api tc ak nonce pcrs w)
   \<and> defined (CreateAndLoadAk api tc p w) \<and> defined (CreateEk api tc w)
   \<and> defined (ActivateCredential api tc ak ek cb es w) \<and> defined (IsPersistentPresent api tc h w)
   \<and> defined (EvictControl api tc t h w)"
  by (simp add: never_faults)


text \<open>C22. A credential activation against a TPM that answers its commands recovers exactly the secret
  the TPM released, and leaves the world as the final flush of the session left it.\<close>

theorem activate_credential_returns_secret:
  assumes "tbs_answers api tc StartAuthSession_command w (session_response s nonce) w1"
    and "tbs_answers api tc (PolicySecret_command s) w1 (ok_response body) w2"
    and "tbs_answers api tc (ActivateCredential_command ak ek s cb es) w2 (secret_response secret auth) w3"
    and "tbs_answers api tc (FlushContext_command s) w3 resp w4"
    and "length secret \<le> 64" and "s \<noteq> 0"
  shows "ActivateCredential api tc ak ek cb es w = Some (Inr secret, w4)"
  using ActivateCredential_run_answered [OF assms(1-3,5)] assms(6)
  by (simp add: ActivateCredential_def FlushContext_def SendCommand_answered [OF assms(4)])

theorem activate_credential_returns_secret_witness:
  "ActivateCredential scripted \<lparr>tc_context = 1\<rparr> 0x80000001 0x81010001 [1] [2]
     [session_response 0x03000000 [9, 9], ok_response [], secret_response [7, 8] [0], ok_response []]
   = Some (Inr [7, 8], [])"
  by (rule activate_credential_returns_secret [where s = "0x03000000" and nonce = "[9, 9]"
        and secret = "[7, 8]" and body = "[]" and auth = "[0]" and resp = "ok_response []"
        and ?w1.0 = "[ok_response [], secret_response [7, 8] [0], ok_response []]"
        and ?w2.0 = "[secret_response [7, 8] [0], ok_response []]" and ?w3.0 = "[ok_response []]"])
    (simp_all add: session_response_def ok_response_def secret_response_def)


text \<open>What \<open>Quote\<close> puts on the wire decodes, as a TPM decodes it, to a quote command for the
  given key with a password session, the nonce as qualifying data, RSASSA with SHA-256, and a PCR
  selection that holds exactly the requested PCRs below 24.\<close>

theorem quote_command_asks_for_pcrs:
  assumes "length nonce < 2 ^ 16"
  shows "\<exists>bm. length bm = 3 \<and> (\<forall>i. i < 24 \<longrightarrow> bitmap_has bm i \<longleftrightarrow> of_nat i \<in> set pcrs)
    \<and> decode_command 1 (patch_command_size (Quote_command ak nonce pcrs)) =
       Some \<lparr>c_sessions_tag = True, c_code = TPM2_CC_Quote, c_handles = [ak],
         c_auth = [password_session],
         c_params = sized_buffer nonce @ u16_be TPM2_ALG_RSASSA @ u16_be TPM2_ALG_SHA256
           @ sha256_selection bm\<rparr>"
  using quote_bitmap_has [of "[0, 0, 0]" _ pcrs] bitmap_has_empty
  by (intro exI [of _ "quote_bitmap [0, 0, 0] pcrs"] conjI Quote_command_sends [OF assms] length_quote_bitmap allI impI) auto

theorem quote_command_asks_for_pcrs_witness:
  "\<exists>bm. length bm = 3 \<and> (\<forall>i. i < 24 \<longrightarrow> bitmap_has bm i \<longleftrightarrow> of_nat i \<in> set [0 :: u32, 7, 11])
    \<and> decode_command 1 (patch_command_size (Quote_command 0x81010001 [1, 2, 3] [0, 7, 11])) =
       Some \<lparr>c_sessions_tag = True, c_code = TPM2_CC_Quote, c_handles = [0x81010001],
         c_auth = [password_session],
         c_params = sized_buffer [1, 2, 3] @ u16_be TPM2_ALG_RSASSA @ u16_be TPM2_ALG_SHA256
           @ sha256_selection bm\<rparr>"
  by (rule quote_command_asks_for_pcrs) simp

text \<open>From a quote response of a TPM the attestation and the signature are returned exactly as
  they stand in it, for every length the wire format can carry.\<close>

lemma quote_returns_attestation:
  assumes "tbs_answers api tc (Quote_command ak nonce pcrs) w
      (response_bytes tag 0 (u32_be n @ sized_buffer attest @ sig)) w'"
  shows "Quote api tc ak nonce pcrs w = Some (Inr (attest, sig), w')"
proof -
  have "length attest < 65536" using assms by (simp add: tbs_answers_def)
  from Quote_response_reads [OF this] transact_answered [where parse = Quote_response, OF assms]
  show ?thesis by (simp add: Quote_def)
qed

lemma quote_returns_attestation_witness:
  "Quote scripted \<lparr>tc_context = 1\<rparr> 0x81010001 [1] [7]
     [response_bytes 0x8002 0 (u32_be 7 @ sized_buffer [1, 2, 3] @ [4, 5])] = Some (Inr ([1, 2, 3], [4, 5]), [])"
  by (rule quote_returns_attestation [where tag = "0x8002" and n = 7]) simp

text \<open>\<open>PcrRead\<close> finds the first digest of a response whatever selections precede it: the walk over
  the selection list, whose entries have a size of their own, ends exactly at the digest list.\<close>

lemma pcr_read_returns_first_digest:
  assumes "\<forall>(alg, sel) \<in> set sels. length sel < 256"
    and "tbs_answers api tc (PcrRead_command i) w (response_bytes tag 0 (pcr_read_body counter sels (d # ds))) w'"
  shows "PcrRead api tc i w = Some (Inr d, w')"
proof -
  have len: "length (response_bytes tag 0 (pcr_read_body counter sels (d # ds))) \<le> 4096"
    using assms(2) by (simp add: tbs_answers_def)
  moreover have "length ds \<le> length (concat (map sized_buffer ds))"
    by (induction ds) auto
  moreover have "length sels \<le> length (pcr_selection_bytes sels)"
    by (induction sels) (auto simp: pcr_selection_bytes_def)
  ultimately have "length ds + length sels + length d \<le> 4096"
    by (simp add: pcr_read_body_def)
  then have "length sels < 2 ^ 32" "length (d # ds) < 2 ^ 32" "length d < 65536"
    by simp_all
  from PcrRead_response_reads [OF assms(1) this]
    transact_answered [where parse = PcrRead_response, OF assms(2)]
  show ?thesis by (simp add: PcrRead_def)
qed

lemma pcr_read_returns_first_digest_witness:
  "PcrRead scripted \<lparr>tc_context = 1\<rparr> 7
     [response_bytes 0x8001 0 (pcr_read_body 42 [(0x000B, [0x80, 0, 0])] [[1, 2, 3, 4]])] = Some (Inr [1, 2, 3, 4], [])"
  by (rule pcr_read_returns_first_digest [where sels = "[(0x000B, [0x80, 0, 0])]" and ds = "[]"
        and tag = "0x8001" and counter = 42])
    (simp_all add: pcr_read_body_def pcr_selection_bytes_def)

text \<open>Making a key persistent asks first whether the slot is taken, clears it only then, and stores
  the key last; when the clearing fails the store is not attempted and the failure is returned.\<close>

theorem evict_control_clears_then_stores:
  assumes "tc_context tc \<noteq> 0"
    and "EvictControl (logging api) tc t p (w, l) = Some (r, w', l')"
  shows "(\<exists>present. l' = l @ map patch_command_size ([ReadPublic_command p]
             @ (if present then [EvictControl_command p p] else []) @ [EvictControl_command t p]))
    \<or> (l' = l @ map patch_command_size [ReadPublic_command p, EvictControl_command p p]
       \<and> (\<exists>hr. r = Inl hr \<and> FAILED hr))"
proof -
  obtain present s1 where p: "IsPersistentPresent (logging api) tc p (w, l) = Some (present, s1)"
    using assms(2) by (auto simp: EvictControl_def split: bind_splits)
  note l1 = IsPersistentPresent_logged [OF assms(1) p]
  have store: ?thesis if "transact (logging api) tc (EvictControl_command t p) code_only_response s2 = Some (r, w', l')"
    and "snd s2 = l @ map patch_command_size ([ReadPublic_command p] @ (if present then [EvictControl_command p p] else []))"
    for s2
    using transact_logged [OF assms(1) that(1)] that(2) by (intro disjI1 exI [of _ present]) simp
  show ?thesis
  proof (cases present)
    case False
    then show ?thesis using store [of s1] assms(2) p l1 by (simp add: EvictControl_def)
  next
    case True
    then obtain r2 s2 where t2: "transact (logging api) tc (EvictControl_command p p) code_only_response s1 = Some (r2, s2)"
      using assms(2) p by (auto simp: EvictControl_def split: bind_splits)
    note l2 = transact_logged [OF assms(1) t2]
    show ?thesis
    proof (cases r2)
      case (Inl hr)
      then have "r = Inl hr" "s2 = (w', l')"
        using assms(2) p t2 True by (simp_all add: EvictControl_def)
      moreover have "FAILED hr" using t2 unfolding Inl by (rule code_only.transact_error)
      ultimately show ?thesis using l1 l2 by simp
    next
      case (Inr u)
      then show ?thesis using store [of s2] assms(2) p t2 True l1 l2 by (simp add: EvictControl_def)
    qed
  qed
qed

theorem evict_control_clears_then_stores_witness:
  "\<exists>r w' l'. EvictControl (logging scripted) \<lparr>tc_context = 1\<rparr> 0x80000001 0x81010001
      ([ok_response [], ok_response [], ok_response []], []) = Some (r, w', l')
    \<and> ((\<exists>present. l' = [] @ map patch_command_size ([ReadPublic_command 0x81010001]
             @ (if present then [EvictControl_command 0x81010001 0x81010001] else [])
             @ [EvictControl_command 0x80000001 0x81010001]))
      \<or> (l' = [] @ map patch_command_size [ReadPublic_command 0x81010001, EvictControl_command 0x81010001 0x81010001]
         \<and> (\<exists>hr. r = Inl hr \<and> FAILED hr)))"
proof -
  let ?w = "([ok_response [], ok_response [], ok_response []], [])"
  obtain r w' l' where run: "EvictControl (logging scripted) \<lparr>tc_context = 1\<rparr> 0x80000001 0x81010001 ?w
      = Some (r, w', l')"
    using EvictControl_total [of "logging scripted" "\<lparr>tc_context = 1\<rparr>" "0x80000001" "0x81010001" ?w]
    by (auto simp: defined_def)
  have "tc_context \<lparr>tc_context = 1\<rparr> \<noteq> 0" by simp
  from evict_control_clears_then_stores [OF this run] run show ?thesis by blast
qed

end
