(* ===== verification/Tpm_Nv.thy ===== *)
theory Tpm_Nv
  imports Tpm_Commands
begin

text \<open>
  The NV half of \<open>src/tpm/tpm_commands.cpp\<close>: \<open>ReadNvData\<close>, which asks for the size of an index and
  then reads it in chunks, \<open>DerObjectSize\<close>, and \<open>ReadIntelOdcaIntermediates\<close>, which concatenates
  sixteen indices and cuts the stream into certificates.

  The chunk loop is bounded by nothing but the TPM's answers, so it is a \<open>partial_function\<close> whose
  value \<open>None\<close> is a loop that never ends (its body has no undefined read: \<open>NV_Read_response\<close> is a
  \<open>response_parser\<close>). That it ends for a TPM that returns no more than it was asked for is proved,
  and so is that it need not end otherwise.
\<close>

section \<open>The responses\<close>

definition NV_ReadPublic_body :: "bytes \<Rightarrow> (HRESULT + u16) option" where
  "NV_ReadPublic_body resp =
     (let offset = 10
      in if offset + 2 > length resp then Some (Inl RH_E_MALFORMED_RESPONSE)
         else do {
           nvPublicSize \<leftarrow> ReadU16 resp offset;
           let offset = offset + 2;
           if offset + unat nvPublicSize > length resp then Some (Inl RH_E_MALFORMED_RESPONSE)
           else let inner = offset
           in if inner + 4 + 2 + 4 + 2 > length resp then Some (Inl RH_E_MALFORMED_RESPONSE)
           else do {
             let inner = inner + (4 + 2 + 4);
             policySize \<leftarrow> ReadU16 resp inner;
             let inner = inner + 2;
             if inner + unat policySize + 2 > length resp then Some (Inl RH_E_MALFORMED_RESPONSE)
             else do {
               dataSize \<leftarrow> ReadU16 resp (inner + unat policySize);
               if dataSize = 0 then Some (Inl RH_E_MALFORMED_RESPONSE) else Some (Inr dataSize)
             }
           }
         })"

definition NV_ReadPublic_response :: "bytes \<Rightarrow> (HRESULT + u16) option" where
  "NV_ReadPublic_response = on_success 10 NV_ReadPublic_body"

definition NV_Read_body :: "bytes \<Rightarrow> (HRESULT + u16 \<times> bytes) option" where
  "NV_Read_body readResp =
     (let bufferOffset = 10 + 4
      in if bufferOffset + 2 > length readResp then Some (Inl RH_E_MALFORMED_RESPONSE)
         else do {
           got \<leftarrow> ReadU16 readResp bufferOffset;
           let bufferOffset = bufferOffset + 2;
           if got = 0 \<or> bufferOffset + unat got > length readResp
           then Some (Inl RH_E_MALFORMED_RESPONSE)
           else do {
             chunk \<leftarrow> vec_range readResp bufferOffset (bufferOffset + unat got);
             Some (Inr (got, chunk))
           }
         })"

definition NV_Read_response :: "bytes \<Rightarrow> (HRESULT + u16 \<times> bytes) option" where
  "NV_Read_response = on_success 10 NV_Read_body"

interpretation nv_public: response_parser NV_ReadPublic_response 10
  unfolding NV_ReadPublic_response_def NV_ReadPublic_body_def
  by (rule on_success_parser) (auto simp: Let_def never_faults split: if_splits bind_splits)

interpretation nv_read: response_parser NV_Read_response 10
  unfolding NV_Read_response_def NV_Read_body_def
  by (rule on_success_parser) (auto simp: Let_def never_faults split: if_splits bind_splits)

lemmas nv_parsers_total [never_faults] = nv_public.transact_total nv_read.transact_total

section \<open>Reading an index\<close>

definition CHUNK :: u16 where
  "CHUNK = 1024"

definition nv_want :: "u16 \<Rightarrow> u16 \<Rightarrow> u16" where
  "nv_want dataSize readOffset =
     (if dataSize - readOffset > CHUNK then CHUNK else dataSize - readOffset)"

partial_function (option) ReadNv_loop ::
    "'w tbs_api \<Rightarrow> tpm_commands \<Rightarrow> u32 \<Rightarrow> u16 \<Rightarrow> u16 \<Rightarrow> bytes \<Rightarrow> 'w
     \<Rightarrow> ((HRESULT + bytes) \<times> 'w) option" where
  "ReadNv_loop api tc nvIndex dataSize readOffset out w =
     (if readOffset < dataSize
      then do {
        (r, w) \<leftarrow> transact api tc (NV_Read_command nvIndex (nv_want dataSize readOffset) readOffset)
                   NV_Read_response w;
        case r of
          Inl hr \<Rightarrow> Some (Inl hr, w)
        | Inr (got, chunk) \<Rightarrow>
            ReadNv_loop api tc nvIndex dataSize (readOffset + got) (out @ chunk) w
      }
      else Some (Inr out, w))"

declare ReadNv_loop.simps [code]

definition ReadNvData ::
    "'w tbs_api \<Rightarrow> tpm_commands \<Rightarrow> u32 \<Rightarrow> 'w \<Rightarrow> ((HRESULT + bytes) \<times> 'w) option" where
  "ReadNvData api tc nvIndex w = do {
     (r, w) \<leftarrow> transact api tc (NV_ReadPublic_command nvIndex) NV_ReadPublic_response w;
     case r of
       Inl hr \<Rightarrow> Some (Inl hr, w)
     | Inr dataSize \<Rightarrow> do {
         (r, w) \<leftarrow> ReadNv_loop api tc nvIndex dataSize 0 [] w;
         case r of
           Inl hr \<Rightarrow> Some (Inl hr, w)
         | Inr out \<Rightarrow> Some (if out = [] then Inl RH_E_MALFORMED_RESPONSE else Inr out, w)
       }
   }"

section \<open>Cutting a stream of certificates\<close>

fun der_length :: "bytes \<Rightarrow> nat \<Rightarrow> nat \<Rightarrow> nat \<Rightarrow> nat option" where
  "der_length data i 0 len = Some len"
| "der_length data i (Suc n) len = do {
     b \<leftarrow> byte_at data i;
     der_length data (i + 1) n (push_bit 8 len OR unat b)
   }"

text \<open>\<open>Some 0\<close> is the \<open>0\<close> of the code: not an object that fits.\<close>

definition DerObjectSize :: "bytes \<Rightarrow> nat \<Rightarrow> nat option" where
  "DerObjectSize data offset =
     (if offset + 2 > length data then Some 0
      else do {
        tag \<leftarrow> byte_at data offset;
        if tag \<noteq> 0x30 then Some 0
        else do {
          lengthByte \<leftarrow> byte_at data (offset + 1);
          if lengthByte AND 0x80 = 0
          then let total = 2 + unat lengthByte
               in Some (if offset + total \<le> length data then total else 0)
          else let lengthBytes = unat (lengthByte AND 0x7F)
          in if lengthBytes = 0 \<or> lengthBytes > 4 then Some 0
          else if offset + 2 + lengthBytes > length data then Some 0
          else do {
            len \<leftarrow> der_length data (offset + 2) lengthBytes 0;
            let total = 2 + lengthBytes + len;
            Some (if offset + total \<le> length data then total else 0)
          }
        }
      })"

definition MAX_CERTIFICATES :: nat where
  "MAX_CERTIFICATES = 8"

function cut_certificates :: "bytes \<Rightarrow> nat \<Rightarrow> bytes list \<Rightarrow> bytes list option" where
  "cut_certificates stream offset certificates =
     (if offset < length stream \<and> length certificates < MAX_CERTIFICATES
      then do {
        size \<leftarrow> DerObjectSize stream offset;
        if size = 0 then Some certificates
        else do {
          c \<leftarrow> vec_range stream offset (offset + size);
          cut_certificates stream (offset + size) (certificates @ [c])
        }
      }
      else Some certificates)"
  by pat_completeness auto
termination
  by (relation "measure (\<lambda>(stream, offset, certificates). MAX_CERTIFICATES - length certificates)") auto

declare cut_certificates.simps [simp del]

fun odca_stream ::
    "'w tbs_api \<Rightarrow> tpm_commands \<Rightarrow> u32 list \<Rightarrow> bytes \<Rightarrow> 'w \<Rightarrow> (bytes \<times> 'w) option" where
  "odca_stream api tc [] stream w = Some (stream, w)"
| "odca_stream api tc (i # is) stream w = do {
     (r, w) \<leftarrow> ReadNvData api tc (0x01C00100 + i) w;
     let slot = out_of [] r;
     odca_stream api tc is
       (if SUCCEEDED (hr_of r) \<and> slot \<noteq> [] then stream @ slot else stream) w
   }"

definition ReadIntelOdcaIntermediates ::
    "'w tbs_api \<Rightarrow> tpm_commands \<Rightarrow> bytes list \<Rightarrow> 'w \<Rightarrow> (bytes list \<times> 'w) option" where
  "ReadIntelOdcaIntermediates api tc certificates w = do {
     (stream, w) \<leftarrow> odca_stream api tc (map of_nat [0..<16]) [] w;
     if stream = [] then Some (certificates, w)
     else do {
       certificates \<leftarrow> cut_certificates stream 0 certificates;
       Some (certificates, w)
     }
   }"

section \<open>DER objects\<close>

lemma der_step: "push_bit 8 len OR unat (b :: u8) = len * 256 + unat b"
proof -
  have "unat b < 2 ^ 8" using unsigned_less [of b, where ?'a = nat] by simp
  then have "push_bit 8 len AND unat b = 0"
    by (intro bit_eqI) (auto simp: bit_simps dest: bit_imp_le_length)
  then show ?thesis
    using disjunctive_add_eq_or [of "push_bit 8 len" "unat b"] by (simp add: push_bit_eq_mult)
qed

lemma defined_der_length [never_faults]: "defined (der_length data i n len) \<longleftrightarrow> n = 0 \<or> i + n \<le> length data"
  by (induction n arbitrary: i len) (auto simp: never_faults byte_at_def)

lemma DerObjectSize_total [never_faults]: "defined (DerObjectSize data offset)"
  by (simp add: DerObjectSize_def Let_def never_faults)

lemma DerObjectSize_fits: "DerObjectSize data offset = Some n \<Longrightarrow> n \<noteq> 0 \<Longrightarrow> 2 \<le> n \<and> offset + n \<le> length data"
  by (auto simp: DerObjectSize_def Let_def split: if_splits bind_splits)

lemma byte_at_shift: "byte_at (pre @ bs) (length pre + i) = byte_at bs i"
  by (simp add: byte_at_def nth_append)

lemma der_length_shift: "der_length (pre @ bs) (length pre + i) n len = der_length bs i n len"
  by (induction n arbitrary: i len) (simp_all add: byte_at_shift [of pre] add.assoc flip: add_Suc_right)

lemma der_length_prefix: "i + n \<le> length c \<Longrightarrow> der_length (c @ post) i n len = der_length c i n len"
  by (induction n arbitrary: i len) (auto simp: byte_at_def nth_append)

lemma DerObjectSize_shift: "DerObjectSize (pre @ bs) (length pre + i) = DerObjectSize bs i"
  using byte_at_shift [of pre bs "i + 1"] der_length_shift [of pre bs "i + 2"]
  by (simp add: DerObjectSize_def byte_at_shift add.assoc cong: if_cong)

lemma DerObjectSize_prefix:
  assumes "c \<noteq> []"
  shows "DerObjectSize (c @ post) 0 = Some (length c) \<longleftrightarrow> DerObjectSize c 0 = Some (length c)"
proof (cases "length c < 2")
  case True
  then show ?thesis
    using assms DerObjectSize_fits [of "c @ post" 0 "length c"] DerObjectSize_fits [of c 0 "length c"] by auto
next
  case False
  then have "byte_at (c @ post) 0 = byte_at c 0" "byte_at (c @ post) 1 = byte_at c 1"
    by (auto simp: byte_at_def nth_append)
  then show ?thesis
    using False
    by (auto simp: DerObjectSize_def Let_def der_length_prefix access_simps split: if_splits bind_splits)
qed

section \<open>The cut\<close>

definition is_der :: "bytes \<Rightarrow> bool" where
  "is_der c \<longleftrightarrow> c \<noteq> [] \<and> DerObjectSize c 0 = Some (length c)"

lemma DerObjectSize_front:
  "is_der c \<Longrightarrow> DerObjectSize (pre @ c @ post) (length pre) = Some (length c)"
  using DerObjectSize_shift [of pre "c @ post" 0] DerObjectSize_prefix [of c post]
  by (simp add: is_der_def)

lemma DerObjectSize_is_der:
  assumes "DerObjectSize stream offset = Some n" and "n \<noteq> 0"
  shows "is_der (take n (drop offset stream))"
proof -
  let ?c = "take n (drop offset stream)"
  have n: "offset + n \<le> length stream" using DerObjectSize_fits [OF assms] by simp
  have "DerObjectSize (?c @ drop n (drop offset stream)) 0 = Some n"
    using assms(1) n DerObjectSize_shift [of "take offset stream" "drop offset stream" 0]
    by (simp del: drop_drop)
  then show ?thesis
    using DerObjectSize_prefix [of ?c "drop n (drop offset stream)"] n assms(2) by (auto simp: is_der_def)
qed

lemma cut_certificates_total [never_faults]: "defined (cut_certificates stream offset certs)"
proof (induction stream offset certs rule: cut_certificates.induct)
  case (1 stream offset certs)
  have "vec_range stream offset (offset + n) = Some c \<Longrightarrow> defined (cut_certificates stream (offset + n) (certs @ [c]))"
    if "offset < length stream \<and> length certs < MAX_CERTIFICATES" "DerObjectSize stream offset = Some n" "n \<noteq> 0" for n c
    using 1 that by blast
  then show ?case
    by (subst cut_certificates.simps) (auto simp: never_faults dest: DerObjectSize_fits)
qed

text \<open>What is cut is contiguous, complete and bounded.\<close>

lemma cut_certificates_sound:
  assumes "cut_certificates stream offset certs = Some certs'" and "offset \<le> length stream"
  shows "\<exists>new rest. certs' = certs @ new \<and> drop offset stream = concat new @ rest
    \<and> (\<forall>c \<in> set new. is_der c) \<and> length certs' \<le> max MAX_CERTIFICATES (length certs)"
  using assms
proof (induction stream offset certs arbitrary: certs' rule: cut_certificates.induct)
  case (1 stream offset certs)
  show ?case
  proof (cases "certs' = certs")
    case False
    with 1(2) obtain n where go: "offset < length stream \<and> length certs < MAX_CERTIFICATES"
      and n: "DerObjectSize stream offset = Some n" "n \<noteq> 0"
      by (subst (asm) cut_certificates.simps) (auto split: if_splits bind_splits)
    let ?c = "take n (drop offset stream)"
    have fits: "offset + n \<le> length stream" using DerObjectSize_fits [OF n] by simp
    then have c: "vec_range stream offset (offset + n) = Some ?c" by (simp add: access_simps)
    have rec: "cut_certificates stream (offset + n) (certs @ [?c]) = Some certs'"
      using 1(2) go n c by (subst (asm) cut_certificates.simps) simp
    from 1(1) [OF go n c rec fits] obtain new rest
      where IH: "certs' = (certs @ [?c]) @ new" "drop (offset + n) stream = concat new @ rest"
        "\<forall>c \<in> set new. is_der c" "length certs' \<le> max MAX_CERTIFICATES (length (certs @ [?c]))"
      by blast
    have "drop offset stream = ?c @ drop (offset + n) stream"
      by (metis add.commute append_take_drop_id drop_drop)
    then show ?thesis
      using IH go DerObjectSize_is_der [OF n] by (intro exI [of _ "?c # new"] exI [of _ rest]) auto
  qed auto
qed

text \<open>
  Whatever way the stream was split over indices, certificates that fit the bound are recovered,
  and padding that opens no object ends them.
\<close>

definition no_der_at :: "bytes \<Rightarrow> bool" where
  "no_der_at bs \<longleftrightarrow> bs = [] \<or> DerObjectSize bs 0 = Some 0"

lemma cut_certificates_complete:
  assumes "\<forall>c \<in> set cs. is_der c" and "no_der_at pad" and "length certs + length cs \<le> MAX_CERTIFICATES"
  shows "cut_certificates (pre @ concat cs @ pad) (length pre) certs = Some (certs @ cs)"
  using assms
proof (induction cs arbitrary: pre certs)
  case Nil
  then show ?case
    using DerObjectSize_shift [of pre pad 0]
    by (subst cut_certificates.simps) (auto simp: no_der_at_def)
next
  case (Cons c cs)
  let ?s = "pre @ concat (c # cs) @ pad"
  have c: "DerObjectSize ?s (length pre) = Some (length c)"
    using Cons.prems DerObjectSize_front [of c pre "concat cs @ pad"] by simp
  have r: "vec_range ?s (length pre) (length pre + length c) = Some c"
    using vec_range_append [of pre c "concat cs @ pad"] by simp
  have "cut_certificates ((pre @ c) @ concat cs @ pad) (length (pre @ c)) (certs @ [c]) = Some ((certs @ [c]) @ cs)"
    using Cons.prems by (intro Cons.IH) auto
  then have "cut_certificates ?s (length pre + length c) (certs @ [c]) = Some (certs @ c # cs)"
    by simp
  then show ?case
    using Cons.prems c r by (subst cut_certificates.simps) (auto simp: is_der_def)
qed

section \<open>The encoding \<open>DerObjectSize\<close> reads\<close>

fun be_bytes :: "nat \<Rightarrow> nat \<Rightarrow> bytes" where
  "be_bytes 0 n = []"
| "be_bytes (Suc k) n = be_bytes k (n div 256) @ [of_nat (n mod 256)]"

text \<open>A SEQUENCE with a definite length, in the short form or with \<open>k\<close> length bytes.\<close>

definition der_short :: "bytes \<Rightarrow> bytes" where
  "der_short body = 0x30 # of_nat (length body) # body"

definition der_long :: "nat \<Rightarrow> bytes \<Rightarrow> bytes" where
  "der_long k body = 0x30 # (0x80 OR of_nat k) # be_bytes k (length body) @ body"

lemma length_be_bytes [simp]: "length (be_bytes k n) = k"
  by (induction k n rule: be_bytes.induct) auto

lemma der_length_append: "der_length data i (m + n) len = der_length data i m len \<bind> der_length data (i + m) n"
proof (induction m arbitrary: i len)
  case (Suc m)
  then show ?case by (cases "byte_at data i") simp_all
qed simp

lemma der_length_be_bytes:
  "der_length (pre @ be_bytes k n @ post) (length pre) k len = Some (len * 256 ^ k + n mod 256 ^ k)"
proof (induction k n arbitrary: post rule: be_bytes.induct)
  case (2 k n)
  have b: "unat (of_nat (n mod 256) :: u8) = n mod 256"
    unfolding unat_of_nat by simp
  have byte: "byte_at (be_bytes k (n div 256) @ of_nat (n mod 256) # post) k = Some (of_nat (n mod 256))"
    by (simp add: byte_at_def nth_append)
  have "der_length (pre @ be_bytes (Suc k) n @ post) (length pre) k len
      = Some (len * 256 ^ k + (n div 256) mod 256 ^ k)"
    using 2 [of "of_nat (n mod 256) # post"] by simp
  then have "der_length (pre @ be_bytes (Suc k) n @ post) (length pre) (k + 1) len
      = Some ((len * 256 ^ k + (n div 256) mod 256 ^ k) * 256 + n mod 256)"
    unfolding der_length_append by (simp add: byte der_step b)
  also have "(len * 256 ^ k + (n div 256) mod 256 ^ k) * 256 + n mod 256
      = len * 256 ^ Suc k + n mod 256 ^ Suc k"
    using mod_mult2_eq [of n 256 "256 ^ k"] by (simp add: algebra_simps)
  finally show ?case by simp
qed simp

lemma der_short_is_der: "length body < 128 \<Longrightarrow> is_der (der_short body)"
proof -
  assume n: "length body < 128"
  then have u: "unat (of_nat (length body) :: u8) = length body" by (simp add: unat_of_nat)
  have "\<not> bit (length body) 7" using n by (simp add: bit_iff_odd)
  then have "\<not> bit (of_nat (length body) :: u8) 7" by (simp add: bit_simps)
  then have "(of_nat (length body) :: u8) AND 0x80 = 0"
    using and_exp_eq_0_iff_not_bit [of "of_nat (length body) :: u8" 7] by simp
  then show ?thesis
    by (simp add: is_der_def der_short_def DerObjectSize_def byte_at_def u Let_def)
qed

lemma der_long_is_der:
  assumes "0 < k" and "k \<le> 4" and "length body < 256 ^ k"
  shows "is_der (der_long k body)"
proof -
  have "k \<in> {1, 2, 3, 4}" using assms by auto
  then have tag: "(0x80 OR of_nat k :: u8) AND 0x80 \<noteq> 0" "(0x80 OR of_nat k :: u8) AND 0x7F = of_nat k"
    "unat (of_nat k :: u8) = k"
    by auto
  have "der_length (der_long k body) 2 k 0 = Some (length body)"
    using der_length_be_bytes [of "[0x30, 0x80 OR of_nat k]" k "length body" body 0] assms(3)
    by (simp add: der_long_def numeral_2_eq_2)
  moreover have "byte_at (der_long k body) 0 = Some 0x30"
    "byte_at (der_long k body) 1 = Some (0x80 OR of_nat k)"
    "length (der_long k body) = 2 + k + length body" "der_long k body \<noteq> []"
    by (simp_all add: der_long_def byte_at_def)
  ultimately show ?thesis
    using tag assms(1,2) by (simp add: is_der_def DerObjectSize_def Let_def numeral_2_eq_2)
qed

section \<open>The chunk loop\<close>

lemma nv_want_bounds: "readOffset < dataSize \<Longrightarrow> 0 < nv_want dataSize readOffset
    \<and> unat (nv_want dataSize readOffset) \<le> unat dataSize - unat readOffset
    \<and> unat (nv_want dataSize readOffset) \<le> 1024"
  by (auto simp: nv_want_def CHUNK_def word_less_nat_alt unat_sub word_le_nat_alt)

lemma NV_Read_response_chunk:
  "NV_Read_response resp = Some (Inr (got, chunk)) \<Longrightarrow> length chunk = unat got \<and> got \<noteq> 0"
  by (auto simp: NV_Read_response_def on_success_def NV_Read_body_def Let_def dest: vec_range_length
      split: if_splits bind_splits)

lemma transact_parsed:
  "transact api tc cmd parse w = Some (Inr x, w') \<Longrightarrow> \<exists>resp. parse resp = Some (Inr x)"
  by (auto simp: transact_def Let_def split: prod.splits if_splits bind_splits)

lemma nv_chunk:
  "transact api tc cmd NV_Read_response w = Some (Inr (got, chunk), w') \<Longrightarrow>
   length chunk = unat got \<and> got \<noteq> 0"
  by (blast dest: transact_parsed NV_Read_response_chunk)

text \<open>The TPM specification: \<open>TPM2_NV_Read\<close> returns no more than the size it was asked for.\<close>

definition nv_answers_fit :: "'w tbs_api \<Rightarrow> tpm_commands \<Rightarrow> u32 \<Rightarrow> bool" where
  "nv_answers_fit api tc nvIndex \<longleftrightarrow>
     (\<forall>want off w got chunk w'.
        transact api tc (NV_Read_command nvIndex want off) NV_Read_response w = Some (Inr (got, chunk), w')
        \<longrightarrow> got \<le> want)"

lemma ReadNv_loop_stop:
  "\<not> readOffset < dataSize \<Longrightarrow> ReadNv_loop api tc nvIndex dataSize readOffset out w = Some (Inr out, w)"
  by (subst ReadNv_loop.simps) simp

lemma ReadNv_loop_fail:
  "readOffset < dataSize \<Longrightarrow>
   transact api tc (NV_Read_command nvIndex (nv_want dataSize readOffset) readOffset) NV_Read_response w
     = Some (Inl hr, w') \<Longrightarrow>
   ReadNv_loop api tc nvIndex dataSize readOffset out w = Some (Inl hr, w')"
  by (subst ReadNv_loop.simps) simp

lemma ReadNv_loop_step:
  "readOffset < dataSize \<Longrightarrow>
   transact api tc (NV_Read_command nvIndex (nv_want dataSize readOffset) readOffset) NV_Read_response w
     = Some (Inr (got, chunk), w') \<Longrightarrow>
   ReadNv_loop api tc nvIndex dataSize readOffset out w
     = ReadNv_loop api tc nvIndex dataSize (readOffset + got) (out @ chunk) w'"
  by (subst ReadNv_loop.simps) simp

lemma ReadNv_loop_ends:
  assumes fit: "nv_answers_fit api tc nvIndex"
  shows "unat readOffset \<le> unat dataSize \<Longrightarrow> length out = unat readOffset \<Longrightarrow>
    \<exists>r w'. ReadNv_loop api tc nvIndex dataSize readOffset out w = Some (r, w')
      \<and> (\<forall>x. r = Inr x \<longrightarrow> length x = unat dataSize) \<and> (\<forall>hr. r = Inl hr \<longrightarrow> FAILED hr)"
proof (induction "unat dataSize - unat readOffset" arbitrary: readOffset out w rule: less_induct)
  case less
  show ?case
  proof (cases "readOffset < dataSize")
    case False
    then have "unat readOffset = unat dataSize" using less.prems by (simp add: word_less_nat_alt)
    then show ?thesis using less.prems by (simp add: ReadNv_loop_stop [OF False])
  next
    case True
    let ?want = "nv_want dataSize readOffset"
    let ?cmd = "NV_Read_command nvIndex ?want readOffset"
    show ?thesis
    proof (cases rule: nv_read.transact_cases [of api tc ?cmd w])
      case (failed hr w')
      then show ?thesis by (simp add: ReadNv_loop_fail [OF True failed(1)])
    next
      case (ok gc w1)
      obtain got chunk where gc: "gc = (got, chunk)" by (cases gc)
      note t = ok [unfolded gc]
      have got: "got \<le> ?want" using fit t unfolding nv_answers_fit_def by blast
      have c: "length chunk = unat got" "got \<noteq> 0" using nv_chunk [OF t] by simp_all
      have le: "unat readOffset + unat got \<le> unat dataSize"
        using got nv_want_bounds [OF True] True by (auto simp: word_le_nat_alt word_less_nat_alt)
      have sum: "unat (readOffset + got) = unat readOffset + unat got"
        using le unsigned_less [of dataSize, where ?'a = nat] unat_add_lem [of readOffset got] by simp
      have pos: "0 < unat got" using c(2) by (simp add: unat_gt_0)
      show ?thesis
        unfolding ReadNv_loop_step [OF True t]
        by (rule less.hyps) (use sum le pos less.prems(2) c(1) in simp_all)
    qed
  qed
qed

text \<open>A TPM that holds \<open>contents\<close> at an index and serves it in pieces of its own choosing.\<close>

definition nv_public_response :: "u32 \<Rightarrow> bytes \<Rightarrow> u16 \<Rightarrow> bytes \<Rightarrow> bytes" where
  "nv_public_response nvIndex policy dataSize name =
     response_bytes TPM2_ST_NO_SESSIONS 0
       (sized_buffer (u32_be nvIndex @ u16_be 0x000B @ u32_be 0 @ sized_buffer policy @ u16_be dataSize)
        @ sized_buffer name)"

definition nv_read_response :: "bytes \<Rightarrow> bytes \<Rightarrow> bytes" where
  "nv_read_response chunk auth =
     response_bytes TPM2_ST_SESSIONS 0 (u32_be (of_nat (2 + length chunk)) @ sized_buffer chunk @ auth)"

definition nv_serves :: "'w tbs_api \<Rightarrow> tpm_commands \<Rightarrow> u32 \<Rightarrow> bytes \<Rightarrow> 'w set \<Rightarrow> bool" where
  "nv_serves api tc nvIndex contents S \<longleftrightarrow>
     (\<forall>w \<in> S. \<exists>w' \<in> S. \<exists>policy name. length policy \<le> 64 \<and>
        tbs_answers api tc (NV_ReadPublic_command nvIndex) w
          (nv_public_response nvIndex policy (of_nat (length contents)) name) w')
     \<and> (\<forall>w \<in> S. \<forall>want off. 0 < want \<longrightarrow> unat off + unat want \<le> length contents \<longrightarrow>
        (\<exists>w' \<in> S. \<exists>n auth. 0 < n \<and> n \<le> unat want \<and>
          tbs_answers api tc (NV_Read_command nvIndex want off) w
            (nv_read_response (take n (drop (unat off) contents)) auth) w'))"

lemma nv_public_response_reads:
  assumes "length policy \<le> 64" and "dataSize \<noteq> 0"
  shows "NV_ReadPublic_response (nv_public_response nvIndex policy dataSize name) = Some (Inr dataSize)"
proof -
  define resp where "resp = nv_public_response nvIndex policy dataSize name"
  let ?n = "length (u32_be nvIndex @ u16_be 0x000B @ u32_be 0 @ sized_buffer policy @ u16_be dataSize)"
  have n: "?n = 14 + length policy" by simp
  have "ReadU16 resp 10 = Some (of_nat ?n)"
    using response_u16 [of "[]" 0] by (simp add: resp_def nv_public_response_def sized_buffer_def)
  moreover have "unat (of_nat ?n :: u16) = 14 + length policy"
    unfolding n unat_of_nat using assms(1) by simp
  ultimately have outer: "\<exists>v. ReadU16 resp 10 = Some v \<and> unat v = 14 + length policy" by blast
  have policy: "ReadU16 resp 22 = Some (of_nat (length policy))"
    using response_u16 [of "u16_be (of_nat ?n) @ u32_be nvIndex @ u16_be 0x000B @ u32_be 0" 12]
    by (simp add: resp_def nv_public_response_def sized_buffer_def)
  have data: "ReadU16 resp (24 + length policy) = Some dataSize"
    using response_u16 [of "u16_be (of_nat ?n) @ u32_be nvIndex @ u16_be 0x000B @ u32_be 0
        @ sized_buffer policy" "14 + length policy"]
    by (simp add: resp_def nv_public_response_def sized_buffer_def)
  have len: "length resp = 28 + length policy + length name"
    by (simp add: resp_def nv_public_response_def)
  have code: "ReadU32 resp 6 = Some 0"
    by (simp add: resp_def nv_public_response_def)
  have "NV_ReadPublic_response resp = Some (Inr dataSize)"
    using outer policy data code assms unat_u16_length [of policy]
    by (auto simp: NV_ReadPublic_response_def on_success_def NV_ReadPublic_body_def Let_def len)
  then show ?thesis by (simp add: resp_def)
qed

lemma nv_read_response_reads:
  assumes "0 < length chunk" and "length chunk < 65536"
  shows "NV_Read_response (nv_read_response chunk auth) = Some (Inr (of_nat (length chunk), chunk))"
proof -
  define resp where "resp = nv_read_response chunk auth"
  have got: "ReadU16 resp 14 = Some (of_nat (length chunk))"
    using response_u16 [of "u32_be (of_nat (2 + length chunk))" 4]
    by (simp add: resp_def nv_read_response_def sized_buffer_def)
  have chunk: "vec_range resp 16 (16 + length chunk) = Some chunk"
    using response_part [of "u32_be (of_nat (2 + length chunk)) @ u16_be (of_nat (length chunk))" 6]
    by (simp add: resp_def nv_read_response_def sized_buffer_def)
  have "(of_nat (length chunk) :: u16) \<noteq> 0"
    using unat_u16_length [OF assms(2)] assms(1) by (metis less_numeral_extra(3) unat_0)
  then have "NV_Read_response resp = Some (Inr (of_nat (length chunk), chunk))"
    using got chunk unat_u16_length [OF assms(2)]
    by (simp add: NV_Read_response_def on_success_def NV_Read_body_def Let_def resp_def nv_read_response_def)
  then show ?thesis by (simp add: resp_def)
qed

lemma ReadNv_loop_serves:
  assumes serves: "nv_serves api tc nvIndex contents S" and len: "length contents < 65536"
  shows "unat readOffset \<le> length contents \<Longrightarrow> out = take (unat readOffset) contents \<Longrightarrow> w \<in> S \<Longrightarrow>
    \<exists>w' \<in> S. ReadNv_loop api tc nvIndex (of_nat (length contents)) readOffset out w = Some (Inr contents, w')"
proof (induction "length contents - unat readOffset" arbitrary: readOffset out w rule: less_induct)
  case less
  let ?size = "of_nat (length contents) :: u16"
  have size: "unat ?size = length contents" using len by (rule unat_u16_length)
  show ?case
  proof (cases "readOffset < ?size")
    case False
    then have "unat readOffset = length contents"
      using less.prems(1) by (simp add: word_less_nat_alt size)
    then show ?thesis using less.prems(2,3) by (simp add: ReadNv_loop_stop [OF False])
  next
    case True
    let ?want = "nv_want ?size readOffset"
    have want: "0 < ?want" "unat readOffset + unat ?want \<le> length contents" "unat ?want \<le> 1024"
      using nv_want_bounds [OF True] True by (auto simp: size word_less_nat_alt)
    then obtain w1 n auth where w1: "w1 \<in> S" and n: "0 < n" "n \<le> unat ?want"
      and ans: "tbs_answers api tc (NV_Read_command nvIndex ?want readOffset) w
        (nv_read_response (take n (drop (unat readOffset) contents)) auth) w1"
      using serves less.prems(3) unfolding nv_serves_def by blast
    let ?chunk = "take n (drop (unat readOffset) contents)"
    have c: "length ?chunk = n" using n want by simp
    have t: "transact api tc (NV_Read_command nvIndex ?want readOffset) NV_Read_response w
        = Some (Inr (of_nat n, ?chunk), w1)"
      using transact_answered [where parse = NV_Read_response, OF ans]
        nv_read_response_reads [of ?chunk auth] c n want(3) by simp
    have un: "unat (of_nat n :: u16) = n" using n want(3) by (simp add: unat_of_nat)
    have sum: "unat (readOffset + of_nat n) = unat readOffset + n"
      using n want un len unat_add_lem [of readOffset "of_nat n"] by simp
    have "\<exists>w' \<in> S. ReadNv_loop api tc nvIndex ?size (readOffset + of_nat n) (out @ ?chunk) w1
        = Some (Inr contents, w')"
      using less.prems sum n want w1 by (intro less.hyps) (auto simp: take_add)
    then show ?thesis unfolding ReadNv_loop_step [OF True t] .
  qed
qed

section \<open>A loop that never ends\<close>

text \<open>
  The code adds the size the TPM reports to a \<open>uint16_t\<close> offset and never compares it with the size
  it asked for. A TPM that announces 65535 bytes and answers every read with an even number of
  bytes keeps the offset even, hence below 65535, for ever.
\<close>

definition nv_answers_even :: "'w tbs_api \<Rightarrow> tpm_commands \<Rightarrow> u32 \<Rightarrow> bool" where
  "nv_answers_even api tc nvIndex \<longleftrightarrow>
     (\<forall>want off w. \<exists>got chunk w'. even (unat got) \<and>
        transact api tc (NV_Read_command nvIndex want off) NV_Read_response w = Some (Inr (got, chunk), w'))"

lemma even_unat_add: "even (unat (a :: u16)) \<Longrightarrow> even (unat b) \<Longrightarrow> even (unat (a + b))"
  by (simp add: unat_word_ariths dvd_mod)

lemma ReadNv_loop_diverges:
  assumes ev: "nv_answers_even api tc nvIndex"
    and "ReadNv_loop api tc nvIndex 0xFFFF readOffset out w = Some y"
  shows "odd (unat readOffset)"
proof -
  have "api' = api \<and> tc' = tc \<and> idx = nvIndex \<and> sz = 0xFFFF \<longrightarrow> odd (unat off)"
    if "ReadNv_loop api' tc' idx sz off out w = Some y" for api' tc' idx sz off out w y
  proof (rule ReadNv_loop.raw_induct [OF _ that], intro impI notI, elim conjE)
    fix loop api' tc' idx sz off out w y
    assume IH: "\<And>api' tc' idx sz off out w y. loop api' tc' idx sz off out w = Some y \<Longrightarrow>
        api' = api \<and> tc' = tc \<and> idx = nvIndex \<and> sz = 0xFFFF \<longrightarrow> odd (unat off)"
      and run: "(if off < sz
        then transact api' tc' (NV_Read_command idx (nv_want sz off) off) NV_Read_response w \<bind>
          (\<lambda>(r, w). case r of Inl hr \<Rightarrow> Some (Inl hr, w)
             | Inr (got, chunk) \<Rightarrow> loop api' tc' idx sz (off + got) (out @ chunk) w)
        else Some (Inr out, w)) = Some y"
      and eq: "api' = api" "tc' = tc" "idx = nvIndex" "sz = 0xFFFF" and even: "even (unat off)"
    have "unat off \<noteq> 65535" using even by auto
    then have lt: "off < 0xFFFF"
      using unsigned_less [of off, where ?'a = nat] by (simp add: word_less_nat_alt)
    obtain got chunk w' where got: "even (unat got)"
      and t: "transact api tc (NV_Read_command nvIndex (nv_want 0xFFFF off) off) NV_Read_response w = Some (Inr (got, chunk), w')"
      using ev unfolding nv_answers_even_def by blast
    have "loop api tc nvIndex 0xFFFF (off + got) (out @ chunk) w' = Some y"
      using run lt t eq by simp
    from IH [OF this] have "odd (unat (off + got))" by simp
    then show False using even_unat_add [OF even got] by simp
  qed
  then show ?thesis using assms(2) by blast
qed

section \<open>Whole reads\<close>

lemma ReadNvData_serves:
  assumes "nv_serves api tc nvIndex contents S" and "length contents < 65536" and "contents \<noteq> []" and "w \<in> S"
  shows "\<exists>w' \<in> S. ReadNvData api tc nvIndex w = Some (Inr contents, w')"
proof -
  obtain w1 policy name where w1: "w1 \<in> S" "length policy \<le> 64"
    and pub: "tbs_answers api tc (NV_ReadPublic_command nvIndex) w
      (nv_public_response nvIndex policy (of_nat (length contents)) name) w1"
    using assms(1,4) unfolding nv_serves_def by blast
  have "(of_nat (length contents) :: u16) \<noteq> 0"
    using unat_u16_length [OF assms(2)] assms(3) by (metis length_0_conv unat_0)
  from nv_public_response_reads [OF w1(2) this]
  have pub': "transact api tc (NV_ReadPublic_command nvIndex) NV_ReadPublic_response w
      = Some (Inr (of_nat (length contents)), w1)"
    by (intro transact_answered [OF pub])
  obtain w' where "w' \<in> S" "ReadNv_loop api tc nvIndex (of_nat (length contents)) 0 [] w1 = Some (Inr contents, w')"
    using ReadNv_loop_serves [OF assms(1,2), of 0 "[]" w1] w1(1) by auto
  then show ?thesis
    using pub' assms(3) by (intro bexI [of _ w']) (simp_all add: ReadNvData_def)
qed

lemma ReadNvData_ends:
  assumes "nv_answers_fit api tc nvIndex"
  shows "defined (ReadNvData api tc nvIndex w)"
proof -
  have "defined (ReadNv_loop api tc nvIndex dataSize 0 [] w1)" for dataSize w1
    using ReadNv_loop_ends [OF assms, of 0 dataSize "[]" w1] by (auto simp: defined_def)
  then show ?thesis by (simp add: ReadNvData_def never_faults)
qed

text \<open>An index that is not defined answers \<open>TPM2_NV_ReadPublic\<close> with a response code.\<close>

definition nv_undefined :: "'w tbs_api \<Rightarrow> tpm_commands \<Rightarrow> u32 \<Rightarrow> 'w set \<Rightarrow> bool" where
  "nv_undefined api tc nvIndex S \<longleftrightarrow>
     (\<forall>w \<in> S. \<exists>w' \<in> S. \<exists>tag rc. rc \<noteq> 0 \<and>
        tbs_answers api tc (NV_ReadPublic_command nvIndex) w (response_bytes tag rc []) w')"

lemma ReadNvData_undefined:
  assumes "nv_undefined api tc nvIndex S" and "w \<in> S"
  shows "\<exists>w' \<in> S. \<exists>hr. FAILED hr \<and> ReadNvData api tc nvIndex w = Some (Inl hr, w')"
proof -
  obtain w' tag rc where w': "w' \<in> S" "rc \<noteq> 0"
    and ans: "tbs_answers api tc (NV_ReadPublic_command nvIndex) w (response_bytes tag rc []) w'"
    using assms unfolding nv_undefined_def by blast
  have "NV_ReadPublic_response (response_bytes tag rc []) = Some (Inl (HrFromTpmRc rc))"
    using w'(2) by (simp add: NV_ReadPublic_response_def on_success_response)
  from transact_answered [where parse = NV_ReadPublic_response, OF ans this] show ?thesis
    using w' by (intro bexI [of _ w'] exI [of _ "HrFromTpmRc rc"])
      (simp_all add: ReadNvData_def FAILED_HrFromTpmRc)
qed

section \<open>The on-die chain\<close>

text \<open>
  Sixteen indices: an empty slot is an undefined index, any other is served in pieces.
\<close>

definition odca_holds :: "'w tbs_api \<Rightarrow> tpm_commands \<Rightarrow> (u32 \<Rightarrow> bytes) \<Rightarrow> 'w set \<Rightarrow> bool" where
  "odca_holds api tc slots S \<longleftrightarrow>
     (\<forall>i \<in> set (map of_nat [0..<16]). length (slots i) < 65536 \<and>
        (if slots i = [] then nv_undefined api tc (0x01C00100 + i) S
         else nv_serves api tc (0x01C00100 + i) (slots i) S))"

lemma odca_stream_collects:
  assumes "\<forall>i \<in> set is. length (slots i) < 65536 \<and>
        (if slots i = [] then nv_undefined api tc (0x01C00100 + i) S
         else nv_serves api tc (0x01C00100 + i) (slots i) S)" and "w \<in> S"
  shows "\<exists>w' \<in> S. odca_stream api tc is stream w = Some (stream @ concat (map slots is), w')"
  using assms
proof (induction "is" arbitrary: stream w)
  case (Cons i "is")
  show ?case
  proof (cases "slots i = []")
    case True
    then obtain w1 hr where "w1 \<in> S" "ReadNvData api tc (0x01C00100 + i) w = Some (Inl hr, w1)"
      using ReadNvData_undefined [of api tc "0x01C00100 + i" S w] Cons.prems by auto
    then show ?thesis using Cons.IH [of w1 stream] Cons.prems True by (auto simp: out_of_def)
  next
    case False
    then obtain w1 where "w1 \<in> S" "ReadNvData api tc (0x01C00100 + i) w = Some (Inr (slots i), w1)"
      using ReadNvData_serves [of api tc "0x01C00100 + i" "slots i" S w] Cons.prems by auto
    then show ?thesis using Cons.IH [of w1 "stream @ slots i"] Cons.prems False
      by (auto simp: out_of_def hr_of_def SUCCEEDED_def)
  qed
qed auto

lemma odca_stream_ends:
  "\<forall>i \<in> set is. nv_answers_fit api tc (0x01C00100 + i) \<Longrightarrow> defined (odca_stream api tc is stream w)"
  by (induction "is" arbitrary: stream w) (simp_all add: never_faults ReadNvData_ends Let_def)

section \<open>A concrete TPM\<close>

text \<open>
  An index \<open>i\<close> has the size \<open>sz i\<close> (\<open>0\<close>: it is not defined) and answers a read with \<open>serve i want off\<close>.
\<close>

definition nv_tpm :: "(u32 \<Rightarrow> u16) \<Rightarrow> (u32 \<Rightarrow> u16 \<Rightarrow> u16 \<Rightarrow> bytes) \<Rightarrow> unit tbs_api" where
  "nv_tpm sz serve = \<lparr>
     Tbsi_Context_Create = (\<lambda>w. (TBS_SUCCESS, 1, w)),
     Tbsip_Submit_Command = (\<lambda>_ cmd w.
       let r = (if length cmd = 14
            then (case decode_command 1 cmd of
                    Some c \<Rightarrow> (let i = c_handles c ! 0
                      in if sz i = 0 then response_bytes TPM2_ST_NO_SESSIONS 0x18B []
                         else nv_public_response i [] (sz i) [])
                  | None \<Rightarrow> [])
            else (case decode_command 2 cmd of
                    Some c \<Rightarrow> nv_read_response (serve (c_handles c ! 0)
                       (the (ReadU16 (c_params c) 0)) (the (ReadU16 (c_params c) 2))) []
                  | None \<Rightarrow> []))
       in (TBS_SUCCESS, r, of_nat (length r), w)),
     Tbsip_Context_Close = (\<lambda>_ w. w),
     Tbsi_Get_TCG_Log_Ex = (\<lambda>_ w. (E_FAIL, [], 0, w))\<rparr>"

abbreviation open_tc :: tpm_commands where
  "open_tc \<equiv> \<lparr>tc_context = 1\<rparr>"

lemma length_patch [simp]: "length (patch_command_size cmd) = length cmd"
  by (simp add: patch_command_size_def Let_def)

lemma nv_tpm_public:
  "tbs_answers (nv_tpm sz serve) open_tc (NV_ReadPublic_command i) w
     (if sz i = 0 then response_bytes TPM2_ST_NO_SESSIONS 0x18B [] else nv_public_response i [] (sz i) []) w'"
proof -
  have "length (NV_ReadPublic_command i) = 14"
    by (simp add: NV_ReadPublic_command_def BeginCommand_def writer_simps)
  then show ?thesis
    by (simp add: tbs_answers_def nv_tpm_def NV_ReadPublic_command_sends nv_public_response_def Let_def
        del: One_nat_def)
qed

lemma nv_tpm_read:
  assumes "length (serve i want off) \<le> 4080"
  shows "tbs_answers (nv_tpm sz serve) open_tc (NV_Read_command i want off) w
     (nv_read_response (serve i want off) []) w'"
proof -
  have "length (NV_Read_command i want off) \<noteq> 14"
    by (simp add: NV_Read_command_def BeginCommand_def writer_simps)
  moreover have "ReadU16 (u16_be want @ u16_be off) 0 = Some want"
    by (rule be16.rd_wr_front)
  moreover have "ReadU16 (u16_be want @ u16_be off) 2 = Some off"
    by (rule be16.rd_wr_at [where post = "[]"]) simp_all
  ultimately show ?thesis
    using assms by (simp add: tbs_answers_def nv_tpm_def NV_Read_command_sends nv_read_response_def)
qed

definition serving_tpm :: "(u32 \<Rightarrow> bytes) \<Rightarrow> unit tbs_api" where
  "serving_tpm contents = nv_tpm (\<lambda>i. of_nat (length (contents i)))
     (\<lambda>i want off. take (unat want) (drop (unat off) (contents i)))"

lemma serving_tpm_serves:
  "length (contents i) \<le> 4080 \<Longrightarrow> contents i \<noteq> [] \<Longrightarrow> nv_serves (serving_tpm contents) open_tc i (contents i) UNIV"
proof -
  assume len: "length (contents i) \<le> 4080" and ne: "contents i \<noteq> []"
  let ?sz = "\<lambda>i. of_nat (length (contents i)) :: u16"
  let ?serve = "\<lambda>i want off. take (unat want) (drop (unat (off :: u16)) (contents i))"
  have "unat (?sz i) = length (contents i)" using len by (intro unat_u16_length) simp
  then have "?sz i \<noteq> 0" using ne by (metis length_0_conv unat_0)
  then have "tbs_answers (serving_tpm contents) open_tc (NV_ReadPublic_command i) w
      (nv_public_response i [] (?sz i) []) w'" for w w'
    using nv_tpm_public [of ?sz ?serve i w w'] by (simp add: serving_tpm_def)
  moreover have "tbs_answers (serving_tpm contents) open_tc (NV_Read_command i want off) w
      (nv_read_response (?serve i want off) []) w'" for want off w w'
    unfolding serving_tpm_def using len by (intro nv_tpm_read) simp
  ultimately show ?thesis
    unfolding nv_serves_def by (force simp: word_less_nat_alt)
qed

lemma serving_tpm_undefined:
  assumes "contents i = []"
  shows "nv_undefined (serving_tpm contents) open_tc i UNIV"
proof -
  have "tbs_answers (serving_tpm contents) open_tc (NV_ReadPublic_command i) w
      (response_bytes TPM2_ST_NO_SESSIONS 0x18B []) w'" for w w'
    using nv_tpm_public [of "\<lambda>i. of_nat (length (contents i))" _ i w w'] assms
    by (simp add: serving_tpm_def)
  then show ?thesis
    unfolding nv_undefined_def
    by (intro ballI bexI [of _ "()"] exI [of _ "TPM2_ST_NO_SESSIONS"] exI [of _ "0x18B"]) auto
qed

section \<open>Properties\<close>

text \<open>The contents of an NV index are reassembled exactly, whatever its size and however the TPM
  chunks its answers, as long as each answer has at least one byte and no more than it was asked for.\<close>

theorem read_nv_data_returns_contents:
  assumes "nv_serves api tc nvIndex contents S" and "length contents < 65536" and "contents \<noteq> []" and "w \<in> S"
  shows "\<exists>w' \<in> S. ReadNvData api tc nvIndex w = Some (Inr contents, w')"
  using assms by (rule ReadNvData_serves)

theorem read_nv_data_returns_contents_witness:
  "\<exists>w' \<in> UNIV. ReadNvData (serving_tpm (\<lambda>_. replicate 2048 7)) open_tc 0x01C00100 ()
    = Some (Inr (replicate 2048 7), w')"
  by (rule read_nv_data_returns_contents) (auto intro: serving_tpm_serves)

text \<open>C37. Reading an NV index returns, with an error or with exactly as many bytes as the index announced,
  for every TPM that answers a read with no more bytes than it was asked for.\<close>

theorem read_nv_data_ends:
  assumes "nv_answers_fit api tc nvIndex"
  shows "\<exists>r w'. ReadNvData api tc nvIndex w = Some (r, w') \<and> (\<forall>hr. r = Inl hr \<longrightarrow> FAILED hr)
    \<and> (\<forall>x. r = Inr x \<longrightarrow> (\<exists>dataSize w1. x \<noteq> [] \<and> length x = unat dataSize \<and>
        transact api tc (NV_ReadPublic_command nvIndex) NV_ReadPublic_response w = Some (Inr dataSize, w1)))"
proof (cases rule: nv_public.transact_cases [of api tc "NV_ReadPublic_command nvIndex" w])
  case (failed hr w')
  then show ?thesis by (simp add: ReadNvData_def)
next
  case (ok dataSize w1)
  obtain r w' where "ReadNv_loop api tc nvIndex dataSize 0 [] w1 = Some (r, w')"
    "\<forall>x. r = Inr x \<longrightarrow> length x = unat dataSize" "\<forall>hr. r = Inl hr \<longrightarrow> FAILED hr"
    using ReadNv_loop_ends [OF assms, of 0 dataSize "[]" w1] by auto
  with ok show ?thesis by (cases r) (auto simp: ReadNvData_def)
qed

text \<open>C38. Nothing in the code bounds the chunk loop by itself: with a TPM that announces an index of 65535
  bytes and answers every read with an even number of bytes, more than was asked for included,
  \<open>ReadNvData\<close> does not return, because the 16-bit offset wraps past the end.\<close>

theorem read_nv_data_can_diverge:
  assumes "nv_answers_even api tc nvIndex"
    and "transact api tc (NV_ReadPublic_command nvIndex) NV_ReadPublic_response w = Some (Inr 0xFFFF, w1)"
  shows "ReadNvData api tc nvIndex w = None"
proof -
  have "ReadNv_loop api tc nvIndex 0xFFFF 0 [] w1 = None"
    using ReadNv_loop_diverges [OF assms(1), of 0 "[]" w1]
    by (cases "ReadNv_loop api tc nvIndex 0xFFFF 0 [] w1") auto
  then show ?thesis by (simp add: ReadNvData_def assms(2))
qed

theorem read_nv_data_can_diverge_witness:
  "ReadNvData (nv_tpm (\<lambda>_. 0xFFFF) (\<lambda>_ _ _. replicate 4080 0)) open_tc 0x01C00100 () = None"
proof (rule read_nv_data_can_diverge)
  let ?api = "nv_tpm (\<lambda>_. 0xFFFF) (\<lambda>_ _ _. replicate 4080 0)"
  let ?chunk = "replicate 4080 0 :: bytes"
  have "transact ?api open_tc (NV_Read_command 0x01C00100 want off) NV_Read_response w
      = Some (Inr (of_nat (length ?chunk), ?chunk), ())" for want off w
    by (rule transact_answered [where parse = NV_Read_response, OF nv_tpm_read nv_read_response_reads]) simp_all
  then show "nv_answers_even ?api open_tc 0x01C00100"
    unfolding nv_answers_even_def by (intro allI exI conjI) auto
  show "transact ?api open_tc (NV_ReadPublic_command 0x01C00100) NV_ReadPublic_response () = Some (Inr 0xFFFF, ())"
    using nv_tpm_public [of "\<lambda>_. 0xFFFF" "\<lambda>_ _ _. replicate 4080 0" "0x01C00100" "()" "()"]
    by (intro transact_answered [where parse = NV_ReadPublic_response and resp = "nv_public_response 0x01C00100 [] 0xFFFF []"]
        nv_public_response_reads) simp_all
qed

text \<open>\<open>DerObjectSize\<close> measures every definite-length SEQUENCE, in the short form and with one to four
  length bytes, wherever it stands in a buffer and whatever follows it.\<close>

theorem der_object_size_measures:
  "(length body < 128 \<longrightarrow>
      DerObjectSize (pre @ der_short body @ post) (length pre) = Some (length (der_short body)))
   \<and> (\<forall>k \<in> {1..4}. length body < 256 ^ k \<longrightarrow>
      DerObjectSize (pre @ der_long k body @ post) (length pre) = Some (length (der_long k body)))"
  using DerObjectSize_front [OF der_short_is_der] DerObjectSize_front [OF der_long_is_der]
  by auto

theorem der_object_size_measures_witness:
  "DerObjectSize ([1, 2] @ der_short [5, 6, 7] @ [9]) (length [1, 2 :: u8]) = Some (length (der_short [5, 6, 7]))
   \<and> DerObjectSize ([1, 2] @ der_long 2 [5, 6, 7] @ [9]) (length [1, 2 :: u8]) = Some (length (der_long 2 [5, 6, 7]))"
  using der_object_size_measures [of "[5, 6, 7]" "[1, 2]" "[9]"] by simp

text \<open>C26. The Intel on-die chain: sixteen indices of any sizes, some of them undefined, are read and
  concatenated, and the certificates of the stream come out exactly, in order, also where one
  straddles an index boundary; padding behind them that opens no SEQUENCE is dropped.\<close>

theorem odca_chain_recovered:
  assumes "odca_holds api tc slots S" and "w \<in> S"
    and "concat (map slots (map of_nat [0..<16])) = concat cs @ pad"
    and "\<forall>c \<in> set cs. is_der c" and "no_der_at pad" and "length cs \<le> MAX_CERTIFICATES"
  shows "\<exists>w' \<in> S. ReadIntelOdcaIntermediates api tc [] w = Some (cs, w')"
proof -
  let ?is = "map of_nat [0..<16] :: u32 list"
  obtain w' where w': "w' \<in> S" and stream: "odca_stream api tc ?is [] w = Some (concat cs @ pad, w')"
    using odca_stream_collects [of ?is slots api tc S w "[]"] assms(1-3) unfolding odca_holds_def by auto
  have cut: "cut_certificates (concat cs @ pad) 0 [] = Some cs"
    using cut_certificates_complete [OF assms(4,5), of "[]" "[]"] assms(6) by simp
  have "concat cs @ pad = [] \<Longrightarrow> cs = []" using assms(4) by (cases cs) (auto simp: is_der_def)
  then show ?thesis
    using w' stream cut by (intro bexI [of _ w']) (auto simp: ReadIntelOdcaIntermediates_def)
qed

definition two_slots :: "u32 \<Rightarrow> bytes" where
  "two_slots i = (if i = 0 then [0x30, 2, 1, 2, 0x30, 3, 7] else if i = 2 then [8, 9, 0, 0] else [])"

theorem odca_chain_recovered_witness:
  "\<exists>w' \<in> UNIV. ReadIntelOdcaIntermediates (serving_tpm (\<lambda>i. two_slots (i - 0x01C00100))) open_tc [] ()
    = Some ([[0x30, 2, 1, 2], [0x30, 3, 7, 8, 9]], w')"
proof (rule odca_chain_recovered [where slots = two_slots and pad = "[0, 0]"])
  let ?c = "\<lambda>i. two_slots (i - 0x01C00100)"
  have "length (two_slots i) \<le> 7" for i by (simp add: two_slots_def)
  then have "nv_serves (serving_tpm ?c) open_tc (0x01C00100 + i) (two_slots i) UNIV" if "two_slots i \<noteq> []" for i
    using serving_tpm_serves [of ?c "0x01C00100 + i"] that by (simp add: order_trans [of _ 7])
  moreover have "nv_undefined (serving_tpm ?c) open_tc (0x01C00100 + i) UNIV" if "two_slots i = []" for i
    using serving_tpm_undefined [of ?c "0x01C00100 + i"] that by simp
  moreover have "length (two_slots i) < 65536" for i by (simp add: two_slots_def)
  ultimately show "odca_holds (serving_tpm ?c) open_tc two_slots UNIV"
    unfolding odca_holds_def by simp
  show "concat (map two_slots (map of_nat [0..<16])) = concat [[0x30, 2, 1, 2], [0x30, 3, 7, 8, 9]] @ [0, 0]"
    by (simp add: two_slots_def upt_rec)
  show "\<forall>c \<in> set [[0x30, 2, 1, 2], [0x30, 3, 7, 8, 9]]. is_der c"
    by (simp add: is_der_def DerObjectSize_def byte_at_def Let_def)
  show "no_der_at [0, 0]" by (simp add: no_der_at_def DerObjectSize_def byte_at_def)
qed (simp_all add: MAX_CERTIFICATES_def)

lemma serving_tpm_fits:
  assumes "length (contents i) \<le> 4080"
  shows "nv_answers_fit (serving_tpm contents) open_tc i"
  unfolding nv_answers_fit_def
proof (intro allI impI)
  fix want off w got chunk w'
  let ?part = "take (unat (want :: u16)) (drop (unat (off :: u16)) (contents i))"
  assume t: "transact (serving_tpm contents) open_tc (NV_Read_command i want off) NV_Read_response w
    = Some (Inr (got, chunk), w')"
  have "tbs_answers (serving_tpm contents) open_tc (NV_Read_command i want off) w (nv_read_response ?part []) ()"
    unfolding serving_tpm_def using assms by (intro nv_tpm_read) simp
  from SendCommand_answered [OF this] t have r: "NV_Read_response (nv_read_response ?part []) = Some (Inr (got, chunk))"
    by (auto simp: transact_def split: bind_splits)
  have "?part \<noteq> []"
  proof
    assume e: "?part = []"
    have "ReadU16 (nv_read_response [] []) 14 = Some 0"
      using response_u16 [of "u32_be 2" 4 _ _ 0 "[]"] by (simp add: nv_read_response_def sized_buffer_def)
    then show False using r unfolding e
      by (simp add: NV_Read_response_def on_success_def NV_Read_body_def nv_read_response_def)
  qed
  then have "NV_Read_response (nv_read_response ?part []) = Some (Inr (of_nat (length ?part), ?part))"
    using assms by (intro nv_read_response_reads) auto
  then have "got = of_nat (length ?part)"
    using r by (simp only: option.inject sum.inject prod.inject)
  moreover have "length ?part \<le> unat want" by simp
  ultimately show "got \<le> want"
    using unat_u16_length [of ?part] assms by (simp add: word_le_nat_alt)
qed

theorem read_nv_data_ends_witness:
  "\<exists>r w'. ReadNvData (serving_tpm (\<lambda>_. [1, 2, 3])) open_tc 0x01C00100 () = Some (r, w')
    \<and> (\<forall>hr. r = Inl hr \<longrightarrow> FAILED hr)
    \<and> (\<forall>x. r = Inr x \<longrightarrow> (\<exists>dataSize w1. x \<noteq> [] \<and> length x = unat dataSize \<and>
        transact (serving_tpm (\<lambda>_. [1, 2, 3])) open_tc (NV_ReadPublic_command 0x01C00100)
          NV_ReadPublic_response () = Some (Inr dataSize, w1)))"
  by (rule read_nv_data_ends) (simp add: serving_tpm_fits)

text \<open>Whatever the sixteen indices hold, the certificates added are at most eight, each is one complete
  DER SEQUENCE, and together they are a prefix of the concatenated stream, in order and without gaps.\<close>

theorem odca_certificates_are_a_prefix:
  assumes "ReadIntelOdcaIntermediates api tc [] w = Some (certs, w')"
  shows "\<exists>stream rest. odca_stream api tc (map of_nat [0..<16]) [] w = Some (stream, w')
    \<and> stream = concat certs @ rest \<and> (\<forall>c \<in> set certs. is_der c) \<and> length certs \<le> 8"
proof -
  obtain stream where s: "odca_stream api tc (map of_nat [0..<16]) [] w = Some (stream, w')"
    and c: "stream = [] \<and> certs = [] \<or> cut_certificates stream 0 [] = Some certs"
    using assms by (auto simp: ReadIntelOdcaIntermediates_def simp del: upt_rec_numeral split: bind_splits if_splits)
  show ?thesis
  proof (cases "stream = [] \<and> certs = []")
    case True
    then show ?thesis using s by auto
  next
    case False
    with c have "cut_certificates stream 0 [] = Some certs" by blast
    from cut_certificates_sound [OF this] show ?thesis
      using s by (auto simp: MAX_CERTIFICATES_def)
  qed
qed

theorem odca_certificates_are_a_prefix_witness:
  "\<exists>certs w'. ReadIntelOdcaIntermediates (serving_tpm (\<lambda>i. two_slots (i - 0x01C00100))) open_tc [] () = Some (certs, w')
    \<and> (\<exists>stream rest. odca_stream (serving_tpm (\<lambda>i. two_slots (i - 0x01C00100))) open_tc (map of_nat [0..<16]) [] ()
        = Some (stream, w')
      \<and> stream = concat certs @ rest \<and> (\<forall>c \<in> set certs. is_der c) \<and> length certs \<le> 8)"
proof -
  let ?api = "serving_tpm (\<lambda>i. two_slots (i - 0x01C00100))"
  have "nv_answers_fit ?api open_tc i" for i
    by (rule serving_tpm_fits) (simp add: two_slots_def)
  then have "defined (odca_stream ?api open_tc (map of_nat [0..<16]) [] ())"
    by (intro odca_stream_ends) blast
  then have "defined (ReadIntelOdcaIntermediates ?api open_tc [] ())"
    by (simp add: ReadIntelOdcaIntermediates_def never_faults del: upt_rec_numeral)
  then obtain certs w' where run: "ReadIntelOdcaIntermediates ?api open_tc [] () = Some (certs, w')"
    by (auto simp: defined_def)
  from odca_certificates_are_a_prefix [OF this] run show ?thesis by blast
qed

end
