(* ===== verification/Cert_Stores.thy ===== *)
theory Cert_Stores
  imports Secure_Boot Tpm_Nv
begin

text \<open>
  The two certificate stores the registry holds: the EK certificate Windows caches
  (\<open>ExtractDerCertificate\<close>, \<open>ReadEkCertFromWindowsStore\<close> of \<open>src/client/rootherald_win.cpp\<close>) and the
  vendor intermediates (\<open>src/certs/win_cert_store_intermediates.cpp\<close>).

  The registry is a record of functions over a world. \<open>with_reg_key\<close> is the scope of a
  \<open>UniqueRegKey\<close>: the key is opened into the owner, the body runs with the status, and whatever way
  the scope is left the owner is destroyed. \<open>None\<close> is a read outside a vector or, for the scan of
  the EK store, which is bounded by nothing but the registry, a scan that never ends.
\<close>

section \<open>The registry\<close>

record 'w reg_api =
  RegOpenKeyEx :: "u64 \<Rightarrow> string \<Rightarrow> 'w \<Rightarrow> u32 \<times> u64 \<times> 'w"
  RegQueryInfoKey :: "u64 \<Rightarrow> 'w \<Rightarrow> u32 \<times> u32 \<times> u32 \<times> 'w"
  RegEnumKeyEx :: "u64 \<Rightarrow> u32 \<Rightarrow> u32 \<Rightarrow> 'w \<Rightarrow> u32 \<times> string \<times> 'w"
  RegQueryValueEx :: "u64 \<Rightarrow> string \<Rightarrow> u32 option \<Rightarrow> 'w \<Rightarrow> u32 \<times> u32 \<times> bytes \<times> u32 \<times> 'w"
  RegCloseKey :: "u64 \<Rightarrow> 'w \<Rightarrow> 'w"

abbreviation ERROR_SUCCESS :: u32 where "ERROR_SUCCESS \<equiv> 0"

definition HKEY_LOCAL_MACHINE :: u64 where "HKEY_LOCAL_MACHINE = 0xFFFFFFFF80000002"
definition REG_NONE :: u32 where "REG_NONE = 0"
definition REG_BINARY :: u32 where "REG_BINARY = 3"

definition RegKeyTraits :: "'w reg_api \<Rightarrow> (u64, 'w) handle_traits" where
  "RegKeyTraits api = \<lparr>Invalid = 0, Close = RegCloseKey api\<rparr>"

definition with_reg_key ::
    "'w reg_api \<Rightarrow> u64 \<Rightarrow> string \<Rightarrow> (u32 \<Rightarrow> u64 \<Rightarrow> 'w \<Rightarrow> ('a \<times> 'w) option) \<Rightarrow> 'w \<Rightarrow> ('a \<times> 'w) option" where
  "with_reg_key api parent name body w =
     (let (_, w) = uh_Put (RegKeyTraits api) 0 w;
          (status, key, w) = RegOpenKeyEx api parent name w
      in do {
        (r, w) \<leftarrow> body status key w;
        Some (r, uh_Destroy (RegKeyTraits api) key w)
      })"

text \<open>The value \<open>Blob\<close> of a key: its size, then its bytes.\<close>

definition query_blob :: "'w reg_api \<Rightarrow> u64 \<Rightarrow> (u32 \<Rightarrow> bool) \<Rightarrow> 'w \<Rightarrow> bytes option \<times> 'w" where
  "query_blob api key type_ok w =
     (let (status, valueType, _, blobLen, w) = RegQueryValueEx api key ''Blob'' None w
      in if status \<noteq> ERROR_SUCCESS \<or> blobLen = 0 \<or> \<not> type_ok valueType then (None, w)
         else
           let (status, _, written, got, w) = RegQueryValueEx api key ''Blob'' (Some blobLen) w
           in if status \<noteq> ERROR_SUCCESS then (None, w)
              else (Some (vec_resize (unat got) (vec_resize (unat blobLen) written)), w))"

text \<open>The names of a path, joined by backslashes.\<close>

fun registry_path :: "string list \<Rightarrow> string" where
  "registry_path [] = []"
| "registry_path [name] = name"
| "registry_path (name # names) = name @ backslash @ registry_path names"

section \<open>The EK certificate store\<close>

function extract_der_from :: "bytes \<Rightarrow> nat \<Rightarrow> bytes option" where
  "extract_der_from blob i =
     (if i + 4 < length blob
      then do {
        b0 \<leftarrow> byte_at blob i;
        found \<leftarrow> (if b0 = 0x30 then do { b1 \<leftarrow> byte_at blob (i + 1); Some (b1 = 0x82) } else Some False);
        if found
        then do {
          b2 \<leftarrow> byte_at blob (i + 2);
          b3 \<leftarrow> byte_at blob (i + 3);
          let len = push_bit 8 (unat b2) OR unat b3;
          let total = 4 + len;
          if total > 64 \<and> i + total \<le> length blob then vec_range blob i (i + total)
          else extract_der_from blob (i + 1)
        }
        else extract_der_from blob (i + 1)
      }
      else Some [])"
  by pat_completeness auto
termination
  by (relation "measure (\<lambda>(blob, i). length blob - i)") auto

declare extract_der_from.simps [simp del]

definition ExtractDerCertificate :: "bytes \<Rightarrow> bytes option" where
  "ExtractDerCertificate blob = extract_der_from blob 0"

definition ek_store_path :: string where
  "ek_store_path = registry_path [''SYSTEM'', ''CurrentControlSet'', ''Services'', ''TPM'', ''WMI'',
     ''Endorsement'', ''EKCertStore'', ''Certificates'']"

text \<open>One subkey; the empty vector is the \<open>continue\<close> of the code.\<close>

definition ek_store_entry :: "'w reg_api \<Rightarrow> u64 \<Rightarrow> string \<Rightarrow> 'w \<Rightarrow> (bytes \<times> 'w) option" where
  "ek_store_entry api certificatesKey subName w =
     with_reg_key api certificatesKey subName (\<lambda>status certificateKey w.
       if status \<noteq> ERROR_SUCCESS then Some ([], w)
       else
         let (blob, w) = query_blob api certificateKey (\<lambda>_. True) w
         in case blob of
              None \<Rightarrow> Some ([], w)
            | Some blob \<Rightarrow> do { certificate \<leftarrow> ExtractDerCertificate blob; Some (certificate, w) }) w"

partial_function (option) ek_store_scan :: "'w reg_api \<Rightarrow> u64 \<Rightarrow> u32 \<Rightarrow> 'w \<Rightarrow> (bytes \<times> 'w) option" where
  "ek_store_scan api certificatesKey idx w =
     (let (status, subName, w) = RegEnumKeyEx api certificatesKey idx 256 w
      in if status \<noteq> ERROR_SUCCESS then Some ([], w)
         else do {
           (certificate, w) \<leftarrow> ek_store_entry api certificatesKey subName w;
           if certificate \<noteq> [] then Some (certificate, w)
           else ek_store_scan api certificatesKey (idx + 1) w
         })"

declare ek_store_scan.simps [code]

definition ReadEkCertFromWindowsStore :: "'w reg_api \<Rightarrow> 'w \<Rightarrow> (bytes \<times> 'w) option" where
  "ReadEkCertFromWindowsStore api w =
     with_reg_key api HKEY_LOCAL_MACHINE ek_store_path (\<lambda>status certificatesKey w.
       if status \<noteq> ERROR_SUCCESS then Some ([], w)
       else ek_store_scan api certificatesKey 0 w) w"

section \<open>The store of vendor intermediates\<close>

definition STORE_SUBKEY :: string where
  "STORE_SUBKEY = registry_path [''SYSTEM'', ''CurrentControlSet'', ''Services'', ''TPM'', ''WMI'',
     ''Endorsement'', ''IntermediateCACertStore'', ''Certificates'']"

function normalize_from :: "bytes \<Rightarrow> nat \<Rightarrow> nat \<Rightarrow> bytes option" where
  "normalize_from blob scanLimit i =
     (if i + 4 < scanLimit
      then do {
        b0 \<leftarrow> byte_at blob i;
        found \<leftarrow> (if b0 = 0x30 then do { b1 \<leftarrow> byte_at blob (i + 1); Some (b1 = 0x82) } else Some False);
        if found then vec_range blob i (length blob) else normalize_from blob scanLimit (i + 1)
      }
      else Some [])"
  by pat_completeness auto
termination
  by (relation "measure (\<lambda>(blob, limit, i). limit - i)") auto

declare normalize_from.simps [simp del]

definition NormalizeBlobToDer :: "bytes \<Rightarrow> bytes option" where
  "NormalizeBlobToDer blob =
     (if length blob < 4 then Some []
      else do {
        b0 \<leftarrow> byte_at blob 0;
        b1 \<leftarrow> byte_at blob 1;
        if b0 = 0x30 \<and> (b1 = 0x82 \<or> b1 = 0x81) then Some blob
        else normalize_from blob (if length blob < 64 then length blob else 64) 1
      })"

text \<open>
  The extension lookup and its decoding: the value of the BasicConstraints extension of a
  certificate, and the decoded \<open>fCA\<close> of such a value.
\<close>

record 'c cert_api = "'c crypt_api" +
  CertFindBasicConstraints :: "'c \<Rightarrow> bytes option"
  CryptDecodeBasicConstraints :: "bytes \<Rightarrow> bool option"

definition IsLikelyCaCert :: "'c cert_api \<Rightarrow> 'c option \<Rightarrow> bool" where
  "IsLikelyCaCert api ctx =
     (case ctx of
        None \<Rightarrow> False
      | Some ctx \<Rightarrow>
          (case CertFindBasicConstraints api ctx of
             None \<Rightarrow> True
           | Some ext \<Rightarrow>
               (case CryptDecodeBasicConstraints api ext of
                  None \<Rightarrow> False
                | Some fCA \<Rightarrow> fCA)))"

definition store_entry :: "'c cert_api \<Rightarrow> 'w reg_api \<Rightarrow> u64 \<Rightarrow> string \<Rightarrow> 'w \<Rightarrow> (bytes list \<times> 'w) option" where
  "store_entry capi api root name w =
     with_reg_key api root name (\<lambda>status child w.
       if status \<noteq> ERROR_SUCCESS then Some ([], w)
       else
         let (blob, w) = query_blob api child (\<lambda>valueType. valueType = REG_BINARY \<or> valueType = REG_NONE) w
         in case blob of
              None \<Rightarrow> Some ([], w)
            | Some blob \<Rightarrow> do {
                der \<leftarrow> NormalizeBlobToDer blob;
                if der = [] then Some ([], w)
                else (case CertCreateCertificateContext capi der of
                        None \<Rightarrow> Some ([], w)
                      | Some ctx \<Rightarrow> Some (if IsLikelyCaCert capi (Some ctx) then [der] else [], w))
              }) w"

text \<open>The subkeys \<open>idx, idx + 1, ...\<close>, as many as are left.\<close>

fun store_scan ::
    "'c cert_api \<Rightarrow> 'w reg_api \<Rightarrow> u64 \<Rightarrow> u32 \<Rightarrow> nat \<Rightarrow> u32 \<Rightarrow> bytes list \<Rightarrow> 'w \<Rightarrow> (bytes list \<times> 'w) option" where
  "store_scan capi api root nameLen 0 idx out w = Some (out, w)"
| "store_scan capi api root nameLen (Suc left) idx out w =
     (let (status, name, w) = RegEnumKeyEx api root idx nameLen w
      in if status \<noteq> ERROR_SUCCESS then store_scan capi api root nameLen left (idx + 1) out w
         else do {
           (ders, w) \<leftarrow> store_entry capi api root name w;
           store_scan capi api root nameLen left (idx + 1) (out @ ders) w
         })"

definition ReadWindowsTpmIntermediateStore ::
    "'c cert_api \<Rightarrow> 'w reg_api \<Rightarrow> 'w \<Rightarrow> (bytes list \<times> 'w) option" where
  "ReadWindowsTpmIntermediateStore capi api w =
     with_reg_key api HKEY_LOCAL_MACHINE STORE_SUBKEY (\<lambda>status root w.
       if status \<noteq> ERROR_SUCCESS then Some ([], w)
       else
         let (status, subKeyCount, maxSubKeyLen, w) = RegQueryInfoKey api root w
         in if status \<noteq> ERROR_SUCCESS \<or> subKeyCount = 0 then Some ([], w)
            else store_scan capi api root (maxSubKeyLen + 1) (unat subKeyCount) 0 [] w) w"

section \<open>The certificate inside a blob\<close>

definition marker_at :: "bytes \<Rightarrow> nat \<Rightarrow> bool" where
  "marker_at blob i \<longleftrightarrow> i + 1 < length blob \<and> blob ! i = 0x30 \<and> blob ! (i + 1) = 0x82"

definition marked_size :: "bytes \<Rightarrow> nat \<Rightarrow> nat" where
  "marked_size blob i = 4 + (push_bit 8 (unat (blob ! (i + 2))) OR unat (blob ! (i + 3)))"

lemma extract_step:
  "i + 4 < length blob \<Longrightarrow> extract_der_from blob i =
     (if marker_at blob i \<and> marked_size blob i > 64 \<and> i + marked_size blob i \<le> length blob
      then vec_range blob i (i + marked_size blob i) else extract_der_from blob (i + 1))"
  by (subst extract_der_from.simps) (simp add: marker_at_def marked_size_def byte_at_def Let_def)

lemma extract_stop: "\<not> i + 4 < length blob \<Longrightarrow> extract_der_from blob i = Some []"
  by (subst extract_der_from.simps) simp

lemma normalize_step:
  "i + 4 < limit \<Longrightarrow> limit \<le> length blob \<Longrightarrow> normalize_from blob limit i =
     (if marker_at blob i then Some (drop i blob) else normalize_from blob limit (i + 1))"
  by (subst normalize_from.simps) (simp add: marker_at_def byte_at_def vec_range_def)

lemma normalize_stop: "\<not> i + 4 < limit \<Longrightarrow> normalize_from blob limit i = Some []"
  by (subst normalize_from.simps) simp

lemma extract_der_from_total [never_faults]: "defined (extract_der_from blob i)"
proof (induction "length blob - i" arbitrary: i)
  case 0
  then show ?case by (simp add: extract_stop)
next
  case (Suc n)
  then have "defined (extract_der_from blob (i + 1))" by simp
  then show ?case
    by (cases "i + 4 < length blob") (simp_all add: extract_step extract_stop vec_range_def)
qed

lemma normalize_from_total: "limit \<le> length blob \<Longrightarrow> defined (normalize_from blob limit i)"
proof (induction "limit - i" arbitrary: i)
  case 0
  then show ?case by (simp add: normalize_stop)
next
  case (Suc n)
  then have "defined (normalize_from blob limit (i + 1))" by simp
  then show ?case using Suc.prems by (cases "i + 4 < limit") (simp_all add: normalize_step normalize_stop)
qed

lemma NormalizeBlobToDer_total [never_faults]: "defined (NormalizeBlobToDer blob)"
  by (auto simp: NormalizeBlobToDer_def never_faults normalize_from_total)

lemma marked_is_der:
  assumes "marker_at blob i" and "i + marked_size blob i \<le> length blob" and "i + 4 \<le> length blob"
  shows "is_der (take (marked_size blob i) (drop i blob))"
proof (rule DerObjectSize_is_der)
  have "der_length blob (i + 2) 2 0 = Some (push_bit 8 (unat (blob ! (i + 2))) OR unat (blob ! (i + 3)))"
    using assms(3) by (simp add: numeral_2_eq_2 numeral_3_eq_3 byte_at_def)
  then show "DerObjectSize blob i = Some (marked_size blob i)"
    using assms by (simp add: DerObjectSize_def marker_at_def byte_at_def marked_size_def Let_def)
qed (simp add: marked_size_def)

lemma extract_der_from_sound:
  assumes "extract_der_from blob i = Some c" and "c \<noteq> []"
  shows "\<exists>j. is_der c \<and> 64 < length c \<and> j + length c \<le> length blob \<and> c = take (length c) (drop j blob)"
  using assms(1)
proof (induction "length blob - i" arbitrary: i)
  case 0
  then show ?case using assms(2) by (simp add: extract_stop)
next
  case (Suc n)
  have inside: "i + 4 < length blob"
    using Suc.prems assms(2) extract_stop [of i blob] by (cases "i + 4 < length blob") simp_all
  show ?case
  proof (cases "marker_at blob i \<and> marked_size blob i > 64 \<and> i + marked_size blob i \<le> length blob")
    case True
    then have c: "c = take (marked_size blob i) (drop i blob)"
      using Suc.prems inside by (simp add: extract_step vec_range_def)
    moreover have "length (take (marked_size blob i) (drop i blob)) = marked_size blob i"
      using True by auto
    ultimately show ?thesis using True inside marked_is_der [of blob i] by (intro exI [of _ i]) simp
  next
    case False
    have "extract_der_from blob (i + 1) = Some c"
      using Suc.prems unfolding extract_step [OF inside] by (simp only: False if_False)
    then show ?thesis using Suc.hyps(1) [of "i + 1"] Suc.hyps(2) by simp
  qed
qed

text \<open>The scan passes a header without a marker and stops at the certificate behind it.\<close>

lemma extract_der_from_finds:
  assumes "\<forall>j < k. \<not> marker_at blob (i + j)" and "marker_at blob (i + k)" and "64 < marked_size blob (i + k)"
    and "i + k + marked_size blob (i + k) \<le> length blob"
  shows "extract_der_from blob i = vec_range blob (i + k) (i + k + marked_size blob (i + k))"
  using assms
proof (induction k arbitrary: i)
  case 0
  then show ?case by (simp add: extract_step)
next
  case (Suc k)
  have "\<not> marker_at blob i" using Suc.prems(1) by (metis add.right_neutral zero_less_Suc)
  then have "extract_der_from blob i = extract_der_from blob (i + 1)"
    using Suc.prems(3,4) by (simp add: extract_step)
  moreover have "\<forall>j < k. \<not> marker_at blob (i + 1 + j)"
    using Suc.prems(1) by (metis add.assoc plus_1_eq_Suc Suc_less_eq)
  ultimately show ?case using Suc.IH [of "i + 1"] Suc.prems(2-4) by simp
qed

lemma normalize_from_finds:
  assumes "\<forall>j < k. \<not> marker_at blob (i + j)" and "marker_at blob (i + k)"
    and "i + k + 4 < limit" and "limit \<le> length blob"
  shows "normalize_from blob limit i = Some (drop (i + k) blob)"
  using assms
proof (induction k arbitrary: i)
  case 0
  then show ?case by (simp add: normalize_step)
next
  case (Suc k)
  have "\<not> marker_at blob i" using Suc.prems(1) by (metis add.right_neutral zero_less_Suc)
  then have "normalize_from blob limit i = normalize_from blob limit (i + 1)"
    using Suc.prems(3,4) by (simp add: normalize_step)
  moreover have "\<forall>j < k. \<not> marker_at blob (i + 1 + j)"
    using Suc.prems(1) by (metis add.assoc plus_1_eq_Suc Suc_less_eq)
  ultimately show ?case using Suc.IH [of "i + 1"] Suc.prems(2-4) by simp
qed

text \<open>A certificate as DER frames it with two length bytes.\<close>

lemma be_bytes_2: "be_bytes 2 n = [of_nat (n div 256 mod 256), of_nat (n mod 256)]"
  by (simp only: numeral_2_eq_2 be_bytes.simps append.simps)

lemma der_two_bytes:
  assumes "length body < 65536"
  shows "marker_at (pre @ der_long 2 body @ post) (length pre)"
    and "marked_size (pre @ der_long 2 body @ post) (length pre) = length (der_long 2 body)"
proof -
  let ?blob = "pre @ der_long 2 body @ post"
  have long: "der_long 2 body = [0x30, 0x82, of_nat (length body div 256 mod 256), of_nat (length body mod 256)] @ body"
    by (simp add: der_long_def be_bytes_2)
  then show m: "marker_at ?blob (length pre)" by (simp add: marker_at_def nth_append)
  have "?blob ! (length pre + 2) = of_nat (length body div 256 mod 256)"
    "?blob ! (length pre + 3) = of_nat (length body mod 256)"
    unfolding long by (simp_all add: nth_append)
  moreover have "length body div 256 < 256" using assms by auto
  then have "unat (of_nat (length body div 256 mod 256) :: u8) = length body div 256"
    "unat (of_nat (length body mod 256) :: u8) = length body mod 256"
    by (simp_all add: unat_of_nat)
  moreover from this have "push_bit 8 (length body div 256) OR length body mod 256 = length body"
    using der_step [of "length body div 256" "of_nat (length body mod 256)"] by simp
  ultimately have "marked_size ?blob (length pre) = 4 + length body"
    by (simp add: marked_size_def)
  then show "marked_size ?blob (length pre) = length (der_long 2 body)" by (simp add: long)
qed

section \<open>Scopes of keys\<close>

text \<open>A registry that counts, for every key value, the openings that wrote it and its closings.\<close>

definition counting_reg :: "'w reg_api \<Rightarrow> ('w \<times> u64 multiset \<times> u64 multiset) reg_api" where
  "counting_reg api = \<lparr>
     RegOpenKeyEx = (\<lambda>p n (w, opened, shut).
       let (r, h, w) = RegOpenKeyEx api p n w in (r, h, w, opened + one_handle 0 h, shut)),
     RegQueryInfoKey = (\<lambda>k (w, l). let (r, c, m, w) = RegQueryInfoKey api k w in (r, c, m, w, l)),
     RegEnumKeyEx = (\<lambda>k i n (w, l). let (r, name, w) = RegEnumKeyEx api k i n w in (r, name, w, l)),
     RegQueryValueEx = (\<lambda>k v n (w, l).
       let (r, t, data, got, w) = RegQueryValueEx api k v n w in (r, t, data, got, w, l)),
     RegCloseKey = (\<lambda>h (w, opened, shut). (RegCloseKey api h w, opened, add_mset h shut))\<rparr>"

text \<open>An operation that leaves open what was open.\<close>

definition keeps_keys :: "('w \<times> u64 multiset \<times> u64 multiset \<Rightarrow> ('a \<times> 'w \<times> u64 multiset \<times> u64 multiset) option) \<Rightarrow> bool" where
  "keeps_keys f \<longleftrightarrow> (\<forall>w opened shut r w' opened' shut'.
     f (w, opened, shut) = Some (r, w', opened', shut') \<longrightarrow> opened' + shut = opened + shut')"

lemma balance_trans:
  fixes o2 :: "u64 multiset"
  assumes "o2 + c1 = o1 + c2" and "o1 + c0 = o0 + c1"
  shows "o2 + c0 = o0 + c2"
proof -
  have "(o2 + c0) + c1 = (o2 + c1) + c0" by (simp add: ac_simps)
  also have "\<dots> = (o1 + c0) + c2" unfolding assms(1) by (simp add: ac_simps)
  also have "\<dots> = (o0 + c2) + c1" unfolding assms(2) by (simp add: ac_simps)
  finally show ?thesis by simp
qed

lemma keeps_keysD:
  "keeps_keys f \<Longrightarrow> f (w, opened, shut) = Some (r, w', opened', shut') \<Longrightarrow> opened' + shut = opened + shut'"
  unfolding keeps_keys_def by blast

lemma keeps_keys_Some [simp]: "keeps_keys (\<lambda>w. Some (r, w))"
  by (simp add: keeps_keys_def)

lemma keeps_keys_bind:
  assumes "keeps_keys f" and "\<And>r. keeps_keys (g r)"
  shows "keeps_keys (\<lambda>w. f w \<bind> (\<lambda>(r, w). g r w))"
  unfolding keeps_keys_def
proof (intro allI impI)
  fix w opened shut r w' opened' shut'
  assume "f (w, opened, shut) \<bind> (\<lambda>(r, w). g r w) = Some (r, w', opened', shut')"
  then obtain r1 w1 o1 c1 where "f (w, opened, shut) = Some (r1, w1, o1, c1)"
    and "g r1 (w1, o1, c1) = Some (r, w', opened', shut')"
    by (auto split: bind_splits)
  then have "o1 + shut = opened + c1" "opened' + c1 = o1 + shut'"
    using keeps_keysD [OF assms(1)] keeps_keysD [OF assms(2)] by blast+
  then show "opened' + shut = opened + shut'" using balance_trans by blast
qed

lemma keeps_keys_with_reg_key:
  assumes "\<And>status key. keeps_keys (body status key)"
  shows "keeps_keys (with_reg_key (counting_reg api) parent name body)"
  unfolding keeps_keys_def
proof (intro allI impI)
  fix w opened shut r w' opened' shut'
  assume run: "with_reg_key (counting_reg api) parent name body (w, opened, shut) = Some (r, w', opened', shut')"
  obtain status key w1 where op: "RegOpenKeyEx api parent name w = (status, key, w1)" by (metis prod_cases3)
  obtain w2 o2 c2 where "body status key (w1, opened + one_handle 0 key, shut) = Some (r, w2, o2, c2)"
    and d: "uh_Destroy (RegKeyTraits (counting_reg api)) key (w2, o2, c2) = (w', opened', shut')"
    using run op
    by (auto simp: with_reg_key_def counting_reg_def uh_Put_def uh_Reset_def RegKeyTraits_def split: bind_splits)
  then have "o2 + shut = opened + one_handle 0 key + c2"
    using keeps_keysD [OF assms] by blast
  moreover have "opened' = o2" "shut' = c2 + one_handle 0 key"
    using d by (auto simp: uh_Destroy_def uh_Reset_def RegKeyTraits_def counting_reg_def one_handle_def
        split: if_splits)
  ultimately show "opened' + shut = opened + shut'" by (simp add: ac_simps)
qed

lemma query_blob_counting:
  "query_blob (counting_reg api) key ok (w, l) = (let (b, w) = query_blob api key ok w in (b, w, l))"
  by (simp add: query_blob_def counting_reg_def Let_def split: prod.split)

lemma RegEnumKeyEx_counting:
  "RegEnumKeyEx (counting_reg api) key i n (w, l) =
   (let (r, name, w) = RegEnumKeyEx api key i n w in (r, name, w, l))"
  by (simp add: counting_reg_def)

lemma ek_store_entry_keeps: "keeps_keys (ek_store_entry (counting_reg api) key name)"
  unfolding ek_store_entry_def
  by (rule keeps_keys_with_reg_key)
    (auto simp: keeps_keys_def query_blob_counting Let_def split: if_splits prod.splits option.splits bind_splits)

lemma store_entry_keeps: "keeps_keys (store_entry capi (counting_reg api) key name)"
  unfolding store_entry_def
  by (rule keeps_keys_with_reg_key)
    (auto simp: keeps_keys_def query_blob_counting Let_def split: if_splits prod.splits option.splits bind_splits)

lemma ek_store_scan_keeps:
  assumes "ek_store_scan (counting_reg api) key idx (w, opened, shut) = Some (r, w', opened', shut')"
  shows "opened' + shut = opened + shut'"
proof -
  have "ek_store_scan a key idx s = Some t \<Longrightarrow> a = counting_reg api \<Longrightarrow>
      fst (snd (snd t)) + snd (snd s) = fst (snd s) + snd (snd (snd t))" for a s t
  proof (induction rule: ek_store_scan.raw_induct [rotated, consumes 1, case_names step])
    case (step scan a key idx s t)
    obtain w opened shut where s: "s = (w, opened, shut)" by (metis prod_cases3)
    obtain status name w1 where enum: "RegEnumKeyEx api key idx 256 w = (status, name, w1)" by (metis prod_cases3)
    note a = step(3)
    have body: "(if status \<noteq> ERROR_SUCCESS then Some ([], w1, opened, shut)
        else ek_store_entry (counting_reg api) key name (w1, opened, shut) \<bind>
          (\<lambda>(c, w). if c \<noteq> [] then Some (c, w) else scan (counting_reg api) key (idx + 1) w)) = Some t"
      using step(2) unfolding s a RegEnumKeyEx_counting enum by simp
    show ?case
    proof (cases "status = ERROR_SUCCESS")
      case False
      then show ?thesis using body by (auto simp: s)
    next
      case True
      then obtain c w2 o2 c2 where e: "ek_store_entry (counting_reg api) key name (w1, opened, shut) = Some (c, w2, o2, c2)"
        and rest: "(if c \<noteq> [] then Some (c, w2, o2, c2) else scan (counting_reg api) key (idx + 1) (w2, o2, c2)) = Some t"
        using body by (auto split: bind_splits)
      have b: "o2 + shut = opened + c2" by (rule keeps_keysD [OF ek_store_entry_keeps e])
      show ?thesis
      proof (cases "c = []")
        case False
        then show ?thesis using rest b by (auto simp: s)
      next
        case c: True
        then have "fst (snd (snd t)) + c2 = o2 + snd (snd (snd t))"
          using step(1) [of "counting_reg api" key "idx + 1" "(w2, o2, c2)" t] rest by simp
        then show ?thesis using balance_trans [OF _ b] by (simp add: s)
      qed
    qed
  qed
  from this [OF assms refl] show ?thesis by simp
qed

lemma ReadEkCertFromWindowsStore_keeps: "keeps_keys (ReadEkCertFromWindowsStore (counting_reg api))"
  unfolding ReadEkCertFromWindowsStore_def
  by (rule keeps_keys_with_reg_key) (auto simp: keeps_keys_def dest: ek_store_scan_keeps split: if_splits)

lemma store_scan_keeps: "keeps_keys (store_scan capi (counting_reg api) root n left idx out)"
proof (induction left arbitrary: idx out)
  case 0
  then show ?case by simp
next
  case (Suc left)
  have rest: "keeps_keys (\<lambda>w. store_entry capi (counting_reg api) root name w \<bind>
      (\<lambda>(ders, w). store_scan capi (counting_reg api) root n left (idx + 1) (out @ ders) w))" for name
    by (rule keeps_keys_bind [OF store_entry_keeps]) (rule Suc.IH)
  show ?case
    unfolding keeps_keys_def
    by (auto simp: RegEnumKeyEx_counting Let_def dest: keeps_keysD [OF Suc.IH] keeps_keysD [OF rest]
        split: if_splits prod.splits)
qed

lemma ReadWindowsTpmIntermediateStore_keeps:
  "keeps_keys (ReadWindowsTpmIntermediateStore capi (counting_reg api))"
proof -
  have "RegQueryInfoKey (counting_reg api) root (w, l) =
      (let (r, c, m, w) = RegQueryInfoKey api root w in (r, c, m, w, l))" for root w l
    by (simp add: counting_reg_def)
  then show ?thesis
    unfolding ReadWindowsTpmIntermediateStore_def
    by (intro keeps_keys_with_reg_key)
      (auto simp: keeps_keys_def Let_def dest: keeps_keysD [OF store_scan_keeps] split: if_splits prod.splits)
qed

section \<open>Ends and soundness\<close>

lemma with_reg_key_total:
  "(\<And>status key w. defined (body status key w)) \<Longrightarrow> defined (with_reg_key api parent name body w)"
  by (simp add: with_reg_key_def Let_def never_faults)

lemma ExtractDerCertificate_total [never_faults]: "defined (ExtractDerCertificate blob)"
  by (simp add: ExtractDerCertificate_def never_faults)

lemma ek_store_entry_total [never_faults]: "defined (ek_store_entry api key name w)"
  unfolding ek_store_entry_def
  by (rule with_reg_key_total) (auto simp: Let_def never_faults split: option.split prod.split)

lemma store_entry_total [never_faults]: "defined (store_entry capi api key name w)"
  unfolding store_entry_def
  by (rule with_reg_key_total) (auto simp: Let_def never_faults split: option.split prod.split)

lemma store_scan_total [never_faults]: "defined (store_scan capi api root n left idx out w)"
  by (induction left arbitrary: idx out w) (simp_all add: Let_def never_faults)

lemma ReadWindowsTpmIntermediateStore_total [never_faults]:
  "defined (ReadWindowsTpmIntermediateStore capi api w)"
  unfolding ReadWindowsTpmIntermediateStore_def
  by (rule with_reg_key_total) (simp add: Let_def never_faults)

text \<open>A registry key has finitely many subkeys: some index is refused.\<close>

definition enumeration_ends :: "'w reg_api \<Rightarrow> u32 \<Rightarrow> bool" where
  "enumeration_ends api n \<longleftrightarrow> (\<forall>key w. fst (RegEnumKeyEx api key n 256 w) \<noteq> ERROR_SUCCESS)"

lemma ek_store_scan_ends:
  assumes "enumeration_ends api n"
  shows "idx \<le> n \<Longrightarrow> defined (ek_store_scan api key idx w)"
proof (induction "unat n - unat idx" arbitrary: idx w)
  case 0
  then have "idx = n" by (simp add: word_le_nat_alt word_unat_eq_iff)
  then have "fst (RegEnumKeyEx api key idx 256 w) \<noteq> ERROR_SUCCESS"
    using assms by (simp add: enumeration_ends_def)
  then show ?case
    by (subst ek_store_scan.simps) (simp add: case_prod_beta)
next
  case (Suc k)
  then have "idx < n" by (simp add: word_less_nat_alt)
  then have "unat idx + 1 < 2 ^ 32"
    using unsigned_less [of n, where ?'a = nat] by (simp add: word_less_nat_alt)
  then have next_idx: "unat (idx + 1) = unat idx + 1"
    by (simp add: unat_word_ariths)
  with \<open>idx < n\<close> have "idx + 1 \<le> n" by (simp add: word_less_nat_alt word_le_nat_alt)
  then have "defined (ek_store_scan api key (idx + 1) w)" for w
    using Suc.hyps(2) next_idx by (intro Suc.hyps(1)) simp_all
  then show ?case
    by (subst ek_store_scan.simps) (simp add: never_faults Let_def)
qed

lemma ReadEkCertFromWindowsStore_ends:
  "enumeration_ends api n \<Longrightarrow> defined (ReadEkCertFromWindowsStore api w)"
  unfolding ReadEkCertFromWindowsStore_def
  by (rule with_reg_key_total) (auto simp: never_faults intro: ek_store_scan_ends)

section \<open>Blobs with a header\<close>

text \<open>A header in front of a certificate that does not itself look like the start of one.\<close>

definition plain_header :: "bytes \<Rightarrow> bool" where
  "plain_header hdr \<longleftrightarrow> (\<forall>j < length hdr. hdr ! j = 0x30 \<longrightarrow> j + 1 < length hdr \<longrightarrow>
     hdr ! (j + 1) \<noteq> 0x81 \<and> hdr ! (j + 1) \<noteq> 0x82)"

lemma der_long_front: "der_long 2 body = 0x30 # 0x82 # drop 2 (der_long 2 body)"
  by (simp add: der_long_def)

lemma plain_header_unmarked:
  assumes "plain_header hdr" and "j < length hdr"
  shows "\<not> marker_at (hdr @ der_long 2 body @ post) j"
proof (cases "j + 1 < length hdr")
  case True
  then show ?thesis using assms by (auto simp: plain_header_def marker_at_def nth_append)
next
  case False
  then have "j + 1 = length hdr" using assms(2) by simp
  then have "(hdr @ der_long 2 body @ post) ! (j + 1) = 0x30"
    by (subst der_long_front) (simp add: nth_append)
  then show ?thesis by (simp add: marker_at_def)
qed

lemma ExtractDerCertificate_recovers:
  assumes "plain_header hdr" and "60 < length body" and "length body < 65536"
  shows "ExtractDerCertificate (hdr @ der_long 2 body @ post) = Some (der_long 2 body)"
proof -
  let ?blob = "hdr @ der_long 2 body @ post"
  have len: "length (der_long 2 body) = 4 + length body" by (simp add: der_long_def)
  have "extract_der_from ?blob 0 = vec_range ?blob (length hdr) (length hdr + marked_size ?blob (length hdr))"
    using extract_der_from_finds [of "length hdr" ?blob 0] plain_header_unmarked [OF assms(1)]
      der_two_bytes [OF assms(3), of hdr post] assms(2) len
    by simp
  then show ?thesis
    using der_two_bytes(2) [OF assms(3), of hdr post]
    by (simp add: ExtractDerCertificate_def)
qed

lemma NormalizeBlobToDer_recovers:
  assumes "plain_header hdr" and "length hdr < 58" and "4 < length body" and "length body < 65536"
  shows "NormalizeBlobToDer (hdr @ der_long 2 body) = Some (der_long 2 body)"
proof (cases hdr)
  case Nil
  then show ?thesis
    by (simp add: NormalizeBlobToDer_def byte_at_def der_long_def)
next
  case (Cons b bs)
  let ?blob = "hdr @ der_long 2 body"
  have len: "length ?blob = length hdr + 4 + length body" by (simp add: der_long_def)
  have first: "\<not> (?blob ! 0 = 0x30 \<and> (?blob ! 1 = 0x82 \<or> ?blob ! 1 = 0x81))"
  proof (cases bs)
    case Nil
    then show ?thesis using Cons by (subst (2 3) der_long_front) simp
  next
    case (Cons c cs)
    then show ?thesis using assms(1) \<open>hdr = b # bs\<close> by (auto simp: plain_header_def dest!: spec [of _ 0])
  qed
  define k where "k = length hdr - 1"
  have k: "length hdr = 1 + k" using Cons by (simp add: k_def)
  have "normalize_from ?blob (if length ?blob < 64 then length ?blob else 64) 1 = Some (drop (1 + k) ?blob)"
  proof (rule normalize_from_finds)
    show "\<forall>j < k. \<not> marker_at ?blob (1 + j)"
      using plain_header_unmarked [OF assms(1), of _ body "[]"] k by simp
    show "marker_at ?blob (1 + k)"
      using der_two_bytes(1) [OF assms(4), of hdr "[]"] k by simp
    show "1 + k + 4 < (if length ?blob < 64 then length ?blob else 64)"
      using assms(2,3) len k by auto
  qed simp
  then show ?thesis
    using first len k by (auto simp: NormalizeBlobToDer_def byte_at_def)
qed

section \<open>What the walks return\<close>

definition ek_cert_ok :: "bytes \<Rightarrow> bool" where
  "ek_cert_ok c \<longleftrightarrow> c = [] \<or> is_der c \<and> 64 < length c"

lemma ExtractDerCertificate_ok: "ExtractDerCertificate blob = Some c \<Longrightarrow> ek_cert_ok c"
  using extract_der_from_sound [of blob 0 c] by (auto simp: ExtractDerCertificate_def ek_cert_ok_def)

lemma with_reg_key_result:
  assumes "with_reg_key api parent name body w = Some (r, w')"
    and "\<And>status key w1 w2. body status key w1 = Some (r, w2) \<Longrightarrow> P"
  shows P
  using assms by (auto simp: with_reg_key_def split: prod.splits bind_splits)

lemma ek_store_entry_ok: "ek_store_entry api key name w = Some (c, w') \<Longrightarrow> ek_cert_ok c"
  unfolding ek_store_entry_def
  by (erule with_reg_key_result)
    (auto simp: ek_cert_ok_def [of "[]"] dest: ExtractDerCertificate_ok split: if_splits prod.splits option.splits bind_splits)

lemma ek_store_scan_ok:
  assumes "ek_store_scan api key idx w = Some t"
  shows "ek_cert_ok (fst t)"
  using assms
proof (induction rule: ek_store_scan.raw_induct [rotated, consumes 1, case_names step])
  case (step scan api key idx w t)
  then show ?case
    by (auto simp: ek_cert_ok_def [of "[]"] dest: ek_store_entry_ok split: if_splits prod.splits bind_splits)
qed

lemma ReadEkCertFromWindowsStore_ok:
  "ReadEkCertFromWindowsStore api w = Some (c, w') \<Longrightarrow> ek_cert_ok c"
  unfolding ReadEkCertFromWindowsStore_def
  by (erule with_reg_key_result)
    (auto simp: ek_cert_ok_def [of "[]"] dest: ek_store_scan_ok split: if_splits)

definition accepted_ca :: "'c cert_api \<Rightarrow> bytes \<Rightarrow> bool" where
  "accepted_ca capi der \<longleftrightarrow> der \<noteq> [] \<and>
     (\<exists>ctx. CertCreateCertificateContext capi der = Some ctx
       \<and> (CertFindBasicConstraints capi ctx = None
          \<or> (\<exists>ext. CertFindBasicConstraints capi ctx = Some ext \<and> CryptDecodeBasicConstraints capi ext = Some True)))"

lemma IsLikelyCaCert_iff:
  "CertCreateCertificateContext capi der = Some ctx \<Longrightarrow> der \<noteq> [] \<Longrightarrow>
   IsLikelyCaCert capi (Some ctx) \<longleftrightarrow> accepted_ca capi der"
  by (auto simp: IsLikelyCaCert_def accepted_ca_def split: option.splits)

lemma store_entry_ca:
  "store_entry capi api key name w = Some (ders, w') \<Longrightarrow> \<forall>d \<in> set ders. accepted_ca capi d"
  unfolding store_entry_def
  by (erule with_reg_key_result)
    (auto simp: IsLikelyCaCert_iff split: if_splits prod.splits option.splits bind_splits)

lemma store_scan_ca:
  "store_scan capi api root n left idx out w = Some (ders, w') \<Longrightarrow> \<forall>d \<in> set out. accepted_ca capi d \<Longrightarrow>
   \<forall>d \<in> set ders. accepted_ca capi d"
proof (induction left arbitrary: idx out w)
  case 0
  then show ?case by simp
next
  case (Suc left)
  obtain status name w1 where enum: "RegEnumKeyEx api root idx n w = (status, name, w1)" by (metis prod_cases3)
  show ?case
  proof (cases "status = ERROR_SUCCESS")
    case False
    then show ?thesis using Suc.prems enum Suc.IH [of "idx + 1" out w1] by simp
  next
    case True
    then obtain new w2 where e: "store_entry capi api root name w1 = Some (new, w2)"
      and rest: "store_scan capi api root n left (idx + 1) (out @ new) w2 = Some (ders, w')"
      using Suc.prems enum by (auto split: bind_splits)
    from Suc.IH [OF rest] store_entry_ca [OF e] Suc.prems(2) show ?thesis by auto
  qed
qed

lemma ReadWindowsTpmIntermediateStore_ca:
  "ReadWindowsTpmIntermediateStore capi api w = Some (ders, w') \<Longrightarrow> \<forall>d \<in> set ders. accepted_ca capi d"
  unfolding ReadWindowsTpmIntermediateStore_def
  by (erule with_reg_key_result) (auto dest: store_scan_ca split: if_splits prod.splits)

section \<open>A store that holds certificates\<close>

text \<open>The blob of a registry value, as the two calls of the query see it.\<close>

definition value_holds :: "'w reg_api \<Rightarrow> u64 \<Rightarrow> bytes \<Rightarrow> 'w set \<Rightarrow> bool" where
  "value_holds api key blob S \<longleftrightarrow>
     (\<forall>w \<in> S. \<exists>rest. \<exists>w' \<in> S. RegQueryValueEx api key ''Blob'' None w = (0, REG_BINARY, rest, of_nat (length blob), w'))
     \<and> (\<forall>w \<in> S. \<exists>t. \<exists>w' \<in> S. RegQueryValueEx api key ''Blob'' (Some (of_nat (length blob))) w
          = (0, t, blob, of_nat (length blob), w'))"

definition store_holds :: "'w reg_api \<Rightarrow> (string \<times> bytes) list \<Rightarrow> 'w set \<Rightarrow> bool" where
  "store_holds api stored S \<longleftrightarrow> (\<exists>root maxLen.
     (\<forall>w \<in> S. \<exists>w' \<in> S. RegOpenKeyEx api HKEY_LOCAL_MACHINE STORE_SUBKEY w = (0, root, w'))
     \<and> (\<forall>w \<in> S. \<exists>w' \<in> S. RegQueryInfoKey api root w = (0, of_nat (length stored), maxLen, w'))
     \<and> (\<forall>w \<in> S. \<forall>i < length stored. \<exists>w' \<in> S.
          RegEnumKeyEx api root (of_nat i) (maxLen + 1) w = (0, fst (stored ! i), w'))
     \<and> (\<forall>w \<in> S. \<forall>(name, blob) \<in> set stored. \<exists>key. \<exists>w' \<in> S.
          RegOpenKeyEx api root name w = (0, key, w') \<and> value_holds api key blob S)
     \<and> (\<forall>w \<in> S. \<forall>key. RegCloseKey api key w \<in> S))"

lemma query_blob_holds:
  assumes "value_holds api key blob S" and "w \<in> S" and "blob \<noteq> []" and "length blob < 2 ^ 32" and "ok REG_BINARY"
  shows "\<exists>w' \<in> S. query_blob api key ok w = (Some blob, w')"
proof -
  have n: "unat (of_nat (length blob) :: u32) = length blob" using assms(4) by (simp add: unat_of_nat)
  then have "(of_nat (length blob) :: u32) \<noteq> 0" using assms(3) by (metis length_0_conv unat_0)
  moreover obtain rest w1 where "w1 \<in> S" "RegQueryValueEx api key ''Blob'' None w
      = (0, REG_BINARY, rest, of_nat (length blob), w1)"
    using assms(1,2) unfolding value_holds_def by blast
  moreover obtain t w2 where "w2 \<in> S" "RegQueryValueEx api key ''Blob'' (Some (of_nat (length blob))) w1
      = (0, t, blob, of_nat (length blob), w2)"
    using assms(1) \<open>w1 \<in> S\<close> unfolding value_holds_def by blast
  ultimately show ?thesis using assms(5) n by (simp add: query_blob_def)
qed

lemma with_reg_key_holds:
  assumes "RegOpenKeyEx api parent name w = (0, key, w1)" and "body 0 key w1 = Some (r, w2)" and "w2 \<in> S"
    and "\<forall>w \<in> S. \<forall>key. RegCloseKey api key w \<in> S"
  shows "\<exists>w' \<in> S. with_reg_key api parent name body w = Some (r, w')"
  using assms
  by (simp add: with_reg_key_def uh_Put_def uh_Reset_def uh_Destroy_def RegKeyTraits_def)

definition one_ca_cert :: "'c cert_api \<Rightarrow> string \<times> bytes \<Rightarrow> bytes \<Rightarrow> bool" where
  "one_ca_cert capi e der \<longleftrightarrow> snd e \<noteq> [] \<and> length (snd e) < 2 ^ 32
     \<and> NormalizeBlobToDer (snd e) = Some der \<and> accepted_ca capi der"

lemma store_entry_holds:
  assumes "one_ca_cert capi (name, blob) der" and "value_holds api key blob S"
    and "RegOpenKeyEx api root name w = (0, key, w1)" and "w1 \<in> S"
    and "\<forall>w \<in> S. \<forall>key. RegCloseKey api key w \<in> S"
  shows "\<exists>w' \<in> S. store_entry capi api root name w = Some ([der], w')"
proof -
  obtain w2 where q: "w2 \<in> S" "query_blob api key (\<lambda>t. t = REG_BINARY \<or> t = REG_NONE) w1 = (Some blob, w2)"
    using query_blob_holds [OF assms(2,4), of "\<lambda>t. t = REG_BINARY \<or> t = REG_NONE"] assms(1)
    by (auto simp: one_ca_cert_def)
  obtain ctx where ctx: "der \<noteq> []" "CertCreateCertificateContext capi der = Some ctx" "IsLikelyCaCert capi (Some ctx)"
    using assms(1) IsLikelyCaCert_iff [of capi der] by (auto simp: one_ca_cert_def accepted_ca_def)
  show ?thesis
    unfolding store_entry_def
    by (rule with_reg_key_holds [OF assms(3) _ q(1) assms(5)])
      (use q(2) ctx assms(1) in \<open>simp add: one_ca_cert_def\<close>)
qed

lemma store_scan_holds:
  assumes enum: "\<forall>w \<in> S. \<forall>i < length stored. \<exists>w' \<in> S.
      RegEnumKeyEx api root (of_nat i) n w = (0, fst (stored ! i), w')"
    and open_key: "\<forall>w \<in> S. \<forall>(name, blob) \<in> set stored. \<exists>key. \<exists>w' \<in> S.
      RegOpenKeyEx api root name w = (0, key, w') \<and> value_holds api key blob S"
    and close_key: "\<forall>w \<in> S. \<forall>key. RegCloseKey api key w \<in> S"
    and certs: "list_all2 (one_ca_cert capi) stored ders"
  shows "w \<in> S \<Longrightarrow> i + left = length stored \<Longrightarrow>
    \<exists>w' \<in> S. store_scan capi api root n left (of_nat i) out w = Some (out @ drop i ders, w')"
proof (induction left arbitrary: i out w)
  case 0
  then show ?case using list_all2_lengthD [OF certs] by simp
next
  case (Suc left)
  then have i: "i < length stored" "i < length ders" using list_all2_lengthD [OF certs] by simp_all
  obtain w1 where w1: "w1 \<in> S" "RegEnumKeyEx api root (of_nat i) n w = (0, fst (stored ! i), w1)"
    using enum Suc.prems(1) i(1) by blast
  obtain name blob where e: "stored ! i = (name, blob)" by (cases "stored ! i")
  then have "(name, blob) \<in> set stored" using i(1) by (metis nth_mem)
  then obtain key w2 where w2: "w2 \<in> S" "RegOpenKeyEx api root name w1 = (0, key, w2)" "value_holds api key blob S"
    using open_key w1(1) by blast
  have "one_ca_cert capi (name, blob) (ders ! i)"
    using certs i e by (metis list_all2_nthD)
  from store_entry_holds [OF this w2(3,2,1) close_key]
  obtain w3 where w3: "w3 \<in> S" "store_entry capi api root name w1 = Some ([ders ! i], w3)" by blast
  obtain w' where "w' \<in> S" "store_scan capi api root n left (of_nat (Suc i)) (out @ [ders ! i]) w3
      = Some ((out @ [ders ! i]) @ drop (Suc i) ders, w')"
    using Suc.IH [OF w3(1), of "Suc i" "out @ [ders ! i]"] Suc.prems(2) by auto
  moreover have "drop i ders = ders ! i # drop (Suc i) ders" using i(2) by (rule Cons_nth_drop_Suc [symmetric])
  ultimately show ?case
    using w1 w3 e by (simp add: add.commute)
qed

lemma ReadWindowsTpmIntermediateStore_holds:
  assumes "store_holds api stored S" and "w \<in> S" and "list_all2 (one_ca_cert capi) stored ders"
    and "0 < length stored" and "length stored < 2 ^ 32"
  shows "\<exists>w' \<in> S. ReadWindowsTpmIntermediateStore capi api w = Some (ders, w')"
proof -
  obtain root maxLen where o: "\<forall>w \<in> S. \<exists>w' \<in> S. RegOpenKeyEx api HKEY_LOCAL_MACHINE STORE_SUBKEY w = (0, root, w')"
    and q: "\<forall>w \<in> S. \<exists>w' \<in> S. RegQueryInfoKey api root w = (0, of_nat (length stored), maxLen, w')"
    and e: "\<forall>w \<in> S. \<forall>i < length stored. \<exists>w' \<in> S.
          RegEnumKeyEx api root (of_nat i) (maxLen + 1) w = (0, fst (stored ! i), w')"
    and k: "\<forall>w \<in> S. \<forall>(name, blob) \<in> set stored. \<exists>key. \<exists>w' \<in> S.
          RegOpenKeyEx api root name w = (0, key, w') \<and> value_holds api key blob S"
    and c: "\<forall>w \<in> S. \<forall>key. RegCloseKey api key w \<in> S"
    using assms(1) unfolding store_holds_def by blast
  obtain w1 where w1: "w1 \<in> S" "RegOpenKeyEx api HKEY_LOCAL_MACHINE STORE_SUBKEY w = (0, root, w1)"
    using o assms(2) by blast
  obtain w2 where w2: "w2 \<in> S" "RegQueryInfoKey api root w1 = (0, of_nat (length stored), maxLen, w2)"
    using q w1(1) by blast
  have n: "unat (of_nat (length stored) :: u32) = length stored" using assms(5) by (simp add: unat_of_nat)
  then have nz: "(of_nat (length stored) :: u32) \<noteq> 0" using assms(4) by (metis neq0_conv unat_0)
  obtain w3 where "w3 \<in> S" "store_scan capi api root (maxLen + 1) (length stored) 0 [] w2 = Some (ders, w3)"
    using store_scan_holds [OF e k c assms(3) w2(1), of 0 "length stored" "[]"] by auto
  then show ?thesis
    unfolding ReadWindowsTpmIntermediateStore_def
    by (intro with_reg_key_holds [OF w1(2) _ _ c]) (simp_all add: w2(2) n nz)
qed

section \<open>A registry for concrete runs\<close>

text \<open>One store with a list of named blobs; key 1 is the store, key \<open>2 + i\<close> its entry \<open>i\<close>.\<close>

definition static_reg :: "string \<Rightarrow> (string \<times> bytes) list \<Rightarrow> unit reg_api" where
  "static_reg path stored = \<lparr>
     RegOpenKeyEx = (\<lambda>p n _. if p = HKEY_LOCAL_MACHINE then (if n = path then (0, 1, ()) else (2, 0, ()))
       else (case List.find (\<lambda>i. fst (stored ! i) = n) [0..<length stored] of
               None \<Rightarrow> (2, 0, ()) | Some i \<Rightarrow> (0, of_nat (2 + i), ()))),
     RegQueryInfoKey = (\<lambda>_ _. (0, of_nat (length stored), 40, ())),
     RegEnumKeyEx = (\<lambda>_ i _ _. if unat i < length stored then (0, fst (stored ! unat i), ()) else (259, [], ())),
     RegQueryValueEx = (\<lambda>k _ n _. let blob = snd (stored ! (unat k - 2)) in
       (0, REG_BINARY, (if n = None then [] else blob), of_nat (length blob), ())),
     RegCloseKey = (\<lambda>_ _. ())\<rparr>"

definition ca_api :: "bytes cert_api" where
  "ca_api = \<lparr>CertCreateCertificateContext = (\<lambda>der. Some der), subject_to_str = (\<lambda>_. []),
     issuer_to_str = (\<lambda>_. []), CertGetNameString = (\<lambda>_ _. (0, [])), CryptAcquireContext = False,
     CryptCreateHash = False, CryptHashData = (\<lambda>_. False), CryptGetHashParam = (\<lambda>_. None),
     CertFindBasicConstraints = (\<lambda>_. None), CryptDecodeBasicConstraints = (\<lambda>_. None)\<rparr>"

definition one_blob :: "bytes \<Rightarrow> bytes \<Rightarrow> (string \<times> bytes) list" where
  "one_blob hdr body = [(''A1'', hdr @ der_long 2 body)]"

lemma static_reg_store_holds:
  "length hdr + length body < 1000 \<Longrightarrow> store_holds (static_reg STORE_SUBKEY (one_blob hdr body)) (one_blob hdr body) UNIV"
  unfolding store_holds_def
  by (intro exI [of _ 1] exI [of _ 40])
    (auto simp: static_reg_def one_blob_def value_holds_def HKEY_LOCAL_MACHINE_def intro!: exI)

lemma static_reg_ends: "length stored < 2 ^ 32 \<Longrightarrow> enumeration_ends (static_reg path stored) (of_nat (length stored))"
  by (simp add: enumeration_ends_def static_reg_def unat_of_nat)

section \<open>Properties\<close>

text \<open>C35. The EK certificate store: the scan ends on every registry whose enumeration of subkeys ends, the
  key handles it opened are all closed, and what it returns is either nothing or a complete DER object
  longer than 64 bytes cut out of a blob.\<close>

theorem ek_store_read_ends_and_is_sound:
  assumes "enumeration_ends (counting_reg api) n"
  shows "\<exists>c w' opened shut. ReadEkCertFromWindowsStore (counting_reg api) (w, {#}, {#}) = Some (c, w', opened, shut)
    \<and> opened = shut \<and> ek_cert_ok c"
proof -
  obtain c w' opened shut where run:
    "ReadEkCertFromWindowsStore (counting_reg api) (w, {#}, {#}) = Some (c, w', opened, shut)"
    using ReadEkCertFromWindowsStore_ends [OF assms] by (metis definedE prod_cases4)
  from keeps_keysD [OF ReadEkCertFromWindowsStore_keeps run] ReadEkCertFromWindowsStore_ok [OF run] run
  show ?thesis by auto
qed

theorem ek_store_read_ends_and_is_sound_witness:
  "\<exists>c w' opened shut. ReadEkCertFromWindowsStore (counting_reg (static_reg ek_store_path [(''A'', [0x30, 0x82])]))
      ((), {#}, {#}) = Some (c, w', opened, shut) \<and> opened = shut \<and> ek_cert_ok c"
proof (rule ek_store_read_ends_and_is_sound)
  show "enumeration_ends (counting_reg (static_reg ek_store_path [(''A'', [0x30, 0x82])])) 1"
    by (simp add: enumeration_ends_def static_reg_def counting_reg_def)
qed

text \<open>The EK certificate is cut out of its registry blob exactly, behind any header that does not itself
  look like the start of a certificate and in front of any trailing bytes.\<close>

lemma ek_certificate_cut_exactly:
  assumes "plain_header hdr" and "60 < length body" and "length body < 65536"
  shows "ExtractDerCertificate (hdr @ der_long 2 body @ post) = Some (der_long 2 body)"
  using ExtractDerCertificate_recovers [OF assms] .

lemma ek_certificate_cut_exactly_witness:
  "ExtractDerCertificate ([3, 0, 0x30] @ der_long 2 (replicate 100 7) @ [1, 2]) = Some (der_long 2 (replicate 100 7))"
  by (rule ek_certificate_cut_exactly) (simp_all add: plain_header_def less_Suc_eq numeral_3_eq_3)



text \<open>Whatever the registry and the certificate provider answer, the walk over the intermediates ends,
  closes every key it opened, and returns only buffers that open as a certificate whose BasicConstraints
  extension is absent or decodes to a CA.\<close>

theorem intermediates_are_ca_certificates:
  "\<exists>ders w' opened shut. ReadWindowsTpmIntermediateStore capi (counting_reg api) (w, {#}, {#})
      = Some (ders, w', opened, shut)
    \<and> opened = shut \<and> list_all (accepted_ca capi) ders"
proof -
  obtain ders w' opened shut where run:
    "ReadWindowsTpmIntermediateStore capi (counting_reg api) (w, {#}, {#}) = Some (ders, w', opened, shut)"
    using ReadWindowsTpmIntermediateStore_total by (metis definedE prod_cases4)
  from keeps_keysD [OF ReadWindowsTpmIntermediateStore_keeps run] ReadWindowsTpmIntermediateStore_ca [OF run] run
  show ?thesis by (auto simp: list_all_iff)
qed

end
