(* ===== verification/Tbs_Key_Provider.thy ===== *)
theory Tbs_Key_Provider
  imports Tpm_Commands
begin

text \<open>
  \<open>src/tpm/tbs_key_provider.cpp\<close>: the life of an attestation key. \<open>CreateAk\<close> leaves the transient EK
  and AK open, \<open>ActivateCredential\<close> uses them, \<open>PersistAk\<close> evicts the AK to the persistent slot.
  The object owns a TBS context and up to two transient handles; the second half shows over
  arbitrary sequences of operations that everything the TPM handed out is handed back.
\<close>

section \<open>The class\<close>

record tbs_key_provider =
  kp_tpm :: tpm_commands
  persistentHandle :: u32
  ekHandle :: u32
  akHandle :: u32
  akPublicArea :: bytes

definition TPM_RH_OWNER :: u32 where "TPM_RH_OWNER = 0x40000001"

definition new_TbsKeyProvider :: "u32 \<Rightarrow> tbs_key_provider" where
  "new_TbsKeyProvider h = \<lparr>kp_tpm = new_TpmCommands, persistentHandle = h, ekHandle = 0, akHandle = 0,
     akPublicArea = []\<rparr>"

definition kp_Open :: "'w tbs_api \<Rightarrow> tbs_key_provider \<Rightarrow> 'w \<Rightarrow> HRESULT \<times> tbs_key_provider \<times> 'w" where
  "kp_Open api p w = (let (hr, tc, w) = TpmCommands_Open api (kp_tpm p) w in (hr, p\<lparr>kp_tpm := tc\<rparr>, w))"

definition FlushTransients :: "'w tbs_api \<Rightarrow> tbs_key_provider \<Rightarrow> 'w \<Rightarrow> tbs_key_provider \<times> 'w" where
  "FlushTransients api p w =
     (let (p, w) = (if akHandle p \<noteq> 0
                    then (p\<lparr>akHandle := 0\<rparr>, snd (FlushContext api (kp_tpm p) (akHandle p) w)) else (p, w))
      in if ekHandle p \<noteq> 0
         then (p\<lparr>ekHandle := 0\<rparr>, snd (FlushContext api (kp_tpm p) (ekHandle p) w)) else (p, w))"

definition kp_Close :: "'w tbs_api \<Rightarrow> tbs_key_provider \<Rightarrow> 'w \<Rightarrow> tbs_key_provider \<times> 'w" where
  "kp_Close api p w =
     (let (p, w) = FlushTransients api p w;
          (tc, w) = TpmCommands_Close api (kp_tpm p) w
      in (p\<lparr>kp_tpm := tc\<rparr>, w))"

text \<open>The destructor closes; the context owner of \<open>_tpm\<close> is destroyed after it.\<close>

definition kp_Destroy :: "'w tbs_api \<Rightarrow> tbs_key_provider \<Rightarrow> 'w \<Rightarrow> 'w" where
  "kp_Destroy api p w =
     (let (p, w) = kp_Close api p w
      in uh_Destroy (TbsContextTraits api) (tc_context (kp_tpm p)) w)"

definition AkExists :: "'w tbs_api \<Rightarrow> tbs_key_provider \<Rightarrow> 'w \<Rightarrow> (bool \<times> 'w) option" where
  "AkExists api p w = IsPersistentPresent api (kp_tpm p) (persistentHandle p) w"

text \<open>The second half of \<open>CreateAk\<close>, once the EK is there.\<close>

definition CreateAk_load ::
    "'w tbs_api \<Rightarrow> tbs_key_provider \<Rightarrow> 'w \<Rightarrow> (HRESULT \<times> tbs_key_provider \<times> 'w) option" where
  "CreateAk_load api p w = do {
     (r, w) \<leftarrow> CreateAndLoadAk api (kp_tpm p) TPM_RH_OWNER w;
     let p = p\<lparr>akHandle := fst (out_of (0, []) r), akPublicArea := snd (out_of (0, []) r)\<rparr>;
     if FAILED (hr_of r) \<or> akHandle p = 0 \<or> akPublicArea p = []
     then (let (p, w) = FlushTransients api p w
           in Some (if FAILED (hr_of r) then hr_of r else E_FAIL, p, w))
     else Some (S_OK, p, w)
   }"

definition CreateAk ::
    "'w tbs_api \<Rightarrow> tbs_key_provider \<Rightarrow> 'w \<Rightarrow> (HRESULT \<times> tbs_key_provider \<times> 'w) option" where
  "CreateAk api p w =
     (let (p, w) = FlushTransients api p w;
          p = p\<lparr>akPublicArea := []\<rparr>
      in do {
        (r, w) \<leftarrow> CreateEk api (kp_tpm p) w;
        let p = p\<lparr>ekHandle := out_of 0 r\<rparr>;
        if FAILED (hr_of r) \<or> ekHandle p = 0
        then Some (if FAILED (hr_of r) then hr_of r else E_FAIL, p, w)
        else CreateAk_load api p w
      })"

definition LoadAk :: "'w tbs_api \<Rightarrow> tbs_key_provider \<Rightarrow> 'w \<Rightarrow> (HRESULT \<times> 'w) option" where
  "LoadAk api p w = do {
     (present, w) \<leftarrow> IsPersistentPresent api (kp_tpm p) (persistentHandle p) w;
     Some (if present then S_OK else E_FAIL, w)
   }"

definition DeleteAk :: "'w tbs_api \<Rightarrow> tbs_key_provider \<Rightarrow> 'w \<Rightarrow> HRESULT \<times> tbs_key_provider \<times> 'w" where
  "DeleteAk api p w = (let (p, w) = FlushTransients api p w in (S_OK, p, w))"

definition GetAkPublicArea :: "tbs_key_provider \<Rightarrow> bytes" where
  "GetAkPublicArea p = akPublicArea p"

definition kp_ActivateCredential ::
    "'w tbs_api \<Rightarrow> tbs_key_provider \<Rightarrow> bytes \<Rightarrow> bytes \<Rightarrow> 'w \<Rightarrow> ((HRESULT + bytes) \<times> 'w) option" where
  "kp_ActivateCredential api p credentialBlob encryptedSecret w =
     (if akHandle p = 0 \<or> ekHandle p = 0 then Some (Inl RH_E_NOT_OPEN, w)
      else ActivateCredential api (kp_tpm p) (akHandle p) (ekHandle p) credentialBlob encryptedSecret w)"

definition PersistAk ::
    "'w tbs_api \<Rightarrow> tbs_key_provider \<Rightarrow> 'w \<Rightarrow> (HRESULT \<times> tbs_key_provider \<times> 'w) option" where
  "PersistAk api p w =
     (if akHandle p = 0 then Some (RH_E_NOT_OPEN, p, w)
      else do {
        (r, w) \<leftarrow> EvictControl api (kp_tpm p) (akHandle p) (persistentHandle p) w;
        if FAILED (hr_of r) then Some (hr_of r, p, w)
        else (let (p, w) = FlushTransients api p w in Some (S_OK, p, w))
      })"

definition GetQuoteHandle :: "tbs_key_provider \<Rightarrow> u32" where
  "GetQuoteHandle p = persistentHandle p"

section \<open>Sequences of operations\<close>

datatype key_op = OpOpen | OpCreateAk | OpActivate bytes bytes | OpPersist | OpExists | OpDelete | OpClose

definition key_step ::
    "'w tbs_api \<Rightarrow> key_op \<Rightarrow> tbs_key_provider \<times> 'w \<Rightarrow> (tbs_key_provider \<times> 'w) option" where
  "key_step api oper s =
     (let (p, w) = s in
      case oper of
        OpOpen \<Rightarrow> Some (snd (kp_Open api p w))
      | OpCreateAk \<Rightarrow> map_option snd (CreateAk api p w)
      | OpActivate cb es \<Rightarrow> map_option (\<lambda>(_, w). (p, w)) (kp_ActivateCredential api p cb es w)
      | OpPersist \<Rightarrow> map_option snd (PersistAk api p w)
      | OpExists \<Rightarrow> map_option (\<lambda>(_, w). (p, w)) (AkExists api p w)
      | OpDelete \<Rightarrow> Some (snd (DeleteAk api p w))
      | OpClose \<Rightarrow> Some (kp_Close api p w))"

fun key_run ::
    "'w tbs_api \<Rightarrow> key_op list \<Rightarrow> tbs_key_provider \<times> 'w \<Rightarrow> (tbs_key_provider \<times> 'w) option" where
  "key_run api [] s = Some s"
| "key_run api (oper # ops) s = do { s \<leftarrow> key_step api oper s; key_run api ops s }"

text \<open>
  A TBS with a transcript: every command submitted with the response the code gets to see. The
  objects the TPM created are read off the responses, the ones it was asked to drop off the
  commands.
\<close>

definition transcript :: "'w tbs_api \<Rightarrow> ('w \<times> (bytes \<times> bytes) list) tbs_api" where
  "transcript api = \<lparr>
     Tbsi_Context_Create = (\<lambda>(w, l). let (r, h, w) = Tbsi_Context_Create api w in (r, h, w, l)),
     Tbsip_Submit_Command = (\<lambda>h cmd (w, l).
       let (r, resp, n, w) = Tbsip_Submit_Command api h cmd w
       in (r, resp, n, w, l @ [(cmd, if r = TBS_SUCCESS
              then vec_resize (unat n) (vec_resize 4096 resp) else [])])),
     Tbsip_Context_Close = (\<lambda>h (w, l). (Tbsip_Context_Close api h w, l)),
     Tbsi_Get_TCG_Log_Ex = (\<lambda>size (w, l).
       let (r, log, n, w) = Tbsi_Get_TCG_Log_Ex api size w in (r, log, n, w, l))\<rparr>"

definition result_handle :: "(HRESULT + u32) option \<Rightarrow> u32 multiset" where
  "result_handle r = (case r of Some (Inr h) \<Rightarrow> one_handle 0 h | _ \<Rightarrow> {#})"

definition created_by :: "bytes \<times> bytes \<Rightarrow> u32 multiset" where
  "created_by e =
     (let (cmd, resp) = e in
      if ReadU32 cmd 6 = Some TPM2_CC_CreatePrimary then result_handle (CreateEk_response resp)
      else if ReadU32 cmd 6 = Some TPM2_CC_StartAuthSession then result_handle (StartAuthSession_response resp)
      else {#})"

definition flushed_by :: "bytes \<times> bytes \<Rightarrow> u32 multiset" where
  "flushed_by e =
     (let (cmd, _) = e in
      if ReadU32 cmd 6 = Some TPM2_CC_FlushContext then {#the (ReadU32 cmd 10)#} else {#})"

definition objects_created :: "(bytes \<times> bytes) list \<Rightarrow> u32 multiset" where
  "objects_created l = sum_list (map created_by l)"

definition objects_flushed :: "(bytes \<times> bytes) list \<Rightarrow> u32 multiset" where
  "objects_flushed l = sum_list (map flushed_by l)"

text \<open>What the provider still holds, and the balance the operations keep while others hold objects too.\<close>

definition held :: "tbs_key_provider \<Rightarrow> u32 multiset" where
  "held p = one_handle 0 (ekHandle p) + one_handle 0 (akHandle p)"

definition key_balanced :: "u32 multiset \<Rightarrow> tbs_key_provider \<times> 'w \<times> (bytes \<times> bytes) list \<Rightarrow> bool" where
  "key_balanced others s \<longleftrightarrow>
     objects_created (snd (snd s)) = objects_flushed (snd (snd s)) + (others + held (fst s))
     \<and> (tc_context (kp_tpm (fst s)) = 0 \<longrightarrow> held (fst s) = {#})"

section \<open>What each operation adds to the transcript\<close>

lemma patched_code:
  "ReadU32 (patch_command_size (u16_be tag @ u32_be 0 @ u32_be code @ params)) 6 = Some code"
  unfolding patch_command_size_begin by (rule be32.rd_wr_at [where post = params]) simp_all

lemma patched_handle:
  "ReadU32 (patch_command_size (u16_be tag @ u32_be 0 @ u32_be code @ u32_be h @ params)) 10 = Some h"
  unfolding patch_command_size_begin by (rule be32.rd_wr_at [where post = params]) simp_all

lemma command_codes [simp]:
  "ReadU32 (patch_command_size (FlushContext_command h)) 6 = Some TPM2_CC_FlushContext"
  "ReadU32 (patch_command_size (CreateAndLoadAk_command h)) 6 = Some TPM2_CC_CreatePrimary"
  "ReadU32 (patch_command_size CreateEk_command) 6 = Some TPM2_CC_CreatePrimary"
  "ReadU32 (patch_command_size StartAuthSession_command) 6 = Some TPM2_CC_StartAuthSession"
  "ReadU32 (patch_command_size (PolicySecret_command h)) 6 = Some TPM2_CC_PolicySecret"
  "ReadU32 (patch_command_size (ActivateCredential_command h h' s cb es)) 6 = Some TPM2_CC_ActivateCredential"
  "ReadU32 (patch_command_size (ReadPublic_command h)) 6 = Some TPM2_CC_ReadPublic"
  "ReadU32 (patch_command_size (EvictControl_command h h')) 6 = Some TPM2_CC_EvictControl"
  by (simp_all add: patched_code writer_simps FlushContext_command_def CreateAndLoadAk_command_def
      CreateEk_command_def StartAuthSession_command_def PolicySecret_command_def
      ActivateCredential_command_def ReadPublic_command_def EvictControl_command_def Let_def)

lemma flush_handle [simp]: "ReadU32 (patch_command_size (FlushContext_command h)) 10 = Some h"
  using patched_handle [of TPM2_ST_NO_SESSIONS TPM2_CC_FlushContext h "[]"]
  by (simp add: writer_simps FlushContext_command_def)

lemma ledger_append [simp]:
  "objects_created (l @ l') = objects_created l + objects_created l'"
  "objects_flushed (l @ l') = objects_flushed l + objects_flushed l'"
  by (simp_all add: objects_created_def objects_flushed_def)

lemma ledger_nil [simp]: "objects_created [] = {#}" "objects_flushed [] = {#}"
  by (simp_all add: objects_created_def objects_flushed_def)

lemma ledger_entry:
  "objects_created [e] = created_by e" "objects_flushed [e] = flushed_by e"
  by (simp_all add: objects_created_def objects_flushed_def)

lemmas ledger_simps = ledger_entry created_by_def flushed_by_def Let_def

lemma SendCommand_transcript:
  "tc_context tc \<noteq> 0 \<Longrightarrow>
   SendCommand (transcript api) tc cmd (w, l) =
     (let (hr, resp, w) = SendCommand api tc cmd w in (hr, resp, w, l @ [(patch_command_size cmd, resp)]))"
  by (simp add: SendCommand_def transcript_def Let_def split: prod.split)

lemma SendCommand_failed: "SendCommand api tc cmd w = (hr, resp, w') \<Longrightarrow> FAILED hr \<Longrightarrow> resp = []"
  by (auto simp: SendCommand_def Let_def split: prod.splits if_splits)

lemma FlushContext_transcript:
  assumes "tc_context tc \<noteq> 0"
  obtains w' resp where "FlushContext (transcript api) tc h (w, l) =
    (fst (SendCommand api tc (FlushContext_command h) w), w', l @ [(patch_command_size (FlushContext_command h), resp)])"
  using that
  by (cases "SendCommand api tc (FlushContext_command h) w")
    (simp add: FlushContext_def SendCommand_transcript [OF assms])

text \<open>A response that is too short for a handle creates nothing, and that is how a failure looks.\<close>

lemma transact_transcript:
  assumes "tc_context tc \<noteq> 0" and "transact (transcript api) tc cmd parse (w, l) = Some (r, s')"
  obtains w' resp where "s' = (w', l @ [(patch_command_size cmd, resp)])"
    and "parse resp = Some r \<or> resp = [] \<and> (\<exists>hr. r = Inl hr)"
proof -
  obtain hr resp w' where send: "SendCommand api tc cmd w = (hr, resp, w')" by (metis prod_cases3)
  show thesis
  proof (cases "FAILED hr")
    case True
    then show thesis
      using assms(2) that [of w' "[]"] SendCommand_failed [OF send True]
      by (auto simp: transact_def SendCommand_transcript [OF assms(1)] send)
  next
    case False
    then show thesis
      using assms(2) that
      by (auto simp: transact_def SendCommand_transcript [OF assms(1)] send split: bind_splits)
  qed
qed

text \<open>Neither the flushes nor the creations of the ledger see the other commands.\<close>

lemma neutral_entry:
  "code \<noteq> TPM2_CC_CreatePrimary \<Longrightarrow> code \<noteq> TPM2_CC_StartAuthSession \<Longrightarrow> code \<noteq> TPM2_CC_FlushContext \<Longrightarrow>
   ReadU32 cmd 6 = Some code \<Longrightarrow> created_by (cmd, resp) = {#} \<and> flushed_by (cmd, resp) = {#}"
  by (simp add: ledger_simps)

lemma create_ek_entry:
  assumes "CreateEk_response resp = Some r \<or> resp = [] \<and> (\<exists>hr. r = Inl hr)"
  shows "result_handle (CreateEk_response resp) = one_handle 0 (out_of 0 r)"
proof -
  have "CreateEk_response [] = Some (Inl RH_E_MALFORMED_RESPONSE)" by (rule create_ek.parse_short) simp
  then show ?thesis using assms by (cases r) (auto simp: result_handle_def out_of_def)
qed

lemma create_ak_entry:
  assumes "CreateAndLoadAk_response resp = Some r \<or> resp = [] \<and> (\<exists>hr. r = Inl hr)"
  shows "result_handle (CreateEk_response resp) = one_handle 0 (fst (out_of (0, []) r))"
proof -
  have "CreateEk_response resp = map_option (map_sum id fst) (CreateAndLoadAk_response resp)"
    using ak_public_area_total [of resp]
    by (auto simp: CreateEk_response_def CreateAndLoadAk_response_def on_success_def defined_def
        split: bind_split)
  moreover have "CreateAndLoadAk_response [] = Some (Inl RH_E_MALFORMED_RESPONSE)"
    by (rule create_ak.parse_short) simp
  ultimately show ?thesis using assms by (cases r) (auto simp: result_handle_def out_of_def)
qed

lemma start_session_entry:
  assumes "StartAuthSession_response resp = Some r \<or> resp = [] \<and> (\<exists>hr. r = Inl hr)"
  shows "result_handle (StartAuthSession_response resp) = one_handle 0 (out_of 0 r)"
proof -
  have "StartAuthSession_response [] = Some (Inl RH_E_MALFORMED_RESPONSE)"
    by (rule start_session.parse_short) simp
  then show ?thesis using assms by (cases r) (auto simp: result_handle_def out_of_def)
qed

section \<open>The balance of an operation\<close>

text \<open>
  From holding \<open>d\<close> to holding \<open>d'\<close>: the transcript grows, and what was created in between plus \<open>d\<close>
  is what was flushed plus \<open>d'\<close>.
\<close>

definition exchange ::
    "(bytes \<times> bytes) list \<Rightarrow> u32 multiset \<Rightarrow> (bytes \<times> bytes) list \<Rightarrow> u32 multiset \<Rightarrow> bool" where
  "exchange l d l' d' \<longleftrightarrow> (\<exists>x. l' = l @ x \<and> objects_created x + d = objects_flushed x + d')"

lemma exchange_refl [simp]: "exchange l d l d"
  by (simp add: exchange_def)

lemma exchange_trans:
  assumes "exchange l d l' d'" and "exchange l' d' l'' d''"
  shows "exchange l d l'' d''"
proof -
  obtain x y where x: "l' = l @ x" "objects_created x + d = objects_flushed x + d'"
    and y: "l'' = l' @ y" "objects_created y + d' = objects_flushed y + d''"
    using assms by (auto simp: exchange_def)
  have "objects_created (x @ y) + d = objects_created y + (objects_flushed x + d')"
    using x(2) by (simp add: ac_simps)
  also have "\<dots> = objects_flushed (x @ y) + d''"
    using y(2) by (simp add: ac_simps)
  finally show ?thesis using x(1) y(1) by (auto simp: exchange_def)
qed

lemma exchange_frame:
  assumes "exchange l d l' d'"
  shows "exchange l (e + d) l' (e + d')"
proof -
  obtain x where "l' = l @ x" "objects_created x + d = objects_flushed x + d'"
    using assms by (auto simp: exchange_def)
  then have "l' = l @ x" "objects_created x + (e + d) = objects_flushed x + (e + d')"
    by (simp_all add: union_lcomm)
  then show ?thesis by (auto simp: exchange_def)
qed

lemma exchange_balanced:
  "exchange l d l' d' \<Longrightarrow> objects_created l = objects_flushed l + d \<Longrightarrow>
   objects_created l' = objects_flushed l' + d'"
  by (auto simp: exchange_def ac_simps)

lemma exchange_neutral:
  assumes "tc_context tc \<noteq> 0" and "transact (transcript api) tc cmd parse (w, l) = Some (r, w', l')"
    and "ReadU32 (patch_command_size cmd) 6 = Some code"
    and "code \<noteq> TPM2_CC_CreatePrimary" and "code \<noteq> TPM2_CC_StartAuthSession" and "code \<noteq> TPM2_CC_FlushContext"
  shows "exchange l d l' d"
proof -
  obtain w1 resp where "(w', l') = (w1, l @ [(patch_command_size cmd, resp)])"
    using transact_transcript [OF assms(1,2)] .
  then show ?thesis
    using neutral_entry [OF assms(4-6,3), of resp] by (simp add: exchange_def ledger_entry)
qed

lemma IsPersistentPresent_exchange:
  assumes "tc_context tc \<noteq> 0" and "IsPersistentPresent (transcript api) tc h (w, l) = Some (b, w', l')"
  shows "exchange l d l' d"
proof -
  obtain hr resp w1 where send: "SendCommand api tc (ReadPublic_command h) w = (hr, resp, w1)" by (metis prod_cases3)
  have "l' = l @ [(patch_command_size (ReadPublic_command h), resp)]"
    using assms(2)
    by (auto simp: IsPersistentPresent_def SendCommand_transcript [OF assms(1)] send
        split: if_splits bind_splits)
  then show ?thesis
    using neutral_entry [of TPM2_CC_ReadPublic _ resp] by (simp add: exchange_def ledger_entry)
qed

lemma FlushContext_exchange:
  assumes "tc_context tc \<noteq> 0" and "snd (FlushContext (transcript api) tc h (w, l)) = (w', l')"
  shows "exchange l (add_mset h d) l' d"
proof -
  obtain w1 resp where "FlushContext (transcript api) tc h (w, l) =
      (fst (SendCommand api tc (FlushContext_command h) w), w1, l @ [(patch_command_size (FlushContext_command h), resp)])"
    using FlushContext_transcript [OF assms(1)] .
  then have "l' = l @ [(patch_command_size (FlushContext_command h), resp)]" using assms(2) by simp
  then show ?thesis by (simp add: exchange_def ledger_simps)
qed

lemma CreateEk_exchange:
  assumes "tc_context tc \<noteq> 0" and "CreateEk (transcript api) tc (w, l) = Some (r, w', l')"
  shows "exchange l d l' (one_handle 0 (out_of 0 r) + d)"
proof -
  obtain w1 resp where "(w', l') = (w1, l @ [(patch_command_size CreateEk_command, resp)])"
    and r: "CreateEk_response resp = Some r \<or> resp = [] \<and> (\<exists>hr. r = Inl hr)"
    using transact_transcript [OF assms(1) assms(2) [unfolded CreateEk_def]] .
  then show ?thesis
    using create_ek_entry [OF r] by (simp add: exchange_def ledger_simps)
qed

lemma CreateAndLoadAk_exchange:
  assumes "tc_context tc \<noteq> 0" and "CreateAndLoadAk (transcript api) tc p (w, l) = Some (r, w', l')"
  shows "exchange l d l' (one_handle 0 (fst (out_of (0, []) r)) + d)"
proof -
  obtain w1 resp where "(w', l') = (w1, l @ [(patch_command_size (CreateAndLoadAk_command p), resp)])"
    and r: "CreateAndLoadAk_response resp = Some r \<or> resp = [] \<and> (\<exists>hr. r = Inl hr)"
    using transact_transcript [OF assms(1) assms(2) [unfolded CreateAndLoadAk_def]] .
  then show ?thesis
    using create_ak_entry [OF r] by (simp add: exchange_def ledger_simps)
qed

lemma EvictControl_exchange:
  assumes "tc_context tc \<noteq> 0" and "EvictControl (transcript api) tc t p (w, l) = Some (r, w', l')"
  shows "exchange l d l' d"
proof -
  obtain present w1 l1 where p: "IsPersistentPresent (transcript api) tc p (w, l) = Some (present, w1, l1)"
    using assms(2) by (auto simp: EvictControl_def split: bind_splits)
  note e1 = IsPersistentPresent_exchange [OF assms(1) p]
  note evict = exchange_neutral [where cmd = "EvictControl_command a b" and parse = code_only_response
      and code = TPM2_CC_EvictControl for a b, OF assms(1)]
  obtain r2 w2 l2 where t2: "(if present
      then transact (transcript api) tc (EvictControl_command p p) code_only_response (w1, l1)
      else Some (Inr (), w1, l1)) = Some (r2, w2, l2)"
    using assms(2) p by (auto simp: EvictControl_def split: bind_splits)
  have e2: "exchange l1 d l2 d"
    using t2 evict by (cases present) auto
  have "exchange l2 d l' d"
    using assms(2) p t2 evict by (cases r2) (auto simp: EvictControl_def split: bind_splits)
  then show ?thesis using e1 e2 exchange_trans by blast
qed

lemma ActivateCredential_exchange:
  assumes "tc_context tc \<noteq> 0" and "ActivateCredential (transcript api) tc ak ek cb es (w, l) = Some (r, w', l')"
  shows "exchange l d l' d"
proof -
  obtain s w3 l3 where run: "ActivateCredential_run (transcript api) tc ak ek cb es (w, l) = Some (r, s, w3, l3)"
    and fl: "(w', l') = (if s \<noteq> 0 then snd (FlushContext (transcript api) tc s (w3, l3)) else (w3, l3))"
    using ActivateCredential_then_flush [OF assms(2)] by auto
  obtain r1 w1 l1 where t1: "transact (transcript api) tc StartAuthSession_command StartAuthSession_response (w, l)
      = Some (r1, w1, l1)"
    using run by (auto simp: ActivateCredential_run_def split: bind_splits)
  obtain wx resp where "(w1, l1) = (wx, l @ [(patch_command_size StartAuthSession_command, resp)])"
    and c: "StartAuthSession_response resp = Some r1 \<or> resp = [] \<and> (\<exists>hr. r1 = Inl hr)"
    using transact_transcript [OF assms(1) t1] .
  then have e1: "exchange l d l1 (one_handle 0 (out_of 0 r1) + d)"
    using start_session_entry [OF c] by (simp add: exchange_def ledger_simps)
  note policy = exchange_neutral [where cmd = "PolicySecret_command h" and parse = code_only_response
      and code = TPM2_CC_PolicySecret for h, OF assms(1)]
  note activate = exchange_neutral [where cmd = "ActivateCredential_command ak ek h cb es"
      and parse = ActivateCredential_response and code = TPM2_CC_ActivateCredential for h, OF assms(1)]
  have s: "s = out_of 0 r1"
    using run t1 by (cases r1) (auto simp: ActivateCredential_run_def out_of_def split: bind_splits sum.splits)
  have "exchange l1 d' l3 d'" for d'
  proof (cases r1)
    case (Inl hr)
    then show ?thesis using run t1 by (simp add: ActivateCredential_run_def)
  next
    case (Inr h)
    then obtain r2 w2 l2 where t2: "transact (transcript api) tc (PolicySecret_command h) code_only_response (w1, l1)
        = Some (r2, w2, l2)"
      using run t1 by (auto simp: ActivateCredential_run_def split: bind_splits)
    have e2: "exchange l1 d' l2 d'" using policy [OF t2] by simp
    have "exchange l2 d' l3 d'"
      using run t1 t2 Inr activate
      by (cases r2) (auto simp: ActivateCredential_run_def split: bind_splits)
    with e2 show ?thesis by (rule exchange_trans)
  qed
  then have e3: "exchange l d l3 (one_handle 0 s + d)"
    using exchange_trans [OF e1] unfolding s by blast
  have "exchange l3 (one_handle 0 s + d) l' d"
    using fl FlushContext_exchange [OF assms(1), of api s w3 l3 w' l' d]
    by (cases "s = 0") (simp_all add: one_handle_def)
  with e3 show ?thesis by (rule exchange_trans)
qed

lemma FlushTransients_exchange:
  assumes "FlushTransients (transcript api) p (w, l) = (p', w', l')"
    and "tc_context (kp_tpm p) = 0 \<Longrightarrow> held p = {#}"
  shows "exchange l (held p) l' {#} \<and> p' = p\<lparr>ekHandle := 0, akHandle := 0\<rparr>"
proof -
  define p1 w1 l1 where "p1 = (if akHandle p \<noteq> 0 then p\<lparr>akHandle := 0\<rparr> else p)"
    and "w1 = fst (if akHandle p \<noteq> 0 then snd (FlushContext (transcript api) (kp_tpm p) (akHandle p) (w, l)) else (w, l))"
    and "l1 = snd (if akHandle p \<noteq> 0 then snd (FlushContext (transcript api) (kp_tpm p) (akHandle p) (w, l)) else (w, l))"
  have p1: "p1 = p\<lparr>akHandle := 0\<rparr>" by (simp add: p1_def)
  have fl: "(p', w', l') = (if ekHandle p \<noteq> 0
      then (p1\<lparr>ekHandle := 0\<rparr>, snd (FlushContext (transcript api) (kp_tpm p) (ekHandle p) (w1, l1))) else (p1, w1, l1))"
    using assms(1) by (auto simp: FlushTransients_def Let_def p1_def w1_def l1_def split: if_splits)
  have open_if: "tc_context (kp_tpm p) \<noteq> 0" if "akHandle p \<noteq> 0 \<or> ekHandle p \<noteq> 0"
    using assms(2) that by (auto simp: held_def one_handle_def split: if_splits)
  have "exchange l (one_handle 0 (akHandle p) + one_handle 0 (ekHandle p)) l1 (one_handle 0 (ekHandle p))"
    using FlushContext_exchange [OF open_if, of api "akHandle p" w l w1 l1]
    by (cases "akHandle p = 0") (simp_all add: l1_def w1_def one_handle_def)
  moreover have "exchange l1 (one_handle 0 (ekHandle p)) l' {#}"
    using fl FlushContext_exchange [OF open_if, of api "ekHandle p" w1 l1 w' l' "{#}"]
    by (cases "ekHandle p = 0") (simp_all add: one_handle_def)
  ultimately have "exchange l (held p) l' {#}"
    using exchange_trans by (metis held_def add.commute)
  moreover have "p' = p\<lparr>ekHandle := 0, akHandle := 0\<rparr>"
    using fl p1 by (cases "ekHandle p = 0") simp_all
  ultimately show ?thesis by blast
qed

lemma held_cleared [simp]: "held (p\<lparr>ekHandle := 0, akHandle := 0\<rparr>) = {#}"
  by (simp add: held_def)

lemma key_balancedI:
  assumes "key_balanced others (p, w, l)" and "exchange l (held p) l' (held p')"
    and "tc_context (kp_tpm p') = 0 \<Longrightarrow> held p' = {#}"
  shows "key_balanced others (p', w', l')"
  using assms exchange_balanced [OF exchange_frame [OF assms(2)], of others] by (simp add: key_balanced_def)

lemma FlushTransients_balanced:
  assumes "key_balanced others (p, w, l)" and "FlushTransients (transcript api) p (w, l) = (p', w', l')"
  shows "key_balanced others (p', w', l') \<and> p' = p\<lparr>ekHandle := 0, akHandle := 0\<rparr>"
proof -
  have "tc_context (kp_tpm p) = 0 \<Longrightarrow> held p = {#}"
    using assms(1) by (simp add: key_balanced_def)
  from FlushTransients_exchange [OF assms(2) this]
  show ?thesis using key_balancedI [OF assms(1), of l' p' w'] by simp
qed

lemma Open_balanced:
  assumes "key_balanced others (p, w, l)" and "kp_Open (transcript api) p (w, l) = (hr, p', w', l')"
  shows "key_balanced others (p', w', l')"
proof (cases "tc_context (kp_tpm p) = 0")
  case True
  have "held p = {#}" using assms(1) True by (simp add: key_balanced_def)
  moreover have "p' = p\<lparr>kp_tpm := kp_tpm p'\<rparr>" "l' = l"
    using assms(2) True
    by (auto simp: kp_Open_def TpmCommands_Open_def transcript_def uh_Put_def uh_Reset_def
        TbsContextTraits_def Let_def split: prod.splits if_splits)
  moreover have "held (p\<lparr>kp_tpm := kp_tpm p'\<rparr>) = held p" by (simp add: held_def)
  ultimately show ?thesis using assms(1) by (metis key_balancedI exchange_refl)
next
  case False
  then show ?thesis using assms by (auto simp: kp_Open_def TpmCommands_Open_def)
qed

lemma Close_balanced:
  assumes "key_balanced others (p, w, l)" and "kp_Close (transcript api) p (w, l) = (p', w', l')"
  shows "key_balanced others (p', w', l') \<and> held p' = {#} \<and> tc_context (kp_tpm p') = 0"
proof -
  obtain p1 w1 l1 where f: "FlushTransients (transcript api) p (w, l) = (p1, w1, l1)" by (metis prod_cases3)
  note b = FlushTransients_balanced [OF assms(1) f]
  have p': "p' = p1\<lparr>kp_tpm := kp_tpm p'\<rparr>" "l' = l1" "tc_context (kp_tpm p') = 0"
    using assms(2) f
    by (auto simp: kp_Close_def TpmCommands_Close_def transcript_def uh_Reset_def
        TbsContextTraits_def Let_def split: prod.splits if_splits)
  have "held (p1\<lparr>kp_tpm := kp_tpm p'\<rparr>) = held p1" by (simp add: held_def)
  then have h: "held p' = {#}" using b p'(1) by (metis held_cleared)
  then have "key_balanced others (p', w', l')"
    using b p' by (simp add: key_balanced_def)
  with h p' show ?thesis by blast
qed

definition ak_outcome :: "HRESULT \<Rightarrow> tbs_key_provider \<Rightarrow> bool" where
  "ak_outcome hr p \<longleftrightarrow>
     (if FAILED hr then ekHandle p = 0 \<and> akHandle p = 0
      else hr = S_OK \<and> ekHandle p \<noteq> 0 \<and> akHandle p \<noteq> 0 \<and> akPublicArea p \<noteq> [])"

lemma CreateAk_load_balanced:
  assumes b: "key_balanced others (p, w, l)" and z: "akHandle p = 0" "ekHandle p \<noteq> 0" "tc_context (kp_tpm p) \<noteq> 0"
    and run: "CreateAk_load (transcript api) p (w, l) = Some (hr, p', w', l')"
  shows "key_balanced others (p', w', l') \<and> ak_outcome hr p'"
proof -
  obtain r w1 l1 where c: "CreateAndLoadAk (transcript api) (kp_tpm p) TPM_RH_OWNER (w, l) = Some (r, w1, l1)"
    using run by (auto simp: CreateAk_load_def split: bind_splits)
  define p1 where "p1 = p\<lparr>akHandle := fst (out_of (0, []) r), akPublicArea := snd (out_of (0, []) r)\<rparr>"
  have "exchange l (held p) l1 (held p1)"
    using CreateAndLoadAk_exchange [OF z(3) c, of "held p"] z(1) by (simp add: p1_def held_def add.commute)
  then have b1: "key_balanced others (p1, w1, l1)"
    using key_balancedI [OF b, of l1 p1] z(3) by (simp add: p1_def)
  show ?thesis
  proof (cases "FAILED (hr_of r) \<or> akHandle p1 = 0 \<or> akPublicArea p1 = []")
    case True
    then have "hr = (if FAILED (hr_of r) then hr_of r else E_FAIL)"
      and "FlushTransients (transcript api) p1 (w1, l1) = (p', w', l')"
      using run c by (auto simp: CreateAk_load_def p1_def Let_def split: prod.splits)
    then show ?thesis using FlushTransients_balanced [OF b1, of api p' w' l'] by (auto simp: ak_outcome_def)
  next
    case False
    then have "hr = S_OK" "p' = p1" "l' = l1"
      using run c by (auto simp: CreateAk_load_def p1_def Let_def)
    then show ?thesis using b1 False z by (auto simp: key_balanced_def ak_outcome_def p1_def)
  qed
qed

lemma CreateAk_balanced:
  assumes "key_balanced others (p, w, l)" and run: "CreateAk (transcript api) p (w, l) = Some (hr, p', w', l')"
  shows "key_balanced others (p', w', l') \<and> ak_outcome hr p'"
proof -
  obtain p0 w0 l0 where f: "FlushTransients (transcript api) p (w, l) = (p0, w0, l0)" by (metis prod_cases3)
  define p1 where "p1 = p0\<lparr>akPublicArea := []\<rparr>"
  have b1: "key_balanced others (p1, w0, l0)" and z: "akHandle p1 = 0" "held p1 = {#}"
    using FlushTransients_balanced [OF assms(1) f] by (simp_all add: p1_def key_balanced_def held_def)
  obtain r w1 l1 where c: "CreateEk (transcript api) (kp_tpm p1) (w0, l0) = Some (r, w1, l1)"
    using run f by (auto simp: CreateAk_def p1_def split: bind_splits)
  define p2 where "p2 = p1\<lparr>ekHandle := out_of 0 r\<rparr>"
  have failed: "hr = (if FAILED (hr_of r) then hr_of r else E_FAIL) \<and> p' = p2 \<and> l' = l1"
    if "FAILED (hr_of r) \<or> out_of 0 r = 0"
    using that run f c by (auto simp: CreateAk_def p1_def p2_def Let_def)
  have no_ek: "out_of 0 r = 0" if "FAILED (hr_of r) \<or> out_of 0 r = 0"
    using that by (cases r) (auto simp: out_of_def hr_of_def)
  show ?thesis
  proof (cases "tc_context (kp_tpm p1) = 0")
    case True
    then have "r = Inl RH_E_NOT_OPEN" "l1 = l0" "w1 = w0"
      using c by (simp_all add: CreateEk_def transact_def SendCommand_not_open)
    then show ?thesis using failed b1 z by (simp add: key_balanced_def held_def ak_outcome_def p2_def hr_of_def out_of_def)
  next
    case False
    have "exchange l0 (held p1) l1 (held p2)"
      using CreateEk_exchange [OF False c, of "{#}"] z by (simp add: p2_def held_def)
    then have b2: "key_balanced others (p2, w1, l1)"
      using key_balancedI [OF b1, of l1 p2] False by (simp add: p2_def)
    show ?thesis
    proof (cases "FAILED (hr_of r) \<or> out_of 0 r = 0")
      case True
      then show ?thesis using failed no_ek b2 z by (simp add: key_balanced_def ak_outcome_def p2_def)
    next
      case ok: False
      have "CreateAk_load (transcript api) p2 (w1, l1) = Some (hr, p', w', l')"
        using run f c ok by (auto simp: CreateAk_def p1_def p2_def Let_def)
      from CreateAk_load_balanced [OF b2 _ _ _ this] show ?thesis
        using z False ok by (simp add: p2_def)
    qed
  qed
qed

lemma CreateAk_load_total [never_faults]: "defined (CreateAk_load api p w)"
  by (simp add: CreateAk_load_def Let_def never_faults)

lemma CreateAk_total [never_faults]: "defined (CreateAk api p w)"
  by (simp add: CreateAk_def Let_def never_faults)

lemma AkExists_total [never_faults]: "defined (AkExists api p w)"
  by (simp add: AkExists_def never_faults)

lemma LoadAk_total [never_faults]: "defined (LoadAk api p w)"
  by (simp add: LoadAk_def never_faults)

lemma kp_ActivateCredential_total [never_faults]: "defined (kp_ActivateCredential api p cb es w)"
  by (simp add: kp_ActivateCredential_def never_faults)

lemma PersistAk_total [never_faults]: "defined (PersistAk api p w)"
  by (simp add: PersistAk_def Let_def never_faults)

lemma key_run_total: "defined (key_run api ops s)"
proof (induction ops arbitrary: s)
  case Nil
  then show ?case by simp
next
  case (Cons oper ops)
  have "defined (key_step api oper s)"
    by (cases oper) (simp_all add: key_step_def Let_def never_faults)
  then show ?case using Cons.IH by (simp add: never_faults)
qed

lemma kp_ActivateCredential_balanced:
  assumes "key_balanced others (p, w, l)" and "kp_ActivateCredential (transcript api) p cb es (w, l) = Some (r, w', l')"
  shows "key_balanced others (p, w', l')"
proof (cases "akHandle p = 0 \<or> ekHandle p = 0")
  case True
  then show ?thesis using assms by (auto simp: kp_ActivateCredential_def)
next
  case False
  then have op: "tc_context (kp_tpm p) \<noteq> 0"
    using assms(1) by (auto simp: key_balanced_def held_def one_handle_def)
  have "exchange l (held p) l' (held p)"
    using assms(2) False by (intro ActivateCredential_exchange [OF op]) (auto simp: kp_ActivateCredential_def)
  then show ?thesis using key_balancedI [OF assms(1), of l' p w'] op by simp
qed

lemma PersistAk_balanced:
  assumes b: "key_balanced others (p, w, l)" and run: "PersistAk (transcript api) p (w, l) = Some (hr, p', w', l')"
  shows "key_balanced others (p', w', l')"
proof (cases "akHandle p = 0")
  case True
  then show ?thesis using assms by (simp add: PersistAk_def)
next
  case False
  then have op: "tc_context (kp_tpm p) \<noteq> 0"
    using b by (auto simp: key_balanced_def held_def one_handle_def)
  obtain r w1 l1 where e: "EvictControl (transcript api) (kp_tpm p) (akHandle p) (persistentHandle p) (w, l)
      = Some (r, w1, l1)"
    using run False by (auto simp: PersistAk_def split: bind_splits)
  have b1: "key_balanced others (p, w1, l1)"
    using key_balancedI [OF b EvictControl_exchange [OF op e]] op by simp
  show ?thesis
    using run e False b1 FlushTransients_balanced [OF b1, of api p' w' l']
    by (auto simp: PersistAk_def split: if_splits prod.splits)
qed

lemma AkExists_balanced:
  assumes b: "key_balanced others (p, w, l)" and run: "AkExists (transcript api) p (w, l) = Some (r, w', l')"
  shows "key_balanced others (p, w', l')"
proof (cases "tc_context (kp_tpm p) = 0")
  case True
  then have "l' = l" using run by (simp add: AkExists_def IsPersistentPresent_def SendCommand_not_open)
  then show ?thesis using b by (simp add: key_balanced_def)
next
  case False
  have "exchange l (held p) l' (held p)"
    using IsPersistentPresent_exchange [OF False run [unfolded AkExists_def]] .
  then show ?thesis using key_balancedI [OF b, of l' p w'] False by simp
qed

lemma key_step_balanced:
  assumes "key_balanced others s" and "key_step (transcript api) oper s = Some s'"
  shows "key_balanced others s'"
proof -
  obtain p w l where s: "s = (p, w, l)" by (metis prod_cases3)
  obtain p' w' l' where s': "s' = (p', w', l')" by (metis prod_cases3)
  note b = assms(1) [unfolded s] and step = assms(2) [unfolded s s']
  show ?thesis unfolding s'
  proof (cases oper)
    case OpOpen
    then show "key_balanced others (p', w', l')" using step Open_balanced [OF b] by (cases "kp_Open (transcript api) p (w, l)") (auto simp: key_step_def)
  next
    case OpCreateAk
    then show "key_balanced others (p', w', l')" using step CreateAk_balanced [OF b] by (auto simp: key_step_def)
  next
    case (OpActivate cb es)
    then show "key_balanced others (p', w', l')" using step kp_ActivateCredential_balanced [OF b] by (auto simp: key_step_def)
  next
    case OpPersist
    then show "key_balanced others (p', w', l')" using step PersistAk_balanced [OF b] by (auto simp: key_step_def)
  next
    case OpExists
    then show "key_balanced others (p', w', l')" using step AkExists_balanced [OF b] by (auto simp: key_step_def)
  next
    case OpDelete
    then show "key_balanced others (p', w', l')" using step FlushTransients_balanced [OF b] by (auto simp: key_step_def DeleteAk_def split: prod.splits)
  next
    case OpClose
    then show "key_balanced others (p', w', l')" using step Close_balanced [OF b] by (auto simp: key_step_def)
  qed
qed

lemma key_run_balanced: "key_run (transcript api) ops s = Some s' \<Longrightarrow> key_balanced others s \<Longrightarrow> key_balanced others s'"
  by (induction ops arbitrary: s) (auto split: bind_splits dest: key_step_balanced)

text \<open>The destructor leaves the balance of the others.\<close>

lemma Destroy_balanced:
  assumes "key_balanced others (p, w, l)" and "kp_Destroy (transcript api) p (w, l) = (w', l')"
  shows "objects_created l' = objects_flushed l' + others"
proof -
  obtain p1 w1 l1 where c: "kp_Close (transcript api) p (w, l) = (p1, w1, l1)" by (metis prod_cases3)
  have c1: "key_balanced others (p1, w1, l1)" "held p1 = {#}" "tc_context (kp_tpm p1) = 0"
    using Close_balanced [OF assms(1) c] by auto
  moreover have "l' = l1"
    using assms(2) c c1(3) by (simp add: kp_Destroy_def uh_Destroy_def uh_Reset_def TbsContextTraits_def)
  ultimately show ?thesis by (simp add: key_balanced_def)
qed

lemma key_balanced_new: "objects_created l = objects_flushed l + others \<Longrightarrow>
    key_balanced others (new_TbsKeyProvider h, w, l)"
  by (simp add: key_balanced_def new_TbsKeyProvider_def held_def)

section \<open>Properties\<close>



text \<open>C23. \<open>CreateAk\<close> ends in one of two states: success with a loaded EK, a loaded AK and its public
  area, or a failure code with no transient handle held; a previous key is dropped either way.\<close>

theorem create_ak_all_or_nothing:
  assumes "key_balanced others (p, w, l)" and "CreateAk (transcript api) p (w, l) = Some (hr, p', w', l')"
  shows "ak_outcome hr p'"
  using CreateAk_balanced [OF assms] by simp

theorem create_ak_all_or_nothing_witness:
  "\<exists>hr p' w' l'. CreateAk (transcript scripted) (new_TbsKeyProvider 0x81010001) ([], [])
      = Some (hr, p', w', l') \<and> ak_outcome hr p'"
proof -
  have b: "key_balanced {#} (new_TbsKeyProvider 0x81010001, [], [])"
    by (simp add: key_balanced_def new_TbsKeyProvider_def held_def)
  obtain hr p' w' l' where run: "CreateAk (transcript scripted) (new_TbsKeyProvider 0x81010001) ([], [])
      = Some (hr, p', w', l')"
    using CreateAk_total by (metis definedE prod_cases4)
  from create_ak_all_or_nothing [OF b run] run show ?thesis by blast
qed

end
