(* ===== verification/Tpm_Pcp.thy ===== *)
theory Tpm_Pcp
  imports Win_Status Unique_Handle
begin

text \<open>
  \<open>src/tpm/tpm_pcp.cpp\<close>: reads of the endorsement key through the Platform Crypto Provider. NCrypt
  is a record of functions over a world; a property read is the usual pair of calls, first for the
  size and then for the bytes.
\<close>

section \<open>NCrypt\<close>

record 'w ncrypt_api =
  NCryptOpenStorageProvider :: "string \<Rightarrow> 'w \<Rightarrow> u32 \<times> u64 \<times> 'w"
  NCryptGetProperty :: "u64 \<Rightarrow> string \<Rightarrow> u32 option \<Rightarrow> 'w \<Rightarrow> u32 \<times> bytes \<times> u32 \<times> 'w"
  NCryptFreeObject :: "u64 \<Rightarrow> 'w \<Rightarrow> 'w"

definition PCP_PROVIDER :: string where
  "PCP_PROVIDER = ''Microsoft Platform Crypto Provider''"

definition NcryptProviderTraits :: "'w ncrypt_api \<Rightarrow> (u64, 'w) handle_traits" where
  "NcryptProviderTraits api = \<lparr>Invalid = 0, Close = NCryptFreeObject api\<rparr>"

section \<open>The class\<close>

text \<open>The object is its provider handle.\<close>

record tpm_pcp =
  pcp_provider :: u64

definition new_TpmPcp :: tpm_pcp where
  "new_TpmPcp = \<lparr>pcp_provider = 0\<rparr>"

definition IsAvailable :: "'w ncrypt_api \<Rightarrow> 'w \<Rightarrow> bool \<times> 'w" where
  "IsAvailable api w =
     (let (probe, w) = uh_Put (NcryptProviderTraits api) 0 w;
          (status, probe, w) = NCryptOpenStorageProvider api PCP_PROVIDER w
      in (\<not> FAILED status, uh_Destroy (NcryptProviderTraits api) probe w))"

definition pcp_Open :: "'w ncrypt_api \<Rightarrow> tpm_pcp \<Rightarrow> 'w \<Rightarrow> HRESULT \<times> tpm_pcp \<times> 'w" where
  "pcp_Open api p w =
     (if uh_valid (NcryptProviderTraits api) (pcp_provider p) then (S_OK, p, w)
      else
        let (_, w) = uh_Put (NcryptProviderTraits api) (pcp_provider p) w;
            (status, h, w) = NCryptOpenStorageProvider api PCP_PROVIDER w;
            p = p\<lparr>pcp_provider := h\<rparr>
        in if FAILED status then (HrFromSecurityStatus status, p, w) else (S_OK, p, w))"

definition pcp_Close :: "'w ncrypt_api \<Rightarrow> tpm_pcp \<Rightarrow> 'w \<Rightarrow> tpm_pcp \<times> 'w" where
  "pcp_Close api p w =
     (let (h, w) = uh_Reset (NcryptProviderTraits api) 0 (pcp_provider p) w in (p\<lparr>pcp_provider := h\<rparr>, w))"

text \<open>The implicit destructor destroys the owner.\<close>

definition pcp_Destroy :: "'w ncrypt_api \<Rightarrow> tpm_pcp \<Rightarrow> 'w \<Rightarrow> 'w" where
  "pcp_Destroy api p w = uh_Destroy (NcryptProviderTraits api) (pcp_provider p) w"

definition ReadProperty :: "'w ncrypt_api \<Rightarrow> tpm_pcp \<Rightarrow> string \<Rightarrow> 'w \<Rightarrow> (HRESULT + bytes) \<times> 'w" where
  "ReadProperty api p prop w =
     (if \<not> uh_valid (NcryptProviderTraits api) (pcp_provider p) then (Inl RH_E_NOT_OPEN, w)
      else
        let (status, _, size, w) = NCryptGetProperty api (pcp_provider p) prop None w
        in if FAILED status then (Inl (HrFromSecurityStatus status), w)
           else if size = 0 then (Inl RH_E_MALFORMED_RESPONSE, w)
           else
             let (status, written, got, w) = NCryptGetProperty api (pcp_provider p) prop (Some size) w
             in if FAILED status then (Inl (HrFromSecurityStatus status), w)
                else (Inr (vec_resize (unat got) (vec_resize (unat size) written)), w))"

definition ReadEkCertificate :: "'w ncrypt_api \<Rightarrow> tpm_pcp \<Rightarrow> 'w \<Rightarrow> (HRESULT + bytes) \<times> 'w" where
  "ReadEkCertificate api p w = ReadProperty api p ''PCP_RSA_EKNVCERT'' w"

definition ReadEkPublicKey :: "'w ncrypt_api \<Rightarrow> tpm_pcp \<Rightarrow> 'w \<Rightarrow> (HRESULT + bytes) \<times> 'w" where
  "ReadEkPublicKey api p w = ReadProperty api p ''PCP_EKPUB'' w"

section \<open>A provider that serves a property\<close>

definition pcp_serves :: "'w ncrypt_api \<Rightarrow> u64 \<Rightarrow> string \<Rightarrow> bytes \<Rightarrow> 'w \<Rightarrow> 'w \<Rightarrow> bool" where
  "pcp_serves api h prop v w w' \<longleftrightarrow>
     (\<exists>w1 rest. NCryptGetProperty api h prop None w = (0, rest, of_nat (length v), w1)
       \<and> NCryptGetProperty api h prop (Some (of_nat (length v))) w1 = (0, v, of_nat (length v), w'))"

lemma ReadProperty_serves:
  assumes "pcp_serves api (pcp_provider p) prop v w w'" and "pcp_provider p \<noteq> 0"
    and "v \<noteq> []" and "length v < 2 ^ 32"
  shows "ReadProperty api p prop w = (Inr v, w')"
proof -
  have n: "unat (of_nat (length v) :: u32) = length v" using assms(4) by (simp add: unat_of_nat)
  then have "(of_nat (length v) :: u32) \<noteq> 0" using assms(3) by (metis length_0_conv unat_0)
  then show ?thesis
    using assms n
    by (auto simp: pcp_serves_def ReadProperty_def uh_valid_def NcryptProviderTraits_def)
qed

lemma ReadProperty_error: "ReadProperty api p prop w = (Inl hr, w') \<Longrightarrow> FAILED hr"
  by (auto simp: ReadProperty_def HrFromSecurityStatus_def Let_def split: prod.splits if_splits)

end
