(* ===== verification/Event_Source.thy ===== *)
theory Event_Source
  imports Tpm_Commands
begin

text \<open>
  \<open>src/boot/event_log.cpp\<close>: the raw TCG log, fetched from TBS by the pair of calls for its size and
  for its bytes. An unavailable log is the empty vector.
\<close>

definition ReadEventLog :: "'w tbs_api \<Rightarrow> 'w \<Rightarrow> bytes \<times> 'w" where
  "ReadEventLog api w =
     (let (result, _, logSize, w) = Tbsi_Get_TCG_Log_Ex api None w
      in if result \<noteq> TBS_SUCCESS \<or> logSize = 0 then ([], w)
         else
           let (result, written, got, w) = Tbsi_Get_TCG_Log_Ex api (Some logSize) w
           in if result \<noteq> TBS_SUCCESS then ([], w)
              else (vec_resize (unat got) (vec_resize (unat logSize) written), w))"

definition log_available :: "'w tbs_api \<Rightarrow> bytes \<Rightarrow> 'w \<Rightarrow> 'w \<Rightarrow> bool" where
  "log_available api log w w' \<longleftrightarrow>
     (\<exists>w1 rest. Tbsi_Get_TCG_Log_Ex api None w = (TBS_SUCCESS, rest, of_nat (length log), w1)
       \<and> Tbsi_Get_TCG_Log_Ex api (Some (of_nat (length log))) w1 = (TBS_SUCCESS, log, of_nat (length log), w'))"

lemma ReadEventLog_available:
  assumes "log_available api log w w'" and "log \<noteq> []" and "length log < 2 ^ 32"
  shows "ReadEventLog api w = (log, w')"
proof -
  have n: "unat (of_nat (length log) :: u32) = length log" using assms(3) by (simp add: unat_of_nat)
  then have "(of_nat (length log) :: u32) \<noteq> 0" using assms(2) by (metis length_0_conv unat_0)
  then show ?thesis using assms(1) n by (auto simp: log_available_def ReadEventLog_def)
qed

lemma ReadEventLog_unavailable:
  "Tbsi_Get_TCG_Log_Ex api None w = (r, rest, n, w') \<Longrightarrow> r \<noteq> TBS_SUCCESS \<or> n = 0 \<Longrightarrow>
   ReadEventLog api w = ([], w')"
  by (auto simp: ReadEventLog_def)

end
