(* ===== verification/Ek_Gather.thy ===== *)
theory Ek_Gather
  imports Client_Encoding Amd_Aia Cert_Stores Tbs_Key_Provider Tpm_Pcp Event_Source Std_Map
begin

text \<open>
  \<open>src/client/rootherald_win.cpp\<close>, the part below the entry points: the process token, the endorsement
  key material an enrollment sends (\<open>GatherEkEnrollData\<close>, \<open>BuildEnrollFields\<close>), the local device id and
  the persisted key. \<open>windows\<close> bundles the interfaces the driver calls, over one world. Results that
  depend on reads of vectors or on loops bounded by an interface are optional, as in the components.
\<close>

section \<open>The machine\<close>

record 'w process_api =
  OpenProcessToken :: "'w \<Rightarrow> bool \<times> u64 \<times> 'w"
  GetTokenElevation :: "u64 \<Rightarrow> 'w \<Rightarrow> bool \<times> u32 \<times> 'w"
  CloseHandle :: "u64 \<Rightarrow> 'w \<Rightarrow> 'w"
  c_malloc :: "nat \<Rightarrow> 'w \<Rightarrow> u64 \<times> 'w"
  c_free :: "u64 \<Rightarrow> 'w \<Rightarrow> 'w"

record ('c, 'w) windows =
  w_tbs :: "'w tbs_api"
  w_ncrypt :: "'w ncrypt_api"
  w_reg :: "'w reg_api"
  w_cert :: "'c cert_api"
  w_bcrypt :: "'w bcrypt_api"
  w_strings :: crypt_string_api
  w_http :: "'w winhttp_api"
  w_process :: "'w process_api"

definition KernelHandleTraits :: "'w process_api \<Rightarrow> (u64, 'w) handle_traits" where
  "KernelHandleTraits api = \<lparr>Invalid = 0, Close = CloseHandle api\<rparr>"

definition TBS_AK_PERSISTENT_HANDLE :: u32 where "TBS_AK_PERSISTENT_HANDLE = 0x81029301"

definition IsProcessElevated :: "('c, 'w) windows \<Rightarrow> 'w \<Rightarrow> bool \<times> 'w" where
  "IsProcessElevated win w =
     with_handle (KernelHandleTraits (w_process win)) (OpenProcessToken (w_process win)) (\<lambda>ok token w.
       if \<not> ok then (False, w)
       else
         let (ok, elevation, w) = GetTokenElevation (w_process win) token w
         in (if \<not> ok then False else elevation \<noteq> 0, w)) w"

definition tpm_Destroy :: "'w tbs_api \<Rightarrow> tpm_commands \<Rightarrow> 'w \<Rightarrow> 'w" where
  "tpm_Destroy api tc w = uh_Destroy (TbsContextTraits api) (tc_context tc) w"

section \<open>Endorsement key material\<close>

record ek_enroll_data =
  ekPub :: bytes
  ekCertPem :: string
  intermediates :: "bytes list"

definition read_ek_certificate :: "('c, 'w) windows \<Rightarrow> tpm_pcp \<Rightarrow> 'w \<Rightarrow> (bytes \<times> 'w) option" where
  "read_ek_certificate win pcp w = do {
     (ekCert, w) \<leftarrow> ReadEkCertFromWindowsStore (w_reg win) w;
     if length ekCert \<le> 32
     then (case ReadEkCertificate (w_ncrypt win) pcp w of
             (Inl hr, w) \<Rightarrow> Some (ekCert, w)
           | (Inr nvCert, w) \<Rightarrow> Some (nvCert, w))
     else Some (ekCert, w)
   }"

definition gather_certificate :: "('c, 'w) windows \<Rightarrow> tpm_pcp \<Rightarrow> bytes \<Rightarrow> 'w \<Rightarrow> (string \<times> 'w) option" where
  "gather_certificate win pcp pub w = do {
     (ekCert, w) \<leftarrow> read_ek_certificate win pcp w;
     if length ekCert > 32 then Some (DerToPem (w_strings win) ekCert, w)
     else do {
       modulus \<leftarrow> ExtractRsaModulusFromEkPub pub;
       if modulus \<noteq> []
       then do {
         (amdCert, w) \<leftarrow> FetchAmdAiaEkCert (w_bcrypt win) (w_http win) modulus w;
         Some (if amdCert \<noteq> [] then DerToPem (w_strings win) amdCert else [], w)
       }
       else Some ([], w)
     }
   }"

definition MAX_INTERMEDIATES :: nat where "MAX_INTERMEDIATES = 8"

fun collect_seen :: "'w bcrypt_api \<Rightarrow> bytes list \<Rightarrow> bytes list \<Rightarrow> 'w \<Rightarrow> bytes list \<times> 'w" where
  "collect_seen api seen [] w = (seen, w)"
| "collect_seen api seen (c # cs) w =
     (let (fingerprint, w) = Sha256 api c w
      in collect_seen api (if fingerprint \<noteq> [] then seen @ [fingerprint] else seen) cs w)"

fun merge_store ::
    "'w bcrypt_api \<Rightarrow> bytes list \<Rightarrow> bytes list \<Rightarrow> bytes list \<Rightarrow> 'w \<Rightarrow> bytes list \<times> 'w" where
  "merge_store api seen certificates [] w = (certificates, w)"
| "merge_store api seen certificates (c # store) w =
     (if length certificates \<ge> MAX_INTERMEDIATES then (certificates, w)
      else
        let (fingerprint, w) = Sha256 api c w
        in if list_ex (\<lambda>s. length s = length fingerprint \<and> s = fingerprint) seen
           then merge_store api seen certificates store w
           else merge_store api (if fingerprint \<noteq> [] then seen @ [fingerprint] else seen)
                  (certificates @ [c]) store w)"

definition gather_intermediates :: "('c, 'w) windows \<Rightarrow> 'w \<Rightarrow> (bytes list \<times> 'w) option" where
  "gather_intermediates win w =
     (let (hr, tpm, w) = TpmCommands_Open (w_tbs win) new_TpmCommands w
      in if SUCCEEDED hr
         then do {
           (odca, w) \<leftarrow> ReadIntelOdcaIntermediates (w_tbs win) tpm [] w;
           let (seen, w) = collect_seen (w_bcrypt win) [] odca w;
           (winStore, w) \<leftarrow> ReadWindowsTpmIntermediateStore (w_cert win) (w_reg win) w;
           let (certificates, w) = merge_store (w_bcrypt win) seen odca winStore w;
           Some (if length certificates > MAX_INTERMEDIATES then take MAX_INTERMEDIATES certificates
                 else certificates, tpm_Destroy (w_tbs win) tpm w)
         }
         else Some ([], tpm_Destroy (w_tbs win) tpm w))"

text \<open>\<open>None\<close> inside the result is the return value \<open>false\<close>; the provider object goes on every path.\<close>

definition GatherEkEnrollData :: "('c, 'w) windows \<Rightarrow> 'w \<Rightarrow> (ek_enroll_data option \<times> 'w) option" where
  "GatherEkEnrollData win w =
     (let (hr, pcp, w) = pcp_Open (w_ncrypt win) new_TpmPcp w
      in if FAILED hr then Some (None, pcp_Destroy (w_ncrypt win) pcp w)
         else
           let (r, w) = ReadEkPublicKey (w_ncrypt win) pcp w
           in case r of
                Inl hr \<Rightarrow> Some (None, pcp_Destroy (w_ncrypt win) pcp w)
              | Inr pub \<Rightarrow>
                  if pub = [] then Some (None, pcp_Destroy (w_ncrypt win) pcp w)
                  else do {
                    (pem, w) \<leftarrow> gather_certificate win pcp pub w;
                    (certificates, w) \<leftarrow> gather_intermediates win w;
                    Some (Some \<lparr>ekPub = pub, ekCertPem = pem, intermediates = certificates\<rparr>,
                      pcp_Destroy (w_ncrypt win) pcp w)
                  })"

section \<open>The enroll body\<close>

fun pem_array_from :: "crypt_string_api \<Rightarrow> nat \<Rightarrow> string \<Rightarrow> bytes list \<Rightarrow> string" where
  "pem_array_from api i array [] = array"
| "pem_array_from api i array (c # cs) =
     (let array = (if i \<noteq> 0 then array @ '','' else array);
          escaped = json_escape (DerToPem api c)
      in pem_array_from api (i + 1) (array @ [quote_char] @ escaped @ [quote_char]) cs)"

definition pem_array :: "crypt_string_api \<Rightarrow> bytes list \<Rightarrow> string" where
  "pem_array api certificates = pem_array_from api 0 ''['' certificates @ '']''"

definition BuildEnrollFields :: "crypt_string_api \<Rightarrow> ek_enroll_data \<Rightarrow> bytes \<Rightarrow> (string, string) std_map" where
  "BuildEnrollFields api ek akArea =
     (let fields = map_init
            [(''ekPublicKey'', Base64Encode api (ekPub ek)),
             (''akPublicArea'', Base64Encode api akArea),
             (''platform'', ''windows'')];
          fields = (if ekCertPem ek \<noteq> [] then map_put ''ekCertPem'' (ekCertPem ek) fields else fields)
      in if intermediates ek \<noteq> []
         then map_put ''ekCertificateChain'' (pem_array api (intermediates ek)) fields
         else fields)"

section \<open>Local identity\<close>

definition DeriveLocalDeviceId :: "('c, 'w) windows \<Rightarrow> 'w \<Rightarrow> (string \<times> 'w) option" where
  "DeriveLocalDeviceId win w = do {
     (ekCertDer, w) \<leftarrow> ReadEkCertFromWindowsStore (w_reg win) w;
     if length ekCertDer > 32
     then (let (fingerprint, w) = Sha256 (w_bcrypt win) ekCertDer w
           in Some (ComputeDeviceIdFromFingerprint (w_bcrypt win) fingerprint w))
     else
       let (hr, pcp, w) = pcp_Open (w_ncrypt win) new_TpmPcp w
       in if FAILED hr then Some ([], pcp_Destroy (w_ncrypt win) pcp w)
          else
            let (r, w) = ReadEkPublicKey (w_ncrypt win) pcp w
            in case r of
                 Inl hr \<Rightarrow> Some ([], pcp_Destroy (w_ncrypt win) pcp w)
               | Inr pub \<Rightarrow>
                   if pub = [] then Some ([], pcp_Destroy (w_ncrypt win) pcp w)
                   else
                     let (fingerprint, w) = Sha256 (w_bcrypt win) pub w;
                         (deviceId, w) = ComputeDeviceIdFromFingerprint (w_bcrypt win) fingerprint w
                     in Some (deviceId, pcp_Destroy (w_ncrypt win) pcp w)
   }"

definition IsAkPersisted :: "('c, 'w) windows \<Rightarrow> 'w \<Rightarrow> (bool \<times> 'w) option" where
  "IsAkPersisted win w =
     (let tbs = new_TbsKeyProvider TBS_AK_PERSISTENT_HANDLE;
          (hr, tbs, w) = kp_Open (w_tbs win) tbs w
      in if SUCCEEDED hr
         then do {
           (present, w) \<leftarrow> AkExists (w_tbs win) tbs w;
           Some (present, kp_Destroy (w_tbs win) tbs w)
         }
         else Some (False, kp_Destroy (w_tbs win) tbs w))"

end
