(* ===== verification/Enrollment.thy ===== *)
theory Enrollment
  imports Ek_Gather
begin

text \<open>
  The two legs of an enrollment: \<open>RootHeraldEnrollBegin\<close> and \<open>RootHeraldEnrollComplete\<close> of
  \<open>src/client/rootherald_win.cpp\<close>, over the global \<open>g_enrollProvider\<close> that carries the open key between
  them. An out-pointer is an optional \<open>char *\<close>, which is itself null or an address with the bytes there.
\<close>

section \<open>Status codes\<close>

datatype root_herald_status =
    ROOTHERALD_OK
  | ROOTHERALD_ERR_INVALID_ARG
  | ROOTHERALD_ERR_TPM_UNAVAILABLE
  | ROOTHERALD_ERR_NOT_ENROLLED
  | ROOTHERALD_ERR_ELEVATION_REQUIRED
  | ROOTHERALD_ERR_EK_READ_FAILED
  | ROOTHERALD_ERR_AK_FAILED
  | ROOTHERALD_ERR_ACTIVATION_FAILED
  | ROOTHERALD_ERR_QUOTE_FAILED
  | ROOTHERALD_ERR_ENTITLEMENT_MISSING
  | ROOTHERALD_ERR_INTERNAL

fun status_code :: "root_herald_status \<Rightarrow> int" where
  "status_code ROOTHERALD_OK = 0"
| "status_code ROOTHERALD_ERR_INVALID_ARG = 1"
| "status_code ROOTHERALD_ERR_TPM_UNAVAILABLE = 2"
| "status_code ROOTHERALD_ERR_NOT_ENROLLED = 6"
| "status_code ROOTHERALD_ERR_ELEVATION_REQUIRED = 7"
| "status_code ROOTHERALD_ERR_EK_READ_FAILED = 8"
| "status_code ROOTHERALD_ERR_AK_FAILED = 9"
| "status_code ROOTHERALD_ERR_ACTIVATION_FAILED = 10"
| "status_code ROOTHERALD_ERR_QUOTE_FAILED = 11"
| "status_code ROOTHERALD_ERR_ENTITLEMENT_MISSING = 12"
| "status_code ROOTHERALD_ERR_INTERNAL = 99"

text \<open>The enumeration is ordered by its codes.\<close>

lemma status_code_inj: "status_code a = status_code b \<longleftrightarrow> a = b"
  by (cases a; cases b) simp_all

instantiation root_herald_status :: linorder
begin

definition less_eq_root_herald_status :: "root_herald_status \<Rightarrow> root_herald_status \<Rightarrow> bool" where
  "less_eq_root_herald_status a b \<longleftrightarrow> status_code a \<le> status_code b"

definition less_root_herald_status :: "root_herald_status \<Rightarrow> root_herald_status \<Rightarrow> bool" where
  "less_root_herald_status a b \<longleftrightarrow> status_code a < status_code b"

instance
  by standard (auto simp: less_eq_root_herald_status_def less_root_herald_status_def status_code_inj)

end

section \<open>Buffers of the C heap\<close>

type_synonym c_buffer = "(u64 \<times> string) option"

definition malloc_text :: "'w process_api \<Rightarrow> string \<Rightarrow> 'w \<Rightarrow> c_buffer \<times> 'w" where
  "malloc_text api json w =
     (let (buffer, w) = c_malloc api (length json + 1) w
      in (if buffer = 0 then None else Some (buffer, json @ [CHR 0x00]), w))"

definition RootHeraldFreeEvidence :: "'w process_api \<Rightarrow> c_buffer \<Rightarrow> 'w \<Rightarrow> 'w" where
  "RootHeraldFreeEvidence api evidence_json w =
     c_free api (case evidence_json of None \<Rightarrow> 0 | Some (p, _) \<Rightarrow> p) w"

section \<open>The first leg\<close>

text \<open>The global pointer, and what its assignment and its reset do to the provider it held.\<close>

type_synonym enroll_provider = "tbs_key_provider option"

definition drop_provider :: "'w tbs_api \<Rightarrow> enroll_provider \<Rightarrow> 'w \<Rightarrow> 'w" where
  "drop_provider api g w = (case g of None \<Rightarrow> w | Some p \<Rightarrow> kp_Destroy api p w)"

definition EnrollBegin_emit ::
    "('c, 'w) windows \<Rightarrow> ek_enroll_data \<Rightarrow> tbs_key_provider \<Rightarrow> enroll_provider \<Rightarrow> 'w
     \<Rightarrow> root_herald_status \<times> c_buffer option \<times> enroll_provider \<times> 'w" where
  "EnrollBegin_emit win ek provider g w =
     (let akArea = GetAkPublicArea provider
      in if akArea = []
         then (let (_, provider, w) = DeleteAk (w_tbs win) provider w
               in (ROOTHERALD_ERR_AK_FAILED, Some None, g, kp_Destroy (w_tbs win) provider w))
         else
           let json = JsonBuild (BuildEnrollFields (w_strings win) ek akArea);
               (buffer, w) = malloc_text (w_process win) json w
           in case buffer of
                None \<Rightarrow>
                  (let (_, provider, w) = DeleteAk (w_tbs win) provider w
                   in (ROOTHERALD_ERR_INTERNAL, Some None, g, kp_Destroy (w_tbs win) provider w))
              | Some b \<Rightarrow> (ROOTHERALD_OK, Some (Some b), Some provider, drop_provider (w_tbs win) g w))"

definition EnrollBegin_key ::
    "('c, 'w) windows \<Rightarrow> ek_enroll_data \<Rightarrow> enroll_provider \<Rightarrow> 'w
     \<Rightarrow> (root_herald_status \<times> c_buffer option \<times> enroll_provider \<times> 'w) option" where
  "EnrollBegin_key win ek g w =
     (let provider = new_TbsKeyProvider TBS_AK_PERSISTENT_HANDLE;
          (hr, provider, w) = kp_Open (w_tbs win) provider w
      in if FAILED hr
         then Some (ROOTHERALD_ERR_TPM_UNAVAILABLE, Some None, g, kp_Destroy (w_tbs win) provider w)
         else do {
           (hr, provider, w) \<leftarrow> CreateAk (w_tbs win) provider w;
           if FAILED hr
           then Some (ROOTHERALD_ERR_AK_FAILED, Some None, g, kp_Destroy (w_tbs win) provider w)
           else Some (EnrollBegin_emit win ek provider g w)
         })"

definition RootHeraldEnrollBegin ::
    "('c, 'w) windows \<Rightarrow> c_buffer option \<Rightarrow> enroll_provider \<Rightarrow> 'w
     \<Rightarrow> (root_herald_status \<times> c_buffer option \<times> enroll_provider \<times> 'w) option" where
  "RootHeraldEnrollBegin win out_enroll_json g w =
     (if out_enroll_json = None then Some (ROOTHERALD_ERR_INVALID_ARG, None, g, w)
      else
        let (elevated, w) = IsProcessElevated win w
        in if \<not> elevated then Some (ROOTHERALD_ERR_ELEVATION_REQUIRED, Some None, g, w)
           else do {
             (ek, w) \<leftarrow> GatherEkEnrollData win w;
             case ek of
               None \<Rightarrow> Some (ROOTHERALD_ERR_EK_READ_FAILED, Some None, g, w)
             | Some ek \<Rightarrow> EnrollBegin_key win ek g w
           })"

section \<open>The second leg\<close>

definition EnrollComplete_persist ::
    "('c, 'w) windows \<Rightarrow> string \<Rightarrow> bytes \<Rightarrow> tbs_key_provider \<Rightarrow> 'w
     \<Rightarrow> (root_herald_status \<times> c_buffer option \<times> enroll_provider \<times> 'w) option" where
  "EnrollComplete_persist win deviceId secret provider w = do {
     (hr, provider, w) \<leftarrow> PersistAk (w_tbs win) provider w;
     if FAILED hr
     then Some (ROOTHERALD_ERR_AK_FAILED, Some None, None, kp_Destroy (w_tbs win) provider w)
     else
       let w = kp_Destroy (w_tbs win) provider w;
           json = JsonBuild (map_init
             [(''deviceId'', deviceId),
              (''decryptedSecret'', Base64Encode (w_strings win) secret)]);
           (buffer, w) = malloc_text (w_process win) json w
       in (case buffer of
             None \<Rightarrow> Some (ROOTHERALD_ERR_INTERNAL, Some None, None, w)
           | Some b \<Rightarrow> Some (ROOTHERALD_OK, Some (Some b), None, w))
   }"

definition RootHeraldEnrollComplete ::
    "('c, 'w) windows \<Rightarrow> string option \<Rightarrow> c_buffer option \<Rightarrow> enroll_provider \<Rightarrow> 'w
     \<Rightarrow> (root_herald_status \<times> c_buffer option \<times> enroll_provider \<times> 'w) option" where
  "RootHeraldEnrollComplete win challenge_json out_activate_json g w =
     (case challenge_json of
        None \<Rightarrow> Some (ROOTHERALD_ERR_INVALID_ARG, out_activate_json, g, w)
      | Some challenge_json \<Rightarrow>
     (if out_activate_json = None then Some (ROOTHERALD_ERR_INVALID_ARG, None, g, w)
      else (case g of
        None \<Rightarrow> Some (ROOTHERALD_ERR_NOT_ENROLLED, Some None, g, w)
      | Some provider \<Rightarrow>
          let challenge = c_str challenge_json;
              deviceId = JsonGet challenge ''deviceId'';
              credBlob = JsonGet challenge ''credentialBlob'';
              encSecret = JsonGet challenge ''encryptedSecret''
          in if deviceId = [] \<or> credBlob = [] \<or> encSecret = []
             then Some (ROOTHERALD_ERR_INVALID_ARG, Some None, g, w)
             else do {
               (r, w) \<leftarrow> kp_ActivateCredential (w_tbs win) provider
                 (Base64Decode (w_strings win) credBlob) (Base64Decode (w_strings win) encSecret) w;
               if FAILED (hr_of r) \<or> out_of [] r = []
               then (let (_, provider, w) = DeleteAk (w_tbs win) provider w
                     in Some (ROOTHERALD_ERR_ACTIVATION_FAILED, Some None, None,
                          kp_Destroy (w_tbs win) provider w))
               else EnrollComplete_persist win deviceId (out_of [] r) provider w
             })))"

end
