(* ===== verification/Evidence.thy ===== *)
theory Evidence
  imports Enrollment
begin

text \<open>
  Evidence of an enrolled device (\<open>CollectEvidenceFields\<close>, \<open>RootHeraldCollectEvidence\<close>) and the local
  posture snapshot (\<open>RootHeraldCollectLocalPosture\<close>) of \<open>src/client/rootherald_win.cpp\<close>.
\<close>

section \<open>The Secure Boot summary\<close>

definition bool_text :: "bool \<Rightarrow> string" where
  "bool_text b = (if b then ''true'' else ''false'')"

text \<open>\<open>std::to_string\<close> of an \<open>int\<close>.\<close>

definition int_to_string :: "int \<Rightarrow> string" where
  "int_to_string i = (if i < 0 then ''-'' @ to_string (nat (- i)) else to_string (nat i))"

definition first_pk :: "(cert_info \<Rightarrow> string) \<Rightarrow> secure_boot_report \<Rightarrow> string" where
  "first_pk field report = (if pkCerts report = [] then [] else field (pkCerts report ! 0))"

definition secure_boot_fields :: "secure_boot_report \<Rightarrow> event_log_analysis \<Rightarrow> (string, string) std_map" where
  "secure_boot_fields report analysis = map_init
     [(''secureBootEnabled'', bool_text (sb_enabled report)),
      (''pkSubject'', first_pk subject report),
      (''pkIssuer'', first_pk issuer report),
      (''pkIsKnownOem'', bool_text (pkIsKnownOem report)),
      (''pkOemName'', pkOemName report),
      (''kekHasMicrosoft'', bool_text (kekHasMicrosoft report)),
      (''dbHasMicrosoftUefiCa'', bool_text (dbHasMicrosoftUefiCa2011 report \<or> dbHasMicrosoftUefiCa2023 report)),
      (''dbHasMicrosoftWindowsPca'', bool_text (dbHasWindowsPca2011 report)),
      (''dbxHashCount'', int_to_string (dbxHashCount report)),
      (''totalMeasurements'', to_string (length (entries analysis))),
      (''verifiedCount'', to_string (verifiedCount analysis)),
      (''unknownCount'', to_string (unknownCount analysis)),
      (''verdict'', sb_verdict report)]"

definition plain_crypt_api :: "'c cert_api \<Rightarrow> 'c crypt_api" where
  "plain_crypt_api api = crypt_api.truncate api"

definition secure_boot_text :: "'c cert_api \<Rightarrow> bytes \<Rightarrow> string option" where
  "secure_boot_text api eventLog =
     (if eventLog = [] then Some ''null''
      else do {
        report \<leftarrow> ValidateSecureBootChain (plain_crypt_api api) eventLog;
        analysis \<leftarrow> ParseAndAnalyzeEventLog eventLog;
        Some (JsonBuild (secure_boot_fields report analysis))
      })"

section \<open>The quote\<close>

definition evidence_pcrs :: "u32 list" where
  "evidence_pcrs = [0, 1, 2, 3, 4, 7]"

text \<open>The loop over the PCRs; \<open>None\<close> inside the result is the failed read.\<close>

fun collect_pcrs ::
    "'w tbs_api \<Rightarrow> tpm_commands \<Rightarrow> bool \<Rightarrow> string \<Rightarrow> u32 list \<Rightarrow> 'w \<Rightarrow> (string option \<times> 'w) option" where
  "collect_pcrs api tpm first json [] w = Some (Some (json @ ''}}''), w)"
| "collect_pcrs api tpm first json (index # pcrs) w = do {
     (r, w) \<leftarrow> PcrRead api tpm index w;
     if FAILED (hr_of r) \<or> out_of [] r = [] then Some (None, w)
     else
       let json = (if \<not> first then json @ '','' else json);
           json = json @ [quote_char] @ to_string (unat index) @ [quote_char] @ '':'' @ [quote_char]
             @ BytesToHex (out_of [] r) @ [quote_char]
       in collect_pcrs api tpm False json pcrs w
   }"

definition pcr_values_start :: string where
  "pcr_values_start = ''{'' @ [quote_char] @ ''sha256'' @ [quote_char] @ '':{''"

definition quote_text :: "crypt_string_api \<Rightarrow> bytes \<Rightarrow> bytes \<Rightarrow> bytes \<Rightarrow> string" where
  "quote_text api attest signature nonce = JsonBuild (map_init
     [(''quoted'', Base64Encode api attest),
      (''signature'', Base64Encode api signature),
      (''nonce'', Base64Encode api nonce)])"

section \<open>The evidence object\<close>

text \<open>The optional parts, once the quote is there.\<close>

definition evidence_extras ::
    "('c, 'w) windows \<Rightarrow> tpm_commands \<Rightarrow> bytes \<Rightarrow> (string, string) std_map \<Rightarrow> 'w
     \<Rightarrow> ((string, string) std_map \<times> 'w) option" where
  "evidence_extras win tpm eventLog evidence w =
     (let evidence = (if eventLog \<noteq> []
                    then map_put ''eventLog'' (Base64Encode (w_strings win) eventLog) evidence else evidence)
      in do {
        (ekCertDer, w) \<leftarrow> ReadEkCertFromWindowsStore (w_reg win) w;
        let evidence = (if length ekCertDer > 32
                      then map_put ''ekCertPem'' (DerToPem (w_strings win) ekCertDer) evidence else evidence);
        (ekChain, w) \<leftarrow> ReadIntelOdcaIntermediates (w_tbs win) tpm [] w;
        let evidence = (if ekChain \<noteq> []
                      then map_put ''ekCertificateChain'' (pem_array (w_strings win) ekChain) evidence else evidence);
        (deviceId, w) \<leftarrow> DeriveLocalDeviceId win w;
        Some (if deviceId \<noteq> [] then map_put ''deviceId'' deviceId evidence else evidence, w)
      })"

definition CollectEvidence_quote ::
    "('c, 'w) windows \<Rightarrow> tpm_commands \<Rightarrow> u32 \<Rightarrow> bytes \<Rightarrow> 'w
     \<Rightarrow> ((root_herald_status \<times> (string, string) std_map \<times> string) \<times> 'w) option" where
  "CollectEvidence_quote win tpm signingHandle nonce w = do {
     (pcrs, w) \<leftarrow> collect_pcrs (w_tbs win) tpm True pcr_values_start evidence_pcrs w;
     (case pcrs of
        None \<Rightarrow> Some ((ROOTHERALD_ERR_QUOTE_FAILED, [], ''PCR read failed''), w)
      | Some pcrValuesJson \<Rightarrow> do {
          (r, w) \<leftarrow> Quote (w_tbs win) tpm signingHandle nonce evidence_pcrs w;
          if FAILED (hr_of r) then Some ((ROOTHERALD_ERR_QUOTE_FAILED, [], ''Quote failed''), w)
          else do {
            let (attest, signature) = out_of ([], []) r;
            let quoteJson = quote_text (w_strings win) attest signature nonce;
            let (eventLog, w) = ReadEventLog (w_tbs win) w;
            secureBootJson \<leftarrow> secure_boot_text (w_cert win) eventLog;
            let evidence = map_init
              [(''pcrValues'', pcrValuesJson), (''quote'', quoteJson), (''secureBootChain'', secureBootJson)];
            (evidence, w) \<leftarrow> evidence_extras win tpm eventLog evidence w;
            Some ((ROOTHERALD_OK, evidence, []), w)
          }
        })
   }"

definition SelectEnrolledProvider :: "'w tbs_api \<Rightarrow> 'w \<Rightarrow> (tbs_key_provider option \<times> 'w) option" where
  "SelectEnrolledProvider api w =
     (let provider = new_TbsKeyProvider TBS_AK_PERSISTENT_HANDLE;
          (hr, provider, w) = kp_Open api provider w
      in if SUCCEEDED hr
         then do {
           (hr, w) \<leftarrow> LoadAk api provider w;
           Some (if SUCCEEDED hr then (Some provider, w) else (None, kp_Destroy api provider w))
         }
         else Some (None, kp_Destroy api provider w))"

definition CollectEvidence_enrolled ::
    "('c, 'w) windows \<Rightarrow> string \<Rightarrow> tbs_key_provider \<Rightarrow> 'w
     \<Rightarrow> ((root_herald_status \<times> (string, string) std_map \<times> string) \<times> 'w) option" where
  "CollectEvidence_enrolled win nonce_b64 provider w =
     (let signingHandle = GetQuoteHandle provider
      in if signingHandle = 0 then Some ((ROOTHERALD_ERR_AK_FAILED, [], ''AK handle unavailable''), w)
         else
           let (hr, tpm, w) = TpmCommands_Open (w_tbs win) new_TpmCommands w
           in if FAILED hr
              then Some ((ROOTHERALD_ERR_TPM_UNAVAILABLE, [], ''TPM unavailable''), tpm_Destroy (w_tbs win) tpm w)
              else
                let nonce = Base64Decode (w_strings win) nonce_b64
                in if nonce = []
                   then Some ((ROOTHERALD_ERR_INVALID_ARG, [], ''Invalid nonce''), tpm_Destroy (w_tbs win) tpm w)
                   else do {
                     (r, w) \<leftarrow> CollectEvidence_quote win tpm signingHandle nonce w;
                     Some (r, tpm_Destroy (w_tbs win) tpm w)
                   })"

text \<open>The status with the fields and the reason of a failure.\<close>

definition CollectEvidenceFields ::
    "('c, 'w) windows \<Rightarrow> string \<Rightarrow> 'w
     \<Rightarrow> ((root_herald_status \<times> (string, string) std_map \<times> string) \<times> 'w) option" where
  "CollectEvidenceFields win nonce_b64 w = do {
     (provider, w) \<leftarrow> SelectEnrolledProvider (w_tbs win) w;
     (case provider of
        None \<Rightarrow> Some ((ROOTHERALD_ERR_NOT_ENROLLED, [], ''Not enrolled''), w)
      | Some provider \<Rightarrow> do {
          (r, w) \<leftarrow> CollectEvidence_enrolled win (c_str nonce_b64) provider w;
          Some (r, kp_Destroy (w_tbs win) provider w)
        })
   }"

definition RootHeraldCollectEvidence ::
    "('c, 'w) windows \<Rightarrow> string option \<Rightarrow> c_buffer option \<Rightarrow> 'w
     \<Rightarrow> (root_herald_status \<times> c_buffer option \<times> 'w) option" where
  "RootHeraldCollectEvidence win nonce_b64 out_evidence_json w =
     (case nonce_b64 of
        None \<Rightarrow> Some (ROOTHERALD_ERR_INVALID_ARG, out_evidence_json, w)
      | Some nonce_b64 \<Rightarrow>
          if out_evidence_json = None then Some (ROOTHERALD_ERR_INVALID_ARG, None, w)
          else do {
            ((result, evidence, _), w) \<leftarrow> CollectEvidenceFields win nonce_b64 w;
            if result \<noteq> ROOTHERALD_OK then Some (result, Some None, w)
            else
              let json = JsonBuild evidence;
                  (buffer, w) = malloc_text (w_process win) json w
              in (case buffer of
                    None \<Rightarrow> Some (ROOTHERALD_ERR_INTERNAL, Some None, w)
                  | Some b \<Rightarrow> Some (ROOTHERALD_OK, Some (Some b), w))
          })"

section \<open>The posture snapshot\<close>

record root_herald_posture =
  has_tpm :: int
  is_enrolled :: int
  ek_cert_present :: int
  secure_boot :: int
  oem_keyed :: int
  oem_name :: string
  boot_log_measurements :: int
  boot_log_revoked :: int
  device_id :: string
  platform_name :: string
  detail_json :: string

text \<open>\<open>strncpy_s\<close> with \<open>_TRUNCATE\<close> into an array of \<open>n\<close> characters: the string the array then holds.\<close>

definition strncpy_truncate :: "nat \<Rightarrow> string \<Rightarrow> string" where
  "strncpy_truncate n src = take (n - 1) (c_str src)"

definition zero_posture :: root_herald_posture where
  "zero_posture = \<lparr>has_tpm = 0, is_enrolled = 0, ek_cert_present = 0, secure_boot = 0, oem_keyed = 0,
     oem_name = [], boot_log_measurements = 0, boot_log_revoked = 0, device_id = [], platform_name = [],
     detail_json = []\<rparr>"

definition posture_start :: root_herald_posture where
  "posture_start = zero_posture\<lparr>platform_name := strncpy_truncate 16 ''windows'',
     secure_boot := -1, oem_keyed := -1, boot_log_measurements := -1, boot_log_revoked := -1\<rparr>"

definition bit_of :: "bool \<Rightarrow> int" where
  "bit_of b = (if b then 1 else 0)"

definition posture_detail :: "root_herald_posture \<Rightarrow> (string, string) std_map" where
  "posture_detail p = map_init
     [(''hasTpm'', bool_text (has_tpm p \<noteq> 0)),
      (''isEnrolled'', bool_text (is_enrolled p \<noteq> 0)),
      (''ekCertPresent'', bool_text (ek_cert_present p \<noteq> 0)),
      (''deviceId'', device_id p),
      (''platform'', ''windows'')]"

text \<open>The event log's part of the posture, and of its detail.\<close>

definition boot_posture ::
    "secure_boot_report \<Rightarrow> event_log_analysis \<Rightarrow> root_herald_posture \<Rightarrow> root_herald_posture" where
  "boot_posture report analysis p = p\<lparr>
     secure_boot := bit_of (sb_enabled report),
     oem_keyed := bit_of (pkIsKnownOem report),
     oem_name := strncpy_truncate 64 (pkOemName report),
     boot_log_measurements := sint (of_nat (length (entries analysis)) :: u32)\<rparr>"

definition boot_detail ::
    "secure_boot_report \<Rightarrow> event_log_analysis \<Rightarrow> (string, string) std_map \<Rightarrow> (string, string) std_map" where
  "boot_detail report analysis detail =
     (let detail = map_put ''secureBootEnabled'' (bool_text (sb_enabled report)) detail;
          detail = map_put ''pkIsKnownOem'' (bool_text (pkIsKnownOem report)) detail;
          detail = map_put ''pkOemName'' (pkOemName report) detail;
          detail = map_put ''kekHasMicrosoft'' (bool_text (kekHasMicrosoft report)) detail;
          detail = map_put ''dbxHashCount'' (int_to_string (dbxHashCount report)) detail;
          detail = map_put ''totalMeasurements'' (to_string (length (entries analysis))) detail;
          detail = map_put ''verifiedCount'' (to_string (verifiedCount analysis)) detail;
          detail = map_put ''unknownCount'' (to_string (unknownCount analysis)) detail
      in map_put ''verdict'' (sb_verdict report) detail)"

definition posture_boot_log ::
    "'c cert_api \<Rightarrow> bytes \<Rightarrow> root_herald_posture \<Rightarrow> (root_herald_posture \<times> (string, string) std_map) option" where
  "posture_boot_log api eventLog p =
     (let detail = posture_detail p
      in if eventLog \<noteq> []
         then do {
           report \<leftarrow> ValidateSecureBootChain (plain_crypt_api api) eventLog;
           analysis \<leftarrow> ParseAndAnalyzeEventLog eventLog;
           Some (boot_posture report analysis p, boot_detail report analysis detail)
         }
         else Some (p, map_put ''eventLog'' ''unavailable'' detail))"

definition RootHeraldCollectLocalPosture ::
    "('c, 'w) windows \<Rightarrow> root_herald_posture option \<Rightarrow> 'w
     \<Rightarrow> (root_herald_status \<times> root_herald_posture option \<times> 'w) option" where
  "RootHeraldCollectLocalPosture win out_posture w =
     (if out_posture = None then Some (ROOTHERALD_ERR_INVALID_ARG, None, w)
      else do {
        let p = posture_start;
        let (available, w) = IsAvailable (w_ncrypt win) w;
        let p = p\<lparr>has_tpm := bit_of available\<rparr>;
        (persisted, w) \<leftarrow> IsAkPersisted win w;
        let p = p\<lparr>is_enrolled := bit_of persisted\<rparr>;
        (ekCertDer, w) \<leftarrow> ReadEkCertFromWindowsStore (w_reg win) w;
        let p = p\<lparr>ek_cert_present := bit_of (length ekCertDer > 32)\<rparr>;
        (p, w) \<leftarrow> (if has_tpm p \<noteq> 0
          then do {
            (deviceId, w) \<leftarrow> DeriveLocalDeviceId win w;
            Some (if deviceId \<noteq> [] then p\<lparr>device_id := strncpy_truncate 129 deviceId\<rparr> else p, w)
          }
          else Some (p, w));
        let (eventLog, w) = ReadEventLog (w_tbs win) w;
        (p, detail) \<leftarrow> posture_boot_log (w_cert win) eventLog p;
        let p = p\<lparr>detail_json := strncpy_truncate 2048 (JsonBuild detail)\<rparr>;
        Some (ROOTHERALD_OK, Some p, w)
      })"

end
