(* ===== verification/Client_Abi.thy ===== *)
theory Client_Abi
  imports Evidence
begin

text \<open>
  \<open>src/client/rootherald_client.cpp\<close>: the public C entry points, argument validation in front of the driver,
  and the strings. A client is the lock it carries; the calls of one client are serialised by it, so
  a call is one step from the free lock to the free lock.
\<close>

section \<open>Clients\<close>

record root_herald_client =
  client_locked :: bool

definition RootHeraldClient_Create :: "root_herald_client option" where
  "RootHeraldClient_Create = Some \<lparr>client_locked = False\<rparr>"

text \<open>The clients of a process by their pointers; \<open>delete\<close> ends the one it is given, and does nothing to null.\<close>

type_synonym client_table = "u64 \<rightharpoonup> root_herald_client"

definition RootHeraldClient_Destroy :: "u64 \<Rightarrow> client_table \<Rightarrow> client_table" where
  "RootHeraldClient_Destroy client clients = (if client = 0 then clients else clients(client := None))"

text \<open>\<open>lock_guard\<close>: the lock is taken for the call and released after it.\<close>

definition with_lock :: "root_herald_client \<Rightarrow> (root_herald_client \<Rightarrow> 'a) \<Rightarrow> 'a \<times> root_herald_client" where
  "with_lock client body =
     (let client = client\<lparr>client_locked := True\<rparr>; r = body client
      in (r, client\<lparr>client_locked := False\<rparr>))"

section \<open>The entry points\<close>

definition RootHeraldClient_EnrollBegin ::
    "('c, 'w) windows \<Rightarrow> root_herald_client option \<Rightarrow> c_buffer option \<Rightarrow> enroll_provider \<Rightarrow> 'w
     \<Rightarrow> (root_herald_status \<times> c_buffer option \<times> enroll_provider \<times> 'w) option" where
  "RootHeraldClient_EnrollBegin win client out_request_json g w =
     (if out_request_json = None then Some (ROOTHERALD_ERR_INVALID_ARG, None, g, w)
      else
        let out_request_json = Some None
        in (case client of
              None \<Rightarrow> Some (ROOTHERALD_ERR_INVALID_ARG, out_request_json, g, w)
            | Some client \<Rightarrow> fst (with_lock client (\<lambda>_. RootHeraldEnrollBegin win out_request_json g w))))"

definition RootHeraldClient_EnrollComplete ::
    "('c, 'w) windows \<Rightarrow> root_herald_client option \<Rightarrow> string option \<Rightarrow> c_buffer option \<Rightarrow> enroll_provider \<Rightarrow> 'w
     \<Rightarrow> (root_herald_status \<times> c_buffer option \<times> enroll_provider \<times> 'w) option" where
  "RootHeraldClient_EnrollComplete win client challenge_json out_activation_json g w =
     (if out_activation_json = None then Some (ROOTHERALD_ERR_INVALID_ARG, None, g, w)
      else
        let out_activation_json = Some None
        in if client = None \<or> challenge_json = None \<or> c_str (the challenge_json) = []
           then Some (ROOTHERALD_ERR_INVALID_ARG, out_activation_json, g, w)
           else fst (with_lock (the client)
             (\<lambda>_. RootHeraldEnrollComplete win challenge_json out_activation_json g w)))"

definition RootHeraldClient_CollectPosture ::
    "('c, 'w) windows \<Rightarrow> root_herald_client option \<Rightarrow> root_herald_posture option \<Rightarrow> 'w
     \<Rightarrow> (root_herald_status \<times> root_herald_posture option \<times> 'w) option" where
  "RootHeraldClient_CollectPosture win client out_result w =
     (if client = None \<or> out_result = None then Some (ROOTHERALD_ERR_INVALID_ARG, out_result, w)
      else
        let out_result = Some zero_posture
        in fst (with_lock (the client) (\<lambda>_. RootHeraldCollectLocalPosture win out_result w)))"

definition RootHeraldClient_CollectEvidence ::
    "('c, 'w) windows \<Rightarrow> string option \<Rightarrow> c_buffer option \<Rightarrow> 'w
     \<Rightarrow> (root_herald_status \<times> c_buffer option \<times> 'w) option" where
  "RootHeraldClient_CollectEvidence win nonce_b64 out_evidence_json w =
     (if out_evidence_json = None then Some (ROOTHERALD_ERR_INVALID_ARG, None, w)
      else
        let out_evidence_json = Some None
        in if nonce_b64 = None \<or> c_str (the nonce_b64) = []
           then Some (ROOTHERALD_ERR_INVALID_ARG, out_evidence_json, w)
           else RootHeraldCollectEvidence win nonce_b64 out_evidence_json w)"

definition RootHeraldClient_FreeEvidence :: "('c, 'w) windows \<Rightarrow> c_buffer \<Rightarrow> 'w \<Rightarrow> 'w" where
  "RootHeraldClient_FreeEvidence win evidence_json w = RootHeraldFreeEvidence (w_process win) evidence_json w"

section \<open>Strings\<close>

definition RootHerald_ErrorString :: "int \<Rightarrow> string" where
  "RootHerald_ErrorString status =
     (if status = status_code ROOTHERALD_OK then ''ok''
      else if status = status_code ROOTHERALD_ERR_INVALID_ARG then ''invalid argument''
      else if status = status_code ROOTHERALD_ERR_TPM_UNAVAILABLE
      then ''no TPM 2.0 or secure enclave is reachable on this host''
      else if status = status_code ROOTHERALD_ERR_NOT_ENROLLED then ''device is not enrolled''
      else if status = status_code ROOTHERALD_ERR_ELEVATION_REQUIRED
      then ''enrollment requires an elevated process; run EnrollBegin/EnrollComplete in an elevated resident worker (the single elevation spans both), then retry''
      else if status = status_code ROOTHERALD_ERR_EK_READ_FAILED
      then ''a TPM is present but its endorsement key could not be read; check the resource manager, device permissions and driver''
      else if status = status_code ROOTHERALD_ERR_AK_FAILED
      then ''the attestation key could not be created, loaded or persisted; retry enrollment''
      else if status = status_code ROOTHERALD_ERR_ACTIVATION_FAILED
      then ''the enrollment challenge could not be consumed; it is single-use and now spent, so restart from EnrollBegin''
      else if status = status_code ROOTHERALD_ERR_QUOTE_FAILED
      then ''reading PCRs or producing the quote failed; retry the attestation, do not re-enroll''
      else if status = status_code ROOTHERALD_ERR_ENTITLEMENT_MISSING
      then ''the host executable is not signed with a provisioning profile granting data-protection keychain access''
      else if status = status_code ROOTHERALD_ERR_INTERNAL then ''internal library error''
      else ''unknown error'')"

definition ROOTHERALD_ABI_VERSION_MAJOR :: nat where "ROOTHERALD_ABI_VERSION_MAJOR = 5"
definition ROOTHERALD_ABI_VERSION_MINOR :: nat where "ROOTHERALD_ABI_VERSION_MINOR = 0"

definition RootHerald_AbiVersionString :: string where
  "RootHerald_AbiVersionString = to_string ROOTHERALD_ABI_VERSION_MAJOR @ ''.'' @ to_string ROOTHERALD_ABI_VERSION_MINOR"

definition RootHerald_LibraryVersionString :: string where
  "RootHerald_LibraryVersionString = ''0.3.0''"

section \<open>Driver and facade\<close>

text \<open>With its arguments in order the facade is the driver.\<close>

lemma facade_passes:
  "RootHeraldClient_EnrollBegin win (Some c) (Some b) g w = RootHeraldEnrollBegin win (Some None) g w"
  "c_str ch \<noteq> [] \<Longrightarrow> RootHeraldClient_EnrollComplete win (Some c) (Some ch) (Some b) g w
     = RootHeraldEnrollComplete win (Some ch) (Some None) g w"
  "RootHeraldClient_CollectPosture win (Some c) (Some p) w
     = RootHeraldCollectLocalPosture win (Some zero_posture) w"
  "c_str n \<noteq> [] \<Longrightarrow> RootHeraldClient_CollectEvidence win (Some n) (Some b) w
     = RootHeraldCollectEvidence win (Some n) (Some None) w"
  by (simp_all add: RootHeraldClient_EnrollBegin_def RootHeraldClient_EnrollComplete_def
      RootHeraldClient_CollectPosture_def RootHeraldClient_CollectEvidence_def with_lock_def Let_def)

text \<open>The texts of the codes tell them apart.\<close>

lemma error_strings_distinct:
  "RootHerald_ErrorString (status_code a) = RootHerald_ErrorString (status_code b) \<longleftrightarrow> a = b"
  by (cases a; cases b) (simp_all add: RootHerald_ErrorString_def)

end
