(* ===== verification/Calm.thy ===== *)
theory Calm
  imports Evidence
begin

text \<open>
  Frame conditions. Most of the driver only observes: it asks the registry, CNG, NCrypt, WinHTTP, the
  process and the TPM, and closes what it opened. Each locale states for one interface that its
  calls keep a predicate of the world and proves it of the components on top of it; the last one
  combines them for the driver. \<open>Client_Ledger\<close> interprets them on a machine with a transcript of its TPM
  commands, with the ledger of the objects the TPM created and dropped as the predicate, and
  \<open>Enrolled_Device\<close> instantiates them on a machine whose TBS is a TPM device, with the predicate that the
  state of the device is a given one: what is not a TPM command leaves the device alone.
\<close>

section \<open>One locale per interface\<close>

lemma uh_Destroy_keeps:
  "(\<And>h w. I w \<Longrightarrow> I (Close t h w)) \<Longrightarrow> I w \<Longrightarrow> I (uh_Destroy t h w)"
  by (simp add: uh_Destroy_def uh_Reset_def)

lemma with_handle_keeps:
  assumes "\<And>h w. I w \<Longrightarrow> I (Close t h w)"
    and "\<And>s h v v'. acquire v = (s, h, v') \<Longrightarrow> I v \<Longrightarrow> I v'"
    and "\<And>s h r v v'. body s h v = (r, v') \<Longrightarrow> I v \<Longrightarrow> I v'"
    and "with_handle t acquire body w = (r, w')" and "I w"
  shows "I w'"
  using assms(4,5) uh_Destroy_keeps [where I = I and t = t, OF assms(1)] assms(2,3)
  by (auto simp: with_handle_def put_empty split: prod.splits)

locale calm_registry =
  fixes reg :: "'w reg_api" and I :: "'w \<Rightarrow> bool"
  assumes open_key: "RegOpenKeyEx reg p n w = (r, h, w') \<Longrightarrow> I w \<Longrightarrow> I w'"
    and query_info: "RegQueryInfoKey reg h w = (r, c, m, w') \<Longrightarrow> I w \<Longrightarrow> I w'"
    and enum_key: "RegEnumKeyEx reg h i m w = (r, name, w') \<Longrightarrow> I w \<Longrightarrow> I w'"
    and query_value: "RegQueryValueEx reg h v s w = (r, ty, data, got, w') \<Longrightarrow> I w \<Longrightarrow> I w'"
    and close_key: "I w \<Longrightarrow> I (RegCloseKey reg h w)"
begin

lemma with_reg_key:
  assumes "\<And>status key v r v'. body status key v = Some (r, v') \<Longrightarrow> I v \<Longrightarrow> I v'"
    and "with_reg_key reg parent name body w = Some (r, w')" and "I w"
  shows "I w'"
proof -
  obtain status key w1 where op: "RegOpenKeyEx reg parent name w = (status, key, w1)" by (metis prod_cases3)
  obtain w2 where "body status key w1 = Some (r, w2)" and d: "w' = uh_Destroy (RegKeyTraits reg) key w2"
    using assms(2) op
    by (auto simp: with_reg_key_def uh_Put_def uh_Reset_def RegKeyTraits_def split: bind_splits)
  then have "I w2" using assms(1) open_key [OF op assms(3)] by blast
  then show ?thesis unfolding d by (rule uh_Destroy_keeps [rotated]) (simp add: RegKeyTraits_def close_key)
qed

lemma query_blob: "query_blob reg key ok w = (b, w') \<Longrightarrow> I w \<Longrightarrow> I w'"
  by (auto simp: query_blob_def Let_def dest!: query_value split: prod.splits if_splits)

lemma ek_store_entry: "ek_store_entry reg key name w = Some (r, w') \<Longrightarrow> I w \<Longrightarrow> I w'"
  unfolding ek_store_entry_def
  by (erule with_reg_key [rotated])
    (auto simp: Let_def dest!: query_blob split: if_splits option.splits prod.splits bind_splits)

lemma ek_store_scan: "ek_store_scan reg key idx w = Some (r, w') \<Longrightarrow> I w \<Longrightarrow> I w'"
proof -
  have "ek_store_scan a key idx s = Some t \<Longrightarrow> a = reg \<Longrightarrow> I s \<Longrightarrow> I (snd t)" for a s t
  proof (induction rule: ek_store_scan.raw_induct [rotated, consumes 1, case_names step])
    case (step scan a key idx s t)
    obtain status name w1 where e: "RegEnumKeyEx reg key idx 256 s = (status, name, w1)" by (metis prod_cases3)
    have w1: "I w1" using enum_key [OF e] step(4) by blast
    show ?case
    proof (cases "status = ERROR_SUCCESS")
      case False
      then show ?thesis using step(2,3) e w1 by auto
    next
      case True
      then obtain c w2 where b: "ek_store_entry reg key name w1 = Some (c, w2)"
        and rest: "(if c \<noteq> [] then Some (c, w2) else scan reg key (idx + 1) w2) = Some t"
        using step(2,3) e by (auto split: bind_splits)
      have "I w2" using ek_store_entry [OF b w1] .
      then show ?thesis using rest step(1) [of reg key "idx + 1" w2 t] by (auto split: if_splits)
    qed
  qed
  from this [of reg w "(r, w')"] show "ek_store_scan reg key idx w = Some (r, w') \<Longrightarrow> I w \<Longrightarrow> I w'" by simp
qed

lemma ReadEkCertFromWindowsStore: "ReadEkCertFromWindowsStore reg w = Some (r, w') \<Longrightarrow> I w \<Longrightarrow> I w'"
  unfolding ReadEkCertFromWindowsStore_def
  by (erule with_reg_key [rotated]) (auto dest: ek_store_scan split: if_splits)

lemma store_entry: "store_entry capi reg key name w = Some (r, w') \<Longrightarrow> I w \<Longrightarrow> I w'"
  unfolding store_entry_def
  by (erule with_reg_key [rotated])
    (auto simp: Let_def dest!: query_blob split: if_splits option.splits prod.splits bind_splits)

lemma store_scan: "store_scan capi reg root n left idx out w = Some (r, w') \<Longrightarrow> I w \<Longrightarrow> I w'"
proof (induction left arbitrary: idx out w)
  case 0
  then show ?case by simp
next
  case (Suc left)
  obtain status name w1 where e: "RegEnumKeyEx reg root idx n w = (status, name, w1)" by (metis prod_cases3)
  have w1: "I w1" using enum_key [OF e Suc.prems(2)] .
  show ?case
  proof (cases "status = ERROR_SUCCESS")
    case False
    then show ?thesis using Suc.prems(1) e Suc.IH w1 by auto
  next
    case True
    then obtain ders w2 where s: "store_entry capi reg root name w1 = Some (ders, w2)"
      and rest: "store_scan capi reg root n left (idx + 1) (out @ ders) w2 = Some (r, w')"
      using Suc.prems(1) e by (auto split: bind_splits)
    show ?thesis using Suc.IH [OF rest store_entry [OF s w1]] .
  qed
qed

lemma ReadWindowsTpmIntermediateStore:
  "ReadWindowsTpmIntermediateStore capi reg w = Some (r, w') \<Longrightarrow> I w \<Longrightarrow> I w'"
  unfolding ReadWindowsTpmIntermediateStore_def
  by (erule with_reg_key [rotated])
    (auto simp: Let_def dest!: query_info dest: store_scan split: if_splits prod.splits)

end

locale calm_ncrypt =
  fixes ncrypt :: "'w ncrypt_api" and I :: "'w \<Rightarrow> bool"
  assumes open_provider: "NCryptOpenStorageProvider ncrypt name w = (r, h, w') \<Longrightarrow> I w \<Longrightarrow> I w'"
    and get_property: "NCryptGetProperty ncrypt h name s w = (r, data, got, w') \<Longrightarrow> I w \<Longrightarrow> I w'"
    and free_object: "I w \<Longrightarrow> I (NCryptFreeObject ncrypt h w)"
begin

lemma provider_destroy: "I w \<Longrightarrow> I (uh_Destroy (NcryptProviderTraits ncrypt) h w)"
  by (erule uh_Destroy_keeps [rotated]) (simp add: NcryptProviderTraits_def free_object)

lemma IsAvailable: "IsAvailable ncrypt w = (r, w') \<Longrightarrow> I w \<Longrightarrow> I w'"
  by (auto simp: IsAvailable_def uh_Put_def uh_Reset_def NcryptProviderTraits_def
      dest!: open_provider intro!: provider_destroy [unfolded NcryptProviderTraits_def] split: prod.splits)

lemma pcp_Open: "pcp_Open ncrypt p w = (hr, p', w') \<Longrightarrow> I w \<Longrightarrow> I w'"
  by (auto simp: pcp_Open_def uh_Put_def uh_Reset_def uh_valid_def Let_def dest!: open_provider
      split: prod.splits if_splits)

lemma pcp_Destroy: "I w \<Longrightarrow> I (pcp_Destroy ncrypt p w)"
  by (simp add: pcp_Destroy_def provider_destroy)

lemma ReadProperty: "ReadProperty ncrypt p name w = (r, w') \<Longrightarrow> I w \<Longrightarrow> I w'"
  by (auto simp: ReadProperty_def Let_def dest!: get_property split: prod.splits if_splits)

lemma ReadEkPublicKey: "ReadEkPublicKey ncrypt p w = (r, w') \<Longrightarrow> I w \<Longrightarrow> I w'"
  and ReadEkCertificate: "ReadEkCertificate ncrypt p w = (r, w') \<Longrightarrow> I w \<Longrightarrow> I w'"
  by (auto simp: ReadEkPublicKey_def ReadEkCertificate_def dest: ReadProperty)

end

locale calm_bcrypt =
  fixes bcrypt :: "'w bcrypt_api" and I :: "'w \<Rightarrow> bool"
  assumes open_algorithm: "BCryptOpenAlgorithmProvider bcrypt alg w = (r, h, w') \<Longrightarrow> I w \<Longrightarrow> I w'"
    and hash_length: "BCryptGetHashLength bcrypt h w = (r, n, w') \<Longrightarrow> I w \<Longrightarrow> I w'"
    and create_hash: "BCryptCreateHash bcrypt h w = (r, hh, w') \<Longrightarrow> I w \<Longrightarrow> I w'"
    and hash_data: "BCryptHashData bcrypt h data w = (r, w') \<Longrightarrow> I w \<Longrightarrow> I w'"
    and finish_hash: "BCryptFinishHash bcrypt h n w = (r, digest, w') \<Longrightarrow> I w \<Longrightarrow> I w'"
    and destroy_hash: "I w \<Longrightarrow> I (BCryptDestroyHash bcrypt h w)"
    and close_algorithm: "I w \<Longrightarrow> I (BCryptCloseAlgorithmProvider bcrypt h w)"
begin

lemma closes:
  "I w \<Longrightarrow> I (Close (BcryptAlgTraits bcrypt) h w)"
  "I w \<Longrightarrow> I (Close (BcryptHashTraits bcrypt) h w)"
  by (simp_all add: BcryptAlgTraits_def BcryptHashTraits_def close_algorithm destroy_hash)

lemma BcryptDigest_finish: "BcryptDigest_finish bcrypt data n h w = (r, w') \<Longrightarrow> I w \<Longrightarrow> I w'"
  by (auto simp: BcryptDigest_finish_def Let_def dest!: hash_data finish_hash split: prod.splits if_splits)

lemma BcryptDigest: "BcryptDigest bcrypt alg data w = (r, w') \<Longrightarrow> I w \<Longrightarrow> I w'"
  unfolding BcryptDigest_def
proof (erule with_handle_keeps [rotated 3])
  fix s :: u32 and h v r v'
  assume body: "(if s \<noteq> 0 then ([], v)
      else let (status, digestLen, v) = BCryptGetHashLength bcrypt h v
           in if status \<noteq> 0 then ([], v)
              else if digestLen = 0 then ([], v)
              else with_handle (BcryptHashTraits bcrypt) (BCryptCreateHash bcrypt h)
                (\<lambda>status hash w. if status \<noteq> 0 then ([], w) else BcryptDigest_finish bcrypt data digestLen hash w) v)
      = (r, v')" and v: "I v"
  obtain status n v1 where l: "BCryptGetHashLength bcrypt h v = (status, n, v1)" by (metis prod_cases3)
  have v1: "I v1" using hash_length [OF l v] .
  have "I v'" if "with_handle (BcryptHashTraits bcrypt) (BCryptCreateHash bcrypt h)
      (\<lambda>status hash w. if status \<noteq> 0 then ([], w) else BcryptDigest_finish bcrypt data n hash w) v1 = (r, v')"
    using that v1
    by (rule with_handle_keeps [rotated 3])
      (auto intro: closes dest: create_hash BcryptDigest_finish split: if_splits)
  then show "I v'" using body v v1 by (auto simp: l split: if_splits)
qed (auto intro: closes dest: open_algorithm)

lemma Sha256: "Sha256 bcrypt data w = (r, w') \<Longrightarrow> I w \<Longrightarrow> I w'"
  and Sha1: "Sha1 bcrypt data w = (r, w') \<Longrightarrow> I w \<Longrightarrow> I w'"
  by (auto simp: Sha256_def Sha1_def dest: BcryptDigest)

lemma aia_Sha256: "aia_Sha256 bcrypt data w = (r, w') \<Longrightarrow> I w \<Longrightarrow> I w'"
  unfolding aia_Sha256_def
proof (erule with_handle_keeps [rotated 3])
  fix s :: u32 and h v r v'
  assume body: "(if s \<noteq> 0 then (None, v)
      else with_handle (BcryptHashTraits bcrypt) (BCryptCreateHash bcrypt h) (\<lambda>status hash w.
         if status \<noteq> 0 then (None, w)
         else
           let (status, w) = BCryptHashData bcrypt hash (ulong_prefix data) w
           in if status \<noteq> 0 then (None, w)
              else
                let (status, written, w) = BCryptFinishHash bcrypt hash 32 w
                in (if status = 0 then Some (vec_resize 32 written) else None, w)) v) = (r, v')" and v: "I v"
  show "I v'"
  proof (cases "s = 0")
    case False
    then show ?thesis using body v by simp
  next
    case True
    have "with_handle (BcryptHashTraits bcrypt) (BCryptCreateHash bcrypt h) (\<lambda>status hash w.
         if status \<noteq> 0 then (None, w)
         else
           let (status, w) = BCryptHashData bcrypt hash (ulong_prefix data) w
           in if status \<noteq> 0 then (None, w)
              else
                let (status, written, w) = BCryptFinishHash bcrypt hash 32 w
                in (if status = 0 then Some (vec_resize 32 written) else None, w)) v = (r, v')"
      using body True by simp
    then show ?thesis using v
      by (rule with_handle_keeps [rotated 3])
        (auto simp: Let_def intro: closes dest: create_hash dest!: hash_data finish_hash split: if_splits prod.splits)
  qed
qed (auto intro: closes dest: open_algorithm)

lemma ComputeDeviceIdFromFingerprint:
  "ComputeDeviceIdFromFingerprint bcrypt fp w = (r, w') \<Longrightarrow> I w \<Longrightarrow> I w'"
  by (auto simp: ComputeDeviceIdFromFingerprint_def Let_def dest!: Sha1 split: if_splits prod.splits)

lemma collect_seen: "collect_seen bcrypt seen cs w = (r, w') \<Longrightarrow> I w \<Longrightarrow> I w'"
proof (induction cs arbitrary: seen w)
  case (Cons c cs)
  obtain fp w1 where s: "Sha256 bcrypt c w = (fp, w1)" by (metis prod.exhaust)
  show ?case using Cons.prems Cons.IH Sha256 [OF s] by (auto simp: s Let_def)
qed simp

lemma merge_store: "merge_store bcrypt seen cs store w = (r, w') \<Longrightarrow> I w \<Longrightarrow> I w'"
proof (induction store arbitrary: seen cs w)
  case (Cons c store)
  obtain fp w1 where s: "Sha256 bcrypt c w = (fp, w1)" by (metis prod.exhaust)
  show ?case using Cons.prems Cons.IH Sha256 [OF s] by (auto simp: s Let_def split: if_splits)
qed simp

end

locale calm_http =
  fixes http :: "'w winhttp_api" and I :: "'w \<Rightarrow> bool"
  assumes http_open: "WinHttpOpen http agent w = (h, w') \<Longrightarrow> I w \<Longrightarrow> I w'"
    and http_connect: "WinHttpConnect http s host port w = (h, w') \<Longrightarrow> I w \<Longrightarrow> I w'"
    and http_open_request: "WinHttpOpenRequest http c verb path secure w = (h, w') \<Longrightarrow> I w \<Longrightarrow> I w'"
    and http_headers: "I w \<Longrightarrow> I (WinHttpAddRequestHeaders http h header w)"
    and http_send: "WinHttpSendRequest http h body w = (ok, w') \<Longrightarrow> I w \<Longrightarrow> I w'"
    and http_receive: "WinHttpReceiveResponse http h w = (ok, w') \<Longrightarrow> I w \<Longrightarrow> I w'"
    and http_status: "WinHttpQueryStatusCode http h w = (code, w') \<Longrightarrow> I w \<Longrightarrow> I w'"
    and http_available: "WinHttpQueryDataAvailable http h w = (ok, n, w') \<Longrightarrow> I w \<Longrightarrow> I w'"
    and http_read: "WinHttpReadData http h n w = (data, got, w') \<Longrightarrow> I w \<Longrightarrow> I w'"
    and http_close: "I w \<Longrightarrow> I (WinHttpCloseHandle http h w)"
begin

lemma http_body: "http_body http h body w = Some (r, w') \<Longrightarrow> I w \<Longrightarrow> I w'"
proof -
  have "http_body a h body s = Some t \<Longrightarrow> a = http \<Longrightarrow> I s \<Longrightarrow> I (snd t)" for a s t
  proof (induction rule: http_body.raw_induct [rotated, consumes 1, case_names step])
    case (step loop a h body s t)
    obtain ok n w1 where q: "WinHttpQueryDataAvailable http h s = (ok, n, w1)" by (metis prod_cases3)
    obtain written got w2 where r: "WinHttpReadData http h n w1 = (written, got, w2)" by (metis prod_cases3)
    have w: "I w1" "I w2" using http_available [OF q step(4)] http_read [OF r] by blast+
    show ?case
      using step(2,3) q r w step(1) by (auto split: if_splits bind_splits)
  qed
  from this [of http w "(r, w')"] show "http_body http h body w = Some (r, w') \<Longrightarrow> I w \<Longrightarrow> I w'" by simp
qed

lemma with_owned:
  assumes "\<And>h v v'. acquire v = (h, v') \<Longrightarrow> I v \<Longrightarrow> I v'"
    and "\<And>h v r v'. body h v = Some (r, v') \<Longrightarrow> I v \<Longrightarrow> I v'"
    and "with_owned (InternetTraits http) acquire body w = Some (r, w')" and "I w"
  shows "I w'"
proof -
  have close: "I v \<Longrightarrow> I (uh_Destroy (InternetTraits http) h v)" for h v
    by (erule uh_Destroy_keeps [rotated]) (simp add: InternetTraits_def http_close)
  obtain h w1 where a: "acquire w = (h, w1)" by (metis prod.exhaust)
  then obtain w2 where "body h w1 = Some (r, w2)" "w' = uh_Destroy (InternetTraits http) h w2"
    using assms(3) by (auto simp: with_owned_def split: bind_splits)
  then show ?thesis using assms(1) [OF a assms(4)] assms(2) close by blast
qed

lemma http_exchange: "http_exchange http h body header w = Some (r, w') \<Longrightarrow> I w \<Longrightarrow> I w'"
  by (auto simp: http_exchange_def Let_def dest!: http_send http_receive http_status http_body
      intro: http_headers split: prod.splits if_splits bind_splits)

lemma DoRequest:
  assumes "DoRequest http url verb body header w = Some (r, w')" and "I w"
  shows "I w'"
proof (cases "WinHttpCrackUrl http (to_wide http url) 256 2048")
  case None
  then show ?thesis using assms by (simp add: DoRequest_def)
next
  case (Some u)
  obtain secure host port path where u: "u = (secure, host, port, path)" by (metis prod_cases4)
  show ?thesis
    using assms unfolding DoRequest_def Some u option.case prod.case
  proof (rule with_owned [rotated 2], goal_cases)
    case 1
    then show ?case by (rule http_open)
  next
    case (2 session v r v')
    show ?case
    proof (cases "uh_valid (InternetTraits http) session")
      case False
      then show ?thesis using 2 by simp
    next
      case True
      with 2(1) have "with_owned (InternetTraits http) (WinHttpConnect http session host port) (\<lambda>connection w.
              if \<not> uh_valid (InternetTraits http) connection then Some (http_error ''WinHttpConnect failed'', w)
              else with_owned (InternetTraits http)
                  (WinHttpOpenRequest http connection (to_wide http verb) path secure) (\<lambda>request w.
                if \<not> uh_valid (InternetTraits http) request then Some (http_error ''WinHttpOpenRequest failed'', w)
                else http_exchange http request body header w) w) v = Some (r, v')" by simp
      from this 2(2) show ?thesis
      proof (rule with_owned [rotated 2], goal_cases)
        case 1
        then show ?case by (rule http_connect)
      next
        case (2 connection v r v')
        show ?case
        proof (cases "uh_valid (InternetTraits http) connection")
          case False
          then show ?thesis using 2 by simp
        next
          case True
          with 2(1) have "with_owned (InternetTraits http)
                  (WinHttpOpenRequest http connection (to_wide http verb) path secure) (\<lambda>request w.
                if \<not> uh_valid (InternetTraits http) request then Some (http_error ''WinHttpOpenRequest failed'', w)
                else http_exchange http request body header w) v = Some (r, v')" by simp
          from this 2(2) show ?thesis
            by (rule with_owned [rotated 2]) (auto dest: http_open_request http_exchange split: if_splits)
        qed
      qed
    qed
  qed
qed

lemma HttpGet: "HttpGet http url w = Some (r, w') \<Longrightarrow> I w \<Longrightarrow> I w'"
  unfolding HttpGet_def by (rule DoRequest)

end

locale calm_process =
  fixes process :: "'w process_api" and I :: "'w \<Rightarrow> bool"
  assumes open_token: "OpenProcessToken process w = (ok, h, w') \<Longrightarrow> I w \<Longrightarrow> I w'"
    and token_elevation: "GetTokenElevation process h w = (ok, e, w') \<Longrightarrow> I w \<Longrightarrow> I w'"
    and close_handle: "I w \<Longrightarrow> I (CloseHandle process h w)"
    and malloc: "c_malloc process n w = (p, w') \<Longrightarrow> I w \<Longrightarrow> I w'"
    and free: "I w \<Longrightarrow> I (c_free process p w)"
begin

lemma malloc_text: "malloc_text process json w = (b, w') \<Longrightarrow> I w \<Longrightarrow> I w'"
  by (auto simp: malloc_text_def dest!: malloc split: prod.splits)

lemma FreeEvidence: "I w \<Longrightarrow> I (RootHeraldFreeEvidence process b w)"
  by (simp add: RootHeraldFreeEvidence_def free)

end

text \<open>Of the TPM commands, only those that read are calm.\<close>

definition neutral_command :: "bytes \<Rightarrow> bool" where
  "neutral_command cmd \<longleftrightarrow> (\<exists>code. ReadU32 (patch_command_size cmd) 6 = Some code
     \<and> code \<in> {TPM2_CC_PCR_Read, TPM2_CC_Quote, TPM2_CC_ReadPublic, TPM2_CC_NV_ReadPublic, TPM2_CC_NV_Read})"

lemma neutral_commands:
  "neutral_command (PcrRead_command i)"
  "neutral_command (Quote_command h nonce pcrs)"
  "neutral_command (NV_ReadPublic_command nv)"
  "neutral_command (NV_Read_command nv want off)"
  "neutral_command (ReadPublic_command h)"
  unfolding neutral_command_def
  by (simp_all add: patched_code writer_simps PcrRead_command_def Quote_command_def NV_ReadPublic_command_def
      NV_Read_command_def ReadPublic_command_def Let_def)

locale calm_submit =
  fixes tbs :: "'w tbs_api" and I :: "'w \<Rightarrow> bool"
  assumes get_log: "Tbsi_Get_TCG_Log_Ex tbs s w = (r, log, n, w') \<Longrightarrow> I w \<Longrightarrow> I w'"
    and submit: "Tbsip_Submit_Command tbs h (patch_command_size cmd) w = (r, resp, n, w') \<Longrightarrow>
      neutral_command cmd \<Longrightarrow> I w \<Longrightarrow> I w'"
begin

lemma SendCommand: "SendCommand tbs tc cmd w = (hr, resp, w') \<Longrightarrow> neutral_command cmd \<Longrightarrow> I w \<Longrightarrow> I w'"
  by (auto simp: SendCommand_def Let_def dest!: submit split: prod.splits if_splits)

lemma transact: "transact tbs tc cmd parse w = Some (r, w') \<Longrightarrow> neutral_command cmd \<Longrightarrow> I w \<Longrightarrow> I w'"
  by (auto simp: transact_def dest!: SendCommand split: prod.splits if_splits bind_splits)

lemma ReadEventLog: "ReadEventLog tbs w = (r, w') \<Longrightarrow> I w \<Longrightarrow> I w'"
  by (auto simp: ReadEventLog_def Let_def dest!: get_log split: prod.splits if_splits)

lemma IsPersistentPresent: "IsPersistentPresent tbs tc h w = Some (r, w') \<Longrightarrow> I w \<Longrightarrow> I w'"
  by (auto simp: IsPersistentPresent_def dest!: SendCommand [OF _ neutral_commands(5)]
      split: prod.splits if_splits bind_splits)

lemma PcrRead: "PcrRead tbs tc i w = Some (r, w') \<Longrightarrow> I w \<Longrightarrow> I w'"
  and Quote: "Quote tbs tc h nonce pcrs w = Some (q, w') \<Longrightarrow> I w \<Longrightarrow> I w'"
  by (auto simp: PcrRead_def Quote_def dest: transact [OF _ neutral_commands(1)] transact [OF _ neutral_commands(2)])

lemma collect_pcrs: "collect_pcrs tbs tc first json pcrs w = Some (r, w') \<Longrightarrow> I w \<Longrightarrow> I w'"
proof (induction pcrs arbitrary: first json w)
  case Nil
  then show ?case by simp
next
  case (Cons i pcrs)
  then obtain r1 w1 where p: "PcrRead tbs tc i w = Some (r1, w1)" by (auto split: bind_splits)
  show ?case
    using Cons.prems Cons.IH PcrRead [OF p] p by (auto simp: Let_def split: if_splits)
qed

lemma ReadNv_loop: "ReadNv_loop tbs tc nv n off out w = Some (r, w') \<Longrightarrow> I w \<Longrightarrow> I w'"
proof -
  have "ReadNv_loop a tc nv n off out s = Some t \<Longrightarrow> a = tbs \<Longrightarrow> I s \<Longrightarrow> I (snd t)" for a s t
  proof (induction rule: ReadNv_loop.raw_induct [rotated, consumes 1, case_names step])
    case (step loop a tc nv n off out s t)
    show ?case
    proof (cases "off < n")
      case False
      then show ?thesis using step(2,4) by auto
    next
      case True
      then obtain r1 w1 where r: "transact tbs tc (NV_Read_command nv (nv_want n off) off) NV_Read_response s = Some (r1, w1)"
        and rest: "(case r1 of Inl hr \<Rightarrow> Some (Inl hr, w1)
            | Inr (got, chunk) \<Rightarrow> loop tbs tc nv n (off + got) (out @ chunk) w1) = Some t"
        using step(2,3) by (auto split: bind_splits)
      have "I w1" using transact [OF r neutral_commands(4) step(4)] .
      then show ?thesis
        using rest step(1) [of tbs tc nv n _ _ w1 t] by (auto split: sum.splits)
    qed
  qed
  from this [of tbs w "(r, w')"] show "ReadNv_loop tbs tc nv n off out w = Some (r, w') \<Longrightarrow> I w \<Longrightarrow> I w'" by simp
qed

lemma ReadNvData: "ReadNvData tbs tc nv w = Some (r, w') \<Longrightarrow> I w \<Longrightarrow> I w'"
  by (auto simp: ReadNvData_def dest!: transact [OF _ neutral_commands(3)] ReadNv_loop
      split: bind_splits sum.splits)

lemma odca_stream: "odca_stream tbs tc is stream w = Some (r, w') \<Longrightarrow> I w \<Longrightarrow> I w'"
proof (induction "is" arbitrary: stream w)
  case Nil
  then show ?case by simp
next
  case (Cons i "is")
  then obtain r1 w1 where r: "ReadNvData tbs tc (0x01C00100 + i) w = Some (r1, w1)" by (auto split: bind_splits)
  show ?case
    using Cons.prems Cons.IH ReadNvData [OF r] r by (auto simp: Let_def)
qed

lemma ReadIntelOdcaIntermediates: "ReadIntelOdcaIntermediates tbs tc cs w = Some (r, w') \<Longrightarrow> I w \<Longrightarrow> I w'"
  by (auto simp: ReadIntelOdcaIntermediates_def dest: odca_stream split: bind_splits if_splits)

lemma AkExists: "AkExists tbs p w = Some (r, w') \<Longrightarrow> I w \<Longrightarrow> I w'"
  and LoadAk: "LoadAk tbs p w = Some (hr, w') \<Longrightarrow> I w \<Longrightarrow> I w'"
  by (auto simp: AkExists_def LoadAk_def dest: IsPersistentPresent split: bind_splits)

end

text \<open>Contexts that come and go.\<close>

locale calm_tbs = calm_submit tbs I for tbs :: "'w tbs_api" and I :: "'w \<Rightarrow> bool" +
  assumes context_create: "Tbsi_Context_Create tbs w = (r, h, w') \<Longrightarrow> I w \<Longrightarrow> I w'"
    and context_close: "I w \<Longrightarrow> I (Tbsip_Context_Close tbs h w)"
begin

lemma context_destroy: "I w \<Longrightarrow> I (uh_Destroy (TbsContextTraits tbs) h w)"
  by (erule uh_Destroy_keeps [rotated]) (simp add: TbsContextTraits_def context_close)

lemma tpm_Destroy: "I w \<Longrightarrow> I (tpm_Destroy tbs tc w)"
  by (simp add: tpm_Destroy_def context_destroy)

lemma TpmCommands_Open: "TpmCommands_Open tbs tc w = (hr, tc', w') \<Longrightarrow> I w \<Longrightarrow> I w'"
  by (auto simp: TpmCommands_Open_def uh_Put_def uh_Reset_def uh_valid_def Let_def dest!: context_create
      split: prod.splits if_splits)

text \<open>A provider without transient handles is opened, asked and destroyed calmly.\<close>

lemma kp_Open: "kp_Open tbs p w = (hr, p', w') \<Longrightarrow> I w \<Longrightarrow> I w'"
  by (auto simp: kp_Open_def dest: TpmCommands_Open split: prod.splits)

lemma kp_Open_handles: "kp_Open tbs p w = (hr, p', w') \<Longrightarrow> ekHandle p' = ekHandle p \<and> akHandle p' = akHandle p"
  by (auto simp: kp_Open_def split: prod.splits)

lemma kp_Destroy:
  assumes "ekHandle p = 0" and "akHandle p = 0" and "I w"
  shows "I (kp_Destroy tbs p w)"
proof -
  have f: "FlushTransients tbs p w = (p, w)" using assms by (simp add: FlushTransients_def)
  obtain tc w1 where c: "TpmCommands_Close tbs (kp_tpm p) w = (tc, w1)" by (metis prod.exhaust)
  have "I w1"
    using c assms(3) by (auto simp: TpmCommands_Close_def uh_Reset_def TbsContextTraits_def context_close split: if_splits)
  then show ?thesis by (simp add: kp_Destroy_def kp_Close_def f c context_destroy)
qed

lemma fresh_provider:
  assumes "kp_Open tbs (new_TbsKeyProvider h) w = (hr, p, w')" and "I w"
  shows "I w'" and "I v \<Longrightarrow> I (kp_Destroy tbs p v)"
  using kp_Open [OF assms] kp_Open_handles [OF assms(1)] kp_Destroy [of p v]
  by (simp_all add: new_TbsKeyProvider_def)

lemma SelectEnrolledProvider:
  assumes "SelectEnrolledProvider tbs w = Some (r, w')" and "I w"
  shows "I w'" and "r = Some p \<Longrightarrow> I v \<Longrightarrow> I (kp_Destroy tbs p v)"
proof -
  obtain hr q w1 where o: "kp_Open tbs (new_TbsKeyProvider TBS_AK_PERSISTENT_HANDLE) w = (hr, q, w1)"
    by (metis prod_cases3)
  have w1: "I w1" and d: "\<And>v. I v \<Longrightarrow> I (kp_Destroy tbs q v)" using fresh_provider [OF o assms(2)] by blast+
  show "I w'"
    using assms(1) o w1 d LoadAk by (auto simp: SelectEnrolledProvider_def split: if_splits bind_splits)
  show "r = Some p \<Longrightarrow> I v \<Longrightarrow> I (kp_Destroy tbs p v)"
    using assms(1) o d by (auto simp: SelectEnrolledProvider_def split: if_splits bind_splits)
qed

end

section \<open>The driver\<close>

text \<open>The parts that open no TBS context of their own, and the whole driver.\<close>

locale calm_driver =
  registry: calm_registry "w_reg win" I +
  ncrypt: calm_ncrypt "w_ncrypt win" I +
  bcrypt: calm_bcrypt "w_bcrypt win" I +
  http: calm_http "w_http win" I +
  process: calm_process "w_process win" I +
  tbs: calm_submit "w_tbs win" I
  for win :: "('c, 'w) windows" and I :: "'w \<Rightarrow> bool"
begin

lemma IsProcessElevated: "IsProcessElevated win w = (r, w') \<Longrightarrow> I w \<Longrightarrow> I w'"
  unfolding IsProcessElevated_def
  by (erule with_handle_keeps [rotated 3])
    (auto simp: KernelHandleTraits_def Let_def intro: process.close_handle
      dest: process.open_token dest!: process.token_elevation split: if_splits prod.splits)

lemma FetchAmdAiaEkCert:
  "FetchAmdAiaEkCert (w_bcrypt win) (w_http win) m w = Some (r, w') \<Longrightarrow> I w \<Longrightarrow> I w'"
  by (auto simp: FetchAmdAiaEkCert_def Let_def dest!: bcrypt.aia_Sha256 http.HttpGet
      split: if_splits prod.splits option.splits bind_splits)

lemma read_ek_certificate: "read_ek_certificate win pcp w = Some (r, w') \<Longrightarrow> I w \<Longrightarrow> I w'"
  by (auto simp: read_ek_certificate_def dest!: registry.ReadEkCertFromWindowsStore ncrypt.ReadEkCertificate
      split: if_splits prod.splits sum.splits bind_splits)

lemma gather_certificate: "gather_certificate win pcp pub w = Some (r, w') \<Longrightarrow> I w \<Longrightarrow> I w'"
  by (auto simp: gather_certificate_def dest!: read_ek_certificate FetchAmdAiaEkCert
      split: if_splits bind_splits)

lemma DeriveLocalDeviceId: "DeriveLocalDeviceId win w = Some (r, w') \<Longrightarrow> I w \<Longrightarrow> I w'"
  by (auto simp: DeriveLocalDeviceId_def Let_def
      dest!: registry.ReadEkCertFromWindowsStore ncrypt.pcp_Open ncrypt.ReadEkPublicKey bcrypt.Sha256
        bcrypt.ComputeDeviceIdFromFingerprint
      intro: ncrypt.pcp_Destroy split: if_splits prod.splits sum.splits bind_splits)

lemma evidence_extras: "evidence_extras win tpm log ev w = Some (r, w') \<Longrightarrow> I w \<Longrightarrow> I w'"
  by (auto simp: evidence_extras_def Let_def
      dest!: registry.ReadEkCertFromWindowsStore tbs.ReadIntelOdcaIntermediates DeriveLocalDeviceId
      split: bind_splits)

lemma CollectEvidence_quote: "CollectEvidence_quote win tpm h nonce w = Some (r, w') \<Longrightarrow> I w \<Longrightarrow> I w'"
  by (auto simp: CollectEvidence_quote_def Let_def
      dest!: tbs.collect_pcrs tbs.Quote tbs.ReadEventLog evidence_extras
      split: if_splits prod.splits option.splits bind_splits)

end

locale calm_windows = calm_driver win I + contexts: calm_tbs "w_tbs win" I
  for win :: "('c, 'w) windows" and I :: "'w \<Rightarrow> bool"
begin

lemma gather_intermediates:
  assumes "gather_intermediates win w = Some (r, w')" and "I w"
  shows "I w'"
proof -
  obtain hr tpm w1 where o: "TpmCommands_Open (w_tbs win) new_TpmCommands w = (hr, tpm, w1)" by (metis prod_cases3)
  have w1: "I w1" using contexts.TpmCommands_Open [OF o assms(2)] .
  show ?thesis
  proof (cases "SUCCEEDED hr")
    case False
    then show ?thesis using assms(1) o w1 contexts.tpm_Destroy by (auto simp: gather_intermediates_def)
  next
    case True
    then obtain odca w2 seen w3 store w4 cs w5 where
      a: "ReadIntelOdcaIntermediates (w_tbs win) tpm [] w1 = Some (odca, w2)"
      and b: "collect_seen (w_bcrypt win) [] odca w2 = (seen, w3)"
      and c: "ReadWindowsTpmIntermediateStore (w_cert win) (w_reg win) w3 = Some (store, w4)"
      and d: "merge_store (w_bcrypt win) seen odca store w4 = (cs, w5)"
      and w': "w' = tpm_Destroy (w_tbs win) tpm w5"
      using assms(1) o
      by (auto simp: gather_intermediates_def Let_def split: bind_splits prod.splits)
    have "I w2" using tbs.ReadIntelOdcaIntermediates [OF a w1] .
    then have "I w3" using bcrypt.collect_seen [OF b] by blast
    then have "I w4" using registry.ReadWindowsTpmIntermediateStore [OF c] by blast
    then have "I w5" using bcrypt.merge_store [OF d] by blast
    then show ?thesis unfolding w' by (rule contexts.tpm_Destroy)
  qed
qed

lemma GatherEkEnrollData: "GatherEkEnrollData win w = Some (r, w') \<Longrightarrow> I w \<Longrightarrow> I w'"
  by (auto simp: GatherEkEnrollData_def Let_def
      dest!: ncrypt.pcp_Open ncrypt.ReadEkPublicKey gather_certificate gather_intermediates
      intro: ncrypt.pcp_Destroy split: if_splits prod.splits sum.splits bind_splits)

lemma IsAkPersisted:
  assumes "IsAkPersisted win w = Some (r, w')" and "I w"
  shows "I w'"
proof -
  obtain hr p w1 where o: "kp_Open (w_tbs win) (new_TbsKeyProvider TBS_AK_PERSISTENT_HANDLE) w = (hr, p, w1)"
    by (metis prod_cases3)
  note f = contexts.fresh_provider [OF o assms(2)]
  show ?thesis
    using assms(1) o f by (auto simp: IsAkPersisted_def dest: tbs.AkExists split: if_splits bind_splits)
qed

lemma CollectEvidence_enrolled: "CollectEvidence_enrolled win nonce p w = Some (r, w') \<Longrightarrow> I w \<Longrightarrow> I w'"
  by (auto simp: CollectEvidence_enrolled_def Let_def dest!: contexts.TpmCommands_Open CollectEvidence_quote
      intro: contexts.tpm_Destroy split: if_splits prod.splits bind_splits)

lemma CollectEvidenceFields:
  assumes "CollectEvidenceFields win nonce w = Some (r, w')" and "I w"
  shows "I w'"
proof -
  obtain q w1 where s: "SelectEnrolledProvider (w_tbs win) w = Some (q, w1)"
    using assms(1) by (auto simp: CollectEvidenceFields_def split: bind_splits)
  note p = contexts.SelectEnrolledProvider [OF s assms(2)]
  show ?thesis
    using assms(1) s p CollectEvidence_enrolled
    by (auto simp: CollectEvidenceFields_def split: option.splits bind_splits)
qed

lemma RootHeraldCollectEvidence:
  "RootHeraldCollectEvidence win nonce out w = Some (st, out', w') \<Longrightarrow> I w \<Longrightarrow> I w'"
  by (auto simp: RootHeraldCollectEvidence_def Let_def dest!: CollectEvidenceFields process.malloc_text
      split: if_splits prod.splits option.splits bind_splits)

lemma RootHeraldCollectLocalPosture:
  "RootHeraldCollectLocalPosture win out w = Some (st, out', w') \<Longrightarrow> I w \<Longrightarrow> I w'"
  by (auto simp: RootHeraldCollectLocalPosture_def Let_def
      dest!: ncrypt.IsAvailable IsAkPersisted registry.ReadEkCertFromWindowsStore DeriveLocalDeviceId
        tbs.ReadEventLog
      split: if_splits prod.splits bind_splits)

end

end
