(* ===== verification/Client_Machine.thy ===== *)
theory Client_Machine
  imports Client_Abi Calm
begin

text \<open>
  The library as a state machine: its public calls over the global in-flight enrollment and the
  machine. The abstract protocol of an enrollment has two phases; the statuses the calls return
  drive it, and the code refines it. The second half runs the same calls on a machine with a
  transcript of its TPM commands and balances the objects created in the TPM.
\<close>

section \<open>Calls\<close>

datatype client_call =
    CallEnrollBegin "root_herald_client option" "c_buffer option"
  | CallEnrollComplete "root_herald_client option" "string option" "c_buffer option"
  | CallCollectEvidence "string option" "c_buffer option"
  | CallCollectPosture "root_herald_client option" "root_herald_posture option"
  | CallFreeEvidence c_buffer

type_synonym call_result = "root_herald_status \<times> c_buffer option"

inductive client_step ::
    "('c, 'w) windows \<Rightarrow> enroll_provider \<times> 'w \<Rightarrow> client_call \<Rightarrow> call_result \<Rightarrow> enroll_provider \<times> 'w \<Rightarrow> bool"
  for win where
  step_begin: "RootHeraldClient_EnrollBegin win c out g w = Some (st, out', g', w') \<Longrightarrow>
    client_step win (g, w) (CallEnrollBegin c out) (st, out') (g', w')"
| step_complete: "RootHeraldClient_EnrollComplete win c ch out g w = Some (st, out', g', w') \<Longrightarrow>
    client_step win (g, w) (CallEnrollComplete c ch out) (st, out') (g', w')"
| step_evidence: "RootHeraldClient_CollectEvidence win n out w = Some (st, out', w') \<Longrightarrow>
    client_step win (g, w) (CallCollectEvidence n out) (st, out') (g, w')"
| step_posture: "RootHeraldClient_CollectPosture win c out w = Some (st, out', w') \<Longrightarrow>
    client_step win (g, w) (CallCollectPosture c out) (st, None) (g, w')"
| step_free: "client_step win (g, w) (CallFreeEvidence b) (ROOTHERALD_OK, None)
    (g, RootHeraldClient_FreeEvidence win b w)"

inductive_cases client_stepE: "client_step win s call r s'"

inductive client_run ::
    "('c, 'w) windows \<Rightarrow> enroll_provider \<times> 'w \<Rightarrow> (client_call \<times> call_result) list \<Rightarrow> enroll_provider \<times> 'w \<Rightarrow> bool"
  for win where
  run_nil: "client_run win s [] s"
| run_snoc: "client_run win s trace s' \<Longrightarrow> client_step win s' call r s'' \<Longrightarrow>
    client_run win s (trace @ [(call, r)]) s''"

section \<open>The outcome of each call\<close>

text \<open>A provider that is ready for the second leg.\<close>

definition provider_ready :: "tbs_key_provider \<Rightarrow> bool" where
  "provider_ready p \<longleftrightarrow> tc_context (kp_tpm p) \<noteq> 0 \<and> ekHandle p \<noteq> 0 \<and> akHandle p \<noteq> 0
     \<and> akPublicArea p \<noteq> [] \<and> persistentHandle p = TBS_AK_PERSISTENT_HANDLE"

lemma FlushTransients_fields:
  "FlushTransients api p w = (p', w') \<Longrightarrow> kp_tpm p' = kp_tpm p \<and> persistentHandle p' = persistentHandle p
     \<and> akPublicArea p' = akPublicArea p"
  by (auto simp: FlushTransients_def Let_def split: if_splits)

lemma kp_Open_fields: "kp_Open api p w = (hr, p', w') \<Longrightarrow> persistentHandle p' = persistentHandle p"
  by (auto simp: kp_Open_def split: prod.splits)

lemma CreateEk_open: "CreateEk api tc w = Some (r, w') \<Longrightarrow> \<not> FAILED (hr_of r) \<Longrightarrow> tc_context tc \<noteq> 0"
  by (auto simp: CreateEk_def transact_def SendCommand_def uh_valid_def TbsContextTraits_def hr_of_def
      RH_E_NOT_OPEN_def FAILED_def split: if_splits)

lemma CreateAk_ready:
  assumes "CreateAk api p w = Some (hr, p', w')" and "\<not> FAILED hr"
  shows "tc_context (kp_tpm p') \<noteq> 0" "ekHandle p' \<noteq> 0" "akHandle p' \<noteq> 0" "akPublicArea p' \<noteq> []"
    "persistentHandle p' = persistentHandle p"
proof -
  obtain p0 w0 where f: "FlushTransients api p w = (p0, w0)" by (metis prod.exhaust)
  obtain r w1 where c: "CreateEk api (kp_tpm p0) w0 = Some (r, w1)"
    using assms(1) f by (auto simp: CreateAk_def split: bind_splits)
  have e: "FAILED E_FAIL" by (simp add: FAILED_def)
  have ok: "\<not> FAILED (hr_of r)" "out_of 0 r \<noteq> 0"
    using assms f c e by (auto simp: CreateAk_def Let_def split: if_splits)
  define p2 where "p2 = p0\<lparr>akPublicArea := [], ekHandle := out_of 0 r\<rparr>"
  have l: "CreateAk_load api p2 w1 = Some (hr, p', w')"
    using assms(1) f c ok by (simp add: CreateAk_def p2_def)
  obtain q w2 where q: "CreateAndLoadAk api (kp_tpm p2) TPM_RH_OWNER w1 = Some (q, w2)"
    using l by (auto simp: CreateAk_load_def split: bind_splits)
  have "p' = p2\<lparr>akHandle := fst (out_of (0, []) q), akPublicArea := snd (out_of (0, []) q)\<rparr>
      \<and> fst (out_of (0, []) q) \<noteq> 0 \<and> snd (out_of (0, []) q) \<noteq> []"
    using l q assms(2) e by (auto simp: CreateAk_load_def Let_def split: if_splits prod.splits)
  then show "tc_context (kp_tpm p') \<noteq> 0" "ekHandle p' \<noteq> 0" "akHandle p' \<noteq> 0" "akPublicArea p' \<noteq> []"
    "persistentHandle p' = persistentHandle p"
    using ok CreateEk_open [OF c] FlushTransients_fields [OF f] by (simp_all add: p2_def)
qed

definition terminated :: "c_buffer \<Rightarrow> bool" where
  "terminated b \<longleftrightarrow> (case b of None \<Rightarrow> True | Some (a, t) \<Rightarrow> a \<noteq> 0 \<and> t \<noteq> [] \<and> last t = CHR 0x00)"

lemma terminated_None [simp]: "terminated None"
  by (simp add: terminated_def)

lemma malloc_text_terminated: "malloc_text api json w = (b, w') \<Longrightarrow> terminated b"
  by (auto simp: malloc_text_def terminated_def split: prod.splits if_splits)

text \<open>What a call that emits a text reports: the text with success, null with any error.\<close>

definition reports :: "root_herald_status \<Rightarrow> c_buffer option \<Rightarrow> bool" where
  "reports st out \<longleftrightarrow> (case out of None \<Rightarrow> False | Some b \<Rightarrow> terminated b \<and> (b \<noteq> None \<longleftrightarrow> st = ROOTHERALD_OK))"

lemma reports_error [simp]: "st \<noteq> ROOTHERALD_OK \<Longrightarrow> reports st (Some None)"
  by (simp add: reports_def terminated_def)

definition begin_errors :: "root_herald_status set" where
  "begin_errors = {ROOTHERALD_ERR_INVALID_ARG, ROOTHERALD_ERR_ELEVATION_REQUIRED, ROOTHERALD_ERR_EK_READ_FAILED,
     ROOTHERALD_ERR_TPM_UNAVAILABLE, ROOTHERALD_ERR_AK_FAILED, ROOTHERALD_ERR_INTERNAL}"

definition complete_ends :: "root_herald_status set" where
  "complete_ends = {ROOTHERALD_OK, ROOTHERALD_ERR_ACTIVATION_FAILED, ROOTHERALD_ERR_AK_FAILED, ROOTHERALD_ERR_INTERNAL}"

definition evidence_statuses :: "root_herald_status set" where
  "evidence_statuses = {ROOTHERALD_OK, ROOTHERALD_ERR_INVALID_ARG, ROOTHERALD_ERR_NOT_ENROLLED,
     ROOTHERALD_ERR_AK_FAILED, ROOTHERALD_ERR_TPM_UNAVAILABLE, ROOTHERALD_ERR_QUOTE_FAILED, ROOTHERALD_ERR_INTERNAL}"

definition posture_statuses :: "root_herald_status set" where
  "posture_statuses = {ROOTHERALD_OK, ROOTHERALD_ERR_INVALID_ARG}"

lemma EnrollBegin_emit_outcome:
  assumes "EnrollBegin_emit win ek p g w = (st, out, g', w')" and "provider_ready p"
  shows "reports st out \<and> (st = ROOTHERALD_OK \<and> g' = Some p \<or> st = ROOTHERALD_ERR_INTERNAL \<and> g' = g)"
  using assms
  by (auto simp: EnrollBegin_emit_def Let_def GetAkPublicArea_def provider_ready_def reports_def
      dest: malloc_text_terminated split: if_splits prod.splits option.splits)

lemma EnrollBegin_outcome:
  assumes "RootHeraldEnrollBegin win (Some b) g w = Some (st, out, g', w')"
  shows "reports st out \<and> (st = ROOTHERALD_OK \<and> pred_option provider_ready g' \<and> g' \<noteq> None
      \<or> st \<in> begin_errors \<and> g' = g)"
proof -
  obtain elevated w1 where e: "IsProcessElevated win w = (elevated, w1)" by (metis prod.exhaust)
  show ?thesis
  proof (cases elevated)
    case False
    then show ?thesis using assms e by (auto simp: RootHeraldEnrollBegin_def begin_errors_def)
  next
    case True
    then obtain ek w2 where ek: "GatherEkEnrollData win w1 = Some (ek, w2)"
      using assms e by (auto simp: RootHeraldEnrollBegin_def split: bind_splits)
    show ?thesis
    proof (cases ek)
      case None
      then show ?thesis using assms e True ek by (auto simp: RootHeraldEnrollBegin_def begin_errors_def)
    next
      case (Some data)
      then have k: "EnrollBegin_key win data g w2 = Some (st, out, g', w')"
        using assms e True ek by (simp add: RootHeraldEnrollBegin_def)
      obtain hr p w3 where o: "kp_Open (w_tbs win) (new_TbsKeyProvider TBS_AK_PERSISTENT_HANDLE) w2 = (hr, p, w3)"
        by (metis prod_cases3)
      show ?thesis
      proof (cases "FAILED hr")
        case True
        then show ?thesis using k o by (auto simp: EnrollBegin_key_def begin_errors_def)
      next
        case False
        then obtain hr2 q w4 where c: "CreateAk (w_tbs win) p w3 = Some (hr2, q, w4)"
          using k o by (auto simp: EnrollBegin_key_def split: bind_splits)
        show ?thesis
        proof (cases "FAILED hr2")
          case True
          then show ?thesis using k o c False by (auto simp: EnrollBegin_key_def begin_errors_def)
        next
          case ok: False
          have "provider_ready q"
            using CreateAk_ready [OF c ok] kp_Open_fields [OF o] by (simp add: provider_ready_def new_TbsKeyProvider_def)
          moreover have "EnrollBegin_emit win data q g w4 = (st, out, g', w')"
            using k o c False ok by (simp add: EnrollBegin_key_def)
          ultimately show ?thesis using EnrollBegin_emit_outcome by (fastforce simp: begin_errors_def)
        qed
      qed
    qed
  qed
qed

lemma EnrollComplete_persist_outcome:
  "EnrollComplete_persist win d secret p w = Some (st, out, g', w') \<Longrightarrow>
   reports st out \<and> st \<in> complete_ends \<and> g' = None"
  by (auto simp: EnrollComplete_persist_def Let_def complete_ends_def reports_def
      dest: malloc_text_terminated split: if_splits prod.splits option.splits bind_splits)

lemma EnrollComplete_outcome:
  assumes "RootHeraldEnrollComplete win (Some ch) (Some b) g w = Some (st, out, g', w')"
  shows "reports st out \<and> (g = None \<and> st = ROOTHERALD_ERR_NOT_ENROLLED \<and> g' = g \<and> w' = w
     \<or> g \<noteq> None \<and> st = ROOTHERALD_ERR_INVALID_ARG \<and> g' = g \<and> w' = w
     \<or> g \<noteq> None \<and> st \<in> complete_ends \<and> g' = None)"
proof (cases g)
  case None
  then show ?thesis using assms by (auto simp: RootHeraldEnrollComplete_def)
next
  case (Some p)
  then show ?thesis
    using assms EnrollComplete_persist_outcome
    by (auto simp: RootHeraldEnrollComplete_def Let_def complete_ends_def
        split: if_splits bind_splits prod.splits) (fastforce simp: complete_ends_def)+
qed

lemma CollectEvidence_quote_status:
  "CollectEvidence_quote win tpm h nonce w = Some ((st, ev, reason), w') \<Longrightarrow>
   st \<in> {ROOTHERALD_OK, ROOTHERALD_ERR_QUOTE_FAILED}"
  by (auto simp: CollectEvidence_quote_def Let_def split: if_splits option.splits prod.splits bind_splits)

lemma CollectEvidence_enrolled_status:
  assumes "CollectEvidence_enrolled win nonce p w = Some ((st, ev, reason), w')"
  shows "st \<in> evidence_statuses - {ROOTHERALD_ERR_NOT_ENROLLED, ROOTHERALD_ERR_INTERNAL}"
  using assms
  by (auto simp: CollectEvidence_enrolled_def Let_def evidence_statuses_def dest!: CollectEvidence_quote_status
      split: if_splits prod.splits bind_splits)

lemma CollectEvidenceFields_status:
  "CollectEvidenceFields win nonce w = Some ((st, ev, reason), w') \<Longrightarrow> st \<in> evidence_statuses"
  by (auto simp: CollectEvidenceFields_def split: option.splits bind_splits
      dest!: CollectEvidence_enrolled_status) (simp add: evidence_statuses_def)

lemma CollectEvidence_outcome:
  assumes "RootHeraldCollectEvidence win (Some n) (Some b) w = Some (st, out, w')"
  shows "reports st out \<and> st \<in> evidence_statuses"
proof -
  have "ROOTHERALD_OK \<in> evidence_statuses" "ROOTHERALD_ERR_INTERNAL \<in> evidence_statuses"
    by (simp_all add: evidence_statuses_def)
  then show ?thesis
    using assms
    by (auto simp: RootHeraldCollectEvidence_def Let_def reports_def
        dest: CollectEvidenceFields_status malloc_text_terminated
        split: if_splits option.splits prod.splits bind_splits)
qed

lemma CollectPosture_outcome:
  "RootHeraldClient_CollectPosture win c out w = Some (st, out', w') \<Longrightarrow> st \<in> posture_statuses"
  by (auto simp: RootHeraldClient_CollectPosture_def RootHeraldCollectLocalPosture_def with_lock_def Let_def
      posture_statuses_def split: if_splits prod.splits bind_splits)

section \<open>The enrollment protocol\<close>

datatype phase = Idle | In_Flight

datatype leg = Begin_Leg | Complete_Leg | Evidence_Call | Posture_Call | Free_Call

text \<open>
  The phase after a call that returned a status; \<open>None\<close> is a status the protocol does not allow
  there. A first leg that succeeds replaces what was in flight, one that fails keeps it; a second leg
  consumes it unless its arguments were wrong.
\<close>

fun protocol_next :: "phase \<Rightarrow> leg \<Rightarrow> root_herald_status \<Rightarrow> phase option" where
  "protocol_next ph Begin_Leg st =
     (if st = ROOTHERALD_OK then Some In_Flight else if st \<in> begin_errors then Some ph else None)"
| "protocol_next ph Complete_Leg st =
     (if st = ROOTHERALD_ERR_INVALID_ARG then Some ph
      else if ph = Idle then (if st = ROOTHERALD_ERR_NOT_ENROLLED then Some Idle else None)
      else if st \<in> complete_ends then Some Idle else None)"
| "protocol_next ph Evidence_Call st = (if st \<in> evidence_statuses then Some ph else None)"
| "protocol_next ph Posture_Call st = (if st \<in> posture_statuses then Some ph else None)"
| "protocol_next ph Free_Call st = (if st = ROOTHERALD_OK then Some ph else None)"

fun protocol_run :: "phase \<Rightarrow> (leg \<times> root_herald_status) list \<Rightarrow> phase option" where
  "protocol_run ph [] = Some ph"
| "protocol_run ph ((leg, st) # rest) = do { ph \<leftarrow> protocol_next ph leg st; protocol_run ph rest }"

fun leg_of :: "client_call \<Rightarrow> leg" where
  "leg_of (CallEnrollBegin c out) = Begin_Leg"
| "leg_of (CallEnrollComplete c ch out) = Complete_Leg"
| "leg_of (CallCollectEvidence n out) = Evidence_Call"
| "leg_of (CallCollectPosture c out) = Posture_Call"
| "leg_of (CallFreeEvidence b) = Free_Call"

definition abstract_trace :: "(client_call \<times> call_result) list \<Rightarrow> (leg \<times> root_herald_status) list" where
  "abstract_trace trace = map (\<lambda>(call, st, out). (leg_of call, st)) trace"

definition phase_of :: "enroll_provider \<Rightarrow> phase" where
  "phase_of g = (if g = None then Idle else In_Flight)"

lemma protocol_run_append:
  "protocol_run ph (xs @ ys) = do { ph \<leftarrow> protocol_run ph xs; protocol_run ph ys }"
  by (induction ph xs rule: protocol_run.induct) (auto split: bind_split)

text \<open>One call against one step of the protocol, with what it leaves in flight.\<close>

definition step_ok :: "enroll_provider \<Rightarrow> client_call \<Rightarrow> call_result \<Rightarrow> enroll_provider \<Rightarrow> bool" where
  "step_ok g call r g' \<longleftrightarrow> protocol_next (phase_of g) (leg_of call) (fst r) = Some (phase_of g')
     \<and> (pred_option provider_ready g \<longrightarrow> pred_option provider_ready g')"

lemma begin_step:
  assumes "RootHeraldClient_EnrollBegin win c out g w = Some (st, out', g', w')"
  shows "step_ok g (CallEnrollBegin c out) (st, out') g'"
proof (cases "out = None \<or> c = None")
  case True
  then have "st = ROOTHERALD_ERR_INVALID_ARG \<and> g' = g"
    using assms by (auto simp: RootHeraldClient_EnrollBegin_def split: if_splits)
  then show ?thesis by (simp add: step_ok_def begin_errors_def)
next
  case False
  then obtain b d where "out = Some b" "c = Some d" by auto
  then have "RootHeraldEnrollBegin win (Some None) g w = Some (st, out', g', w')"
    using assms by (simp add: facade_passes)
  moreover have "ROOTHERALD_OK \<notin> begin_errors" by (simp add: begin_errors_def)
  ultimately show ?thesis using EnrollBegin_outcome [of win None g w st out' g' w'] by (auto simp: step_ok_def phase_of_def)
qed

lemma complete_step:
  assumes "RootHeraldClient_EnrollComplete win c ch out g w = Some (st, out', g', w')"
  shows "step_ok g (CallEnrollComplete c ch out) (st, out') g'"
proof (cases "out = None \<or> c = None \<or> ch = None \<or> c_str (the ch) = []")
  case True
  then show ?thesis
    using assms by (auto simp: RootHeraldClient_EnrollComplete_def step_ok_def split: if_splits)
next
  case False
  then obtain b d e where "out = Some b" "c = Some d" "ch = Some e" "c_str e \<noteq> []" by auto
  then have "RootHeraldEnrollComplete win (Some e) (Some None) g w = Some (st, out', g', w')"
    using assms by (simp add: facade_passes)
  from EnrollComplete_outcome [OF this] show ?thesis
    by (auto simp: step_ok_def phase_of_def complete_ends_def)
qed

lemma evidence_step:
  assumes "RootHeraldClient_CollectEvidence win n out w = Some (st, out', w')"
  shows "st \<in> evidence_statuses"
proof (cases "out = None \<or> n = None \<or> c_str (the n) = []")
  case True
  then show ?thesis
    using assms by (auto simp: RootHeraldClient_CollectEvidence_def evidence_statuses_def split: if_splits)
next
  case False
  then obtain b e where "out = Some b" "n = Some e" "c_str e \<noteq> []" by auto
  then have "RootHeraldCollectEvidence win (Some e) (Some None) w = Some (st, out', w')"
    using assms by (simp add: facade_passes)
  from CollectEvidence_outcome [OF this] show ?thesis ..
qed

lemma client_step_ok:
  assumes "client_step win (g, w) call r (g', w')"
  shows "step_ok g call r g'"
proof -
  have quiet: "step_ok g call r g" if "leg_of call = Evidence_Call \<and> fst r \<in> evidence_statuses
      \<or> leg_of call = Posture_Call \<and> fst r \<in> posture_statuses \<or> leg_of call = Free_Call \<and> fst r = ROOTHERALD_OK"
    for call :: client_call and r :: call_result and g :: enroll_provider
    using that by (auto simp: step_ok_def)
  show ?thesis
    using assms by (rule client_stepE)
      (auto intro: begin_step complete_step dest: evidence_step CollectPosture_outcome intro!: quiet)
qed

lemma client_run_refines:
  assumes "client_run win s trace s'" and "fst s = None"
  shows "protocol_run Idle (abstract_trace trace) = Some (phase_of (fst s')) \<and> pred_option provider_ready (fst s')"
  using assms
proof (induction rule: client_run.induct)
  case (run_nil s)
  then show ?case by (simp add: abstract_trace_def phase_of_def)
next
  case (run_snoc s trace s' call r s'')
  obtain g w where s': "s' = (g, w)" by (cases s')
  obtain g' w' where s'': "s'' = (g', w')" by (cases s'')
  have "step_ok g call r g'" using run_snoc.hyps(2) by (auto simp: s' s'' dest: client_step_ok)
  then show ?case
    using run_snoc by (auto simp: s' s'' abstract_trace_def protocol_run_append step_ok_def split: prod.splits)
qed

section \<open>Error reports\<close>

fun out_argument :: "client_call \<Rightarrow> c_buffer option" where
  "out_argument (CallEnrollBegin c out) = out"
| "out_argument (CallEnrollComplete c ch out) = out"
| "out_argument (CallCollectEvidence n out) = out"
| "out_argument (CallCollectPosture c out) = None"
| "out_argument (CallFreeEvidence b) = None"

definition emits_text :: "client_call \<Rightarrow> bool" where
  "emits_text call \<longleftrightarrow> leg_of call \<in> {Begin_Leg, Complete_Leg, Evidence_Call}"

text \<open>A missing out-pointer is refused without an effect; a given one is null exactly on an error.\<close>

definition reports_properly :: "enroll_provider \<times> 'w \<Rightarrow> client_call \<Rightarrow> call_result \<Rightarrow> enroll_provider \<times> 'w \<Rightarrow> bool" where
  "reports_properly s call r s' \<longleftrightarrow>
     (if out_argument call = None then r = (ROOTHERALD_ERR_INVALID_ARG, None) \<and> s' = s
      else reports (fst r) (snd r))"

lemma begin_reports:
  assumes "RootHeraldClient_EnrollBegin win c out g w = Some (st, out', g', w')"
  shows "reports_properly (g, w) (CallEnrollBegin c out) (st, out') (g', w')"
proof (cases out)
  case None
  then show ?thesis using assms by (simp add: RootHeraldClient_EnrollBegin_def reports_properly_def)
next
  case (Some b)
  show ?thesis
  proof (cases c)
    case None
    then show ?thesis using assms Some by (auto simp: RootHeraldClient_EnrollBegin_def reports_properly_def)
  next
    case c: (Some d)
    then have "RootHeraldEnrollBegin win (Some None) g w = Some (st, out', g', w')"
      using assms Some by (simp add: facade_passes)
    from EnrollBegin_outcome [OF this] show ?thesis by (simp add: reports_properly_def Some)
  qed
qed

lemma complete_reports:
  assumes "RootHeraldClient_EnrollComplete win c ch out g w = Some (st, out', g', w')"
  shows "reports_properly (g, w) (CallEnrollComplete c ch out) (st, out') (g', w')"
proof (cases out)
  case None
  then show ?thesis using assms by (simp add: RootHeraldClient_EnrollComplete_def reports_properly_def)
next
  case (Some b)
  show ?thesis
  proof (cases "c = None \<or> ch = None \<or> c_str (the ch) = []")
    case True
    then show ?thesis
      using assms Some by (auto simp: RootHeraldClient_EnrollComplete_def reports_properly_def split: if_splits)
  next
    case False
    then obtain d e where "c = Some d" "ch = Some e" "c_str e \<noteq> []" by auto
    then have "RootHeraldEnrollComplete win (Some e) (Some None) g w = Some (st, out', g', w')"
      using assms Some by (simp add: facade_passes)
    from EnrollComplete_outcome [OF this] show ?thesis by (simp add: reports_properly_def Some)
  qed
qed

lemma evidence_reports:
  assumes "RootHeraldClient_CollectEvidence win n out w = Some (st, out', w')"
  shows "reports_properly (g, w) (CallCollectEvidence n out) (st, out') (g, w')"
proof (cases out)
  case None
  then show ?thesis using assms by (simp add: RootHeraldClient_CollectEvidence_def reports_properly_def)
next
  case (Some b)
  show ?thesis
  proof (cases "n = None \<or> c_str (the n) = []")
    case True
    then show ?thesis
      using assms Some by (auto simp: RootHeraldClient_CollectEvidence_def reports_properly_def split: if_splits)
  next
    case False
    then obtain e where "n = Some e" "c_str e \<noteq> []" by auto
    then have "RootHeraldCollectEvidence win (Some e) (Some None) w = Some (st, out', w')"
      using assms Some by (simp add: facade_passes)
    from CollectEvidence_outcome [OF this] show ?thesis by (simp add: reports_properly_def Some)
  qed
qed

lemma client_step_reports:
  assumes "client_step win s call r s'" and "emits_text call"
  shows "reports_properly s call r s'"
  using assms by (auto elim!: client_stepE simp: emits_text_def dest: begin_reports complete_reports evidence_reports)

end
