(* ===== verification/Client_Ledger.thy ===== *)
theory Client_Ledger
  imports Client_Machine
begin

text \<open>
  The calls on a machine with a transcript: the TPM interface records every command with its response,
  the other interfaces pass the transcript on. The ledger of created and flushed objects is balanced
  by what the in-flight enrollment holds, after any calls.
\<close>

section \<open>A recorded machine\<close>

definition lift0 :: "('w \<Rightarrow> 'w) \<Rightarrow> 'w \<times> 'l \<Rightarrow> 'w \<times> 'l" where
  "lift0 f s = (f (fst s), snd s)"

definition lift1 :: "('w \<Rightarrow> 'a \<times> 'w) \<Rightarrow> 'w \<times> 'l \<Rightarrow> 'a \<times> 'w \<times> 'l" where
  "lift1 f s = (let (a, w) = f (fst s) in (a, w, snd s))"

definition lift2 :: "('w \<Rightarrow> 'a \<times> 'b \<times> 'w) \<Rightarrow> 'w \<times> 'l \<Rightarrow> 'a \<times> 'b \<times> 'w \<times> 'l" where
  "lift2 f s = (let (a, b, w) = f (fst s) in (a, b, w, snd s))"

definition lift3 :: "('w \<Rightarrow> 'a \<times> 'b \<times> 'c \<times> 'w) \<Rightarrow> 'w \<times> 'l \<Rightarrow> 'a \<times> 'b \<times> 'c \<times> 'w \<times> 'l" where
  "lift3 f s = (let (a, b, c, w) = f (fst s) in (a, b, c, w, snd s))"

definition lift4 :: "('w \<Rightarrow> 'a \<times> 'b \<times> 'c \<times> 'd \<times> 'w) \<Rightarrow> 'w \<times> 'l \<Rightarrow> 'a \<times> 'b \<times> 'c \<times> 'd \<times> 'w \<times> 'l" where
  "lift4 f s = (let (a, b, c, d, w) = f (fst s) in (a, b, c, d, w, snd s))"

lemmas lift_defs = lift0_def lift1_def lift2_def lift3_def lift4_def

definition lift_reg :: "'w reg_api \<Rightarrow> ('w \<times> 'l) reg_api" where
  "lift_reg api = \<lparr>
     RegOpenKeyEx = (\<lambda>p n. lift2 (RegOpenKeyEx api p n)),
     RegQueryInfoKey = (\<lambda>h. lift3 (RegQueryInfoKey api h)),
     RegEnumKeyEx = (\<lambda>h i n. lift2 (RegEnumKeyEx api h i n)),
     RegQueryValueEx = (\<lambda>h v n. lift4 (RegQueryValueEx api h v n)),
     RegCloseKey = (\<lambda>h. lift0 (RegCloseKey api h))\<rparr>"

definition lift_ncrypt :: "'w ncrypt_api \<Rightarrow> ('w \<times> 'l) ncrypt_api" where
  "lift_ncrypt api = \<lparr>
     NCryptOpenStorageProvider = (\<lambda>n. lift2 (NCryptOpenStorageProvider api n)),
     NCryptGetProperty = (\<lambda>h n s. lift3 (NCryptGetProperty api h n s)),
     NCryptFreeObject = (\<lambda>h. lift0 (NCryptFreeObject api h))\<rparr>"

definition lift_bcrypt :: "'w bcrypt_api \<Rightarrow> ('w \<times> 'l) bcrypt_api" where
  "lift_bcrypt api = \<lparr>
     BCryptOpenAlgorithmProvider = (\<lambda>a. lift2 (BCryptOpenAlgorithmProvider api a)),
     BCryptGetHashLength = (\<lambda>h. lift2 (BCryptGetHashLength api h)),
     BCryptCreateHash = (\<lambda>h. lift2 (BCryptCreateHash api h)),
     BCryptHashData = (\<lambda>h d. lift1 (BCryptHashData api h d)),
     BCryptFinishHash = (\<lambda>h n. lift2 (BCryptFinishHash api h n)),
     BCryptDestroyHash = (\<lambda>h. lift0 (BCryptDestroyHash api h)),
     BCryptCloseAlgorithmProvider = (\<lambda>h. lift0 (BCryptCloseAlgorithmProvider api h))\<rparr>"

definition lift_http :: "'w winhttp_api \<Rightarrow> ('w \<times> 'l) winhttp_api" where
  "lift_http api = \<lparr>
     MultiByteToWideChar = MultiByteToWideChar api,
     WinHttpCrackUrl = WinHttpCrackUrl api,
     WinHttpOpen = (\<lambda>a. lift1 (WinHttpOpen api a)),
     WinHttpConnect = (\<lambda>s h p. lift1 (WinHttpConnect api s h p)),
     WinHttpOpenRequest = (\<lambda>c v p b. lift1 (WinHttpOpenRequest api c v p b)),
     WinHttpAddRequestHeaders = (\<lambda>h t. lift0 (WinHttpAddRequestHeaders api h t)),
     WinHttpSendRequest = (\<lambda>h b. lift1 (WinHttpSendRequest api h b)),
     WinHttpReceiveResponse = (\<lambda>h. lift1 (WinHttpReceiveResponse api h)),
     WinHttpQueryStatusCode = (\<lambda>h. lift1 (WinHttpQueryStatusCode api h)),
     WinHttpQueryDataAvailable = (\<lambda>h. lift2 (WinHttpQueryDataAvailable api h)),
     WinHttpReadData = (\<lambda>h n. lift2 (WinHttpReadData api h n)),
     WinHttpCloseHandle = (\<lambda>h. lift0 (WinHttpCloseHandle api h))\<rparr>"

definition lift_process :: "'w process_api \<Rightarrow> ('w \<times> 'l) process_api" where
  "lift_process api = \<lparr>
     OpenProcessToken = lift2 (OpenProcessToken api),
     GetTokenElevation = (\<lambda>h. lift2 (GetTokenElevation api h)),
     CloseHandle = (\<lambda>h. lift0 (CloseHandle api h)),
     c_malloc = (\<lambda>n. lift1 (c_malloc api n)),
     c_free = (\<lambda>p. lift0 (c_free api p))\<rparr>"

definition recorded :: "('c, 'w) windows \<Rightarrow> ('c, 'w \<times> (bytes \<times> bytes) list) windows" where
  "recorded win = \<lparr>w_tbs = transcript (w_tbs win), w_ncrypt = lift_ncrypt (w_ncrypt win),
     w_reg = lift_reg (w_reg win), w_cert = w_cert win, w_bcrypt = lift_bcrypt (w_bcrypt win),
     w_strings = w_strings win, w_http = lift_http (w_http win), w_process = lift_process (w_process win)\<rparr>"

text \<open>The balance of the transcript, with \<open>others\<close> held by someone.\<close>

definition ledger :: "u32 multiset \<Rightarrow> 'w \<times> (bytes \<times> bytes) list \<Rightarrow> bool" where
  "ledger others s \<longleftrightarrow> objects_created (snd s) = objects_flushed (snd s) + others"

lemma neutral_submit:
  assumes "Tbsip_Submit_Command (transcript api) h (patch_command_size cmd) w = (r, resp, n, w')"
    and "neutral_command cmd" and "ledger others w"
  shows "ledger others w'"
proof -
  obtain v l where w: "w = (v, l)" by (cases w)
  obtain code where c: "ReadU32 (patch_command_size cmd) 6 = Some code" "code \<noteq> TPM2_CC_CreatePrimary"
    "code \<noteq> TPM2_CC_StartAuthSession" "code \<noteq> TPM2_CC_FlushContext"
    using assms(2) by (auto simp: neutral_command_def)
  then have "created_by (patch_command_size cmd, x) = {#} \<and> flushed_by (patch_command_size cmd, x) = {#}" for x
    using neutral_entry by blast
  then show ?thesis
    using assms(1,3) by (auto simp: w transcript_def ledger_def ledger_entry split: prod.splits)
qed

interpretation quiet: calm_windows "recorded win" "ledger others"
  for win :: "('c, 'w) windows" and others :: "u32 multiset"
proof (unfold_locales, goal_cases)
  case submit: (32 h cmd w r resp n w')
  then show ?case by (auto simp: recorded_def dest: neutral_submit)
qed (auto simp: recorded_def lift_reg_def lift_ncrypt_def lift_bcrypt_def lift_http_def lift_process_def
    lift_defs transcript_def ledger_def split: prod.splits)

section \<open>The balance of the calls\<close>

definition in_flight :: "enroll_provider \<Rightarrow> u32 multiset" where
  "in_flight g = (case g of None \<Rightarrow> {#} | Some p \<Rightarrow> held p)"

definition enroll_balanced :: "enroll_provider \<Rightarrow> 'w \<times> (bytes \<times> bytes) list \<Rightarrow> bool" where
  "enroll_balanced g s \<longleftrightarrow> ledger (in_flight g) s
     \<and> pred_option (\<lambda>p. tc_context (kp_tpm p) = 0 \<longrightarrow> held p = {#}) g"

text \<open>The balance of a provider is the ledger with what it holds.\<close>

lemma key_balanced_ledger:
  "key_balanced others (p, s) \<longleftrightarrow> ledger (others + held p) s \<and> (tc_context (kp_tpm p) = 0 \<longrightarrow> held p = {#})"
  by (simp add: key_balanced_def ledger_def)

lemma Destroy_ledger:
  assumes "key_balanced others (p, s)"
  shows "ledger others (kp_Destroy (transcript api) p s)"
proof -
  obtain w l w' l' where s: "s = (w, l)" and d: "kp_Destroy (transcript api) p (w, l) = (w', l')" by (metis prod.exhaust)
  show ?thesis using Destroy_balanced [OF assms [unfolded s] d] by (simp add: s d ledger_def)
qed

lemma DeleteAk_key:
  assumes "key_balanced others (p, s)" and "DeleteAk (transcript api) p s = (hr, p', s')"
  shows "key_balanced others (p', s')"
proof -
  obtain w l w' l' where s: "s = (w, l)" "s' = (w', l')" by (metis prod.exhaust)
  show ?thesis
    using assms FlushTransients_balanced [of others p w l api p' w' l']
    by (auto simp: DeleteAk_def s split: prod.splits)
qed

lemma CreateAk_key:
  assumes "key_balanced others (p, s)" and "CreateAk (transcript api) p s = Some (hr, p', s')"
  shows "key_balanced others (p', s')"
  using assms CreateAk_balanced [of others p "fst s" "snd s" api hr p' "fst s'" "snd s'"] by simp

lemma Open_key:
  assumes "ledger others s" and "kp_Open (transcript api) (new_TbsKeyProvider h) s = (hr, p, s')"
  shows "key_balanced others (p, s')"
proof -
  obtain w l w' l' where s: "s = (w, l)" "s' = (w', l')" by (metis prod.exhaust)
  then show ?thesis
    using Open_balanced [where others = others] key_balanced_new [of l others h w] assms by (auto simp: ledger_def)
qed

lemma drop_provider_ledger:
  assumes "key_balanced (in_flight g) (p, s)" and "pred_option (\<lambda>q. tc_context (kp_tpm q) = 0 \<longrightarrow> held q = {#}) g"
  shows "enroll_balanced (Some p) (drop_provider (transcript api) g s)"
proof (cases g)
  case None
  then show ?thesis
    using assms by (simp add: enroll_balanced_def key_balanced_ledger in_flight_def drop_provider_def)
next
  case (Some q)
  then have "key_balanced (held p) (q, s)"
    using assms by (simp add: key_balanced_ledger in_flight_def add.commute)
  from Destroy_ledger [OF this, of api] show ?thesis
    using assms Some by (simp add: enroll_balanced_def key_balanced_ledger in_flight_def drop_provider_def)
qed

lemma EnrollBegin_emit_balanced:
  assumes "key_balanced (in_flight g) (p, s)" and g: "pred_option (\<lambda>q. tc_context (kp_tpm q) = 0 \<longrightarrow> held q = {#}) g"
    and run: "EnrollBegin_emit (recorded win) ek p g s = (st, out, g', s')"
  shows "enroll_balanced g' s'"
proof -
  have tbs: "w_tbs (recorded win) = transcript (w_tbs win)" by (simp add: recorded_def)
  have dropped: "enroll_balanced g (kp_Destroy (transcript (w_tbs win)) q v)"
    if "key_balanced (in_flight g) (p, u)" "DeleteAk (transcript (w_tbs win)) p u = (hr, q, v)" for u hr q v
    using Destroy_ledger [OF DeleteAk_key [OF that]] g by (simp add: enroll_balanced_def)
  obtain b s1 where m: "malloc_text (w_process (recorded win))
      (JsonBuild (BuildEnrollFields (w_strings (recorded win)) ek (GetAkPublicArea p))) s = (b, s1)"
    by (metis prod.exhaust)
  have k: "key_balanced (in_flight g) (p, s1)"
    using assms(1) quiet.process.malloc_text [OF m] by (simp add: key_balanced_ledger)
  show ?thesis
    using run m dropped [OF assms(1)] dropped [OF k] drop_provider_ledger [OF k g, of "w_tbs win"]
    by (auto simp: EnrollBegin_emit_def tbs Let_def split: if_splits option.splits prod.splits)
qed

lemma EnrollBegin_balanced:
  assumes "enroll_balanced g s" and run: "RootHeraldEnrollBegin (recorded win) out g s = Some (st, out', g', s')"
  shows "enroll_balanced g' s'"
proof -
  have tbs: "w_tbs (recorded win) = transcript (w_tbs win)" by (simp add: recorded_def)
  note l = assms(1) [unfolded enroll_balanced_def, THEN conjunct1]
    and g = assms(1) [unfolded enroll_balanced_def, THEN conjunct2]
  have same: "enroll_balanced g v" if "ledger (in_flight g) v" for v
    using that g by (simp add: enroll_balanced_def)
  obtain e s1 where e: "IsProcessElevated (recorded win) s = (e, s1)" by (metis prod.exhaust)
  have l1: "ledger (in_flight g) s1" using quiet.IsProcessElevated [OF e l] .
  show ?thesis
  proof (cases "out = None \<or> \<not> e")
    case True
    then show ?thesis using run e same [OF l1] assms(1) by (auto simp: RootHeraldEnrollBegin_def split: if_splits)
  next
    case False
    then obtain ek s2 where ek: "GatherEkEnrollData (recorded win) s1 = Some (ek, s2)"
      using run e by (auto simp: RootHeraldEnrollBegin_def split: bind_splits)
    have l2: "ledger (in_flight g) s2" using quiet.GatherEkEnrollData [OF ek l1] .
    show ?thesis
    proof (cases ek)
      case None
      then show ?thesis using run e ek False same [OF l2] by (auto simp: RootHeraldEnrollBegin_def split: if_splits)
    next
      case (Some data)
      then have key: "EnrollBegin_key (recorded win) data g s2 = Some (st, out', g', s')"
        using run e ek False by (auto simp: RootHeraldEnrollBegin_def split: if_splits)
      obtain hr p s3 where o: "kp_Open (transcript (w_tbs win)) (new_TbsKeyProvider TBS_AK_PERSISTENT_HANDLE) s2
          = (hr, p, s3)" by (metis prod_cases3)
      have k3: "key_balanced (in_flight g) (p, s3)" using Open_key [OF l2 o] .
      show ?thesis
      proof (cases "FAILED hr")
        case True
        then show ?thesis
          using key o same [OF Destroy_ledger [OF k3, of "w_tbs win"]] by (auto simp: EnrollBegin_key_def tbs)
      next
        case False
        then obtain hr2 q s4 where c: "CreateAk (transcript (w_tbs win)) p s3 = Some (hr2, q, s4)"
          using key o by (auto simp: EnrollBegin_key_def tbs split: bind_splits)
        have k4: "key_balanced (in_flight g) (q, s4)" using CreateAk_key [OF k3 c] .
        show ?thesis
          using key o False c same [OF Destroy_ledger [OF k4, of "w_tbs win"]]
            EnrollBegin_emit_balanced [OF k4 g, of win data st out' g' s']
          by (auto simp: EnrollBegin_key_def tbs split: if_splits)
      qed
    qed
  qed
qed

lemma EnrollComplete_persist_balanced:
  assumes "key_balanced {#} (p, s)"
    and run: "EnrollComplete_persist (recorded win) d secret p s = Some (st, out', g', s')"
  shows "enroll_balanced g' s'"
proof -
  have tbs: "w_tbs (recorded win) = transcript (w_tbs win)" by (simp add: recorded_def)
  obtain hr q s1 where p: "PersistAk (transcript (w_tbs win)) p s = Some (hr, q, s1)"
    using run by (auto simp: EnrollComplete_persist_def tbs split: bind_splits)
  have "key_balanced {#} (q, s1)"
    using PersistAk_balanced [of "{#}" p "fst s" "snd s" "w_tbs win" hr q "fst s1" "snd s1"] assms(1) p by simp
  then have l: "ledger {#} (kp_Destroy (transcript (w_tbs win)) q s1)" by (rule Destroy_ledger)
  show ?thesis
    using run p l
    by (auto simp: EnrollComplete_persist_def tbs Let_def enroll_balanced_def in_flight_def
        dest: quiet.process.malloc_text split: if_splits prod.splits option.splits)
qed

lemma EnrollComplete_balanced:
  assumes "enroll_balanced g s"
    and run: "RootHeraldEnrollComplete (recorded win) ch out g s = Some (st, out', g', s')"
  shows "enroll_balanced g' s'"
proof (cases "g' = g \<and> s' = s")
  case True
  then show ?thesis using assms(1) by simp
next
  case False
  have tbs: "w_tbs (recorded win) = transcript (w_tbs win)" by (simp add: recorded_def)
  obtain c b p where args: "ch = Some c" "out = Some b" "g = Some p"
    using run False by (auto simp: RootHeraldEnrollComplete_def split: option.splits if_splits)
  let ?cb = "Base64Decode (w_strings win) (JsonGet (c_str c) ''credentialBlob'')"
  let ?es = "Base64Decode (w_strings win) (JsonGet (c_str c) ''encryptedSecret'')"
  have str: "w_strings (recorded win) = w_strings win" by (simp add: recorded_def)
  obtain r s1 where a: "kp_ActivateCredential (transcript (w_tbs win)) p ?cb ?es s = Some (r, s1)"
    using run False by (auto simp: RootHeraldEnrollComplete_def args tbs str Let_def split: if_splits bind_splits)
  have k: "key_balanced {#} (p, s)"
    using assms(1) by (simp add: enroll_balanced_def key_balanced_ledger in_flight_def args)
  have k1: "key_balanced {#} (p, s1)"
    using kp_ActivateCredential_balanced [of "{#}" p "fst s" "snd s" "w_tbs win" ?cb ?es r "fst s1" "snd s1"] k a
    by simp
  have fails: "enroll_balanced None (kp_Destroy (transcript (w_tbs win)) q v)"
    if "DeleteAk (transcript (w_tbs win)) p s1 = (hr, q, v)" for hr q v
    using Destroy_ledger [OF DeleteAk_key [OF k1 that]] by (simp add: enroll_balanced_def in_flight_def)
  show ?thesis
    using run False a fails EnrollComplete_persist_balanced [OF k1, of win]
    by (auto simp: RootHeraldEnrollComplete_def args tbs str Let_def split: if_splits prod.splits)
qed

lemma client_step_balanced:
  assumes "client_step (recorded win) (g, s) call r (g', s')" and "enroll_balanced g s"
  shows "enroll_balanced g' s'"
proof -
  have same: "enroll_balanced g v" if "\<And>d. ledger d s \<Longrightarrow> ledger d v" for v
    using that assms(2) by (simp add: enroll_balanced_def)
  from assms(1) show ?thesis
  proof (cases rule: client_step.cases)
    case (step_begin c out st out')
    then show ?thesis
      using assms(2) EnrollBegin_balanced [OF assms(2), of win "Some None"]
      by (auto simp: RootHeraldClient_EnrollBegin_def with_lock_def Let_def split: if_splits option.splits)
  next
    case (step_complete c ch out st out')
    then show ?thesis
      using assms(2) EnrollComplete_balanced [OF assms(2), of win ch "Some None"]
      by (auto simp: RootHeraldClient_EnrollComplete_def with_lock_def Let_def split: if_splits)
  next
    case (step_evidence n out st out')
    then have "s' = s \<or> RootHeraldCollectEvidence (recorded win) n (Some None) s = Some (st, out', s')"
      by (auto simp: RootHeraldClient_CollectEvidence_def Let_def split: if_splits)
    then show ?thesis using step_evidence assms(2) by (auto intro: same quiet.RootHeraldCollectEvidence)
  next
    case (step_posture c out st out')
    then have "s' = s \<or> RootHeraldCollectLocalPosture (recorded win) (Some zero_posture) s = Some (st, out', s')"
      by (auto simp: RootHeraldClient_CollectPosture_def with_lock_def Let_def split: if_splits)
    then show ?thesis using step_posture assms(2) by (auto intro: same quiet.RootHeraldCollectLocalPosture)
  next
    case (step_free b)
    then show ?thesis
      by (auto simp: RootHeraldClient_FreeEvidence_def intro: same quiet.process.FreeEvidence)
  qed
qed

lemma client_run_balanced:
  "client_run (recorded win) s trace s' \<Longrightarrow> enroll_balanced (fst s) (snd s) \<Longrightarrow> enroll_balanced (fst s') (snd s')"
proof (induction rule: client_run.induct)
  case (run_nil s)
  then show ?case by simp
next
  case (run_snoc s trace s' call r s'')
  then show ?case by (metis client_step_balanced prod.collapse)
qed

end
