(* ===== verification/Sample_Machine.thy ===== *)
theory Sample_Machine
  imports Client_Ledger
begin

text \<open>
  A concrete machine, on which the calls run to their end: an elevated process, a TPM that plays a list
  of responses back, a key storage provider with an endorsement key and no certificate, an empty
  registry, and a text codec that writes hexadecimal, which is Base64 text.
\<close>

definition sample_strings :: crypt_string_api where
  "sample_strings = \<lparr>
     CryptBinaryToStringA = (\<lambda>data size. (hex_render hex_lower data, of_nat (length (hex_render hex_lower data)))),
     CryptStringToBinaryA = (\<lambda>t size. (map u8_of_char t, of_nat (length t)))\<rparr>"

definition sample_process :: "'w process_api" where
  "sample_process = \<lparr>OpenProcessToken = (\<lambda>w. (True, 1, w)), GetTokenElevation = (\<lambda>_ w. (True, 1, w)),
     CloseHandle = (\<lambda>_ w. w), c_malloc = (\<lambda>n w. (4096, w)), c_free = (\<lambda>_ w. w)\<rparr>"

definition sample_ncrypt :: "'w ncrypt_api" where
  "sample_ncrypt = \<lparr>NCryptOpenStorageProvider = (\<lambda>_ w. (0, 7, w)),
     NCryptGetProperty = (\<lambda>_ n _ w. if n = ''PCP_EKPUB'' then (0, [1, 2, 3], 3, w) else (0x80090011, [], 0, w)),
     NCryptFreeObject = (\<lambda>_ w. w)\<rparr>"

definition sample_reg :: "'w reg_api" where
  "sample_reg = \<lparr>RegOpenKeyEx = (\<lambda>_ _ w. (2, 0, w)), RegQueryInfoKey = (\<lambda>_ w. (2, 0, 0, w)),
     RegEnumKeyEx = (\<lambda>_ _ _ w. (2, [], w)), RegQueryValueEx = (\<lambda>_ _ _ w. (2, 0, [], 0, w)),
     RegCloseKey = (\<lambda>_ w. w)\<rparr>"

definition sample_bcrypt :: "'w bcrypt_api" where
  "sample_bcrypt = \<lparr>BCryptOpenAlgorithmProvider = (\<lambda>_ w. (1, 0, w)), BCryptGetHashLength = (\<lambda>_ w. (1, 0, w)),
     BCryptCreateHash = (\<lambda>_ w. (1, 0, w)), BCryptHashData = (\<lambda>_ _ w. (1, w)),
     BCryptFinishHash = (\<lambda>_ _ w. (1, [], w)), BCryptDestroyHash = (\<lambda>_ w. w),
     BCryptCloseAlgorithmProvider = (\<lambda>_ w. w)\<rparr>"

definition sample_http :: "'w winhttp_api" where
  "sample_http = \<lparr>MultiByteToWideChar = (\<lambda>s. s), WinHttpCrackUrl = (\<lambda>_ _ _. None),
     WinHttpOpen = (\<lambda>_ w. (0, w)), WinHttpConnect = (\<lambda>_ _ _ w. (0, w)), WinHttpOpenRequest = (\<lambda>_ _ _ _ w. (0, w)),
     WinHttpAddRequestHeaders = (\<lambda>_ _ w. w), WinHttpSendRequest = (\<lambda>_ _ w. (False, w)),
     WinHttpReceiveResponse = (\<lambda>_ w. (False, w)), WinHttpQueryStatusCode = (\<lambda>_ w. (None, w)),
     WinHttpQueryDataAvailable = (\<lambda>_ w. (False, 0, w)), WinHttpReadData = (\<lambda>_ _ w. ([], 0, w)),
     WinHttpCloseHandle = (\<lambda>_ w. w)\<rparr>"

definition sample_machine :: "(bytes, bytes list) windows" where
  "sample_machine = \<lparr>w_tbs = scripted, w_ncrypt = sample_ncrypt, w_reg = sample_reg, w_cert = ca_api,
     w_bcrypt = sample_bcrypt, w_strings = sample_strings, w_http = sample_http, w_process = sample_process\<rparr>"

definition ek_created :: bytes where
  "ek_created = response_bytes TPM2_ST_SESSIONS 0 (u32_be 0x80000000 @ u32_be 0)"

definition ak_created :: bytes where
  "ak_created = response_bytes TPM2_ST_SESSIONS 0 (u32_be 0x80000001 @ u32_be 4 @ sized_buffer [1, 2])"

text \<open>Sixteen empty certificate indices, then the two keys; and the responses of the second leg.\<close>

definition begin_script :: "bytes list" where
  "begin_script = replicate 16 [] @ [ek_created, ak_created]"

definition complete_script :: "bytes list" where
  "complete_script = [session_response 5 [9], ok_response [], secret_response [7, 8] [0], ok_response [],
     [], ok_response [], ok_response [], ok_response []]"

definition sample_provider :: tbs_key_provider where
  "sample_provider = \<lparr>kp_tpm = \<lparr>tc_context = 1\<rparr>, persistentHandle = TBS_AK_PERSISTENT_HANDLE,
     ekHandle = 0x80000000, akHandle = 0x80000001, akPublicArea = [0, 2, 1, 2]\<rparr>"

section \<open>The TPM on the transcript\<close>

lemma sample_send:
  assumes "tc_context tc \<noteq> 0" and "length r \<le> 4096"
  shows "SendCommand (transcript scripted) tc cmd (r # rs, l) = (S_OK, r, rs, l @ [(patch_command_size cmd, r)])"
  using SendCommand_transcript [OF assms(1), of scripted cmd "r # rs" l]
    SendCommand_answered [of scripted tc cmd "r # rs" r rs] assms by simp

lemma sample_transact:
  assumes "tc_context tc \<noteq> 0" and "length r \<le> 4096"
  shows "transact (transcript scripted) tc cmd parse (r # rs, l)
    = do { x \<leftarrow> parse r; Some (x, rs, l @ [(patch_command_size cmd, r)]) }"
  by (simp add: transact_def sample_send [OF assms] FAILED_def)

lemma sample_context [simp]:
  "TpmCommands_Open (transcript scripted) new_TpmCommands s = (S_OK, \<lparr>tc_context = 1\<rparr>, s)"
  "tpm_Destroy (transcript scripted) tc s = s"
  by (cases s; simp add: TpmCommands_Open_def new_TpmCommands_def transcript_def scripted_def uh_valid_def
      TbsContextTraits_def uh_Put_def uh_Reset_def tpm_Destroy_def uh_Destroy_def)+

lemma sample_nv: "ReadNvData (transcript scripted) \<lparr>tc_context = 1\<rparr> nv ([] # rs, l)
    = Some (Inl RH_E_MALFORMED_RESPONSE, rs, l @ [(patch_command_size (NV_ReadPublic_command nv), [])])"
  by (simp add: ReadNvData_def sample_transact NV_ReadPublic_response_def on_success_def)

lemma sample_odca_stream:
  "\<exists>l'. odca_stream (transcript scripted) \<lparr>tc_context = 1\<rparr> is stream (replicate (length is) [] @ rs, l)
     = Some (stream, rs, l')"
proof (induction "is" arbitrary: l)
  case Nil
  then show ?case by simp
next
  case (Cons i "is")
  then show ?case by (simp add: sample_nv out_of_def Let_def)
qed

lemma sample_odca:
  "\<exists>l'. ReadIntelOdcaIntermediates (transcript scripted) \<lparr>tc_context = 1\<rparr> [] (replicate 16 [] @ rs, l)
     = Some ([], rs, l')"
  using sample_odca_stream [of "map of_nat [0..<16]" "[]" rs l] by (auto simp: ReadIntelOdcaIntermediates_def)

section \<open>The first leg\<close>

lemma created_lengths [simp]: "length ek_created \<le> 4096" "length ak_created \<le> 4096"
  by (simp_all add: ek_created_def ak_created_def)

lemma ek_created_reads: "CreateEk_response ek_created = Some (Inr 0x80000000)"
proof -
  have "ReadU32 ek_created 10 = Some 0x80000000"
    unfolding ek_created_def using response_u32 [of "[]" 0] by simp
  then show ?thesis
    by (simp add: CreateEk_response_def on_success_def ek_created_def)
qed

lemma ak_created_reads: "CreateAndLoadAk_response ak_created = Some (Inr (0x80000001, [0, 2, 1, 2]))"
  by code_simp

lemma sample_create_ek:
  "CreateEk (transcript scripted) \<lparr>tc_context = 1\<rparr> (ek_created # rs, l)
     = Some (Inr 0x80000000, rs, l @ [(patch_command_size CreateEk_command, ek_created)])"
  by (simp add: CreateEk_def sample_transact ek_created_reads)

lemma sample_create_ak:
  "CreateAndLoadAk (transcript scripted) \<lparr>tc_context = 1\<rparr> h (ak_created # rs, l)
     = Some (Inr (0x80000001, [0, 2, 1, 2]), rs, l @ [(patch_command_size (CreateAndLoadAk_command h), ak_created)])"
  by (simp add: CreateAndLoadAk_def sample_transact ak_created_reads)

lemma sample_open:
  "kp_Open (transcript scripted) (new_TbsKeyProvider h) s
     = (S_OK, (new_TbsKeyProvider h)\<lparr>kp_tpm := \<lparr>tc_context = 1\<rparr>\<rparr>, s)"
  by (simp add: kp_Open_def) (simp add: new_TbsKeyProvider_def)

lemma sample_create:
  "\<exists>l'. CreateAk (transcript scripted) ((new_TbsKeyProvider TBS_AK_PERSISTENT_HANDLE)\<lparr>kp_tpm := \<lparr>tc_context = 1\<rparr>\<rparr>)
     (ek_created # ak_created # rs, l) = Some (S_OK, sample_provider, rs, l')"
  by (simp add: CreateAk_def CreateAk_load_def FlushTransients_def new_TbsKeyProvider_def sample_create_ek
      sample_create_ak out_of_def hr_of_def FAILED_def sample_provider_def)

lemma sample_parts:
  "w_tbs (recorded sample_machine) = transcript scripted"
  "w_ncrypt (recorded sample_machine) = lift_ncrypt sample_ncrypt"
  "w_reg (recorded sample_machine) = lift_reg sample_reg"
  "w_bcrypt (recorded sample_machine) = lift_bcrypt sample_bcrypt"
  "w_strings (recorded sample_machine) = sample_strings"
  "w_cert (recorded sample_machine) = ca_api"
  "w_process (recorded sample_machine) = lift_process sample_process"
  by (simp_all add: recorded_def sample_machine_def)

lemma sample_stores:
  fixes s :: "bytes list \<times> (bytes \<times> bytes) list"
  shows "ReadEkCertFromWindowsStore (lift_reg sample_reg) s = Some ([], s)"
    and "ReadWindowsTpmIntermediateStore c (lift_reg sample_reg) s = Some ([], s)"
proof -
  have reg: "with_reg_key (lift_reg sample_reg) p n (\<lambda>status key w. if status \<noteq> ERROR_SUCCESS then Some ([], w) else body status key w) s
      = Some ([], s)" for p n body and s :: "bytes list \<times> (bytes \<times> bytes) list"
    by (cases s) (simp add: with_reg_key_def lift_reg_def sample_reg_def lift_defs uh_Put_def uh_Reset_def
        uh_Destroy_def RegKeyTraits_def)
  show "ReadEkCertFromWindowsStore (lift_reg sample_reg) s = Some ([], s)"
    "ReadWindowsTpmIntermediateStore c (lift_reg sample_reg) s = Some ([], s)"
    unfolding ReadEkCertFromWindowsStore_def ReadWindowsTpmIntermediateStore_def reg by simp_all
qed

lemma sample_pcp:
  "pcp_Open (lift_ncrypt sample_ncrypt) new_TpmPcp s = (S_OK, \<lparr>pcp_provider = 7\<rparr>, s)"
  "ReadEkPublicKey (lift_ncrypt sample_ncrypt) \<lparr>pcp_provider = 7\<rparr> s = (Inr [1, 2, 3], s)"
  "\<exists>hr. ReadEkCertificate (lift_ncrypt sample_ncrypt) \<lparr>pcp_provider = 7\<rparr> s = (Inl hr, s)"
  "pcp_Destroy (lift_ncrypt sample_ncrypt) q s = s"
  by (cases s; simp add: pcp_Open_def new_TpmPcp_def uh_valid_def uh_Put_def uh_Reset_def FAILED_def
      NcryptProviderTraits_def lift_ncrypt_def sample_ncrypt_def lift_defs ReadEkPublicKey_def
      ReadEkCertificate_def ReadProperty_def pcp_Destroy_def uh_Destroy_def vec_resize_def)+

lemma sample_gather:
  "\<exists>l'. GatherEkEnrollData (recorded sample_machine) (replicate 16 [] @ rs, l)
     = Some (Some \<lparr>ekPub = [1, 2, 3], ekCertPem = [], intermediates = []\<rparr>, rs, l')"
proof -
  let ?win = "recorded sample_machine"
  have cert: "gather_certificate ?win \<lparr>pcp_provider = 7\<rparr> [1, 2, 3] s = Some ([], s)" for s
    using sample_pcp(3) [of s]
    by (auto simp: gather_certificate_def read_ek_certificate_def sample_parts sample_stores ExtractRsaModulusFromEkPub_def)
  obtain l1 where odca: "ReadIntelOdcaIntermediates (transcript scripted) \<lparr>tc_context = 1\<rparr> [] (replicate 16 [] @ rs, l) = Some ([], rs, l1)"
    using sample_odca [of rs l] by auto
  have "gather_intermediates ?win (replicate 16 [] @ rs, l) = Some ([], rs, l1)"
    by (simp add: gather_intermediates_def odca sample_stores SUCCEEDED_def FAILED_def sample_parts MAX_INTERMEDIATES_def
        del: replicate.simps)
  then show ?thesis by (simp add: GatherEkEnrollData_def sample_parts sample_pcp cert FAILED_def)
qed

definition sample_client :: root_herald_client where
  "sample_client = \<lparr>client_locked = False\<rparr>"

lemma sample_malloc:
  "malloc_text (w_process (recorded sample_machine)) json s = (Some (4096, json @ [CHR 0x00]), s)"
  by (cases s) (simp add: malloc_text_def sample_parts lift_process_def sample_process_def lift_defs)

lemma sample_elevated: "IsProcessElevated (recorded sample_machine) s = (True, s)"
  by (cases s) (simp add: IsProcessElevated_def with_handle_def sample_parts lift_process_def sample_process_def
      lift_defs uh_Put_def uh_Reset_def uh_Destroy_def KernelHandleTraits_def)

lemma sample_begin_driver:
  "\<exists>b l. RootHeraldEnrollBegin (recorded sample_machine) (Some None) None (begin_script @ rs, [])
     = Some (ROOTHERALD_OK, Some (Some b), Some sample_provider, rs, l)"
proof -
  obtain l1 where g: "GatherEkEnrollData (recorded sample_machine) (begin_script @ rs, [])
      = Some (Some \<lparr>ekPub = [1, 2, 3], ekCertPem = [], intermediates = []\<rparr>, ek_created # ak_created # rs, l1)"
    using sample_gather [of "ek_created # ak_created # rs"] by (auto simp: begin_script_def simp del: replicate.simps)
  obtain l2 where c: "CreateAk (transcript scripted) ((new_TbsKeyProvider TBS_AK_PERSISTENT_HANDLE)\<lparr>kp_tpm := \<lparr>tc_context = 1\<rparr>\<rparr>)
      (ek_created # ak_created # rs, l1) = Some (S_OK, sample_provider, rs, l2)"
    using sample_create by blast
  have a: "GetAkPublicArea sample_provider \<noteq> []" by (simp add: GetAkPublicArea_def sample_provider_def)
  let ?json = "JsonBuild (BuildEnrollFields (w_strings (recorded sample_machine))
      \<lparr>ekPub = [1, 2, 3], ekCertPem = [], intermediates = []\<rparr> (GetAkPublicArea sample_provider))"
  have "RootHeraldEnrollBegin (recorded sample_machine) (Some None) None (begin_script @ rs, [])
      = Some (ROOTHERALD_OK, Some (Some (4096, ?json @ [CHR 0x00])), Some sample_provider, rs, l2)"
    using a by (simp add: RootHeraldEnrollBegin_def sample_elevated g EnrollBegin_key_def sample_parts(1) sample_open
        c FAILED_def EnrollBegin_emit_def Let_def sample_malloc drop_provider_def)
  then show ?thesis by blast
qed

lemma sample_begin:
  "\<exists>b l. client_step (recorded sample_machine) (None, begin_script @ rs, []) (CallEnrollBegin (Some sample_client) (Some None))
     (ROOTHERALD_OK, Some (Some b)) (Some sample_provider, rs, l)"
proof -
  obtain b l where "RootHeraldEnrollBegin (recorded sample_machine) (Some None) None (begin_script @ rs, [])
      = Some (ROOTHERALD_OK, Some (Some b), Some sample_provider, rs, l)"
    using sample_begin_driver by blast
  then have "RootHeraldClient_EnrollBegin (recorded sample_machine) (Some sample_client) (Some None) None (begin_script @ rs, [])
      = Some (ROOTHERALD_OK, Some (Some b), Some sample_provider, rs, l)"
    by (simp only: facade_passes)
  from step_begin [OF this] show ?thesis by blast
qed

section \<open>The second leg\<close>

definition sample_challenge :: string where
  "sample_challenge = JsonBuild [(''deviceId'', ''d''), (''credentialBlob'', ''AAA''), (''encryptedSecret'', ''BBB'')]"

definition sample_activation :: string where
  "sample_activation = JsonBuild [(''decryptedSecret'', ''0708''), (''deviceId'', ''d'')]"

lemma sample_flush:
  assumes "tc_context tc \<noteq> 0" and "length r \<le> 4096"
  shows "FlushContext (transcript scripted) tc h (r # rs, l)
    = (S_OK, rs, l @ [(patch_command_size (FlushContext_command h), r)])"
  by (simp add: FlushContext_def sample_send [OF assms])

lemma script_lengths [simp]:
  "length (ok_response []) \<le> 4096" "length (session_response 5 [9]) \<le> 4096" "length (secret_response [7, 8] [0]) \<le> 4096"
  by (simp_all add: ok_response_def session_response_def secret_response_def)

lemma sample_activate:
  "\<exists>l'. kp_ActivateCredential (transcript scripted) sample_provider cb es (complete_script, l)
     = Some (Inr [7, 8], [[], ok_response [], ok_response [], ok_response []], l')"
  by (simp add: kp_ActivateCredential_def sample_provider_def ActivateCredential_def ActivateCredential_run_def
      complete_script_def sample_transact sample_flush StartAuthSession_response_reads code_only_response_ok
      secret_response_reads)

lemma sample_persist:
  "\<exists>p' l'. PersistAk (transcript scripted) sample_provider ([[], ok_response [], ok_response [], ok_response []], l)
     = Some (S_OK, p', [], l') \<and> p' = sample_provider\<lparr>akHandle := 0, ekHandle := 0\<rparr>"
  by (simp add: PersistAk_def sample_provider_def EvictControl_def IsPersistentPresent_def sample_send sample_transact
      code_only_response_ok hr_of_def FAILED_def FlushTransients_def sample_flush Let_def)

lemma sample_destroy:
  "kp_Destroy (transcript scripted) (sample_provider\<lparr>akHandle := 0, ekHandle := 0\<rparr>) s = s"
  by (cases s) (simp add: kp_Destroy_def kp_Close_def FlushTransients_def sample_provider_def TpmCommands_Close_def
      uh_Reset_def uh_Destroy_def TbsContextTraits_def transcript_def scripted_def)

lemma sample_complete:
  "\<exists>l'. client_step (recorded sample_machine) (Some sample_provider, complete_script, l)
     (CallEnrollComplete (Some sample_client) (Some sample_challenge) (Some None))
     (ROOTHERALD_OK, Some (Some (4096, sample_activation @ [CHR 0x00]))) (None, [], l')"
proof -
  have ch: "c_str sample_challenge = sample_challenge" "sample_challenge \<noteq> []"
    "JsonGet sample_challenge ''deviceId'' = ''d''" "JsonGet sample_challenge ''credentialBlob'' = ''AAA''"
    "JsonGet sample_challenge ''encryptedSecret'' = ''BBB''"
    by code_simp+
  have act: "JsonBuild (map_init [(''deviceId'', ''d''), (''decryptedSecret'', Base64Encode sample_strings [7, 8])])
      = sample_activation"
    by code_simp
  let ?cb = "Base64Decode sample_strings ''AAA''" and ?es = "Base64Decode sample_strings ''BBB''"
  obtain l1 where a: "kp_ActivateCredential (transcript scripted) sample_provider ?cb ?es (complete_script, l)
      = Some (Inr [7, 8], [[], ok_response [], ok_response [], ok_response []], l1)"
    using sample_activate by blast
  obtain l2 where p: "PersistAk (transcript scripted) sample_provider ([[], ok_response [], ok_response [], ok_response []], l1)
      = Some (S_OK, sample_provider\<lparr>akHandle := 0, ekHandle := 0\<rparr>, [], l2)"
    using sample_persist by blast
  have "RootHeraldEnrollComplete (recorded sample_machine) (Some sample_challenge) (Some None) (Some sample_provider)
      (complete_script, l) = Some (ROOTHERALD_OK, Some (Some (4096, sample_activation @ [CHR 0x00])), None, [], l2)"
    by (simp add: RootHeraldEnrollComplete_def ch sample_parts a hr_of_def out_of_def FAILED_def
        EnrollComplete_persist_def p sample_destroy act sample_malloc [unfolded sample_parts] Let_def)
  then show ?thesis using ch by (auto intro!: step_complete simp: facade_passes)
qed

text \<open>Both legs, one after the other.\<close>

lemma sample_run:
  "\<exists>r r' l. client_run (recorded sample_machine) (None, begin_script @ complete_script, [])
     [(CallEnrollBegin (Some sample_client) (Some None), r),
      (CallEnrollComplete (Some sample_client) (Some sample_challenge) (Some None), r')] (None, [], l)"
proof -
  let ?b = "CallEnrollBegin (Some sample_client) (Some None)"
  let ?c = "CallEnrollComplete (Some sample_client) (Some sample_challenge) (Some None)"
  obtain b l where one: "client_step (recorded sample_machine) (None, begin_script @ complete_script, []) ?b
      (ROOTHERALD_OK, Some (Some b)) (Some sample_provider, complete_script, l)"
    using sample_begin by blast
  obtain l' where two: "client_step (recorded sample_machine) (Some sample_provider, complete_script, l) ?c
      (ROOTHERALD_OK, Some (Some (4096, sample_activation @ [CHR 0x00]))) (None, [], l')"
    using sample_complete by blast
  from run_snoc [OF run_snoc [OF run_nil one] two] show ?thesis unfolding append.simps by blast
qed

section \<open>Evidence\<close>

text \<open>The key is there, the six registers read, the quote is signed, and the certificate indices are empty.\<close>

definition pcr_answer :: bytes where
  "pcr_answer = response_bytes TPM2_ST_NO_SESSIONS 0 (pcr_read_body 1 [] [[0xAB]])"

definition quote_answer :: bytes where
  "quote_answer = response_bytes TPM2_ST_SESSIONS 0 (u32_be 5 @ sized_buffer [1, 2, 3] @ [4, 5])"

definition evidence_script :: "bytes list" where
  "evidence_script = ok_response [] # replicate 6 pcr_answer @ quote_answer # replicate 16 []"

lemma answer_lengths [simp]: "length pcr_answer \<le> 4096" "length quote_answer \<le> 4096"
  by (simp_all add: pcr_answer_def quote_answer_def pcr_read_body_def pcr_selection_bytes_def)

lemma pcr_answer_reads: "PcrRead_response pcr_answer = Some (Inr [0xAB])"
  unfolding pcr_answer_def by (rule PcrRead_response_reads) simp_all

lemma quote_answer_reads: "Quote_response quote_answer = Some (Inr ([1, 2, 3], [4, 5]))"
  unfolding quote_answer_def by (rule Quote_response_reads) simp

lemma sample_pcr:
  "PcrRead (transcript scripted) \<lparr>tc_context = 1\<rparr> i (pcr_answer # rs, l)
     = Some (Inr [0xAB], rs, l @ [(patch_command_size (PcrRead_command i), pcr_answer)])"
  by (simp add: PcrRead_def sample_transact pcr_answer_reads)

lemma sample_pcrs:
  "\<exists>r l'. collect_pcrs (transcript scripted) \<lparr>tc_context = 1\<rparr> first json pcrs (replicate (length pcrs) pcr_answer @ rs, l)
     = Some (Some r, rs, l')"
proof (induction pcrs arbitrary: first json l)
  case Nil
  then show ?case by simp
next
  case (Cons i pcrs)
  show ?case
    using Cons by (simp add: sample_pcr hr_of_def out_of_def FAILED_def Let_def)
qed

lemma sample_quote:
  "Quote (transcript scripted) \<lparr>tc_context = 1\<rparr> h nonce pcrs (quote_answer # rs, l)
     = Some (Inr ([1, 2, 3], [4, 5]), rs, l @ [(patch_command_size (Quote_command h nonce pcrs), quote_answer)])"
  by (simp add: Quote_def sample_transact quote_answer_reads)

lemma sample_device_id: "DeriveLocalDeviceId (recorded sample_machine) s = Some ([], s)"
proof -
  have "Sha256 (lift_bcrypt sample_bcrypt) data s = ([], s)" for data and s :: "bytes list \<times> (bytes \<times> bytes) list"
    by (cases s) (simp add: Sha256_def BcryptDigest_def with_handle_def lift_bcrypt_def sample_bcrypt_def lift_defs
        uh_Put_def uh_Reset_def uh_Destroy_def BcryptAlgTraits_def)
  then show ?thesis
    by (simp add: DeriveLocalDeviceId_def sample_parts sample_stores sample_pcp FAILED_def ComputeDeviceIdFromFingerprint_def)
qed

lemma sample_no_log: "ReadEventLog (transcript scripted) s = ([], s)"
  by (cases s) (simp add: ReadEventLog_def transcript_def scripted_def)

lemma sample_new_destroy:
  "kp_Destroy (transcript scripted) ((new_TbsKeyProvider h)\<lparr>kp_tpm := \<lparr>tc_context = 1\<rparr>\<rparr>) s = s"
  by (cases s) (simp add: kp_Destroy_def kp_Close_def FlushTransients_def new_TbsKeyProvider_def TpmCommands_Close_def
      uh_Reset_def uh_Destroy_def TbsContextTraits_def transcript_def scripted_def)

lemma sample_evidence_quote:
  "\<exists>m l'. CollectEvidence_quote (recorded sample_machine) \<lparr>tc_context = 1\<rparr> h nonce
     (replicate 6 pcr_answer @ quote_answer # replicate 16 [], l) = Some ((ROOTHERALD_OK, m, []), [], l')"
proof -
  have pcrs: "length evidence_pcrs = 6" by (simp add: evidence_pcrs_def)
  obtain r l1 where p: "collect_pcrs (transcript scripted) \<lparr>tc_context = 1\<rparr> True pcr_values_start evidence_pcrs
      (replicate 6 pcr_answer @ quote_answer # replicate 16 [], l) = Some (Some r, quote_answer # replicate 16 [], l1)"
    using sample_pcrs [of True pcr_values_start evidence_pcrs "quote_answer # replicate 16 []" l]
    unfolding pcrs by blast
  have extras: "\<exists>m l3. evidence_extras (recorded sample_machine) \<lparr>tc_context = 1\<rparr> [] ev (replicate 16 [], l2) = Some (m, [], l3)" for ev l2
    using sample_odca [of "[]" l2]
    by (auto simp: evidence_extras_def sample_parts sample_stores sample_device_id simp del: replicate.simps)
  let ?l2 = "l1 @ [(patch_command_size (Quote_command h nonce evidence_pcrs), quote_answer)]"
  obtain m l3 where "evidence_extras (recorded sample_machine) \<lparr>tc_context = 1\<rparr> []
      (map_init [(''pcrValues'', r), (''quote'', quote_text sample_strings [1, 2, 3] [4, 5] nonce),
        (''secureBootChain'', ''null'')]) (replicate 16 [], ?l2) = Some (m, [], l3)"
    using extras by blast
  then show ?thesis
    by (simp add: CollectEvidence_quote_def sample_parts p sample_quote hr_of_def out_of_def FAILED_def sample_no_log
        secure_boot_text_def del: replicate.simps)
qed

lemma sample_evidence:
  "\<exists>b l'. RootHeraldCollectEvidence (recorded sample_machine) (Some ''Zm9v'') (Some None) (evidence_script, l)
     = Some (ROOTHERALD_OK, Some (Some b), [], l')"
proof -
  let ?p = "(new_TbsKeyProvider TBS_AK_PERSISTENT_HANDLE)\<lparr>kp_tpm := \<lparr>tc_context = 1\<rparr>\<rparr>"
  obtain l1 where "LoadAk (transcript scripted) ?p (evidence_script, l)
      = Some (S_OK, replicate 6 pcr_answer @ quote_answer # replicate 16 [], l1)"
    by (simp add: LoadAk_def IsPersistentPresent_def evidence_script_def sample_send FAILED_def ok_response_def
        del: replicate.simps)
  then have sel: "SelectEnrolledProvider (transcript scripted) (evidence_script, l)
      = Some (Some ?p, replicate 6 pcr_answer @ quote_answer # replicate 16 [], l1)"
    by (simp add: SelectEnrolledProvider_def sample_open SUCCEEDED_def FAILED_def del: replicate.simps)
  have h: "GetQuoteHandle ?p \<noteq> 0"
    by (simp add: GetQuoteHandle_def new_TbsKeyProvider_def TBS_AK_PERSISTENT_HANDLE_def)
  have nonce: "Base64Decode sample_strings (c_str ''Zm9v'') \<noteq> []" by code_simp
  obtain m l2 where "CollectEvidence_quote (recorded sample_machine) \<lparr>tc_context = 1\<rparr> (GetQuoteHandle ?p)
      (Base64Decode sample_strings (c_str ''Zm9v'')) (replicate 6 pcr_answer @ quote_answer # replicate 16 [], l1)
      = Some ((ROOTHERALD_OK, m, []), [], l2)"
    using sample_evidence_quote by blast
  then have "CollectEvidence_enrolled (recorded sample_machine) (c_str ''Zm9v'') ?p
      (replicate 6 pcr_answer @ quote_answer # replicate 16 [], l1) = Some ((ROOTHERALD_OK, m, []), [], l2)"
    using h nonce by (simp add: CollectEvidence_enrolled_def sample_parts Let_def FAILED_def del: replicate.simps)
  then have "CollectEvidenceFields (recorded sample_machine) ''Zm9v'' (evidence_script, l) = Some ((ROOTHERALD_OK, m, []), [], l2)"
    by (simp add: CollectEvidenceFields_def sample_parts sel sample_new_destroy del: replicate.simps)
  then show ?thesis
    by (simp add: RootHeraldCollectEvidence_def Let_def sample_malloc)
qed

end
