(* ===== verification/Evidence_Json.thy ===== *)
theory Evidence_Json
  imports Evidence
begin

text \<open>
  The documents the driver emits, read as JSON. The texts that go into them are Base64, PEM, hexadecimal,
  numbers, fixed messages and the names of certificates; the lemmas say that each renders a JSON value,
  and follow the maps to the members of the document.
\<close>

section \<open>Texts that render\<close>

definition safe_text :: "string \<Rightarrow> bool" where
  "safe_text s \<longleftrightarrow> plain_text s \<and> \<not> embedded_verbatim s"

lemma renders_safe: "safe_text s \<Longrightarrow> renders s (JString s)"
  by (simp add: safe_text_def renders_string)

lemma safe_empty [simp]: "safe_text []"
  by (simp add: safe_text_def plain_text_def embedded_verbatim_def)

lemma safe_text_Cons:
  "plain_text (c # s) \<Longrightarrow> c \<notin> {CHR ''{'', CHR ''['', CHR ''t'', CHR ''f'', CHR ''n''} \<Longrightarrow> safe_text (c # s)"
  by (auto simp: safe_text_def embedded_verbatim_def)

text \<open>A spelled-out literal is the one text of the Base64 alphabet that is not quoted.\<close>

definition no_word :: "string \<Rightarrow> bool" where
  "no_word s \<longleftrightarrow> s \<notin> {''true'', ''false'', ''null''}"

lemma base64_plain: "set s \<subseteq> set base64_alphabet \<Longrightarrow> plain_text s"
  using set_base64_plain(4) by (auto simp: plain_text_def)

lemma base64_safe: "set s \<subseteq> set base64_alphabet \<Longrightarrow> no_word s \<Longrightarrow> safe_text s"
  using base64_plain [of s] set_base64_plain(5,6)
  by (cases s) (auto simp: safe_text_def embedded_verbatim_def no_word_def)

definition renders_base64 :: "string \<Rightarrow> json" where
  "renders_base64 s = (if no_word s then JString s else JLiteral s)"

lemma renders_alphabet: "set s \<subseteq> set base64_alphabet \<Longrightarrow> renders s (renders_base64 s)"
  by (auto simp: renders_base64_def base64_safe renders_safe no_word_def intro!: renders_literal)

lemma plain_append [simp]: "plain_text (s @ t) \<longleftrightarrow> plain_text s \<and> plain_text t"
  by (auto simp: plain_text_def)

lemma plain_Cons: "plain_text (c # s) \<longleftrightarrow> (c = newline \<or> 32 \<le> (of_char c :: nat)) \<and> plain_text s"
  by (auto simp: plain_text_def)

lemma plain_Nil [simp]: "plain_text []"
  by (simp add: plain_text_def)

lemma DerToPem_safe:
  assumes "writes_base64 api"
  shows "safe_text (DerToPem api der)"
proof -
  have "plain_text (Base64Encode api der)" by (rule base64_plain [OF Base64Encode_alphabet [OF assms]])
  then have "plain_text (DerToPem api der)" by (simp add: DerToPem_def plain_Cons)
  then show ?thesis by (simp add: DerToPem_def safe_text_Cons)
qed

section \<open>Arrays of certificates\<close>

lemma pem_array_from:
  "pem_array_from api i array cs = array @ (if cs = [] \<or> i = 0 then [] else '','')
     @ comma_join (map (\<lambda>c. quoted (DerToPem api c)) cs)"
proof (induction api i array cs rule: pem_array_from.induct)
  case (2 api i array c cs)
  then show ?case by (cases cs) (simp_all add: Let_def quoted_def)
qed simp

definition pem_values :: "crypt_string_api \<Rightarrow> bytes list \<Rightarrow> json" where
  "pem_values api cs = JArray (map (\<lambda>c. JString (DerToPem api c)) cs)"

lemma renders_pem_array:
  assumes "writes_base64 api"
  shows "renders (pem_array api cs) (pem_values api cs)"
proof -
  have "pem_array api cs = json_text (pem_values api cs)"
    by (simp add: pem_array_def pem_array_from pem_values_def comp_def)
  moreover have "wf_json (pem_values api cs)"
    using DerToPem_safe [OF assms] by (auto simp: pem_values_def safe_text_def)
  ultimately show ?thesis
    using renders_document(2) [of "map (\<lambda>c. JString (DerToPem api c)) cs"] by (simp add: pem_values_def)
qed

section \<open>Members of a built object\<close>

lemma map_of_map_init: "map_of (map_init kvs) = map_of kvs"
proof -
  have "wf_map m \<Longrightarrow> map_of (foldl (\<lambda>m (k, v). if map_of m k = None then map_put k v m else m) m kvs)
      = map_of kvs ++ map_of m" for m :: "('a :: linorder, 'b) std_map"
  proof (induction kvs arbitrary: m)
    case (Cons kv kvs)
    obtain k v where kv: "kv = (k, v)" by (cases kv)
    show ?case
    proof (cases "map_of m k")
      case None
      have "map_of kvs ++ (map_of m)(k \<mapsto> v) = (map_of kvs)(k \<mapsto> v) ++ map_of m"
        using None by (intro ext) (simp add: map_add_def split: option.split)
      then show ?thesis using Cons None by (simp add: kv del: fun_upd_apply)
    next
      case (Some u)
      have "map_of kvs ++ map_of m = (map_of kvs)(k \<mapsto> v) ++ map_of m"
        using Some by (intro ext) (simp add: map_add_def split: option.split)
      then show ?thesis using Cons Some by (simp add: kv del: fun_upd_apply)
    qed
  qed simp
  from this [of "[]"] show ?thesis by (simp add: map_init_def)
qed

lemma renders_unique: "renders v j \<Longrightarrow> renders v j' \<Longrightarrow> j = j'"
  using read_json_text [of j] read_json_text [of j'] unfolding renders_def by (metis option.inject)

text \<open>A map whose keys are plain and whose values render gives an object with these members.\<close>

definition renders_members :: "(string, string) std_map \<Rightarrow> bool" where
  "renders_members m \<longleftrightarrow> wf_map m \<and> (\<forall>(k, v) \<in> set m. plain_key k \<and> (\<exists>j. renders v j))"

lemma renders_members_map:
  "wf_map m \<Longrightarrow> renders_members m \<longleftrightarrow> (\<forall>k v. map_of m k = Some v \<longrightarrow> plain_key k \<and> (\<exists>j. renders v j))"
proof -
  assume w: "wf_map m"
  have "(\<forall>(k, v) \<in> set m. P k v) \<longleftrightarrow> (\<forall>k v. map_of m k = Some v \<longrightarrow> P k v)" for P
    using fields.iter_get [OF w] by fastforce
  then show ?thesis using w by (simp only: renders_members_def simp_thms)
qed

lemma renders_members_init:
  "(\<And>k v. (k, v) \<in> set kvs \<Longrightarrow> plain_key k \<and> (\<exists>j. renders v j)) \<Longrightarrow> renders_members (map_init kvs)"
  using map_of_SomeD [of kvs] by (simp add: renders_members_map map_of_map_init) blast

lemma renders_members_put:
  "renders_members m \<Longrightarrow> plain_key k \<Longrightarrow> renders v j \<Longrightarrow> renders_members (map_put k v m)"
proof -
  assume a: "renders_members m" "plain_key k" "renders v j"
  then have w: "wf_map m" by (simp add: renders_members_def)
  have "\<forall>k v. map_of m k = Some v \<longrightarrow> plain_key k \<and> (\<exists>j. renders v j)"
    using a(1) renders_members_map [OF w] by simp
  then show "renders_members (map_put k v m)"
    using a(2,3) renders_members_map [OF wf_map_put [OF w, of k v]] w by auto
qed

lemma object_members:
  assumes "renders_members m"
  obtains ms where "renders_fields m ms" and "map fst ms = map fst m"
    and "\<And>k. rel_option renders (map_of m k) (map_of ms k)"
proof -
  have "\<exists>ms. renders_fields m ms \<and> map fst ms = map fst m \<and> (\<forall>k. rel_option renders (map_of m k) (map_of ms k))"
    if "\<forall>(k, v) \<in> set m. plain_key k \<and> (\<exists>j. renders v j)" for m
    using that
  proof (induction m)
    case Nil
    then show ?case by (auto simp: renders_fields_def)
  next
    case (Cons kv m)
    obtain k v where kv: "kv = (k, v)" by (cases kv)
    obtain j where j: "plain_key k" "renders v j" using Cons.prems by (auto simp: kv)
    obtain ms where ms: "renders_fields m ms" "map fst ms = map fst m"
      "\<forall>k. rel_option renders (map_of m k) (map_of ms k)"
      using Cons by auto
    show ?case
    proof (intro exI [of _ "(k, j) # ms"] conjI)
      show "renders_fields (kv # m) ((k, j) # ms)" using ms(1) j by (simp add: kv renders_fields_def)
      show "map fst ((k, j) # ms) = map fst (kv # m)" using ms(2) by (simp add: kv)
      show "\<forall>x. rel_option renders (map_of (kv # m) x) (map_of ((k, j) # ms) x)"
        using ms(3) j(2) by (simp add: kv)
    qed
  qed
  then show thesis using assms that by (auto simp: renders_members_def)
qed

text \<open>The value at a path of keys.\<close>

fun json_at :: "json \<Rightarrow> string list \<Rightarrow> json option" where
  "json_at j [] = Some j"
| "json_at (JObject ms) (k # ks) = do { j \<leftarrow> map_of ms k; json_at j ks }"
| "json_at j (k # ks) = None"

definition json_keys :: "json \<Rightarrow> string list" where
  "json_keys j = (case j of JObject ms \<Rightarrow> map fst ms | _ \<Rightarrow> [])"

lemma JsonBuild_document:
  assumes "renders_members m"
  obtains j where "read_json (JsonBuild m) = Some j" and "renders (JsonBuild m) j"
    and "json_keys j = map fst m"
    and "\<And>k v ks. map_of m k = Some v \<Longrightarrow> \<exists>i. renders v i \<and> json_at j (k # ks) = json_at i ks"
    and "\<And>k ks. map_of m k = None \<Longrightarrow> json_at j (k # ks) = None"
proof -
  obtain ms where ms: "renders_fields m ms" "map fst ms = map fst m"
    and rel: "\<And>k. rel_option renders (map_of m k) (map_of ms k)"
    using object_members [OF assms] by blast
  note t = JsonBuild_text [OF ms(1)]
  show thesis
  proof (rule that [of "JObject ms"])
    show "read_json (JsonBuild m) = Some (JObject ms)" unfolding t(1) by (rule read_json_text [OF t(2)])
    show "renders (JsonBuild m) (JObject ms)" unfolding t(1) by (rule renders_document(1) [OF t(2)])
    show "json_keys (JObject ms) = map fst m" using ms(2) by (simp add: json_keys_def)
    show "\<exists>i. renders v i \<and> json_at (JObject ms) (k # ks) = json_at i ks" if "map_of m k = Some v" for k v ks
      using rel [of k] that by (auto simp: option_rel_Some1)
    show "json_at (JObject ms) (k # ks) = None" if "map_of m k = None" for k ks
      using rel [of k] that by simp
  qed
qed

section \<open>The values of the PCRs\<close>

lemma escape_unquoted: "quote_char \<notin> set s \<Longrightarrow> backslash_char \<notin> set s \<Longrightarrow> newline \<notin> set s \<Longrightarrow> json_escape s = s"
  by (induction s) (auto simp: escape_char_def)

lemma to_string_digits: "set (to_string n) \<subseteq> set ''0123456789''"
proof (induction n rule: to_string.induct)
  case (1 n)
  have "list_all (\<lambda>k. digit_char k \<in> set ''0123456789'') [0..<10]" by code_simp
  then have d: "digit_char k \<in> set ''0123456789''" if "k < 10" for k
    using that by (simp only: list_all_iff set_upt) auto
  show ?case
  proof (cases "n < 10")
    case True
    then show ?thesis using d [of n] by (subst to_string.simps) simp
  next
    case False
    then show ?thesis using 1 d [of "n mod 10"] by (subst to_string.simps) simp
  qed
qed

lemma digits_plain:
  assumes "set s \<subseteq> set ''0123456789abcdef''"
  shows "plain_text s" and "json_escape s = s"
proof -
  have "list_all (\<lambda>c. 32 \<le> (of_char c :: nat) \<and> c \<noteq> quote_char \<and> c \<noteq> backslash_char \<and> c \<noteq> newline) ''0123456789abcdef''"
    by code_simp
  then have c: "32 \<le> (of_char c :: nat)" "c \<noteq> quote_char" "c \<noteq> backslash_char" "c \<noteq> newline" if "c \<in> set s" for c
    using assms that by (auto simp only: list_all_iff)
  then show "plain_text s" by (simp add: plain_text_def)
  show "json_escape s = s" using c by (intro escape_unquoted) blast+
qed

lemma to_string_plain: "plain_text (to_string n)" "json_escape (to_string n) = to_string n"
proof -
  have "set (to_string n) \<subseteq> set ''0123456789abcdef''"
    by (rule order_trans [OF to_string_digits]) simp
  then show "plain_text (to_string n)" "json_escape (to_string n) = to_string n" by (rule digits_plain)+
qed

lemma hex_plain: "plain_text (BytesToHex data)" "json_escape (BytesToHex data) = BytesToHex data"
proof -
  have "set (BytesToHex data) \<subseteq> set ''0123456789abcdef''"
    unfolding BytesToHex_def using lower.render_chars [of data] by (simp only: hex_lower_def)
  then show "plain_text (BytesToHex data)" "json_escape (BytesToHex data) = BytesToHex data" by (rule digits_plain)+
qed

definition pcr_member :: "u32 \<Rightarrow> bytes \<Rightarrow> string \<times> json" where
  "pcr_member i h = (to_string (unat i), JString (BytesToHex h))"

definition pcr_values :: "u32 list \<Rightarrow> bytes list \<Rightarrow> json" where
  "pcr_values pcrs hs = JObject [(''sha256'', JObject (map2 pcr_member pcrs hs))]"

lemma collect_pcrs_text:
  assumes "collect_pcrs api tpm first json pcrs w = Some (Some r, w')"
  shows "\<exists>hs. length hs = length pcrs \<and> [] \<notin> set hs \<and> r = json @ (if first \<or> pcrs = [] then [] else '','')
    @ comma_join (map member_text (map2 pcr_member pcrs hs)) @ ''}}''"
  using assms
proof (induction pcrs arbitrary: first json w)
  case Nil
  then show ?case by simp
next
  case (Cons i pcrs)
  obtain q w1 where q: "PcrRead api tpm i w = Some (q, w1)" using Cons.prems by (auto split: bind_splits)
  let ?h = "out_of [] q"
  let ?json = "(if \<not> first then json @ '','' else json) @ member_text (pcr_member i ?h)"
  have ok: "?h \<noteq> []" and run: "collect_pcrs api tpm False ?json pcrs w1 = Some (Some r, w')"
    using Cons.prems q by (auto simp: member_text_def pcr_member_def quoted_def to_string_plain hex_plain Let_def
        split: if_splits)
  obtain hs where hs: "length hs = length pcrs" "[] \<notin> set hs"
    "r = ?json @ (if pcrs = [] then [] else '','') @ comma_join (map member_text (map2 pcr_member pcrs hs)) @ ''}}''"
    using Cons.IH [OF run] by auto
  have join: "comma_join (map member_text (map2 pcr_member (i # pcrs) (?h # hs)))
      = member_text (pcr_member i ?h) @ (if pcrs = [] then [] else '','') @ comma_join (map member_text (map2 pcr_member pcrs hs))"
    using hs(1) by (cases pcrs; cases hs) (simp_all add: comma_join_Cons)
  show ?case
    by (rule exI [of _ "?h # hs"]) (use hs ok join in \<open>simp split del: if_split\<close>, simp)
qed

lemma pcr_values_render:
  assumes "r = pcr_values_start @ comma_join (map member_text (map2 pcr_member pcrs hs)) @ ''}}''"
  shows "renders r (pcr_values pcrs hs)"
proof -
  have "r = json_text (pcr_values pcrs hs)"
    unfolding assms pcr_values_def json_text_JObject
    by (simp add: pcr_values_start_def member_text_def quoted_def escape_char_def newline_def quote_char_def
        backslash_char_def member_text_def [abs_def])
  moreover have "wf_json (pcr_values pcrs hs)"
    by (auto simp: pcr_values_def pcr_member_def to_string_plain hex_plain plain_Cons dest!: set_zip_leftD)
  ultimately show ?thesis
    using renders_document(1) [of "[(''sha256'', JObject (map2 pcr_member pcrs hs))]"] by (simp add: pcr_values_def)
qed

lemma pcr_text:
  assumes "collect_pcrs api tpm True pcr_values_start pcrs w = Some (Some r, w')"
  obtains hs where "length hs = length pcrs" and "[] \<notin> set hs" and "renders r (pcr_values pcrs hs)"
  using collect_pcrs_text [OF assms] pcr_values_render that by auto

section \<open>The Secure Boot summary\<close>

text \<open>
  The names of certificates are the texts the program does not control: the summary is a document when
  they hold no control characters and none of them starts a JSON value of its own.
\<close>

definition names_safe :: "'c crypt_api \<Rightarrow> bool" where
  "names_safe api \<longleftrightarrow> (\<forall>ctx. safe_text (subject_to_str api ctx) \<and> safe_text (issuer_to_str api ctx))"

definition info_safe :: "cert_info \<Rightarrow> bool" where
  "info_safe c \<longleftrightarrow> safe_text (subject c) \<and> safe_text (issuer c) \<and> (isKnownOem c \<longrightarrow> safe_text (oemName c))"

definition report_safe :: "secure_boot_report \<Rightarrow> bool" where
  "report_safe r \<longleftrightarrow> (\<forall>c \<in> set (pkCerts r). info_safe c) \<and> safe_text (pkOemName r)
     \<and> errors r = [] \<and> warnings r = []"

lemma owner_names_safe: "n \<in> set PLATFORM_OWNER_NAMES \<Longrightarrow> safe_text n"
proof -
  have "list_all (\<lambda>n. list_all (\<lambda>c. 32 \<le> (of_char c :: nat)) n \<and> n ! 0 \<notin> {CHR ''{'', CHR ''[''}
      \<and> n \<notin> {''true'', ''false'', ''null''}) PLATFORM_OWNER_NAMES"
    by code_simp
  then show "n \<in> set PLATFORM_OWNER_NAMES \<Longrightarrow> safe_text n"
    by (auto simp: list_all_iff safe_text_def plain_text_def embedded_verbatim_def)
qed

lemma ParseDerCertificate_safe: "names_safe api \<Longrightarrow> info_safe (ParseDerCertificate api der)"
  using owner_names_safe
  by (auto simp: ParseDerCertificate_def names_safe_def info_safe_def empty_cert_info_def classify_pk_def Let_def
      find_Some_iff split: option.split)

lemma x509_entries_info:
  assumes "names_safe api" and "x509_entries api raw p n sz off cs = Some cs'" and "\<forall>c \<in> set cs. info_safe c"
  shows "\<forall>c \<in> set cs'. info_safe c"
  using assms
proof (induction api raw p n sz off cs rule: x509_entries.induct)
  case (1 api raw p n sz off cs)
  show ?case
    using 1(4) 1(1,2) 1(3,5) ParseDerCertificate_safe [OF 1(3)]
    by (subst (asm) x509_entries.simps) (auto simp: Let_def split: if_splits bind_splits)
qed

lemma signature_lists_info:
  assumes "names_safe api" and "signature_lists api raw p n cs k = Some (cs', k')" and "\<forall>c \<in> set cs. info_safe c"
  shows "\<forall>c \<in> set cs'. info_safe c"
  using assms
proof (induction n arbitrary: p cs k rule: less_induct)
  case (less n)
  show ?case
  proof (cases "n \<ge> 28")
    case False
    then show ?thesis using less.prems by (subst (asm) signature_lists.simps) simp
  next
    case True
    then obtain ty ls hs sz where r: "vec_range raw p (p + 16) = Some ty" "ReadU32LE raw (p + 16) = Some ls"
      "ReadU32LE raw (p + 20) = Some hs" "ReadU32LE raw (p + 24) = Some sz"
      using less.prems(2) by (subst (asm) signature_lists.simps) (auto split: bind_splits)
    show ?thesis
    proof (cases "ls = 0 \<or> unat ls > n")
      case True
      then show ?thesis using less.prems r \<open>n \<ge> 28\<close> by (subst (asm) signature_lists.simps) simp
    next
      case go: False
      let ?x = "if ty = EFI_CERT_X509_GUID \<and> sz > 16
          then x509_entries api raw p (unat ls) (unat sz) (28 + unat hs) cs else Some cs"
      obtain cs1 k1 where x: "?x = Some cs1"
        and rest: "signature_lists api raw (p + unat ls) (n - unat ls) cs1 k1 = Some (cs', k')"
        using less.prems(2) r True go by (subst (asm) signature_lists.simps) (auto simp: Let_def split: bind_splits)
      have "\<forall>c \<in> set cs1. info_safe c"
        using x x509_entries_info [OF assms(1)] less.prems(3) by (auto split: if_splits)
      moreover have "n - unat ls < n" using go True by (simp add: unat_gt_0)
      ultimately show ?thesis using less.IH [OF _ assms(1) rest] by blast
    qed
  qed
qed

lemma ParseEfiSignatureList_info:
  assumes "names_safe api" and "ParseEfiSignatureList api data = Some (cs, k)"
  shows "\<forall>c \<in> set cs. info_safe c"
  using assms(2) signature_lists_info [OF assms(1)]
  by (fastforce simp: ParseEfiSignatureList_def split: bind_splits option.splits)

lemma foldl_keeps: "P r \<Longrightarrow> (\<And>r c. P r \<Longrightarrow> c \<in> set cs \<Longrightarrow> P (f r c)) \<Longrightarrow> P (foldl f r cs)"
  by (induction cs arbitrary: r) auto

lemma report_variable_safe:
  assumes "report_safe r" and "\<forall>c \<in> set cs. info_safe c"
  shows "report_safe (report_variable r name cs k)"
proof -
  have "report_safe (foldl report_pk (r\<lparr>pkCerts := cs\<rparr>) cs)"
    by (rule foldl_keeps) (use assms in \<open>auto simp: report_safe_def report_pk_def info_safe_def\<close>)
  moreover have "report_safe (foldl report_kek (r\<lparr>kekCerts := cs\<rparr>) cs)"
    by (rule foldl_keeps) (use assms in \<open>auto simp: report_safe_def report_kek_def\<close>)
  moreover have "report_safe (foldl report_db (r\<lparr>dbCerts := cs\<rparr>) cs)"
    by (rule foldl_keeps) (use assms in \<open>auto simp: report_safe_def report_db_def Let_def\<close>)
  moreover have "report_safe (r\<lparr>dbxHashCount := k\<rparr>)"
    using assms by (simp add: report_safe_def)
  ultimately show ?thesis using assms by (simp add: report_variable_def)
qed

lemma report_entries_info:
  assumes "names_safe api" and "report_safe r" and "report_entries api r es = Some r'"
  shows "report_safe r'"
  using assms(2,3)
proof (induction es arbitrary: r)
  case (Cons e es)
  then obtain r1 where r1: "report_entry api r e = Some r1" and rest: "report_entries api r1 es = Some r'"
    by (auto split: bind_splits)
  have "report_safe r1"
    using r1 Cons.prems(1) report_variable_safe ParseEfiSignatureList_info [OF assms(1)]
    by (fastforce simp: report_entry_def split: if_splits bind_splits)
  then show ?case using Cons.IH rest by blast
qed simp

lemma messages_plain:
  "plain_text msg_no_pk" "plain_text msg_no_kek" "plain_text msg_no_db" "plain_text msg_unknown_oem"
  "plain_text (msg_validated oem) \<longleftrightarrow> plain_text oem"
proof -
  have p: "plain_text s" if "list_all (\<lambda>c. 32 \<le> (of_char c :: nat)) s" for s
    using that by (auto simp: plain_text_def list_all_iff)
  have "list_all (\<lambda>s. list_all (\<lambda>c. 32 \<le> (of_char c :: nat)) s)
     [msg_no_pk, msg_no_kek, msg_no_db, msg_unknown_oem, ''Secure Boot chain fully validated '' @ em_dash @ '' PK from '',
      '', Microsoft UEFI CA in db, Microsoft KEK present'']"
    by code_simp
  then have m: "plain_text msg_no_pk \<and> plain_text msg_no_kek \<and> plain_text msg_no_db \<and> plain_text msg_unknown_oem
     \<and> plain_text (''Secure Boot chain fully validated '' @ em_dash @ '' PK from '')
     \<and> plain_text '', Microsoft UEFI CA in db, Microsoft KEK present''"
    by (auto simp only: list.pred_inject intro!: p)
  then show "plain_text msg_no_pk" "plain_text msg_no_kek" "plain_text msg_no_db" "plain_text msg_unknown_oem"
    by blast+
  show "plain_text (msg_validated oem) \<longleftrightarrow> plain_text oem"
    using m by (simp add: msg_validated_def del: plain_append) (simp add: plain_Cons)
qed

lemma verdict_safe:
  assumes "report_safe r"
  shows "safe_text (sb_verdict (report_verdict r))"
proof -
  have s: "safe_text (CHR ''F'' # x)" "safe_text (CHR ''W'' # x)" "safe_text (CHR ''P'' # x)" if "plain_text x" for x
    using that by (auto intro!: safe_text_Cons simp: plain_Cons)
  have "pkCerts r \<noteq> [] \<Longrightarrow> plain_text (subject (hd (pkCerts r)))" "plain_text (pkOemName r)"
    using assms by (auto simp: report_safe_def info_safe_def safe_text_def)
  then show ?thesis
    using assms messages_plain
    by (auto simp: report_verdict_def report_safe_def Let_def plain_Cons intro!: s)
qed

lemma report_verdict_frame:
  "pkCerts (report_verdict r) = pkCerts r" "pkOemName (report_verdict r) = pkOemName r"
  by (auto simp: report_verdict_def Let_def)

lemma ValidateSecureBootChain_texts:
  assumes "names_safe api" and "ValidateSecureBootChain api log = Some r"
  shows "safe_text (sb_verdict r)" and "safe_text (pkOemName r)" and "\<forall>c \<in> set (pkCerts r). info_safe c"
proof -
  obtain a :: event_log_analysis and r0 where r0: "report_entries api (new_report\<lparr>sb_enabled := secureBootEnabled a\<rparr>) (entries a) = Some r0"
    and r: "r = report_verdict r0"
    using assms(2) unfolding ValidateSecureBootChain_def Option.bind_eq_Some_conv option.inject by metis
  have "report_safe (new_report\<lparr>sb_enabled := b\<rparr>)" for b by (simp add: report_safe_def new_report_def)
  then have "report_safe r0" using report_entries_info [OF assms(1) _ r0] by blast
  then show "safe_text (sb_verdict r)" "safe_text (pkOemName r)" "\<forall>c \<in> set (pkCerts r). info_safe c"
    using verdict_safe unfolding r by (auto simp: report_verdict_frame report_safe_def)
qed

end
