(* ===== verification/Documents.thy ===== *)
theory Documents
  imports Evidence_Json Sample_Machine
begin

text \<open>
  What the server reads in the documents of the client: the enroll body and the evidence, each read back as
  a JSON object with its members.
\<close>

section \<open>The members of the evidence\<close>

lemma number_safe: "safe_text (to_string n)"
proof -
  have "to_string n \<noteq> []" by (subst to_string.simps) simp
  moreover have "CHR ''t'' \<notin> set ''0123456789''" by simp
  moreover have "c \<notin> {CHR ''{'', CHR ''['', CHR ''t'', CHR ''f'', CHR ''n''}" if "c \<in> set ''0123456789''" for c
    using that by auto
  ultimately show ?thesis
    using to_string_digits [of n] to_string_plain(1) [of n] by (cases "to_string n") (auto intro!: safe_text_Cons)
qed

lemma int_safe: "safe_text (int_to_string i)"
  using to_string_plain(1) by (simp add: int_to_string_def number_safe safe_text_Cons plain_Cons)

lemma renders_bool: "\<exists>j. renders (bool_text b) j"
  using renders_literal [of "bool_text b"] by (auto simp: bool_text_def)

lemma renders_text: "safe_text s \<Longrightarrow> \<exists>j. renders s j"
  using renders_safe by blast

definition evidence_keys :: "string list" where
  "evidence_keys = [''pcrValues'', ''quote'', ''secureBootChain'', ''eventLog'', ''ekCertPem'', ''ekCertificateChain'', ''deviceId'']"

lemma evidence_keys_plain: "k \<in> set evidence_keys \<Longrightarrow> plain_key k"
  by (auto simp: evidence_keys_def plain_key_def quote_char_def backslash_char_def newline_def)

lemma secure_boot_renders:
  assumes "names_safe api" and "ValidateSecureBootChain api log = Some report"
  shows "renders_members (secure_boot_fields report analysis)"
proof -
  note t = ValidateSecureBootChain_texts [OF assms]
  have pk: "safe_text (first_pk subject report)" "safe_text (first_pk issuer report)"
    using t(3) by (auto simp: first_pk_def info_safe_def)
  have keys: "list_all plain_key [''secureBootEnabled'', ''pkSubject'', ''pkIssuer'', ''pkIsKnownOem'', ''pkOemName'',
      ''kekHasMicrosoft'', ''dbHasMicrosoftUefiCa'', ''dbHasMicrosoftWindowsPca'', ''dbxHashCount'',
      ''totalMeasurements'', ''verifiedCount'', ''unknownCount'', ''verdict'']"
    by code_simp
  note members = keys [unfolded list.pred_inject] renders_bool
    renders_text [OF t(1)] renders_text [OF t(2)] renders_text [OF pk(1)] renders_text [OF pk(2)]
    renders_text [OF number_safe] renders_text [OF int_safe]
  have "list_all (\<lambda>(k, v). plain_key k \<and> (\<exists>j. renders v j))
      [(''secureBootEnabled'', bool_text (sb_enabled report)),
      (''pkSubject'', first_pk subject report),
      (''pkIssuer'', first_pk issuer report),
      (''pkIsKnownOem'', bool_text (pkIsKnownOem report)),
      (''pkOemName'', pkOemName report),
      (''kekHasMicrosoft'', bool_text (kekHasMicrosoft report)),
      (''dbHasMicrosoftUefiCa'', bool_text (dbHasMicrosoftUefiCa2011 report \<or> dbHasMicrosoftUefiCa2023 report)),
      (''dbHasMicrosoftWindowsPca'', bool_text (dbHasWindowsPca2011 report)),
      (''dbxHashCount'', int_to_string (dbxHashCount report)),
      (''totalMeasurements'', to_string (length (entries analysis))),
      (''verifiedCount'', to_string (verifiedCount analysis)),
      (''unknownCount'', to_string (unknownCount analysis)),
      (''verdict'', sb_verdict report)]"
    by (simp only: list.pred_inject prod.case members simp_thms)
  then show ?thesis
    unfolding secure_boot_fields_def by (intro renders_members_init) (auto simp only: list_all_iff)
qed

lemma built_renders:
  assumes "renders_members m"
  shows "\<exists>j. renders (JsonBuild m) j"
  using JsonBuild_document [OF assms] by metis

lemma secure_boot_text_renders:
  assumes "names_safe (plain_crypt_api api)" and "secure_boot_text api log = Some v"
  shows "\<exists>j. renders v j" and "v = ''null'' \<longleftrightarrow> log = []"
proof -
  have cases: "log = [] \<and> v = ''null'' \<or> log \<noteq> [] \<and> (\<exists>report (analysis :: event_log_analysis).
      ValidateSecureBootChain (plain_crypt_api api) log = Some report \<and> v = JsonBuild (secure_boot_fields report analysis))"
    using assms(2) by (cases "log = []") (auto simp: secure_boot_text_def Option.bind_eq_Some_conv)
  then show "\<exists>j. renders v j"
  proof (elim disjE conjE exE)
    fix report and analysis :: event_log_analysis
    assume r: "ValidateSecureBootChain (plain_crypt_api api) log = Some report"
      and v: "v = JsonBuild (secure_boot_fields report analysis)"
    show ?thesis
      unfolding v by (rule built_renders) (rule secure_boot_renders [OF assms(1) r])
  qed (use renders_literal [of "''null''"] in auto)
  show "v = ''null'' \<longleftrightarrow> log = []"
    using cases by (auto simp: JsonBuild_def)
qed

lemma device_id_safe:
  assumes "length b = 16"
  shows "safe_text (device_id_text (stamp_uuid b))"
proof -
  define A where "A = set ''0123456789abcdef''"
  have g: "set (hex_group x idx) \<subseteq> A" for x idx
    using lower.render_chars [of "map ((!) x) idx"] by (simp only: hex_group_render hex_lower_def A_def)
  have d: "set (device_id_text x) \<subseteq> insert (CHR ''-'') A" for x
    unfolding device_id_text_def using g by fastforce
  have "list_all (\<lambda>c. 32 \<le> (of_char c :: nat) \<and> c \<notin> {CHR ''{'', CHR ''[''}) (CHR ''-'' # ''0123456789abcdef'')"
    by code_simp
  then have "\<forall>c \<in> insert (CHR ''-'') A. 32 \<le> (of_char c :: nat) \<and> c \<notin> {CHR ''{'', CHR ''[''}"
    by (simp only: list_all_iff list.set(2) A_def)
  then have c: "32 \<le> (of_char c :: nat) \<and> c \<notin> {CHR ''{'', CHR ''[''}" if "c \<in> set (device_id_text x)" for c x
    using that d by blast
  have "length (device_id_text (stamp_uuid b)) = 36" by (rule device_id_text_shape(1) [OF assms])
  then obtain h t where t: "device_id_text (stamp_uuid b) = h # t" and l: "length t = 35"
    by (cases "device_id_text (stamp_uuid b)") auto
  have "\<not> embedded_verbatim (h # t)"
    using c [of h "stamp_uuid b"] l unfolding t by (auto simp: embedded_verbatim_def)
  moreover have "plain_text (h # t)"
    using c [of _ "stamp_uuid b"] unfolding t plain_text_def by blast
  ultimately show ?thesis unfolding t safe_text_def by blast
qed

lemma ComputeDeviceId_text:
  "fst (ComputeDeviceIdFromFingerprint api f w) = []
   \<or> (\<exists>b. length b = 16 \<and> fst (ComputeDeviceIdFromFingerprint api f w) = device_id_text (stamp_uuid b))"
  by (auto simp: ComputeDeviceIdFromFingerprint_def Let_def split: prod.split intro!: exI [of _ "take 16 _"])

lemma DeriveLocalDeviceId_text:
  assumes "DeriveLocalDeviceId win w = Some (d, w')"
  shows "d = [] \<or> (\<exists>b. length b = 16 \<and> d = device_id_text (stamp_uuid b))"
proof -
  have "d = [] \<or> (\<exists>f v. d = fst (ComputeDeviceIdFromFingerprint (w_bcrypt win) f v))"
    using assms unfolding DeriveLocalDeviceId_def
    by (auto simp: Let_def Option.bind_eq_Some_conv split: if_splits prod.splits sum.splits) (metis fst_conv)+
  then show ?thesis using ComputeDeviceId_text by metis
qed

lemma Base64_renders: "writes_base64 api \<Longrightarrow> renders (Base64Encode api data) (renders_base64 (Base64Encode api data))"
  by (rule renders_alphabet [OF Base64Encode_alphabet])

lemma Base64_renders_some: "writes_base64 api \<Longrightarrow> \<exists>j. renders (Base64Encode api data) j"
  using Base64_renders by blast

lemma quote_members:
  assumes "writes_base64 api"
  shows "renders_members (map_init [(''quoted'', Base64Encode api attest), (''signature'', Base64Encode api signature),
      (''nonce'', Base64Encode api nonce)])"
proof -
  have "list_all plain_key [''quoted'', ''signature'', ''nonce'']" by code_simp
  then show ?thesis
    using Base64_renders [OF assms] by (intro renders_members_init) auto
qed

lemma quote_text_document:
  assumes "writes_base64 api"
  obtains j where "renders (quote_text api attest signature nonce) j"
    and "json_at j [''quoted''] = Some (renders_base64 (Base64Encode api attest))"
    and "json_at j [''signature''] = Some (renders_base64 (Base64Encode api signature))"
    and "json_at j [''nonce''] = Some (renders_base64 (Base64Encode api nonce))"
proof -
  let ?m = "map_init [(''quoted'', Base64Encode api attest), (''signature'', Base64Encode api signature),
      (''nonce'', Base64Encode api nonce)]"
  obtain j where j: "renders (JsonBuild ?m) j"
    and at: "\<And>k v ks. map_of ?m k = Some v \<Longrightarrow> \<exists>i. renders v i \<and> json_at j (k # ks) = json_at i ks"
    using JsonBuild_document [OF quote_members [OF assms]] by metis
  have "json_at j [k] = Some (renders_base64 (Base64Encode api x))" if "map_of ?m k = Some (Base64Encode api x)" for k x
    using at [OF that, of "[]"] renders_unique [OF _ Base64_renders [OF assms, of x]] by auto
  then show thesis using that j by (simp add: quote_text_def map_of_map_init)
qed

section \<open>The evidence document\<close>

text \<open>An object under construction, and an optional member of it.\<close>

definition evidence_object :: "(string, string) std_map \<Rightarrow> bool" where
  "evidence_object m \<longleftrightarrow> renders_members m \<and> fst ` set m \<subseteq> set evidence_keys"

abbreviation put_when :: "bool \<Rightarrow> string \<Rightarrow> string \<Rightarrow> (string, string) std_map \<Rightarrow> (string, string) std_map" where
  "put_when c k v m \<equiv> (if c then map_put k v m else m)"

lemma evidence_object_put:
  assumes "evidence_object m" and "k \<in> set evidence_keys" and "c \<Longrightarrow> \<exists>j. renders v j"
  shows "evidence_object (put_when c k v m)"
  using assms renders_members_put evidence_keys_plain
  by (auto simp: evidence_object_def fst_map_put)

lemma put_when_get:
  "evidence_object m \<Longrightarrow> map_of (put_when c k v m) k' = (if c \<and> k = k' then Some v else map_of m k')"
  by (simp add: evidence_object_def renders_members_def)

text \<open>What the optional parts do to the object.\<close>

lemma evidence_extras_members:
  assumes b64: "writes_base64 (w_strings win)"
    and run: "evidence_extras win tpm eventLog m w = Some (m', w')"
    and m: "evidence_object m"
  shows "evidence_object m'"
    and "k \<in> {''pcrValues'', ''quote'', ''secureBootChain''} \<Longrightarrow> map_of m' k = map_of m k"
    and "map_of m' ''eventLog'' = (if eventLog = [] then map_of m ''eventLog''
      else Some (Base64Encode (w_strings win) eventLog))"
proof -
  define m1 where "m1 = put_when (eventLog \<noteq> []) ''eventLog'' (Base64Encode (w_strings win) eventLog) m"
  obtain der chain d v where d: "DeriveLocalDeviceId win v = Some (d, w')"
    and m': "m' = put_when (d \<noteq> []) ''deviceId'' d
      (put_when (chain \<noteq> []) ''ekCertificateChain'' (pem_array (w_strings win) chain)
        (put_when (32 < length der) ''ekCertPem'' (DerToPem (w_strings win) der) m1))"
    using run unfolding evidence_extras_def Let_def m1_def [symmetric]
    by (auto simp: Option.bind_eq_Some_conv)
  define m2 where "m2 = put_when (32 < length der) ''ekCertPem'' (DerToPem (w_strings win) der) m1"
  define m3 where "m3 = put_when (chain \<noteq> []) ''ekCertificateChain'' (pem_array (w_strings win) chain) m2"
  have m4: "m' = put_when (d \<noteq> []) ''deviceId'' d m3" by (simp only: m' m3_def m2_def)
  have k: "''eventLog'' \<in> set evidence_keys" "''ekCertPem'' \<in> set evidence_keys"
    "''ekCertificateChain'' \<in> set evidence_keys" "''deviceId'' \<in> set evidence_keys"
    by (simp_all add: evidence_keys_def)
  have o1: "evidence_object m1" unfolding m1_def
    by (rule evidence_object_put [OF m k(1)]) (rule Base64_renders_some [OF b64])
  have o2: "evidence_object m2" unfolding m2_def
    by (rule evidence_object_put [OF o1 k(2)]) (rule renders_text [OF DerToPem_safe [OF b64]])
  have o3: "evidence_object m3" unfolding m3_def
    by (rule evidence_object_put [OF o2 k(3)]) (use renders_pem_array [OF b64] in blast)
  have "d \<noteq> [] \<Longrightarrow> \<exists>j. renders d j"
    using DeriveLocalDeviceId_text [OF d] renders_text [OF device_id_safe] by blast
  then show "evidence_object m'" unfolding m4 by (rule evidence_object_put [OF o3 k(4)])
  have get: "map_of m' x = (if d \<noteq> [] \<and> ''deviceId'' = x then Some d
      else if chain \<noteq> [] \<and> ''ekCertificateChain'' = x then Some (pem_array (w_strings win) chain)
      else if 32 < length der \<and> ''ekCertPem'' = x then Some (DerToPem (w_strings win) der)
      else if eventLog \<noteq> [] \<and> ''eventLog'' = x then Some (Base64Encode (w_strings win) eventLog)
      else map_of m x)" for x
    unfolding m4 put_when_get [OF o3] unfolding m3_def put_when_get [OF o2] unfolding m2_def put_when_get [OF o1]
    unfolding m1_def put_when_get [OF m] by (rule refl)
  show "map_of m' k = map_of m k" if "k \<in> {''pcrValues'', ''quote'', ''secureBootChain''}"
    using that unfolding get by auto
  show "map_of m' ''eventLog'' = (if eventLog = [] then map_of m ''eventLog''
      else Some (Base64Encode (w_strings win) eventLog))"
    unfolding get by simp
qed

text \<open>A call that succeeds, taken apart.\<close>

lemma CollectEvidence_ok:
  assumes "RootHeraldCollectEvidence win (Some nonce) out w = Some (ROOTHERALD_OK, b, w')"
  obtains tpm h m r v v' a where "b = Some (Some (a, JsonBuild m @ [CHR 0x00]))"
    and "Base64Decode (w_strings win) (c_str nonce) \<noteq> []"
    and "CollectEvidence_quote win tpm h (Base64Decode (w_strings win) (c_str nonce)) v = Some ((ROOTHERALD_OK, m, r), v')"
proof -
  obtain m r v1 where f: "CollectEvidenceFields win nonce w = Some ((ROOTHERALD_OK, m, r), v1)"
    and buf: "(case malloc_text (w_process win) (JsonBuild m) v1 of
        (None, w) \<Rightarrow> Some (ROOTHERALD_ERR_INTERNAL, Some None, w)
      | (Some b, w) \<Rightarrow> Some (ROOTHERALD_OK, Some (Some b), w)) = Some (ROOTHERALD_OK, b, w')"
    using assms unfolding RootHeraldCollectEvidence_def
    by (auto simp: Option.bind_eq_Some_conv Let_def split: if_splits option.splits prod.splits)
  obtain a where b: "b = Some (Some (a, JsonBuild m @ [CHR 0x00]))"
    using buf by (auto simp: malloc_text_def Let_def split: prod.splits if_splits)
  obtain p v2 v3 where "CollectEvidence_enrolled win (c_str nonce) p v2 = Some ((ROOTHERALD_OK, m, r), v3)"
    using f unfolding CollectEvidenceFields_def by (auto simp: Option.bind_eq_Some_conv split: option.splits)
  then obtain tpm v v' where "Base64Decode (w_strings win) (c_str nonce) \<noteq> []"
    "CollectEvidence_quote win tpm (GetQuoteHandle p) (Base64Decode (w_strings win) (c_str nonce)) v
      = Some ((ROOTHERALD_OK, m, r), v')"
    unfolding CollectEvidence_enrolled_def
    by (auto simp: Option.bind_eq_Some_conv Let_def split: if_splits prod.splits)
  then show thesis using that b by blast
qed

lemma CollectEvidence_quote_ok:
  assumes "CollectEvidence_quote win tpm h nonce w = Some ((ROOTHERALD_OK, m, r), w')"
  obtains pcrs attest signature eventLog sb v1 v2 v3 where
    "collect_pcrs (w_tbs win) tpm True pcr_values_start evidence_pcrs w = Some (Some pcrs, v1)"
    and "secure_boot_text (w_cert win) eventLog = Some sb"
    and "evidence_extras win tpm eventLog (map_init [(''pcrValues'', pcrs),
        (''quote'', quote_text (w_strings win) attest signature nonce), (''secureBootChain'', sb)]) v2 = Some (m, v3)"
  using assms unfolding CollectEvidence_quote_def
  by (auto simp: Option.bind_eq_Some_conv Let_def case_prod_unfold split: if_splits option.splits)

lemma null_renders: "renders v (JLiteral ''null'') \<longleftrightarrow> v = ''null''"
  by (auto simp: renders_def json_value_def embedded_verbatim_def quote_char_def)

lemma evidence_object_init:
  assumes "\<exists>j. renders pcrs j" and "\<exists>j. renders quote j" and "\<exists>j. renders sb j"
  shows "evidence_object (map_init [(''pcrValues'', pcrs), (''quote'', quote), (''secureBootChain'', sb)])"
proof -
  let ?kvs = "[(''pcrValues'', pcrs), (''quote'', quote), (''secureBootChain'', sb)]"
  have k: "''pcrValues'' \<in> set evidence_keys" "''quote'' \<in> set evidence_keys" "''secureBootChain'' \<in> set evidence_keys"
    by (simp_all add: evidence_keys_def)
  have "renders_members (map_init ?kvs)"
    using assms evidence_keys_plain [OF k(1)] evidence_keys_plain [OF k(2)] evidence_keys_plain [OF k(3)]
    by (intro renders_members_init) auto
  moreover have "fst ` set (map_init ?kvs) \<subseteq> set evidence_keys"
    using k by (auto simp: map_init_def fst_map_put)
  ultimately show ?thesis by (simp add: evidence_object_def)
qed

lemma evidence_document:
  assumes b64: "writes_base64 (w_strings win)" and names: "names_safe (plain_crypt_api (w_cert win))"
    and run: "CollectEvidence_quote win tpm h nonce w = Some ((ROOTHERALD_OK, m, r), w')"
  obtains doc hs where "read_json (JsonBuild m) = Some doc" and "set (json_keys doc) \<subseteq> set evidence_keys"
    and "length hs = length evidence_pcrs" and "[] \<notin> set hs"
    and "json_at doc [''pcrValues''] = Some (pcr_values evidence_pcrs hs)"
    and "json_at doc [''quote'', ''nonce''] = Some (renders_base64 (Base64Encode (w_strings win) nonce))"
    and "json_at doc [''secureBootChain''] = Some (JLiteral ''null'') \<longleftrightarrow> json_at doc [''eventLog''] = None"
proof -
  obtain pcrs attest signature eventLog sb v1 v2 v3 where
    p: "collect_pcrs (w_tbs win) tpm True pcr_values_start evidence_pcrs w = Some (Some pcrs, v1)"
    and sb: "secure_boot_text (w_cert win) eventLog = Some sb"
    and ex: "evidence_extras win tpm eventLog (map_init [(''pcrValues'', pcrs),
        (''quote'', quote_text (w_strings win) attest signature nonce), (''secureBootChain'', sb)]) v2 = Some (m, v3)"
    by (rule CollectEvidence_quote_ok [OF run])
  let ?m0 = "map_init [(''pcrValues'', pcrs), (''quote'', quote_text (w_strings win) attest signature nonce),
      (''secureBootChain'', sb)]"
  obtain hs where hs: "length hs = length evidence_pcrs" "[] \<notin> set hs" and pv: "renders pcrs (pcr_values evidence_pcrs hs)"
    by (rule pcr_text [OF p])
  obtain jq where q: "renders (quote_text (w_strings win) attest signature nonce) jq"
    and qn: "json_at jq [''nonce''] = Some (renders_base64 (Base64Encode (w_strings win) nonce))"
    by (rule quote_text_document [OF b64])
  note sbr = secure_boot_text_renders [OF names sb]
  have "evidence_object ?m0"
    by (rule evidence_object_init) (use pv q sbr(1) in blast)+
  note m = evidence_extras_members [OF b64 ex this]
  have get: "map_of m ''pcrValues'' = Some pcrs" "map_of m ''quote'' = Some (quote_text (w_strings win) attest signature nonce)"
    "map_of m ''secureBootChain'' = Some sb"
    "map_of m ''eventLog'' = (if eventLog = [] then None else Some (Base64Encode (w_strings win) eventLog))"
    using m(2) [of "''pcrValues''"] m(2) [of "''quote''"] m(2) [of "''secureBootChain''"] m(3)
    by (simp_all add: map_of_map_init)
  obtain doc where doc: "read_json (JsonBuild m) = Some doc" "json_keys doc = map fst m"
    and at: "\<And>k v ks. map_of m k = Some v \<Longrightarrow> \<exists>i. renders v i \<and> json_at doc (k # ks) = json_at i ks"
    and no: "\<And>k ks. map_of m k = None \<Longrightarrow> json_at doc (k # ks) = None"
    using JsonBuild_document [of m] m(1) unfolding evidence_object_def by metis
  have at_pcrs: "json_at doc [''pcrValues''] = Some (pcr_values evidence_pcrs hs)"
    using at [OF get(1), of "[]"] renders_unique [OF pv] by auto
  have at_nonce: "json_at doc [''quote'', ''nonce''] = Some (renders_base64 (Base64Encode (w_strings win) nonce))"
    using at [OF get(2), of "[''nonce'']"] renders_unique [OF q] qn by auto
  have at_boot: "json_at doc [''secureBootChain''] = Some (JLiteral ''null'') \<longleftrightarrow> json_at doc [''eventLog''] = None"
  proof -
    obtain i where i: "renders sb i" "json_at doc [''secureBootChain''] = Some i"
      using at [OF get(3), of "[]"] by auto
    then have "i = JLiteral ''null'' \<longleftrightarrow> sb = ''null''"
      using null_renders [of sb] renders_unique by metis
    then have "json_at doc [''secureBootChain''] = Some (JLiteral ''null'') \<longleftrightarrow> eventLog = []"
      using i(2) sbr(2) by simp
    moreover have "json_at doc [''eventLog''] = None \<longleftrightarrow> eventLog = []"
      using at [of "''eventLog''" _ "[]"] no [of "''eventLog''" "[]"] get(4) by (cases "eventLog = []") auto
    ultimately show ?thesis by blast
  qed
  have keys: "set (json_keys doc) \<subseteq> set evidence_keys"
    using m(1) doc(2) by (simp add: evidence_object_def)
  show thesis by (rule that [OF doc(1) keys hs at_pcrs at_nonce at_boot])
qed

section \<open>The enroll body\<close>

definition enroll_keys :: "string list" where
  "enroll_keys = [''ekPublicKey'', ''akPublicArea'', ''platform'', ''ekCertPem'', ''ekCertificateChain'']"

lemma EnrollBegin_ok:
  assumes "RootHeraldEnrollBegin win out g w = Some (ROOTHERALD_OK, b, g', w')"
  obtains ek p a v v' where "GatherEkEnrollData win v = Some (Some ek, v')" and "g' = Some p" and "akPublicArea p \<noteq> []"
    and "b = Some (Some (a, JsonBuild (BuildEnrollFields (w_strings win) ek (akPublicArea p)) @ [CHR 0x00]))"
proof -
  obtain ek v v' where g: "GatherEkEnrollData win v = Some (Some ek, v')"
    and k: "EnrollBegin_key win ek g v' = Some (ROOTHERALD_OK, b, g', w')"
    using assms unfolding RootHeraldEnrollBegin_def
    by (auto simp: Option.bind_eq_Some_conv Let_def split: if_splits prod.splits option.splits)
  obtain p v2 where "EnrollBegin_emit win ek p g v2 = (ROOTHERALD_OK, b, g', w')"
    using k unfolding EnrollBegin_key_def
    by (auto simp: Option.bind_eq_Some_conv Let_def split: if_splits prod.splits)
  then have "g' = Some p \<and> akPublicArea p \<noteq> []
      \<and> (\<exists>a. b = Some (Some (a, JsonBuild (BuildEnrollFields (w_strings win) ek (akPublicArea p)) @ [CHR 0x00])))"
    unfolding EnrollBegin_emit_def
    by (auto simp: Let_def GetAkPublicArea_def malloc_text_def split: if_splits prod.splits option.splits)
  then show thesis using that g by blast
qed

lemma gathered_certificate:
  assumes "gather_certificate win pcp pub w = Some (pem, w')"
  shows "pem = [] \<or> (\<exists>der. pem = DerToPem (w_strings win) der)"
  using assms unfolding gather_certificate_def
  by (auto simp: Option.bind_eq_Some_conv case_prod_unfold split: if_splits)

lemma gathered_intermediates:
  assumes "gather_intermediates win w = Some (certs, w')"
  shows "length certs \<le> MAX_INTERMEDIATES"
  using assms unfolding gather_intermediates_def
  by (auto simp: Option.bind_eq_Some_conv Let_def case_prod_unfold split: if_splits)

lemma gathered_parts:
  assumes "GatherEkEnrollData win w = Some (Some ek, w')"
  shows "ekCertPem ek = [] \<or> (\<exists>der. ekCertPem ek = DerToPem (w_strings win) der)"
    and "length (intermediates ek) \<le> MAX_INTERMEDIATES" and "ekPub ek \<noteq> []"
proof -
  obtain pcp pub v1 v2 v3 where "gather_certificate win pcp pub v1 = Some (ekCertPem ek, v2)"
    and "gather_intermediates win v2 = Some (intermediates ek, v3)" and "pub \<noteq> []" and "ekPub ek = pub"
    using assms unfolding GatherEkEnrollData_def
    by (auto simp: Option.bind_eq_Some_conv Let_def case_prod_unfold split: if_splits sum.splits)
  then show "ekCertPem ek = [] \<or> (\<exists>der. ekCertPem ek = DerToPem (w_strings win) der)"
    and "length (intermediates ek) \<le> MAX_INTERMEDIATES" and "ekPub ek \<noteq> []"
    using gathered_certificate [of win pcp pub v1 "ekCertPem ek" v2] gathered_intermediates [of win v2] by auto
qed

lemma enroll_object:
  assumes b64: "writes_base64 api" and pem: "ekCertPem ek = [] \<or> (\<exists>der. ekCertPem ek = DerToPem api der)"
  shows "renders_members (BuildEnrollFields api ek ak)" and "fst ` set (BuildEnrollFields api ek ak) \<subseteq> set enroll_keys"
    and "map_of (BuildEnrollFields api ek ak) = [''ekPublicKey'' \<mapsto> Base64Encode api (ekPub ek),
      ''akPublicArea'' \<mapsto> Base64Encode api ak, ''platform'' \<mapsto> ''windows'']
      ++ (if ekCertPem ek = [] then Map.empty else [''ekCertPem'' \<mapsto> ekCertPem ek])
      ++ (if intermediates ek = [] then Map.empty else [''ekCertificateChain'' \<mapsto> pem_array api (intermediates ek)])"
proof -
  let ?m0 = "map_init [(''ekPublicKey'', Base64Encode api (ekPub ek)), (''akPublicArea'', Base64Encode api ak),
      (''platform'', ''windows'')]"
  let ?m1 = "if ekCertPem ek \<noteq> [] then map_put ''ekCertPem'' (ekCertPem ek) ?m0 else ?m0"
  have eq: "BuildEnrollFields api ek ak
      = (if intermediates ek \<noteq> [] then map_put ''ekCertificateChain'' (pem_array api (intermediates ek)) ?m1 else ?m1)"
    by (simp only: BuildEnrollFields_def Let_def)
  have keys: "plain_key ''ekPublicKey''" "plain_key ''akPublicArea''" "plain_key ''platform''" "plain_key ''ekCertPem''"
    "plain_key ''ekCertificateChain''"
    by code_simp+
  have "safe_text ''windows''" by code_simp
  then have r0: "renders_members ?m0"
    using Base64_renders_some [OF b64] renders_text keys by (intro renders_members_init) auto
  have "ekCertPem ek \<noteq> [] \<Longrightarrow> \<exists>j. renders (ekCertPem ek) j"
    using pem DerToPem_safe [OF b64] renders_text by auto
  then have r1: "renders_members ?m1"
    using renders_members_put [OF r0 keys(4)] r0 by auto
  then show "renders_members (BuildEnrollFields api ek ak)"
    unfolding eq using renders_members_put [OF r1 keys(5) renders_pem_array [OF b64]] by auto
  show "fst ` set (BuildEnrollFields api ek ak) \<subseteq> set enroll_keys"
    by (auto simp: eq map_init_def fst_map_put enroll_keys_def)
  have w: "wf_map ?m0" "wf_map ?m1" by auto
  show "map_of (BuildEnrollFields api ek ak) = [''ekPublicKey'' \<mapsto> Base64Encode api (ekPub ek),
      ''akPublicArea'' \<mapsto> Base64Encode api ak, ''platform'' \<mapsto> ''windows'']
      ++ (if ekCertPem ek = [] then Map.empty else [''ekCertPem'' \<mapsto> ekCertPem ek])
      ++ (if intermediates ek = [] then Map.empty else [''ekCertificateChain'' \<mapsto> pem_array api (intermediates ek)])"
    unfolding eq using w by (auto simp: map_of_map_init fun_upd_twist)
qed

lemma enroll_document:
  assumes b64: "writes_base64 api" and pem: "ekCertPem ek = [] \<or> (\<exists>der. ekCertPem ek = DerToPem api der)"
  obtains doc where "read_json (JsonBuild (BuildEnrollFields api ek ak)) = Some doc"
    and "set (json_keys doc) \<subseteq> set enroll_keys"
    and "json_at doc [''ekPublicKey''] = Some (renders_base64 (Base64Encode api (ekPub ek)))"
    and "json_at doc [''akPublicArea''] = Some (renders_base64 (Base64Encode api ak))"
    and "json_at doc [''platform''] = Some (JString ''windows'')"
    and "json_at doc [''ekCertificateChain''] = (if intermediates ek = [] then None else Some (pem_values api (intermediates ek)))"
proof -
  let ?m = "BuildEnrollFields api ek ak"
  note m = enroll_object [OF b64 pem, of ak]
  obtain doc where doc: "read_json (JsonBuild ?m) = Some doc" "json_keys doc = map fst ?m"
    and at: "\<And>k v ks. map_of ?m k = Some v \<Longrightarrow> \<exists>i. renders v i \<and> json_at doc (k # ks) = json_at i ks"
    and no: "\<And>k ks. map_of ?m k = None \<Longrightarrow> json_at doc (k # ks) = None"
    using JsonBuild_document [OF m(1)] by metis
  have member: "json_at doc [k] = Some j" if "map_of ?m k = Some v" and "renders v j" for k v j
    using at [OF that(1), of "[]"] renders_unique [OF that(2)] by auto
  have get: "map_of ?m ''ekPublicKey'' = Some (Base64Encode api (ekPub ek))" "map_of ?m ''akPublicArea'' = Some (Base64Encode api ak)"
    "map_of ?m ''platform'' = Some ''windows''"
    "map_of ?m ''ekCertificateChain'' = (if intermediates ek = [] then None else Some (pem_array api (intermediates ek)))"
    unfolding m(3) by (simp_all add: map_add_def)
  have keys: "set (json_keys doc) \<subseteq> set enroll_keys" using m(2) doc(2) by simp
  have windows: "renders ''windows'' (JString ''windows'')" by (rule renders_safe) code_simp
  have chain: "json_at doc [''ekCertificateChain''] = (if intermediates ek = [] then None else Some (pem_values api (intermediates ek)))"
    using no [of "''ekCertificateChain''" "[]"] member [of "''ekCertificateChain''"] renders_pem_array [OF b64] get(4)
    by (cases "intermediates ek = []") auto
  show thesis
    by (rule that [OF doc(1) keys member [OF get(1) Base64_renders [OF b64]] member [OF get(2) Base64_renders [OF b64]]
        member [OF get(3) windows] chain])
qed

section \<open>The documents of the sample machine\<close>

lemma sample_writes_base64: "writes_base64 sample_strings"
proof -
  have "list_all (\<lambda>c. c \<in> set base64_alphabet) hex_lower" by code_simp
  then have h: "set (hex_render hex_lower data) \<subseteq> set base64_alphabet" for data
    using lower.render_chars [of data] by (auto simp: list_all_iff)
  show ?thesis
    unfolding writes_base64_def
  proof (intro allI)
    fix data size
    show "\<exists>text n. fst (CryptBinaryToStringA sample_strings data size) = text @ replicate n (CHR 0x00)
        \<and> set text \<subseteq> set base64_alphabet"
      by (rule exI [of _ "hex_render hex_lower data"], rule exI [of _ 0]) (simp add: sample_strings_def h)
  qed
qed

section \<open>Properties\<close>

text \<open>C10. The body \<open>RootHeraldEnrollBegin\<close> hands out is one JSON object with the keys of the enroll request, whatever
  the endorsement certificate and the intermediates are: a strict reader finds the public area of the
  key the provider keeps, a non-empty endorsement key, the platform, and at most eight certificates of
  the chain as an array of PEM texts, absent when there are none.\<close>

theorem enroll_body_reads_back:
  assumes "writes_base64 (w_strings win)"
    and "RootHeraldEnrollBegin win out g w = Some (ROOTHERALD_OK, b, g', w')"
  shows "\<exists>a body doc p ekKey certs. b = Some (Some (a, body @ [CHR 0x00])) \<and> read_json body = Some doc
    \<and> set (json_keys doc) \<subseteq> set enroll_keys
    \<and> g' = Some p \<and> akPublicArea p \<noteq> []
    \<and> json_at doc [''akPublicArea''] = Some (renders_base64 (Base64Encode (w_strings win) (akPublicArea p)))
    \<and> ekKey \<noteq> [] \<and> json_at doc [''ekPublicKey''] = Some (renders_base64 (Base64Encode (w_strings win) ekKey))
    \<and> json_at doc [''platform''] = Some (JString ''windows'')
    \<and> length certs \<le> MAX_INTERMEDIATES
    \<and> json_at doc [''ekCertificateChain''] = (if certs = [] then None else Some (pem_values (w_strings win) certs))"
proof -
  obtain ek p a v v' where g: "GatherEkEnrollData win v = Some (Some ek, v')" and p: "g' = Some p" "akPublicArea p \<noteq> []"
    and b: "b = Some (Some (a, JsonBuild (BuildEnrollFields (w_strings win) ek (akPublicArea p)) @ [CHR 0x00]))"
    by (rule EnrollBegin_ok [OF assms(2)])
  note parts = gathered_parts [OF g]
  show ?thesis
    by (rule enroll_document [OF assms(1) parts(1), of "akPublicArea p"]) (use b p parts(2,3) in blast)
qed

theorem enroll_body_reads_back_witness:
  "\<exists>b g' w'. RootHeraldEnrollBegin (recorded sample_machine) (Some None) None (begin_script, []) = Some (ROOTHERALD_OK, b, g', w')
    \<and> (\<exists>a body doc p ekKey certs. b = Some (Some (a, body @ [CHR 0x00])) \<and> read_json body = Some doc
    \<and> set (json_keys doc) \<subseteq> set enroll_keys
    \<and> g' = Some p \<and> akPublicArea p \<noteq> []
    \<and> json_at doc [''akPublicArea''] = Some (renders_base64 (Base64Encode (w_strings (recorded sample_machine)) (akPublicArea p)))
    \<and> ekKey \<noteq> [] \<and> json_at doc [''ekPublicKey''] = Some (renders_base64 (Base64Encode (w_strings (recorded sample_machine)) ekKey))
    \<and> json_at doc [''platform''] = Some (JString ''windows'')
    \<and> length certs \<le> MAX_INTERMEDIATES
    \<and> json_at doc [''ekCertificateChain''] = (if certs = [] then None else Some (pem_values (w_strings (recorded sample_machine)) certs)))"
proof -
  obtain b g' w' where run: "RootHeraldEnrollBegin (recorded sample_machine) (Some None) None (begin_script, [])
      = Some (ROOTHERALD_OK, b, g', w')"
    using sample_begin_driver [of "[]"] by auto
  have "writes_base64 (w_strings (recorded sample_machine))" by (simp add: sample_parts sample_writes_base64)
  from enroll_body_reads_back [OF this run] run show ?thesis by blast
qed



end
