(* ===== verification/Posture.thy ===== *)
theory Posture
  imports Documents
begin

text \<open>
  The local posture snapshot of \<open>RootHeraldCollectLocalPosture\<close>: every field is in the range the header
  promises, and the detail is a document cut to its array.
\<close>

section \<open>Strings in arrays\<close>

definition fits :: "nat \<Rightarrow> string \<Rightarrow> bool" where
  "fits n s \<longleftrightarrow> length s < n \<and> CHR 0x00 \<notin> set s"

lemma strncpy_fits: "0 < n \<Longrightarrow> fits n (strncpy_truncate n s)"
  by (auto simp: fits_def strncpy_truncate_def c_str_def dest: in_set_takeD set_takeWhileD)

lemma newline_nul: "CHR 0x00 \<noteq> newline" and of_char_nul: "(of_char (CHR 0x00) :: nat) = 0"
  by (simp_all add: newline_def)

lemma plain_c_str: "plain_text s \<Longrightarrow> c_str s = s"
proof -
  assume "plain_text s"
  then have "CHR 0x00 \<notin> set s" unfolding plain_text_def by (metis newline_nul of_char_nul not_numeral_le_zero)
  then show "c_str s = s" unfolding c_str_def takeWhile_eq_all_conv by metis
qed

lemma strncpy_plain: "plain_text s \<Longrightarrow> strncpy_truncate n s = take (n - 1) s"
  by (simp add: strncpy_truncate_def plain_c_str)

section \<open>The detail\<close>

lemma boot_detail_renders:
  assumes "names_safe api" and "ValidateSecureBootChain api log = Some report" and "renders_members m"
  shows "renders_members (boot_detail report analysis m)"
proof -
  note t = ValidateSecureBootChain_texts [OF assms(1,2)]
  have keys: "list_all plain_key [''secureBootEnabled'', ''pkIsKnownOem'', ''pkOemName'', ''kekHasMicrosoft'', ''dbxHashCount'',
      ''totalMeasurements'', ''verifiedCount'', ''unknownCount'', ''verdict'']"
    by code_simp
  note keys = keys [unfolded list.pred_inject]
  have put: "renders_members (map_put k v m)" if "renders_members m" "plain_key k" "\<exists>j. renders v j" for k v m
    using that renders_members_put by blast
  show ?thesis
    unfolding boot_detail_def Let_def
    by (intro put assms(3) renders_bool renders_text [OF number_safe] renders_text [OF int_safe]
        renders_text [OF t(1)] renders_text [OF t(2)]) (simp_all only: keys)
qed

lemma posture_detail_renders:
  assumes "safe_text (device_id p)"
  shows "renders_members (posture_detail p)"
proof -
  have keys: "list_all plain_key [''hasTpm'', ''isEnrolled'', ''ekCertPresent'', ''deviceId'', ''platform'']"
    by code_simp
  have "safe_text ''windows''" by code_simp
  note members = keys [unfolded list.pred_inject] renders_bool renders_text [OF assms] renders_text [OF this]
  have "list_all (\<lambda>(k, v). plain_key k \<and> (\<exists>j. renders v j))
      [(''hasTpm'', bool_text (has_tpm p \<noteq> 0)),
      (''isEnrolled'', bool_text (is_enrolled p \<noteq> 0)),
      (''ekCertPresent'', bool_text (ek_cert_present p \<noteq> 0)),
      (''deviceId'', device_id p),
      (''platform'', ''windows'')]"
    by (simp only: list.pred_inject prod.case members simp_thms)
  then show ?thesis
    unfolding posture_detail_def by (intro renders_members_init) (auto simp only: list_all_iff)
qed

lemma escape_plain: "plain_text s \<Longrightarrow> plain_text (json_escape s)"
proof (induction s)
  case (Cons c s)
  have "plain_text [quote_char, backslash_char, CHR ''n'']"
    by (simp add: plain_text_def quote_char_def backslash_char_def)
  then show ?case using Cons by (auto simp: plain_Cons escape_char_def)
qed simp

lemma quoted_plain: "plain_text s \<Longrightarrow> plain_text (quoted s)"
  using escape_plain by (simp add: quoted_def plain_Cons quote_char_def)

lemma comma_join_plain: "(\<And>x. x \<in> set xs \<Longrightarrow> plain_text x) \<Longrightarrow> plain_text (comma_join xs)"
  by (induction xs rule: comma_join.induct) (simp_all add: plain_Cons)

lemma json_text_plain: "wf_json j \<Longrightarrow> plain_text (json_text j)"
proof (induction j rule: json_text.induct)
  case (1 s)
  then show ?case by (simp add: quoted_plain)
next
  case (2 l)
  then show ?case by (auto simp: plain_Cons)
next
  case (3 vs)
  then show ?case by (auto simp: plain_Cons intro!: comma_join_plain)
next
  case (4 ms)
  have "plain_text (member_text m)" if "m \<in> set ms" for m
    using 4 that by (cases m) (auto simp: member_text_def quoted_plain plain_Cons)
  then show ?case unfolding json_text_JObject by (auto simp: plain_Cons intro!: comma_join_plain)
qed

lemma built_plain:
  assumes "renders_members m"
  shows "plain_text (JsonBuild m)"
proof -
  obtain ms where "renders_fields m ms" using object_members [OF assms] by metis
  from JsonBuild_text [OF this] show ?thesis using json_text_plain by metis
qed

section \<open>The snapshot\<close>

lemma bit_of_range: "bit_of b \<in> {0, 1}" "bit_of b = 0 \<longleftrightarrow> \<not> b" "bit_of b \<noteq> -1"
  by (auto simp: bit_of_def)

text \<open>What the event log's part leaves alone, and what it sets.\<close>

lemma posture_boot_log_fields:
  assumes "names_safe (plain_crypt_api api)" and "posture_boot_log api log p = Some (p', detail)"
    and "safe_text (device_id p)"
  shows "renders_members detail" and "map_of detail ''hasTpm'' = Some (bool_text (has_tpm p \<noteq> 0))"
    and "if log = [] then p' = p else
      \<exists>report (analysis :: event_log_analysis). ValidateSecureBootChain (plain_crypt_api api) log = Some report
        \<and> ParseAndAnalyzeEventLog log = Some analysis \<and> p' = boot_posture report analysis p"
proof -
  have r: "renders_members (posture_detail p)" by (rule posture_detail_renders [OF assms(3)])
  then have w: "wf_map (posture_detail p)" by (simp add: renders_members_def)
  have h: "map_of (posture_detail p) ''hasTpm'' = Some (bool_text (has_tpm p \<noteq> 0))"
    unfolding posture_detail_def map_of_map_init by simp
  have u: "renders_members (map_put ''eventLog'' ''unavailable'' (posture_detail p))"
    by (rule renders_members_put [OF r _ renders_safe]) code_simp+
  have b: "map_of (boot_detail report analysis (posture_detail p)) ''hasTpm'' = Some (bool_text (has_tpm p \<noteq> 0))" for report analysis
    using w h by (simp add: boot_detail_def Let_def)
  have run: "log = [] \<and> p' = p \<and> detail = map_put ''eventLog'' ''unavailable'' (posture_detail p)
    \<or> log \<noteq> [] \<and> (\<exists>report (analysis :: event_log_analysis). ValidateSecureBootChain (plain_crypt_api api) log = Some report
        \<and> ParseAndAnalyzeEventLog log = Some analysis \<and> p' = boot_posture report analysis p
        \<and> detail = boot_detail report analysis (posture_detail p))"
    using assms(2) unfolding posture_boot_log_def Let_def
    by (cases "log = []") (auto simp: Option.bind_eq_Some_conv)
  show "renders_members detail" using run u boot_detail_renders [OF assms(1) _ r] by metis
  show "map_of detail ''hasTpm'' = Some (bool_text (has_tpm p \<noteq> 0))"
    using run b w h by auto
  show "if log = [] then p' = p else
      \<exists>report (analysis :: event_log_analysis). ValidateSecureBootChain (plain_crypt_api api) log = Some report
        \<and> ParseAndAnalyzeEventLog log = Some analysis \<and> p' = boot_posture report analysis p"
    using run by auto
qed

text \<open>The fields set before the event log is read.\<close>

definition posture_before :: "bool \<Rightarrow> bool \<Rightarrow> bool \<Rightarrow> string \<Rightarrow> root_herald_posture" where
  "posture_before available persisted certified deviceId = posture_start\<lparr>has_tpm := bit_of available,
     is_enrolled := bit_of persisted, ek_cert_present := bit_of certified, device_id := deviceId\<rparr>"

text \<open>The device id, read only where there is a TPM.\<close>

definition posture_device_id :: "('c, 'w) windows \<Rightarrow> root_herald_posture \<Rightarrow> 'w \<Rightarrow> (root_herald_posture \<times> 'w) option" where
  "posture_device_id win p w = (if has_tpm p \<noteq> 0
     then do {
       (deviceId, w) \<leftarrow> DeriveLocalDeviceId win w;
       Some (if deviceId \<noteq> [] then p\<lparr>device_id := strncpy_truncate 129 deviceId\<rparr> else p, w)
     }
     else Some (p, w))"

definition guid_or_empty :: "string \<Rightarrow> bool" where
  "guid_or_empty s \<longleftrightarrow> s = [] \<or> (\<exists>b. length b = 16 \<and> s = device_id_text (stamp_uuid b))"

lemma posture_device_id_sets:
  assumes "posture_device_id win p w = Some (p', w')" and "device_id p = []"
  obtains d where "p' = p\<lparr>device_id := d\<rparr>" and "guid_or_empty d" and "has_tpm p = 0 \<longrightarrow> d = []"
proof (cases "has_tpm p = 0")
  case True
  then show thesis using that [of "[]"] assms by (simp add: posture_device_id_def guid_or_empty_def)
next
  case False
  then obtain d where d: "DeriveLocalDeviceId win w = Some (d, w')"
    and p': "p' = (if d \<noteq> [] then p\<lparr>device_id := strncpy_truncate 129 d\<rparr> else p)"
    using assms by (auto simp: posture_device_id_def Option.bind_eq_Some_conv)
  have "strncpy_truncate 129 d = d" if ne: "d \<noteq> []"
  proof -
    obtain b where b: "length b = 16" "d = device_id_text (stamp_uuid b)"
      using DeriveLocalDeviceId_text [OF d] ne by blast
    then show ?thesis
      using strncpy_plain [of d] device_id_safe [OF b(1)] device_id_text_shape(1) [OF b(1)]
      by (simp add: safe_text_def)
  qed
  then have "p' = p\<lparr>device_id := d\<rparr>" using p' assms(2) by auto
  then show thesis using that False DeriveLocalDeviceId_text [OF d] by (simp add: guid_or_empty_def)
qed

lemma posture_run:
  assumes "RootHeraldCollectLocalPosture win (Some p0) w = Some (st, out, w')"
  obtains available persisted certified deviceId log p detail where "st = ROOTHERALD_OK"
    and "posture_boot_log (w_cert win) log (posture_before available persisted certified deviceId) = Some (p, detail)"
    and "out = Some (p\<lparr>detail_json := strncpy_truncate 2048 (JsonBuild detail)\<rparr>)"
    and "guid_or_empty deviceId" and "available \<or> deviceId = []"
proof -
  obtain available persisted der w3 p2 w4 p detail where
    id: "posture_device_id win (posture_start\<lparr>has_tpm := bit_of available, is_enrolled := bit_of persisted,
        ek_cert_present := bit_of (32 < length (der :: bytes))\<rparr>) w3 = Some (p2, w4)"
    and log: "posture_boot_log (w_cert win) (fst (ReadEventLog (w_tbs win) w4)) p2 = Some (p, detail)"
    and st: "st = ROOTHERALD_OK" and out: "out = Some (p\<lparr>detail_json := strncpy_truncate 2048 (JsonBuild detail)\<rparr>)"
    using assms unfolding RootHeraldCollectLocalPosture_def posture_device_id_def [symmetric]
    by (auto simp: Option.bind_eq_Some_conv Let_def case_prod_unfold)
  have "device_id (posture_start\<lparr>has_tpm := bit_of available, is_enrolled := bit_of persisted,
      ek_cert_present := bit_of (32 < length der)\<rparr>) = []"
    by (simp add: posture_start_def zero_posture_def)
  from posture_device_id_sets [OF id this] obtain d where d: "guid_or_empty d"
    and p2: "p2 = posture_start\<lparr>has_tpm := bit_of available, is_enrolled := bit_of persisted,
        ek_cert_present := bit_of (32 < length der)\<rparr>\<lparr>device_id := d\<rparr>"
    and none: "has_tpm (posture_start\<lparr>has_tpm := bit_of available, is_enrolled := bit_of persisted,
        ek_cert_present := bit_of (32 < length der)\<rparr>) = 0 \<longrightarrow> d = []" .
  have "p2 = posture_before available persisted (32 < length der) d"
    by (simp add: p2 posture_before_def)
  moreover have "available \<or> d = []" using none by (cases available) (auto simp: bit_of_def)
  ultimately show thesis using that [OF st _ out d] log by metis
qed

lemma platform_text: "strncpy_truncate 16 ''windows'' = ''windows''"
proof -
  have "plain_text ''windows''" by code_simp
  then show ?thesis by (simp add: strncpy_plain)
qed

text \<open>The ranges of the fields, before and after the event log's part.\<close>

definition posture_ranges :: "root_herald_posture \<Rightarrow> bool" where
  "posture_ranges p \<longleftrightarrow> {has_tpm p, is_enrolled p, ek_cert_present p} \<subseteq> {0, 1}
     \<and> ({secure_boot p, oem_keyed p} \<subseteq> {0, 1}
        \<or> {secure_boot p, oem_keyed p, boot_log_measurements p} = {-1} \<and> oem_name p = [])
     \<and> boot_log_revoked p = -1 \<and> platform_name p = ''windows'' \<and> fits 64 (oem_name p)"

lemma posture_before_ranges: "posture_ranges (posture_before available persisted certified d)"
proof -
  let ?p = "posture_before available persisted certified d"
  have "{secure_boot ?p, oem_keyed ?p, boot_log_measurements ?p} = {-1}" "oem_name ?p = []" "boot_log_revoked ?p = -1"
    "platform_name ?p = ''windows''"
    by (simp_all add: posture_before_def posture_start_def zero_posture_def platform_text)
  moreover have "{has_tpm ?p, is_enrolled ?p, ek_cert_present ?p} \<subseteq> {0, 1}"
    using bit_of_range(1) by (simp add: posture_before_def)
  ultimately show ?thesis unfolding posture_ranges_def fits_def by (simp only: list.size list.set) simp
qed

lemma boot_posture_ranges:
  assumes "posture_ranges p"
  shows "posture_ranges (boot_posture report analysis p)"
proof -
  let ?q = "boot_posture report analysis p"
  have "{secure_boot ?q, oem_keyed ?q} \<subseteq> {0, 1}"
    using bit_of_range(1) by (simp add: boot_posture_def)
  moreover have "fits 64 (oem_name ?q)"
    by (simp add: boot_posture_def strncpy_fits)
  moreover have "has_tpm ?q = has_tpm p" "is_enrolled ?q = is_enrolled p" "ek_cert_present ?q = ek_cert_present p"
    "boot_log_revoked ?q = boot_log_revoked p" "platform_name ?q = platform_name p"
    by (simp_all add: boot_posture_def)
  ultimately show ?thesis using assms unfolding posture_ranges_def by simp
qed

lemma posture_ranges_detail: "posture_ranges (p\<lparr>detail_json := x\<rparr>) = posture_ranges p"
  by (simp add: posture_ranges_def)

lemma guid_or_empty_fits:
  assumes "guid_or_empty d"
  shows "safe_text d" and "fits 129 d" and "d \<noteq> [] \<Longrightarrow> length d = 36"
proof -
  show s: "safe_text d" using assms device_id_safe by (auto simp: guid_or_empty_def)
  have l: "length d \<le> 36" using assms device_id_text_shape(1) by (auto simp: guid_or_empty_def)
  show "d \<noteq> [] \<Longrightarrow> length d = 36" using assms device_id_text_shape(1) by (auto simp: guid_or_empty_def)
  have "strncpy_truncate 129 d = d" using strncpy_plain [of d] s l by (simp add: safe_text_def)
  then show "fits 129 d" using strncpy_fits [of 129 d] by simp
qed

lemma posture_detail_document:
  assumes "renders_members detail" and "map_of detail k = Some (bool_text b)"
  shows "strncpy_truncate 2048 (JsonBuild detail) = take 2047 (JsonBuild detail)"
    and "\<exists>doc. read_json (JsonBuild detail) = Some doc \<and> json_at doc [k] = Some (JLiteral (bool_text b))"
proof -
  show "strncpy_truncate 2048 (JsonBuild detail) = take 2047 (JsonBuild detail)"
    using strncpy_plain [OF built_plain [OF assms(1)]] by simp
  obtain doc where doc: "read_json (JsonBuild detail) = Some doc"
    and at: "\<And>k v ks. map_of detail k = Some v \<Longrightarrow> \<exists>i. renders v i \<and> json_at doc (k # ks) = json_at i ks"
    using JsonBuild_document [OF assms(1)] by metis
  obtain i where i: "renders (bool_text b) i" "json_at doc [k] = Some i"
    using at [OF assms(2), of "[]"] by auto
  have "renders (bool_text b) (JLiteral (bool_text b))"
    by (rule renders_literal) (simp add: bool_text_def)
  then have "i = JLiteral (bool_text b)" by (rule renders_unique [OF i(1)])
  then show "\<exists>doc. read_json (JsonBuild detail) = Some doc \<and> json_at doc [k] = Some (JLiteral (bool_text b))"
    using doc i(2) by blast
qed

section \<open>The snapshot of the sample machine\<close>

lemma sample_posture:
  "\<exists>p s'. RootHeraldCollectLocalPosture (recorded sample_machine) (Some zero_posture) ([ok_response []], [])
     = Some (ROOTHERALD_OK, Some p, s')"
proof -
  have available: "IsAvailable (lift_ncrypt sample_ncrypt) s = (True, s)" for s :: "bytes list \<times> (bytes \<times> bytes) list"
    by (cases s) (simp add: IsAvailable_def lift_ncrypt_def sample_ncrypt_def lift_defs NcryptProviderTraits_def
        uh_Put_def uh_Reset_def uh_Destroy_def)
  obtain l where "AkExists (transcript scripted) ((new_TbsKeyProvider TBS_AK_PERSISTENT_HANDLE)\<lparr>kp_tpm := \<lparr>tc_context = 1\<rparr>\<rparr>)
      ([ok_response []], []) = Some (True, [], l)"
    by (simp add: AkExists_def IsPersistentPresent_def sample_send FAILED_def ok_response_def)
  then have persisted: "IsAkPersisted (recorded sample_machine) ([ok_response []], []) = Some (True, [], l)"
    by (simp add: IsAkPersisted_def sample_parts sample_open SUCCEEDED_def FAILED_def sample_new_destroy)
  show ?thesis
    by (simp add: RootHeraldCollectLocalPosture_def sample_parts available persisted sample_stores sample_device_id
        sample_no_log posture_boot_log_def Let_def)
qed

section \<open>Properties\<close>



end
