(* ===== verification/Device_Identity.thy ===== *)
theory Device_Identity
  imports Client_Encoding Amd_Aia
begin

text \<open>
  Properties of the identity of a device: the id derived from the fingerprint of its endorsement key
  (\<open>ComputeDeviceIdFromFingerprint\<close>), the modulus taken from the key blob and the certificate fetched by
  the digest of the modulus (\<open>src/certs/amd_aia_fetch.cpp\<close>). The sample interfaces at the end serve the
  witnesses.
\<close>

section \<open>Sample interfaces\<close>

text \<open>A digest that pads or cuts its data to a length, over a world that holds the data hashed so far.\<close>

definition pad_digest :: "nat \<Rightarrow> bytes \<Rightarrow> bytes" where
  "pad_digest n data = take n (data @ replicate n 0)"

definition pad_bcrypt :: "nat \<Rightarrow> bytes bcrypt_api" where
  "pad_bcrypt n = \<lparr>BCryptOpenAlgorithmProvider = (\<lambda>_ w. (0, 1, w)), BCryptGetHashLength = (\<lambda>_ w. (0, of_nat n, w)),
     BCryptCreateHash = (\<lambda>_ w. (0, 2, [])), BCryptHashData = (\<lambda>_ data w. (0, w @ data)),
     BCryptFinishHash = (\<lambda>_ _ w. (0, pad_digest n w, w)), BCryptDestroyHash = (\<lambda>_ w. w),
     BCryptCloseAlgorithmProvider = (\<lambda>_ w. w)\<rparr>"

lemma length_pad_digest [simp]: "length (pad_digest n data) = n"
  by (simp add: pad_digest_def)

lemma pad_bcrypt_computes:
  assumes "0 < n" and "n < 2 ^ 32"
  shows "computes (pad_bcrypt n) UNIV alg n (pad_digest n)"
  using assms by (simp add: computes_def serves_digest_def pad_bcrypt_def)

text \<open>A server with one document, whose world is what is left of it to read.\<close>

definition one_page :: "u32 \<Rightarrow> string \<Rightarrow> bytes winhttp_api" where
  "one_page code page = \<lparr>MultiByteToWideChar = (\<lambda>s. s), WinHttpCrackUrl = (\<lambda>_ _ _. Some (True, ''ftpm.amd.com'', 443, ''/pki/aia'')),
     WinHttpOpen = (\<lambda>_ w. (1, w)), WinHttpConnect = (\<lambda>_ _ _ w. (2, w)), WinHttpOpenRequest = (\<lambda>_ _ _ _ w. (3, w)),
     WinHttpAddRequestHeaders = (\<lambda>_ _ w. w), WinHttpSendRequest = (\<lambda>_ _ w. (True, w)),
     WinHttpReceiveResponse = (\<lambda>_ w. (True, map u8_of_char page)), WinHttpQueryStatusCode = (\<lambda>_ w. (Some code, w)),
     WinHttpQueryDataAvailable = (\<lambda>_ w. (True, of_nat (length w), w)),
     WinHttpReadData = (\<lambda>_ n w. (map char_of_u8 w, of_nat (length w), [])), WinHttpCloseHandle = (\<lambda>_ w. w)\<rparr>"

lemma one_page_answers:
  assumes "page \<noteq> []" and "length page < 2 ^ 32"
  shows "answers_get (one_page code page) url code [page] w []"
proof -
  have n: "unat (of_nat (length page) :: u32) = length page" using assms(2) by (simp add: unat_of_nat)
  then have "(0 :: u32) < of_nat (length page)" using assms(1) by (simp add: word_less_nat_alt)
  moreover have "map (char_of_u8 \<circ> u8_of_char) page = page" by (simp add: comp_def)
  ultimately have "delivers (one_page code page) 3 [page] (map u8_of_char page) []"
    using n by (auto simp: one_page_def)
  then show ?thesis
    by (simp add: answers_get_def exchange_answers_def) (simp add: one_page_def)
qed

section \<open>Properties\<close>

text \<open>C27. The device id of a fingerprint is the text of a \<open>Guid\<close> whose sixteen bytes are the SHA-1 digest of the
  namespace and the fingerprint with the version and variant bits put in, in the byte order of .NET: three
  little-endian fields printed as numbers, then bytes. It has 36 characters; the version digit stands at
  index 16 and the variant digit at index 19. Two fingerprints share an id exactly when the stamped
  digests agree.\<close>

theorem device_id_is_the_guid:
  assumes "computes api W BCRYPT_SHA1_ALGORITHM 20 H" and "w \<in> W" and "w2 \<in> W"
    and "length fingerprint = 32" and "length fingerprint2 = 32"
  shows "\<exists>a b c d w'. ComputeDeviceIdFromFingerprint api fingerprint w = (guid_text a b c d, w') \<and> w' \<in> W
    \<and> length d = 8 \<and> guid_bytes a b c d = stamp_uuid (take 16 (H (DEVICE_ID_NAMESPACE @ fingerprint)))
    \<and> length (guid_text a b c d) = 36 \<and> guid_text a b c d ! 16 = CHR ''5''
    \<and> guid_text a b c d ! 19 \<in> {CHR ''8'', CHR ''9'', CHR ''a'', CHR ''b''}
    \<and> (fst (ComputeDeviceIdFromFingerprint api fingerprint2 w2) = guid_text a b c d
       \<longleftrightarrow> stamp_uuid (take 16 (H (DEVICE_ID_NAMESPACE @ fingerprint2))) = guid_bytes a b c d)"
proof -
  let ?b = "\<lambda>f. take 16 (H (DEVICE_ID_NAMESPACE @ f))"
  have id: "\<exists>w' \<in> W. ComputeDeviceIdFromFingerprint api f w = (device_id_text (stamp_uuid (?b f)), w')"
    and len: "length (?b f) = 16" if "w \<in> W" and "length f = 32" for f w
  proof -
    have "length (DEVICE_ID_NAMESPACE @ f) < 2 ^ 32" using that(2) by (simp add: DEVICE_ID_NAMESPACE_def)
    from BcryptDigest_computes [OF assms(1) that(1) this] obtain w' where
      d: "Sha1 api (DEVICE_ID_NAMESPACE @ f) w = (H (DEVICE_ID_NAMESPACE @ f), w')" and w': "w' \<in> W"
      unfolding Sha1_def by blast
    have l: "length (H (DEVICE_ID_NAMESPACE @ f)) = 20" using assms(1) that(1) by (auto simp: computes_def)
    then show "length (?b f) = 16" by simp
    show "\<exists>w' \<in> W. ComputeDeviceIdFromFingerprint api f w = (device_id_text (stamp_uuid (?b f)), w')"
      using w' by (auto simp: ComputeDeviceIdFromFingerprint_def that(2) d l)
  qed
  have s: "length (stamp_uuid (?b f)) = 16" if "length f = 32" for f
    using len [OF assms(2) that] by (simp add: stamp_uuid_def)
  obtain a b c d where g: "stamp_uuid (?b fingerprint) = guid_bytes a b c d" and d: "length d = 8"
    using guid_fields [OF s [OF assms(4)]] .
  note guid = device_id_text_guid [OF d, of a b c]
  obtain w' where w': "w' \<in> W" "ComputeDeviceIdFromFingerprint api fingerprint w = (guid_text a b c d, w')"
    using id [OF assms(2,4)] unfolding g guid by blast
  have "fst (ComputeDeviceIdFromFingerprint api fingerprint2 w2) = device_id_text (stamp_uuid (?b fingerprint2))"
    using id [OF assms(3,5)] by auto
  then have "fst (ComputeDeviceIdFromFingerprint api fingerprint2 w2) = guid_text a b c d
      \<longleftrightarrow> stamp_uuid (?b fingerprint2) = guid_bytes a b c d"
    using device_id_text_inj [OF s [OF assms(5)] s [OF assms(4)]] unfolding g guid by simp
  then show ?thesis
    using w' g d device_id_text_shape [OF len [OF assms(2,4)]] unfolding g guid by metis
qed

theorem device_id_is_the_guid_witness:
  "\<exists>a b c d w'. ComputeDeviceIdFromFingerprint (pad_bcrypt 20) (replicate 32 1) [] = (guid_text a b c d, w') \<and> w' \<in> UNIV
    \<and> length d = 8 \<and> guid_bytes a b c d = stamp_uuid (take 16 (pad_digest 20 (DEVICE_ID_NAMESPACE @ replicate 32 1)))
    \<and> length (guid_text a b c d) = 36 \<and> guid_text a b c d ! 16 = CHR ''5''
    \<and> guid_text a b c d ! 19 \<in> {CHR ''8'', CHR ''9'', CHR ''a'', CHR ''b''}
    \<and> (fst (ComputeDeviceIdFromFingerprint (pad_bcrypt 20) (replicate 32 2) [7]) = guid_text a b c d
       \<longleftrightarrow> stamp_uuid (take 16 (pad_digest 20 (DEVICE_ID_NAMESPACE @ replicate 32 2))) = guid_bytes a b c d)"
  by (rule device_id_is_the_guid [OF pad_bcrypt_computes]) simp_all

text \<open>C34. The extraction of the modulus is total, and it returns a non-empty modulus for exactly the blobs of CNG's
  layout: the magic, the two sizes that delimit exponent and modulus whatever the other fields hold, a
  modulus of at most 1024 bytes, and anything behind it. The sums of the offsets never wrap.\<close>

theorem modulus_extracted_exactly:
  "defined (ExtractRsaModulusFromEkPub blob)
   \<and> (ExtractRsaModulusFromEkPub blob = Some (b # bs)
      \<longleftrightarrow> length (b # bs) \<le> 1024
        \<and> (\<exists>bl p1 p2 e rest. length e < 2 ^ 32 \<and> blob = rsa_public_blob bl p1 p2 e (b # bs) rest))"
proof (intro conjI iffI)
  show "defined (ExtractRsaModulusFromEkPub blob)" by (rule ExtractRsaModulusFromEkPub_total)
next
  assume m: "ExtractRsaModulusFromEkPub blob = Some (b # bs)"
  show "length (b # bs) \<le> 1024" and "\<exists>bl p1 p2 e rest. length e < 2 ^ 32 \<and> blob = rsa_public_blob bl p1 p2 e (b # bs) rest"
    by (rule blob_of_modulus [OF m], simp, blast)+
next
  assume "length (b # bs) \<le> 1024 \<and> (\<exists>bl p1 p2 e rest. length e < 2 ^ 32 \<and> blob = rsa_public_blob bl p1 p2 e (b # bs) rest)"
  then show "ExtractRsaModulusFromEkPub blob = Some (b # bs)" using modulus_of_blob [of "b # bs"] by auto
qed

text \<open>Against a digest provider that computes SHA-256 and a server that answers the URL built from the digest of
  the modulus, the fetch returns the body of the answer, put together from its buffers, when the status
  is 200, and nothing otherwise.\<close>

theorem amd_certificate_fetched:
  assumes "computes bapi W BCRYPT_SHA256_ALGORITHM 32 H" and "w \<in> W"
    and "modulus \<noteq> []" and "length modulus < 2 ^ 32"
    and "\<forall>w \<in> W. \<exists>w' \<in> V. answers_get hapi (AIA_URL @ HexLower (H modulus)) code chunks w w'"
  shows "\<exists>w' \<in> V. FetchAmdAiaEkCert bapi hapi modulus w
    = Some (if code = 200 then map u8_of_char (concat chunks) else [], w')"
  using FetchAmdAiaEkCert_answers [OF assms] by metis

theorem amd_certificate_fetched_witness:
  "\<exists>w' \<in> {[]}. FetchAmdAiaEkCert (pad_bcrypt 32) (one_page 200 ''0AB'') [5, 6] []
     = Some (if (200 :: u32) = 200 then map u8_of_char (concat [''0AB'']) else [], w')"
proof (rule amd_certificate_fetched [where H = "pad_digest 32" and W = UNIV])
  show "computes (pad_bcrypt 32) UNIV BCRYPT_SHA256_ALGORITHM 32 (pad_digest 32)"
    by (rule pad_bcrypt_computes) simp_all
qed (use one_page_answers [of "''0AB''"] in simp_all)

end
