(* ===== verification/Intermediates.thy ===== *)
theory Intermediates
  imports Device_Identity Ek_Gather "HOL-Library.Sublist"
begin

text \<open>
  The merge of the vendor's intermediates into the on-die chain (\<open>GatherEkEnrollData\<close>): over a provider
  that computes SHA-256, what the code does with fingerprints is a statement about certificates.
\<close>

section \<open>Fingerprints\<close>

lemma Sha256_computes:
  assumes "computes api W BCRYPT_SHA256_ALGORITHM 32 H" and "w \<in> W" and "length data < 2 ^ 32"
  obtains w' where "Sha256 api data w = (H data, w')" and "w' \<in> W" and "H data \<noteq> []"
proof -
  have "length (H data) = 32" using assms(1,2) by (auto simp: computes_def)
  then show thesis using BcryptDigest_computes [OF assms] that unfolding Sha256_def by fastforce
qed

lemma collect_seen_computes:
  assumes "computes api W BCRYPT_SHA256_ALGORITHM 32 H" and "w \<in> W" and "\<forall>c \<in> set cs. length c < 2 ^ 32"
  shows "\<exists>w' \<in> W. collect_seen api seen cs w = (seen @ map H cs, w')"
  using assms(2,3)
proof (induction cs arbitrary: seen w)
  case Nil
  then show ?case by simp
next
  case (Cons c cs)
  have "length c < 2 ^ 32" using Cons.prems(2) by simp
  then obtain w1 where "Sha256 api c w = (H c, w1)" "w1 \<in> W" "H c \<noteq> []"
    by (rule Sha256_computes [OF assms(1) Cons.prems(1)])
  then show ?case using Cons.IH [of w1 "seen @ [H c]"] Cons.prems(2) by simp
qed

text \<open>The merge without the interfaces: the code compares fingerprints, the specification the digests.\<close>

fun merge_by :: "('a \<Rightarrow> 'b) \<Rightarrow> nat \<Rightarrow> 'a list \<Rightarrow> 'a list \<Rightarrow> 'a list" where
  "merge_by H n certificates [] = certificates"
| "merge_by H n certificates (c # store) =
     (if length certificates \<ge> n then certificates
      else if H c \<in> H ` set certificates then merge_by H n certificates store
      else merge_by H n (certificates @ [c]) store)"

lemma merge_store_computes:
  assumes "computes api W BCRYPT_SHA256_ALGORITHM 32 H" and "w \<in> W" and "\<forall>c \<in> set store. length c < 2 ^ 32"
    and "set seen = H ` set certificates"
  shows "\<exists>w' \<in> W. merge_store api seen certificates store w = (merge_by H MAX_INTERMEDIATES certificates store, w')"
  using assms(2-4)
proof (induction store arbitrary: seen certificates w)
  case Nil
  then show ?case by auto
next
  case (Cons c store)
  have "length c < 2 ^ 32" using Cons.prems(2) by simp
  then obtain w1 where h: "Sha256 api c w = (H c, w1)" "w1 \<in> W" "H c \<noteq> []"
    by (rule Sha256_computes [OF assms(1) Cons.prems(1)])
  have ex: "list_ex (\<lambda>s. length s = length (H c) \<and> s = H c) seen \<longleftrightarrow> H c \<in> H ` set certificates"
    using Cons.prems(3) unfolding list_ex_iff by (metis imageE imageI)
  have s: "set (seen @ [H c]) = H ` set (certificates @ [c])" using Cons.prems(3) by auto
  show ?case
    using Cons.IH [OF h(2) _ Cons.prems(3)] Cons.IH [OF h(2) _ s] Cons.prems(1,2) h
    by (simp add: ex del: set_append)
qed

lemma merge_by_spec:
  "\<exists>new. merge_by H n certificates store = certificates @ new \<and> subseq new store
     \<and> distinct (map H new) \<and> H ` set new \<inter> H ` set certificates = {}
     \<and> length new \<le> n - length certificates
     \<and> (n \<le> length (certificates @ new) \<or> H ` set store \<subseteq> H ` set (certificates @ new))"
proof (induction store arbitrary: certificates)
  case Nil
  then show ?case by simp
next
  case (Cons c store)
  show ?case
  proof (cases "length certificates \<ge> n")
    case True
    then show ?thesis by (intro exI [of _ "[]"]) simp
  next
    case room: False
    show ?thesis
    proof (cases "H c \<in> H ` set certificates")
      case True
      obtain new where n: "merge_by H n certificates store = certificates @ new" "subseq new store"
        "distinct (map H new)" "H ` set new \<inter> H ` set certificates = {}" "length new \<le> n - length certificates"
        "n \<le> length (certificates @ new) \<or> H ` set store \<subseteq> H ` set (certificates @ new)"
        using Cons.IH [of certificates] by blast
      show ?thesis
        using n True room by (intro exI [of _ new]) auto
    next
      case fresh: False
      obtain new where n: "merge_by H n (certificates @ [c]) store = (certificates @ [c]) @ new" "subseq new store"
        "distinct (map H new)" "H ` set new \<inter> H ` set (certificates @ [c]) = {}" "length new \<le> n - length (certificates @ [c])"
        "n \<le> length ((certificates @ [c]) @ new) \<or> H ` set store \<subseteq> H ` set ((certificates @ [c]) @ new)"
        using Cons.IH [of "certificates @ [c]"] by blast
      show ?thesis
        using n fresh room by (intro exI [of _ "c # new"]) auto
    qed
  qed
qed

section \<open>Properties\<close>

text \<open>C28. The merge of the vendor's store into the on-die chain keeps the chain in front and appends certificates of
  the store in their order, none whose fingerprint an earlier one has, up to eight in all; unless the
  eight are full, every certificate of the store is there or shares its fingerprint with one that is.\<close>

theorem intermediates_merged:
  assumes "computes api W BCRYPT_SHA256_ALGORITHM 32 H" and "w \<in> W"
    and "\<forall>c \<in> set odca \<union> set store. length c < 2 ^ 32"
  shows "\<exists>seen w1 new w2. collect_seen api [] odca w = (seen, w1)
    \<and> merge_store api seen odca store w1 = (odca @ new, w2) \<and> w2 \<in> W
    \<and> subseq new store \<and> distinct (map H new) \<and> H ` set new \<inter> H ` set odca = {}
    \<and> length new \<le> 8 - length odca
    \<and> (8 \<le> length (odca @ new) \<or> H ` set store \<subseteq> H ` set (odca @ new))"
proof -
  have len: "\<forall>c \<in> set odca. length c < 2 ^ 32" "\<forall>c \<in> set store. length c < 2 ^ 32" using assms(3) by auto
  obtain w1 where w1: "w1 \<in> W" "collect_seen api [] odca w = (map H odca, w1)"
    using collect_seen_computes [OF assms(1,2) len(1), of "[]"] by auto
  have "set (map H odca) = H ` set odca" by simp
  from merge_store_computes [OF assms(1) w1(1) len(2) this] obtain w2 where
    w2: "w2 \<in> W" "merge_store api (map H odca) odca store w1 = (merge_by H MAX_INTERMEDIATES odca store, w2)"
    by blast
  show ?thesis
    using merge_by_spec [of H MAX_INTERMEDIATES odca store] w1 w2 by (auto simp: MAX_INTERMEDIATES_def)
qed

theorem intermediates_merged_witness:
  "\<exists>seen w1 new w2. collect_seen (pad_bcrypt 32) [] [[1]] [] = (seen, w1)
    \<and> merge_store (pad_bcrypt 32) seen [[1]] [[1], [2], [1, 0], [3]] w1 = ([[1]] @ new, w2) \<and> w2 \<in> UNIV
    \<and> subseq new [[1], [2], [1, 0], [3]] \<and> distinct (map (pad_digest 32) new)
    \<and> pad_digest 32 ` set new \<inter> pad_digest 32 ` set [[1]] = {}
    \<and> length new \<le> 8 - length [[1 :: u8]]
    \<and> (8 \<le> length ([[1]] @ new) \<or> pad_digest 32 ` set [[1], [2], [1, 0], [3]] \<subseteq> pad_digest 32 ` set ([[1]] @ new))"
  by (rule intermediates_merged [OF pad_bcrypt_computes]) simp_all

end
