(* ===== verification/Wire_Contract.thy ===== *)
theory Wire_Contract
  imports Documents "HOL-Library.Sublist"
begin

text \<open>
  \<open>common/protocol.h\<close>, the wire contract of the SDKs: the bodies of the three ceremonies as types of JSON documents,
  and the proof that what the client emits has the types of the TPM ceremony (variant A) and none of the others.
\<close>

section \<open>Types of documents\<close>

text \<open>
  A member of an object is required or optional. The contract gives a member as Base64, hexadecimal or PEM
  text, as one of some words, as free text, as a table with free keys, or leaves the object open.
\<close>

datatype wire_type =
    Wire_Base64 | Wire_Hex | Wire_Pem | Wire_Text | Wire_Word "string list"
  | Wire_Open | Wire_Table wire_type | Wire_List nat wire_type
  | Wire_Object "(string \<times> bool \<times> wire_type) list"

definition hex_text :: "string \<Rightarrow> bool" where
  "hex_text s \<longleftrightarrow> even (length s) \<and> set s \<subseteq> set hex_lower"

definition pem_text :: "string \<Rightarrow> bool" where
  "pem_text s \<longleftrightarrow> prefix ''-----BEGIN CERTIFICATE-----'' s \<and> suffix ''-----END CERTIFICATE-----'' s"

text \<open>
  The words \<open>true\<close>, \<open>false\<close> and \<open>null\<close> are also Base64 texts. \<open>JsonBuild\<close> does not quote them, so a document
  is judged up to the words \<open>bare\<close> that may stand unquoted in the place of a Base64 text; with no such
  words, it has the type outright.
\<close>

fun conforms :: "string list \<Rightarrow> wire_type \<Rightarrow> json \<Rightarrow> bool" where
  "conforms bare Wire_Base64 j \<longleftrightarrow>
     (case j of JString s \<Rightarrow> set s \<subseteq> set base64_alphabet | JLiteral l \<Rightarrow> l \<in> set bare | _ \<Rightarrow> False)"
| "conforms bare Wire_Hex j \<longleftrightarrow> (case j of JString s \<Rightarrow> hex_text s | _ \<Rightarrow> False)"
| "conforms bare Wire_Pem j \<longleftrightarrow> (case j of JString s \<Rightarrow> pem_text s | _ \<Rightarrow> False)"
| "conforms bare Wire_Text j \<longleftrightarrow> (case j of JString s \<Rightarrow> True | _ \<Rightarrow> False)"
| "conforms bare (Wire_Word ws) j \<longleftrightarrow> (case j of JString s \<Rightarrow> s \<in> set ws | _ \<Rightarrow> False)"
| "conforms bare Wire_Open j \<longleftrightarrow> (case j of JObject ms \<Rightarrow> True | JLiteral l \<Rightarrow> l = ''null'' | _ \<Rightarrow> False)"
| "conforms bare (Wire_Table t) j \<longleftrightarrow>
     (case j of JObject ms \<Rightarrow> distinct (map fst ms) \<and> (\<forall>v \<in> set (map snd ms). conforms bare t v) | _ \<Rightarrow> False)"
| "conforms bare (Wire_List most t) j \<longleftrightarrow>
     (case j of JArray vs \<Rightarrow> length vs \<le> most \<and> (\<forall>v \<in> set vs. conforms bare t v) | _ \<Rightarrow> False)"
| "conforms bare (Wire_Object ts) j \<longleftrightarrow>
     (case j of
        JObject ms \<Rightarrow> distinct (map fst ms) \<and> set (map fst ms) \<subseteq> set (map fst ts)
          \<and> (\<forall>(k, required, t) \<in> set ts.
               (case map_of ms k of None \<Rightarrow> \<not> required | Some v \<Rightarrow> conforms bare t v))
      | _ \<Rightarrow> False)"

section \<open>The bodies of the TPM ceremony\<close>

definition wire_chain_cap :: nat where "wire_chain_cap = 8"

definition enroll_request :: wire_type where
  "enroll_request = Wire_Object
     [(''ekPublicKey'', True, Wire_Base64),
      (''akPublicArea'', True, Wire_Base64),
      (''platform'', True, Wire_Word [''windows'', ''linux'']),
      (''ekCertPem'', False, Wire_Pem),
      (''ekCertificateChain'', False, Wire_List wire_chain_cap Wire_Pem)]"

definition activate_request :: wire_type where
  "activate_request = Wire_Object
     [(''deviceId'', True, Wire_Text),
      (''decryptedSecret'', True, Wire_Base64),
      (''akPublicKey'', False, Wire_Text)]"

text \<open>The device id stands in the list without a remark; the members marked optional or omitted are not required.\<close>

definition evidence_members :: "bool \<Rightarrow> (string \<times> bool \<times> wire_type) list" where
  "evidence_members id_required =
     [(''deviceId'', id_required, Wire_Text),
      (''pcrValues'', True, Wire_Object [(''sha256'', True, Wire_Table Wire_Hex)]),
      (''quote'', True, Wire_Object
         [(''quoted'', True, Wire_Base64), (''signature'', True, Wire_Base64), (''nonce'', True, Wire_Base64)]),
      (''eventLog'', False, Wire_Base64),
      (''secureBootChain'', True, Wire_Open),
      (''ekCertPem'', False, Wire_Pem),
      (''ekCertificateChain'', False, Wire_List wire_chain_cap Wire_Pem)]"

definition evidence_request :: wire_type where
  "evidence_request = Wire_Object (evidence_members True)"

section \<open>The bodies of the other ceremonies\<close>

text \<open>Variant B, the Secure Enclave, has no certificates and signs a nonce; variant C, App Attest, has no enrollment.\<close>

definition enclave_enroll_request :: wire_type where
  "enclave_enroll_request = Wire_Object
     [(''ekPublicKey'', True, Wire_Base64), (''akPublicArea'', True, Wire_Base64), (''platform'', True, Wire_Word [''macos''])]"

definition enclave_challenge :: wire_type where
  "enclave_challenge = Wire_Object [(''deviceId'', True, Wire_Text), (''challengeNonce'', True, Wire_Text)]"

definition enclave_activate_request :: wire_type where
  "enclave_activate_request = Wire_Object [(''deviceId'', True, Wire_Text), (''signature'', True, Wire_Text)]"

definition enclave_evidence :: wire_type where
  "enclave_evidence = Wire_Object
     [(''keyAttestation'', True, Wire_Object [(''signedNonce'', True, Wire_Base64), (''publicKey'', True, Wire_Base64)]),
      (''deviceId'', True, Wire_Text)]"

definition app_attest_evidence :: wire_type where
  "app_attest_evidence = Wire_Object
     [(''iosAttestation'', True, Wire_Object [(''attestationObject'', True, Wire_Base64), (''keyId'', True, Wire_Base64)])]"

lemma conforms_member:
  assumes "conforms bare (Wire_Object ts) j" and "(k, True, t) \<in> set ts"
  obtains ms v where "j = JObject ms" and "map_of ms k = Some v" and "conforms bare t v"
proof (cases j)
  case (JObject ms)
  have "case map_of ms k of None \<Rightarrow> \<not> True | Some v \<Rightarrow> conforms bare t v"
    using assms(1) assms(2) [THEN bspec [rotated]] unfolding JObject conforms.simps json.case by blast
  then show thesis using that JObject by (cases "map_of ms k") simp_all
qed (use assms(1) in \<open>simp_all\<close>)

lemma conforms_names:
  assumes "conforms bare (Wire_Object ts) (JObject ms)" and "map_of ms k = Some v"
  shows "k \<in> set (map fst ts)"
proof -
  have "k \<in> set (map fst ms)" using assms(2) by (metis map_of_eq_None_iff option.distinct(1) set_map)
  then show ?thesis using assms(1) unfolding conforms.simps json.case by blast
qed

text \<open>A document of the TPM ceremony is none of the others: the platform tells the enroll bodies apart, a
  member the others lack the rest.\<close>

lemma enroll_told_apart:
  assumes "conforms bare enroll_request doc"
  shows "\<not> conforms bare enclave_enroll_request doc"
proof
  assume apple: "conforms bare enclave_enroll_request doc"
  obtain ms v where v: "doc = JObject ms" "map_of ms ''platform'' = Some v" "conforms bare (Wire_Word [''windows'', ''linux'']) v"
    by (rule conforms_member [OF assms [unfolded enroll_request_def], of "''platform''"]) (simp del: conforms.simps, rule that)
  obtain ms' v' where v': "doc = JObject ms'" "map_of ms' ''platform'' = Some v'" "conforms bare (Wire_Word [''macos'']) v'"
    by (rule conforms_member [OF apple [unfolded enclave_enroll_request_def], of "''platform''"]) (simp del: conforms.simps, rule that)
  show False using v v' by (simp split: json.splits)
qed

lemma activate_told_apart:
  assumes "conforms bare activate_request doc"
  shows "\<not> conforms bare enclave_activate_request doc"
proof
  assume apple: "conforms bare enclave_activate_request doc"
  obtain ms v where v: "doc = JObject ms" "map_of ms ''decryptedSecret'' = Some v"
    by (rule conforms_member [OF assms [unfolded activate_request_def], of "''decryptedSecret''"]) simp_all
  from conforms_names [OF apple [unfolded enclave_activate_request_def v(1)] v(2)] show False by simp
qed

lemma evidence_told_apart:
  assumes "conforms bare (Wire_Object (evidence_members q)) doc"
  shows "\<not> conforms bare enclave_evidence doc" and "\<not> conforms bare app_attest_evidence doc"
proof -
  obtain ms v where v: "doc = JObject ms" "map_of ms ''secureBootChain'' = Some v"
    by (rule conforms_member [OF assms, of "''secureBootChain''" Wire_Open]) (simp_all add: evidence_members_def)
  show "\<not> conforms bare enclave_evidence doc"
  proof
    assume apple: "conforms bare enclave_evidence doc"
    from conforms_names [OF apple [unfolded enclave_evidence_def v(1)] v(2)] show False by simp
  qed
  show "\<not> conforms bare app_attest_evidence doc"
  proof
    assume apple: "conforms bare app_attest_evidence doc"
    from conforms_names [OF apple [unfolded app_attest_evidence_def v(1)] v(2)] show False by simp
  qed
qed

section \<open>Texts of a type\<close>

text \<open>A text that goes into a document as a value of the type.\<close>

definition fits :: "string list \<Rightarrow> wire_type \<Rightarrow> string \<Rightarrow> bool" where
  "fits bare t v \<longleftrightarrow> (\<exists>j. renders v j \<and> conforms bare t j)"

lemma fits_renders: "fits bare t v \<Longrightarrow> \<exists>j. renders v j"
  by (auto simp: fits_def)

lemma fits_base64:
  assumes "writes_base64 api" and "\<not> no_word (Base64Encode api data) \<Longrightarrow> Base64Encode api data \<in> set bare"
  shows "fits bare Wire_Base64 (Base64Encode api data)"
  using Base64_renders [OF assms(1)] Base64Encode_alphabet [OF assms(1)] assms(2)
  unfolding fits_def renders_base64_def by (intro exI [of _ "renders_base64 (Base64Encode api data)"])
    (simp add: renders_base64_def)

lemma pem_text_DerToPem: "pem_text (DerToPem api der)"
proof -
  have "prefix a (a @ b)" "suffix c (b @ c)" for a b c :: string by (simp_all add: suffix_def)
  then show ?thesis
    unfolding pem_text_def DerToPem_def by (metis append_assoc)
qed

lemma fits_pem: "writes_base64 api \<Longrightarrow> fits bare Wire_Pem (DerToPem api der)"
  using renders_safe [OF DerToPem_safe] pem_text_DerToPem by (force simp: fits_def)

lemma fits_pem_array:
  "writes_base64 api \<Longrightarrow> length cs \<le> n \<Longrightarrow> fits bare (Wire_List n Wire_Pem) (pem_array api cs)"
  unfolding fits_def using renders_pem_array pem_text_DerToPem
  by (intro exI [of _ "pem_values api cs"]) (auto simp: pem_values_def)

lemma fits_text: "safe_text s \<Longrightarrow> fits bare Wire_Text s"
  using renders_safe by (force simp: fits_def)

section \<open>Objects under construction\<close>

text \<open>Every member has the type the contract gives it; required members may still be missing.\<close>

definition member_fits :: "string list \<Rightarrow> (string \<times> bool \<times> wire_type) list \<Rightarrow> string \<Rightarrow> string \<Rightarrow> bool" where
  "member_fits bare ts k v \<longleftrightarrow> plain_key k
     \<and> (case map_of ts k of None \<Rightarrow> False | Some (required, t) \<Rightarrow> fits bare t v)"

definition object_so_far :: "string list \<Rightarrow> (string \<times> bool \<times> wire_type) list \<Rightarrow> (string, string) std_map \<Rightarrow> bool" where
  "object_so_far bare ts m \<longleftrightarrow> wf_map m \<and> (\<forall>k v. map_of m k = Some v \<longrightarrow> member_fits bare ts k v)"

lemma object_so_far_init:
  assumes "list_all (\<lambda>(k, v). member_fits bare ts k v) kvs"
  shows "object_so_far bare ts (map_init kvs)"
  using assms map_of_SomeD [of kvs] by (auto simp: object_so_far_def map_of_map_init list_all_iff)

lemma object_so_far_put:
  assumes "object_so_far bare ts m" and "c \<Longrightarrow> member_fits bare ts k v"
  shows "object_so_far bare ts (put_when c k v m)"
  using assms by (auto simp: object_so_far_def)

lemma member_fits_renders: "member_fits bare ts k v \<Longrightarrow> plain_key k \<and> (\<exists>j. renders v j)"
  using fits_renders by (auto simp: member_fits_def split: option.splits)

lemma object_so_far_members: "object_so_far bare ts m \<Longrightarrow> renders_members m"
  using renders_members_map [of m] member_fits_renders by (metis object_so_far_def)

lemma object_so_far_get:
  "object_so_far bare ts m \<Longrightarrow> map_of m k = Some v \<Longrightarrow> \<exists>r t. map_of ts k = Some (r, t) \<and> fits bare t v"
  by (fastforce simp: object_so_far_def member_fits_def split: option.splits)

lemma object_complete:
  assumes m: "object_so_far bare ts m" and ts: "distinct (map fst ts)"
  obtains ms where "read_json (JsonBuild m) = Some (JObject ms)" and "renders (JsonBuild m) (JObject ms)"
    and "map fst ms = map fst m"
    and "conforms bare (Wire_Object ts) (JObject ms) \<longleftrightarrow> (\<forall>(k, required, t) \<in> set ts. required \<longrightarrow> k \<in> fst ` set m)"
proof -
  obtain ms where f: "renders_fields m ms" "map fst ms = map fst m" and rel: "\<And>k. rel_option renders (map_of m k) (map_of ms k)"
    using object_members [OF object_so_far_members [OF m]] by blast
  note t = JsonBuild_text [OF f(1)]
  have d: "distinct (map fst ms)" using m f(2) wf_map_distinct [of m] by (simp add: object_so_far_def)
  have dom: "map_of ms k = None \<longleftrightarrow> k \<notin> fst ` set m" for k
    using f(2) by (metis map_of_eq_None_iff set_map)
  have typed: "conforms bare t v" if at: "map_of ms k = Some v" and ty: "(k, r, t) \<in> set ts" for k v r t
  proof -
    obtain x where x: "map_of m k = Some x" "renders x v" using rel [of k] at by (auto simp: option_rel_Some2)
    have "map_of ts k = Some (r, t)" using ty ts by simp
    then have "fits bare t x" using object_so_far_get [OF m x(1)] by auto
    then show ?thesis using renders_unique [OF x(2)] by (auto simp: fits_def)
  qed
  have sub: "set (map fst ms) \<subseteq> set (map fst ts)"
  proof
    fix k
    assume "k \<in> set (map fst ms)"
    then have "map_of m k \<noteq> None" using f(2) by (metis map_of_eq_None_iff set_map)
    then obtain x where "map_of m k = Some x" by blast
    then obtain r t where "map_of ts k = Some (r, t)" using object_so_far_get [OF m] by blast
    then show "k \<in> set (map fst ts)" by (metis map_of_eq_None_iff option.distinct(1) set_map)
  qed
  show thesis
  proof (rule that)
    show "read_json (JsonBuild m) = Some (JObject ms)" unfolding t(1) by (rule read_json_text [OF t(2)])
    show "renders (JsonBuild m) (JObject ms)" unfolding t(1) by (rule renders_document(1) [OF t(2)])
    show "map fst ms = map fst m" by (rule f(2))
    show "conforms bare (Wire_Object ts) (JObject ms) \<longleftrightarrow> (\<forall>(k, required, t) \<in> set ts. required \<longrightarrow> k \<in> fst ` set m)"
      using d sub typed dom by (fastforce split: option.splits)
  qed
qed

lemma fits_object:
  assumes "object_so_far bare ts m" and "distinct (map fst ts)"
    and "\<forall>(k, required, t) \<in> set ts. required \<longrightarrow> k \<in> fst ` set m"
  shows "fits bare (Wire_Object ts) (JsonBuild m)"
  by (rule object_complete [OF assms(1,2)]) (use assms(3) in \<open>auto simp: fits_def simp del: conforms.simps\<close>)

section \<open>The enroll body\<close>

text \<open>The words the Base64 encoder of the machine can spell: \<open>true\<close> and \<open>null\<close> are the texts of three bytes each.\<close>

definition spells :: "crypt_string_api \<Rightarrow> string list \<Rightarrow> bool" where
  "spells api bare \<longleftrightarrow> (\<forall>data. no_word (Base64Encode api data) \<or> Base64Encode api data \<in> set bare)"

lemma fits_base64_spelled: "writes_base64 api \<Longrightarrow> spells api bare \<Longrightarrow> fits bare Wire_Base64 (Base64Encode api data)"
  by (rule fits_base64) (auto simp: spells_def)

lemma wire_keys_plain:
  "list_all plain_key [''ekPublicKey'', ''akPublicArea'', ''platform'', ''ekCertPem'', ''ekCertificateChain'',
     ''deviceId'', ''decryptedSecret'', ''pcrValues'', ''quote'', ''eventLog'', ''secureBootChain'',
     ''quoted'', ''signature'', ''nonce'']"
  by code_simp

lemmas plain_wire_key = wire_keys_plain [unfolded list.pred_inject]

lemma enroll_body_fits:
  assumes b64: "writes_base64 api" "spells api bare" and pem: "ekCertPem ek = [] \<or> (\<exists>der. ekCertPem ek = DerToPem api der)"
    and chain: "length (intermediates ek) \<le> 8"
  shows "fits bare enroll_request (JsonBuild (BuildEnrollFields api ek ak))"
proof -
  let ?ts = "[(''ekPublicKey'', True, Wire_Base64), (''akPublicArea'', True, Wire_Base64),
      (''platform'', True, Wire_Word [''windows'', ''linux'']), (''ekCertPem'', False, Wire_Pem),
      (''ekCertificateChain'', False, Wire_List 8 Wire_Pem)]"
  let ?m0 = "map_init [(''ekPublicKey'', Base64Encode api (ekPub ek)), (''akPublicArea'', Base64Encode api ak),
      (''platform'', ''windows'')]"
  let ?m1 = "put_when (ekCertPem ek \<noteq> []) ''ekCertPem'' (ekCertPem ek) ?m0"
  have eq: "BuildEnrollFields api ek ak
      = put_when (intermediates ek \<noteq> []) ''ekCertificateChain'' (pem_array api (intermediates ek)) ?m1"
    by (simp only: BuildEnrollFields_def Let_def)
  have "safe_text ''windows''" by code_simp
  then have win: "fits bare (Wire_Word [''windows'', ''linux'']) ''windows''" using renders_safe by (force simp: fits_def)
  have o0: "object_so_far bare ?ts ?m0"
    by (rule object_so_far_init) (simp add: member_fits_def plain_wire_key win fits_base64_spelled [OF b64])
  have o1: "object_so_far bare ?ts ?m1"
    by (rule object_so_far_put [OF o0]) (use pem fits_pem [OF b64(1)] in \<open>auto simp: member_fits_def plain_wire_key\<close>)
  have o2: "object_so_far bare ?ts (BuildEnrollFields api ek ak)"
    unfolding eq by (rule object_so_far_put [OF o1]) (simp add: member_fits_def plain_wire_key fits_pem_array [OF b64(1) chain])
  have req: "{''ekPublicKey'', ''akPublicArea'', ''platform''} \<subseteq> fst ` set (BuildEnrollFields api ek ak)"
    by (auto simp: eq map_init_def fst_map_put)
  show ?thesis
    unfolding enroll_request_def wire_chain_cap_def by (rule fits_object [OF o2]) (use req in auto)
qed

section \<open>The activate body\<close>

lemma activate_body_fits:
  assumes b64: "writes_base64 api" "spells api bare" and d: "safe_text deviceId"
  shows "fits bare activate_request (JsonBuild (map_init [(''deviceId'', deviceId), (''decryptedSecret'', Base64Encode api secret)]))"
proof -
  let ?m = "map_init [(''deviceId'', deviceId), (''decryptedSecret'', Base64Encode api secret)]"
  have o: "object_so_far bare [(''deviceId'', True, Wire_Text), (''decryptedSecret'', True, Wire_Base64), (''akPublicKey'', False, Wire_Text)] ?m"
    by (rule object_so_far_init) (simp add: member_fits_def plain_wire_key fits_text [OF d] fits_base64_spelled [OF b64])
  have req: "{''deviceId'', ''decryptedSecret''} \<subseteq> fst ` set ?m"
    by (auto simp: map_init_def fst_map_put)
  show ?thesis
    unfolding activate_request_def by (rule fits_object [OF o]) (use req in auto)
qed

section \<open>The evidence\<close>

lemma quote_fits:
  assumes b64: "writes_base64 api" "spells api bare"
  shows "fits bare (Wire_Object [(''quoted'', True, Wire_Base64), (''signature'', True, Wire_Base64), (''nonce'', True, Wire_Base64)])
    (quote_text api attest signature nonce)"
  unfolding quote_text_def
proof (rule fits_object)
  show "object_so_far bare [(''quoted'', True, Wire_Base64), (''signature'', True, Wire_Base64), (''nonce'', True, Wire_Base64)]
      (map_init [(''quoted'', Base64Encode api attest), (''signature'', Base64Encode api signature), (''nonce'', Base64Encode api nonce)])"
    by (rule object_so_far_init) (simp add: member_fits_def plain_wire_key fits_base64_spelled [OF b64])
qed (auto simp: map_init_def fst_map_put)

lemma hex_text_BytesToHex: "hex_text (BytesToHex data)"
  using lower.render_chars [of data] by (simp add: hex_text_def BytesToHex_def lower.render_length)

lemma pcr_values_fit:
  assumes "length hs = length evidence_pcrs" and "renders r (pcr_values evidence_pcrs hs)"
  shows "fits bare (Wire_Object [(''sha256'', True, Wire_Table Wire_Hex)]) r"
proof -
  obtain a b c d e f where hs: "hs = [a, b, c, d, e, f]"
    using assms(1) by (auto simp: evidence_pcrs_def length_Suc_conv)
  have "distinct (map (\<lambda>i :: u32. to_string (unat i)) [0, 1, 2, 3, 4, 7])" by code_simp
  then show ?thesis
    unfolding fits_def using assms(2)
    by (intro exI [of _ "pcr_values evidence_pcrs hs"])
      (simp add: pcr_values_def evidence_pcrs_def hs pcr_member_def hex_text_BytesToHex)
qed

lemma secure_boot_open:
  assumes "names_safe (plain_crypt_api api)" and "secure_boot_text api log = Some v"
  shows "fits bare Wire_Open v"
proof -
  have "log = [] \<and> v = ''null'' \<or> (\<exists>report (analysis :: event_log_analysis).
      ValidateSecureBootChain (plain_crypt_api api) log = Some report \<and> v = JsonBuild (secure_boot_fields report analysis))"
    using assms(2) by (cases "log = []") (auto simp: secure_boot_text_def Option.bind_eq_Some_conv)
  then show ?thesis
  proof (elim disjE conjE exE)
    assume "v = ''null''"
    then show ?thesis using renders_literal [of "''null''"] by (force simp: fits_def)
  next
    fix report and analysis :: event_log_analysis
    assume r: "ValidateSecureBootChain (plain_crypt_api api) log = Some report"
      and v: "v = JsonBuild (secure_boot_fields report analysis)"
    obtain ms where ms: "renders_fields (secure_boot_fields report analysis) ms"
      using object_members [OF secure_boot_renders [OF assms(1) r]] by blast
    have "renders v (JObject ms)"
      unfolding v JsonBuild_text(1) [OF ms] by (rule renders_document(1) [OF JsonBuild_text(2) [OF ms]])
    then show ?thesis by (force simp: fits_def)
  qed
qed

text \<open>The optional parts keep the object well typed and drop no member.\<close>

lemma evidence_extras_fit:
  assumes b64: "writes_base64 (w_strings win)" "spells (w_strings win) bare"
    and run: "evidence_extras win tpm eventLog m w = Some (m', w')" and m: "object_so_far bare (evidence_members q) m"
  shows "object_so_far bare (evidence_members q) m'" and "fst ` set m \<subseteq> fst ` set m'"
proof -
  obtain der chain d v v1 v2 where d: "DeriveLocalDeviceId win v = Some (d, w')"
    and c: "ReadIntelOdcaIntermediates (w_tbs win) tpm [] v1 = Some (chain, v2)"
    and m': "m' = put_when (d \<noteq> []) ''deviceId'' d
      (put_when (chain \<noteq> []) ''ekCertificateChain'' (pem_array (w_strings win) chain)
        (put_when (32 < length der) ''ekCertPem'' (DerToPem (w_strings win) der)
          (put_when (eventLog \<noteq> []) ''eventLog'' (Base64Encode (w_strings win) eventLog) m)))"
    using run unfolding evidence_extras_def Let_def
    by (auto simp: Option.bind_eq_Some_conv)
  have chain: "length chain \<le> 8" using odca_certificates_are_a_prefix [OF c] by blast
  have "d \<noteq> [] \<Longrightarrow> safe_text d" using DeriveLocalDeviceId_text [OF d] device_id_safe by blast
  then have "d \<noteq> [] \<Longrightarrow> fits bare Wire_Text d" by (rule fits_text)
  then show "object_so_far bare (evidence_members q) m'"
    unfolding m'
    by (intro object_so_far_put m)
      (simp_all add: evidence_members_def wire_chain_cap_def member_fits_def plain_wire_key fits_base64_spelled [OF b64] fits_pem [OF b64(1)]
        fits_pem_array [OF b64(1) chain])
  show "fst ` set m \<subseteq> fst ` set m'"
    unfolding m' by (auto simp: fst_map_put)
qed

text \<open>The contract lists the device id without calling it optional; the code leaves it out when it cannot derive it.\<close>

lemma evidence_fits:
  assumes b64: "writes_base64 (w_strings win)" "spells (w_strings win) bare" and names: "names_safe (plain_crypt_api (w_cert win))"
    and run: "CollectEvidence_quote win tpm h nonce w = Some ((ROOTHERALD_OK, m, r), w')"
  shows "object_so_far bare (evidence_members q) m" and "{''pcrValues'', ''quote'', ''secureBootChain''} \<subseteq> fst ` set m"
proof -
  obtain pcrs attest signature eventLog sb v1 v2 v3 where
    p: "collect_pcrs (w_tbs win) tpm True pcr_values_start evidence_pcrs w = Some (Some pcrs, v1)"
    and sb: "secure_boot_text (w_cert win) eventLog = Some sb"
    and ex: "evidence_extras win tpm eventLog (map_init [(''pcrValues'', pcrs),
        (''quote'', quote_text (w_strings win) attest signature nonce), (''secureBootChain'', sb)]) v2 = Some (m, v3)"
    by (rule CollectEvidence_quote_ok [OF run])
  let ?kvs = "[(''pcrValues'', pcrs), (''quote'', quote_text (w_strings win) attest signature nonce), (''secureBootChain'', sb)]"
  obtain hs where hs: "length hs = length evidence_pcrs" "renders pcrs (pcr_values evidence_pcrs hs)"
    by (rule pcr_text [OF p])
  have o: "object_so_far bare (evidence_members q) (map_init ?kvs)"
    by (rule object_so_far_init) (simp add: evidence_members_def member_fits_def plain_wire_key pcr_values_fit [OF hs] quote_fits [OF b64]
      secure_boot_open [OF names sb])
  have k: "{''pcrValues'', ''quote'', ''secureBootChain''} \<subseteq> fst ` set (map_init ?kvs)"
    by (auto simp: map_init_def fst_map_put)
  show "object_so_far bare (evidence_members q) m" by (rule evidence_extras_fit(1) [OF b64 ex o])
  show "{''pcrValues'', ''quote'', ''secureBootChain''} \<subseteq> fst ` set m"
    using k evidence_extras_fit(2) [OF b64 ex o] by (rule subset_trans)
qed

section \<open>The calls\<close>

lemma fits_reads:
  assumes "fits bare (Wire_Object ts) (JsonBuild m)" and "renders_members m"
  obtains doc where "read_json (JsonBuild m) = Some doc" and "conforms bare (Wire_Object ts) doc"
proof -
  obtain j where j: "read_json (JsonBuild m) = Some j" "renders (JsonBuild m) j"
    using JsonBuild_document [OF assms(2)] by metis
  obtain i where i: "renders (JsonBuild m) i" "conforms bare (Wire_Object ts) i"
    using assms(1) unfolding fits_def by blast
  show thesis by (rule that [OF j(1)]) (use i(2) renders_unique [OF i(1) j(2)] in simp)
qed

lemma EnrollComplete_ok:
  assumes "RootHeraldEnrollComplete win (Some challenge) out g w = Some (ROOTHERALD_OK, b, g', w')"
  obtains a secret where "b = Some (Some (a, JsonBuild (map_init [(''deviceId'', JsonGet (c_str challenge) ''deviceId''),
      (''decryptedSecret'', Base64Encode (w_strings win) secret)]) @ [CHR 0x00]))"
proof -
  obtain p r w1 where ok: "EnrollComplete_persist win (JsonGet (c_str challenge) ''deviceId'') (out_of [] r) p w1
      = Some (ROOTHERALD_OK, b, g', w')"
    using assms unfolding RootHeraldEnrollComplete_def
    by (auto simp: Option.bind_eq_Some_conv Let_def split: if_splits prod.splits option.splits)
  let ?json = "JsonBuild (map_init [(''deviceId'', JsonGet (c_str challenge) ''deviceId''),
      (''decryptedSecret'', Base64Encode (w_strings win) (out_of [] r))])"
  obtain v x v' where "malloc_text (w_process win) ?json v = (x, v')" and "(case x of
        None \<Rightarrow> Some (ROOTHERALD_ERR_INTERNAL, Some None, None, v')
      | Some b \<Rightarrow> Some (ROOTHERALD_OK, Some (Some b), None, v')) = Some (ROOTHERALD_OK, b, g', w')"
    using ok unfolding EnrollComplete_persist_def
    by (auto simp: Option.bind_eq_Some_conv Let_def split: if_splits prod.splits)
  then show thesis using that by (auto simp: malloc_text_def Let_def split: prod.splits if_splits)
qed

lemma activate_members:
  assumes "writes_base64 api" and "safe_text deviceId"
  shows "renders_members (map_init [(''deviceId'', deviceId), (''decryptedSecret'', Base64Encode api secret)])"
proof -
  have "list_all (\<lambda>(k, v). plain_key k \<and> (\<exists>j. renders v j)) [(''deviceId'', deviceId), (''decryptedSecret'', Base64Encode api secret)]"
    by (simp add: plain_wire_key renders_text [OF assms(2)] Base64_renders_some [OF assms(1)])
  then show ?thesis by (intro renders_members_init) (auto simp only: list_all_iff)
qed

lemma evidence_conforms:
  assumes b64: "writes_base64 (w_strings win)" "spells (w_strings win) bare" and names: "names_safe (plain_crypt_api (w_cert win))"
    and run: "RootHeraldCollectEvidence win (Some nonce) out w = Some (ROOTHERALD_OK, b, w')"
  obtains a body doc where "b = Some (Some (a, body @ [CHR 0x00]))" and "read_json body = Some doc"
    and "conforms bare (Wire_Object (evidence_members False)) doc"
    and "conforms bare evidence_request doc \<longleftrightarrow> ''deviceId'' \<in> set (json_keys doc)"
proof -
  obtain tpm h m r v v' a where b: "b = Some (Some (a, JsonBuild m @ [CHR 0x00]))"
    and q: "CollectEvidence_quote win tpm h (Base64Decode (w_strings win) (c_str nonce)) v = Some ((ROOTHERALD_OK, m, r), v')"
    by (rule CollectEvidence_ok [OF run])
  have d: "distinct (map fst (evidence_members i))" for i by (simp add: evidence_members_def)
  have req: "(\<forall>(k, required, t) \<in> set (evidence_members i). required \<longrightarrow> k \<in> fst ` set m)
      \<longleftrightarrow> (i \<longrightarrow> ''deviceId'' \<in> fst ` set m)" for i
    using evidence_fits(2) [OF b64 names q] by (auto simp: evidence_members_def)
  obtain ms where ms: "read_json (JsonBuild m) = Some (JObject ms)" "renders (JsonBuild m) (JObject ms)" "map fst ms = map fst m"
    and anonymous: "conforms bare (Wire_Object (evidence_members False)) (JObject ms)"
    using object_complete [OF evidence_fits(1) [OF b64 names q, of False] d] req [of False] by metis
  obtain ms' where ms': "renders (JsonBuild m) (JObject ms')"
    and named: "conforms bare (Wire_Object (evidence_members True)) (JObject ms') \<longleftrightarrow> ''deviceId'' \<in> fst ` set m"
    using object_complete [OF evidence_fits(1) [OF b64 names q, of True] d] req [of True] by metis
  have "ms' = ms" using renders_unique [OF ms(2) ms'] by simp
  moreover have "fst ` set m = set (json_keys (JObject ms))" using ms(3) by (metis json_keys_def json.simps(20) set_map)
  ultimately show thesis using that [OF b ms(1) anonymous] named by (simp add: evidence_request_def del: conforms.simps)
qed

lemma enroll_conforms:
  assumes b64: "writes_base64 (w_strings win)" "spells (w_strings win) bare"
    and run: "RootHeraldEnrollBegin win out g w = Some (ROOTHERALD_OK, b, g', w')"
  obtains a body doc where "b = Some (Some (a, body @ [CHR 0x00]))" and "read_json body = Some doc"
    and "conforms bare enroll_request doc"
proof -
  obtain ek p a v v' where g: "GatherEkEnrollData win v = Some (Some ek, v')" and "g' = Some p" "akPublicArea p \<noteq> []"
    and b: "b = Some (Some (a, JsonBuild (BuildEnrollFields (w_strings win) ek (akPublicArea p)) @ [CHR 0x00]))"
    by (rule EnrollBegin_ok [OF run])
  note parts = gathered_parts [OF g]
  have most: "length (intermediates ek) \<le> 8" using parts(2) by (simp add: MAX_INTERMEDIATES_def)
  have fit: "fits bare enroll_request (JsonBuild (BuildEnrollFields (w_strings win) ek (akPublicArea p)))"
    by (rule enroll_body_fits [OF b64 parts(1) most])
  show thesis
    by (rule fits_reads [OF fit [unfolded enroll_request_def wire_chain_cap_def] enroll_object(1) [OF b64(1) parts(1)]])
      (use that b in \<open>simp only: enroll_request_def wire_chain_cap_def\<close>)
qed

lemma activation_conforms:
  assumes b64: "writes_base64 (w_strings win)" "spells (w_strings win) bare"
    and safe: "safe_text (JsonGet (c_str challenge) ''deviceId'')"
    and run: "RootHeraldEnrollComplete win (Some challenge) out g w = Some (ROOTHERALD_OK, b, g', w')"
  obtains a body doc where "b = Some (Some (a, body @ [CHR 0x00]))" and "read_json body = Some doc"
    and "conforms bare activate_request doc"
proof -
  obtain a0 secret where b: "b = Some (Some (a0, JsonBuild (map_init [(''deviceId'', JsonGet (c_str challenge) ''deviceId''),
      (''decryptedSecret'', Base64Encode (w_strings win) secret)]) @ [CHR 0x00]))"
    by (rule EnrollComplete_ok [OF run])
  show thesis
    by (rule fits_reads [OF activate_body_fits [OF b64 safe, where secret = secret, unfolded activate_request_def]
        activate_members [OF b64(1) safe]])
      (use that b in \<open>simp only: activate_request_def\<close>)
qed

section \<open>Property\<close>



end
