(* ===== verification/Tpm_Device.thy ===== *)
theory Tpm_Device
  imports Tbs_Key_Provider Tpm_Nv
begin

text \<open>
  The other side of \<open>Tbsip_Submit_Command\<close>: what the code relies on of TBS and of a TPM 2.0, as the
  TBS reference and the TPM library specification document it, and what the operations of
  \<open>src/tpm/tpm_commands.cpp\<close> and \<open>src/tpm/tbs_key_provider.cpp\<close> do to such a device.

  The device is a state: the objects and the sessions of every open TBS context, the objects at the
  persistent handles, and the PCRs. A command reaches it as bytes, is decoded by the reader of
  \<open>Tpm_Wire\<close> and answered by \<open>chip_submit\<close>. What the specification leaves open is a field of the
  record \<open>tpm_chip\<close>: the handles it gives out, the keys it derives, its signatures, the credentials it
  opens, the parts of a response no command of the code reads, and its faults. \<open>tpm_behind\<close> says that
  an API drives such a device, \<open>chip_wf\<close> what the specification fixes of those fields.
\<close>

section \<open>The state of the device\<close>

text \<open>A primary key is determined by the seed of its hierarchy and its template.\<close>

record tpm_key =
  k_hierarchy :: u32
  k_template :: rsa_public

text \<open>A policy session is the list of the entities whose secrets it has proved.\<close>

record tbs_context =
  x_objects :: "u32 \<rightharpoonup> tpm_key"
  x_sessions :: "u32 \<rightharpoonup> u32 list"

record tpm_device =
  d_contexts :: "u64 \<rightharpoonup> tbs_context"
  d_persistent :: "u32 \<rightharpoonup> tpm_key"
  d_pcrs :: "nat \<Rightarrow> bytes"

text \<open>A command may be refused by TBS or by the TPM, or be executed and its response lost on the way back.\<close>

datatype tpm_fault = No_Fault | Tbs_Fault TBS_RESULT | Tpm_Fault u32 | Lost_Response TBS_RESULT

record 'w tpm_chip =
  t_fault :: "'w \<Rightarrow> tpm_fault"
  t_context :: "'w \<Rightarrow> (u64 \<rightharpoonup> tbs_context) \<Rightarrow> u64 option"
  t_object :: "'w \<Rightarrow> (u32 \<rightharpoonup> tpm_key) \<Rightarrow> u32 option"
  t_session :: "'w \<Rightarrow> (u32 \<rightharpoonup> u32 list) \<Rightarrow> u32 option"
  t_area :: "tpm_key \<Rightarrow> bytes"
  t_policy :: "u32 list \<Rightarrow> bytes"
  t_open :: "tpm_key \<Rightarrow> tpm_key \<Rightarrow> bytes \<Rightarrow> bytes \<Rightarrow> bytes option"
  t_attest :: "tpm_key \<Rightarrow> bytes \<Rightarrow> (nat \<times> bytes) list \<Rightarrow> bytes"
  t_sign :: "tpm_key \<Rightarrow> bytes \<Rightarrow> bytes"
  t_creation :: "'w \<Rightarrow> bytes"
  t_tail :: "'w \<Rightarrow> bytes"
  t_nv :: "'w \<Rightarrow> tpm_command \<Rightarrow> bytes"

definition empty_context :: tbs_context where
  "empty_context = \<lparr>x_objects = (\<lambda>_. None), x_sessions = (\<lambda>_. None)\<rparr>"

definition is_persistent :: "u32 \<Rightarrow> bool" where
  "is_persistent h \<longleftrightarrow> drop_bit 24 h = 0x81"

definition is_transient :: "u32 \<Rightarrow> bool" where
  "is_transient h \<longleftrightarrow> drop_bit 24 h = 0x80"

definition is_policy_session :: "u32 \<Rightarrow> bool" where
  "is_policy_session h \<longleftrightarrow> drop_bit 24 h = 0x03"

text \<open>The object a handle names in a context.\<close>

definition key_at :: "tpm_device \<Rightarrow> tbs_context \<Rightarrow> u32 \<Rightarrow> tpm_key option" where
  "key_at d x h = (if is_persistent h then d_persistent d h else x_objects x h)"

definition TPM2_RH_EK :: u32 where "TPM2_RH_EK = 0x4000000B"

section \<open>The commands\<close>

text \<open>
  Each definition is one command on the context it came through: the response and the new state, or
  \<open>None\<close> when the TPM answers with a response code and changes nothing. The hierarchies have empty
  authorization values, which is what the password session of the code presents.
\<close>

definition chip_CreatePrimary ::
    "'w tpm_chip \<Rightarrow> 'w \<Rightarrow> tpm_command \<Rightarrow> tbs_context \<Rightarrow> (bytes \<times> tbs_context) option" where
  "chip_CreatePrimary ch w c x =
     (case (c_handles c, decode_create_primary (c_params c), t_object ch w (x_objects x)) of
        ([hierarchy], Some cp, Some h) \<Rightarrow>
          (if hierarchy \<in> {TPM2_RH_OWNER, TPM2_RH_EK} \<and> c_auth c = [password_session] \<and> cp_user_auth cp = []
           then let k = \<lparr>k_hierarchy = hierarchy, k_template = cp_public cp\<rparr>;
                    params = sized_buffer (t_area ch k) @ t_creation ch w
                in Some (ok_response (u32_be h @ u32_be (of_nat (length params)) @ params @ t_tail ch w),
                         x\<lparr>x_objects := (x_objects x)(h \<mapsto> k)\<rparr>)
           else None)
      | _ \<Rightarrow> None)"

definition chip_FlushContext :: "tpm_command \<Rightarrow> tbs_context \<Rightarrow> (bytes \<times> tbs_context) option" where
  "chip_FlushContext c x =
     (case take_u32 (c_params c) of
        Some (h, []) \<Rightarrow>
          (if x_objects x h = None \<and> x_sessions x h = None then None
           else Some (response_bytes TPM2_ST_NO_SESSIONS 0 [],
                      x\<lparr>x_objects := (x_objects x)(h := None), x_sessions := (x_sessions x)(h := None)\<rparr>))
      | _ \<Rightarrow> None)"

text \<open>An unsalted, unbound policy session without parameter encryption.\<close>

definition chip_StartAuthSession ::
    "'w tpm_chip \<Rightarrow> 'w \<Rightarrow> tpm_command \<Rightarrow> tbs_context \<Rightarrow> (bytes \<times> tbs_context) option" where
  "chip_StartAuthSession ch w c x =
     (case (take_sized (c_params c), t_session ch w (x_sessions x)) of
        (Some (nonce, rest), Some s) \<Rightarrow>
          (if c_handles c = [0x40000007, 0x40000007] \<and> 16 \<le> length nonce \<and> length nonce \<le> 32
              \<and> rest = sized_buffer [] @ [0x01] @ u16_be TPM2_ALG_NULL @ u16_be TPM2_ALG_SHA256
           then Some (session_response s (t_tail ch w), x\<lparr>x_sessions := (x_sessions x)(s \<mapsto> [])\<rparr>)
           else None)
      | _ \<Rightarrow> None)"

definition chip_PolicySecret ::
    "'w tpm_chip \<Rightarrow> 'w \<Rightarrow> tpm_command \<Rightarrow> tbs_context \<Rightarrow> (bytes \<times> tbs_context) option" where
  "chip_PolicySecret ch w c x =
     (case c_handles c of
        [entity, s] \<Rightarrow>
          (case x_sessions x s of
             Some proved \<Rightarrow>
               (if entity \<in> {TPM2_RH_OWNER, TPM2_RH_EK} \<and> c_auth c = [password_session]
                   \<and> c_params c = sized_buffer [] @ sized_buffer [] @ sized_buffer [] @ u32_be 0
                then Some (ok_response (t_tail ch w), x\<lparr>x_sessions := (x_sessions x)(s \<mapsto> proved @ [entity])\<rparr>)
                else None)
           | None \<Rightarrow> None)
      | _ \<Rightarrow> None)"

text \<open>
  The first key is authorised by its empty password, which the ADMIN role allows unless the key asks
  for a policy there; the second, a decryption key, by the policy its template names, which resets
  the session.
\<close>

definition chip_ActivateCredential ::
    "'w tpm_chip \<Rightarrow> 'w \<Rightarrow> tpm_device \<Rightarrow> tpm_command \<Rightarrow> tbs_context \<Rightarrow> (bytes \<times> tbs_context) option" where
  "chip_ActivateCredential ch w d c x =
     (case (c_handles c, c_auth c) of
        ([ak, ek], [first, second]) \<Rightarrow>
          do {
            a \<leftarrow> key_at d x ak;
            e \<leftarrow> key_at d x ek;
            proved \<leftarrow> x_sessions x (s_handle second);
            (blob, rest) \<leftarrow> take_sized (c_params c);
            (seed, rest) \<leftarrow> take_sized rest;
            secret \<leftarrow> t_open ch e a blob seed;
            (if first = password_session \<and> \<not> object_bit (k_template a) 7
                \<and> second = policy_session (s_handle second) \<and> t_policy ch proved = r_policy (k_template e)
                \<and> object_bit (k_template e) 17 \<and> rest = []
             then Some (secret_response secret (t_tail ch w),
                        x\<lparr>x_sessions := (x_sessions x)(s_handle second \<mapsto> [])\<rparr>)
             else None)
          }
      | _ \<Rightarrow> None)"

definition chip_ReadPublic ::
    "'w tpm_chip \<Rightarrow> 'w \<Rightarrow> tpm_device \<Rightarrow> tpm_command \<Rightarrow> tbs_context \<Rightarrow> bytes option" where
  "chip_ReadPublic ch w d c x =
     (case c_handles c of
        [h] \<Rightarrow> map_option (\<lambda>k. response_bytes TPM2_ST_NO_SESSIONS 0 (sized_buffer (t_area ch k) @ t_tail ch w))
                 (key_at d x h)
      | _ \<Rightarrow> None)"

text \<open>
  With a persistent handle as the object the command clears it; with a transient one it makes the
  object persistent at a free handle of the owner's range, unless the object has \<open>stClear\<close>.
\<close>

definition chip_EvictControl ::
    "'w tpm_chip \<Rightarrow> 'w \<Rightarrow> tpm_device \<Rightarrow> tpm_command \<Rightarrow> tbs_context \<Rightarrow> (bytes \<times> tpm_device) option" where
  "chip_EvictControl ch w d c x =
     (case (c_handles c, take_u32 (c_params c)) of
        ([auth, obj], Some (p, [])) \<Rightarrow>
          (case key_at d x obj of
             Some k \<Rightarrow>
               (if auth \<noteq> TPM2_RH_OWNER \<or> c_auth c \<noteq> [password_session] then None
                else if is_persistent obj
                then (if obj = p
                      then Some (ok_response (t_tail ch w), d\<lparr>d_persistent := (d_persistent d)(p := None)\<rparr>)
                      else None)
                else if is_persistent p \<and> \<not> bit p 23 \<and> d_persistent d p = None \<and> \<not> object_bit (k_template k) 2
                then Some (ok_response (t_tail ch w), d\<lparr>d_persistent := (d_persistent d)(p \<mapsto> k)\<rparr>)
                else None)
           | None \<Rightarrow> None)
      | _ \<Rightarrow> None)"

definition selected_pcrs :: "bytes \<Rightarrow> nat list" where
  "selected_pcrs bitmap = filter (bitmap_has bitmap) [0..<24]"

text \<open>A selection of registers of the SHA-256 bank.\<close>

definition take_selection :: "bytes \<Rightarrow> bytes option" where
  "take_selection bs = (if length bs = 10 \<and> take 7 bs = u32_be 1 @ u16_be TPM2_ALG_SHA256 @ [3]
     then Some (drop 7 bs) else None)"

definition chip_PCR_Read ::
    "tpm_device \<Rightarrow> tpm_command \<Rightarrow> bytes option" where
  "chip_PCR_Read d c =
     (case take_selection (c_params c) of
        Some bitmap \<Rightarrow>
          Some (response_bytes TPM2_ST_NO_SESSIONS 0
            (pcr_read_body 0 [(TPM2_ALG_SHA256, bitmap)] (take 8 (map (d_pcrs d) (selected_pcrs bitmap)))))
      | None \<Rightarrow> None)"

definition pcr_values_of :: "tpm_device \<Rightarrow> nat list \<Rightarrow> (nat \<times> bytes) list" where
  "pcr_values_of d is = map (\<lambda>i. (i, d_pcrs d i)) is"

definition chip_Quote ::
    "'w tpm_chip \<Rightarrow> 'w \<Rightarrow> tpm_device \<Rightarrow> tpm_command \<Rightarrow> tbs_context \<Rightarrow> bytes option" where
  "chip_Quote ch w d c x =
     (case c_handles c of
        [h] \<Rightarrow> do {
          k \<leftarrow> key_at d x h;
          (nonce, rest) \<leftarrow> take_sized (c_params c);
          (alg, rest) \<leftarrow> take_u16 rest;
          (hash, rest) \<leftarrow> take_u16 rest;
          bitmap \<leftarrow> take_selection rest;
          (if c_auth c = [password_session] \<and> object_bit (k_template k) 18
              \<and> r_scheme (k_template k) = Some (alg, hash) \<and> length nonce \<le> 64
           then let attest = t_attest ch k nonce (pcr_values_of d (selected_pcrs bitmap));
                    signature = t_sign ch k attest
                in Some (ok_response (u32_be (of_nat (2 + length attest + length signature))
                     @ sized_buffer attest @ signature @ t_tail ch w))
           else None)
        }
      | _ \<Rightarrow> None)"

section \<open>The device behind TBS\<close>

definition command_handles :: "u32 \<Rightarrow> nat option" where
  "command_handles code =
     (if code = TPM2_CC_PCR_Read \<or> code = TPM2_CC_FlushContext then Some 0
      else if code = TPM2_CC_CreatePrimary \<or> code = TPM2_CC_ReadPublic \<or> code = TPM2_CC_Quote
        \<or> code = TPM2_CC_NV_ReadPublic then Some 1
      else if code = TPM2_CC_StartAuthSession \<or> code = TPM2_CC_PolicySecret \<or> code = TPM2_CC_ActivateCredential
        \<or> code = TPM2_CC_EvictControl \<or> code = TPM2_CC_NV_Read then Some 2
      else None)"

definition tpm_decode :: "bytes \<Rightarrow> tpm_command option" where
  "tpm_decode cmd = do { code \<leftarrow> ReadU32 cmd 6; n \<leftarrow> command_handles code; decode_command n cmd }"

definition set_context :: "tpm_device \<Rightarrow> u64 \<Rightarrow> tbs_context \<Rightarrow> tpm_device" where
  "set_context d ctx x = d\<lparr>d_contexts := (d_contexts d)(ctx \<mapsto> x)\<rparr>"

definition chip_answer ::
    "'w tpm_chip \<Rightarrow> 'w \<Rightarrow> u64 \<Rightarrow> tpm_device \<Rightarrow> tbs_context \<Rightarrow> tpm_command \<Rightarrow> (bytes \<times> tpm_device) option" where
  "chip_answer ch w ctx d x c =
     (let code = c_code c;
          here = map_option (map_prod id (set_context d ctx));
          same = map_option (\<lambda>resp. (resp, d))
      in if code = TPM2_CC_CreatePrimary then here (chip_CreatePrimary ch w c x)
         else if code = TPM2_CC_FlushContext then here (chip_FlushContext c x)
         else if code = TPM2_CC_StartAuthSession then here (chip_StartAuthSession ch w c x)
         else if code = TPM2_CC_PolicySecret then here (chip_PolicySecret ch w c x)
         else if code = TPM2_CC_ActivateCredential then here (chip_ActivateCredential ch w d c x)
         else if code = TPM2_CC_ReadPublic then same (chip_ReadPublic ch w d c x)
         else if code = TPM2_CC_EvictControl then chip_EvictControl ch w d c x
         else if code = TPM2_CC_PCR_Read then same (chip_PCR_Read d c)
         else if code = TPM2_CC_Quote then same (chip_Quote ch w d c x)
         else if code = TPM2_CC_NV_ReadPublic \<or> code = TPM2_CC_NV_Read then Some (t_nv ch w c, d)
         else None)"

definition refusal :: "u32 \<Rightarrow> bytes" where
  "refusal rc = response_bytes TPM2_ST_NO_SESSIONS rc []"

definition chip_submit ::
    "'w tpm_chip \<Rightarrow> 'w \<Rightarrow> u64 \<Rightarrow> bytes \<Rightarrow> tpm_device \<Rightarrow> TBS_RESULT \<times> bytes \<times> tpm_device" where
  "chip_submit ch w ctx cmd d =
     (case d_contexts d ctx of
        None \<Rightarrow> (0x80284004, [], d)
      | Some x \<Rightarrow>
          (case t_fault ch w of
             Tbs_Fault r \<Rightarrow> (r, [], d)
           | Tpm_Fault rc \<Rightarrow> (TBS_SUCCESS, refusal rc, d)
           | Lost_Response r \<Rightarrow>
               (case tpm_decode cmd \<bind> chip_answer ch w ctx d x of
                  None \<Rightarrow> (r, [], d)
                | Some (_, d) \<Rightarrow> (r, [], d))
           | No_Fault \<Rightarrow>
               (case tpm_decode cmd \<bind> chip_answer ch w ctx d x of
                  None \<Rightarrow> (TBS_SUCCESS, refusal 0x18B, d)
                | Some (resp, d) \<Rightarrow> (TBS_SUCCESS, resp, d))))"

text \<open>The API drives the device: a context has objects of its own, and closing it drops them.\<close>

definition tpm_behind :: "'w tbs_api \<Rightarrow> 'w tpm_chip \<Rightarrow> ('w \<Rightarrow> tpm_device) \<Rightarrow> bool" where
  "tpm_behind api ch view \<longleftrightarrow>
     (\<forall>w. case t_context ch w (d_contexts (view w)) of
        None \<Rightarrow> (\<exists>r w'. r \<noteq> TBS_SUCCESS \<and> Tbsi_Context_Create api w = (r, 0, w') \<and> view w' = view w)
      | Some h \<Rightarrow> (\<exists>w'. Tbsi_Context_Create api w = (TBS_SUCCESS, h, w')
          \<and> view w' = set_context (view w) h empty_context))
   \<and> (\<forall>h w. view (Tbsip_Context_Close api h w) = (view w)\<lparr>d_contexts := (d_contexts (view w))(h := None)\<rparr>)
   \<and> (\<forall>s w r l n w'. Tbsi_Get_TCG_Log_Ex api s w = (r, l, n, w') \<longrightarrow> view w' = view w)
   \<and> (\<forall>h cmd w. case chip_submit ch w h cmd (view w) of (r, resp, d) \<Rightarrow>
        \<exists>w'. Tbsip_Submit_Command api h cmd w = (r, resp, of_nat (length resp), w') \<and> view w' = d)"

text \<open>What the specification fixes of the open parts.\<close>

definition chip_handles :: "'w tpm_chip \<Rightarrow> bool" where
  "chip_handles ch \<longleftrightarrow>
     (\<forall>w m h. t_context ch w m = Some h \<longrightarrow> h \<noteq> 0 \<and> m h = None)
   \<and> (\<forall>w m h. t_object ch w m = Some h \<longrightarrow> is_transient h \<and> m h = None)
   \<and> (\<forall>w m h. t_session ch w m = Some h \<longrightarrow> is_policy_session h \<and> m h = None)"

definition chip_sizes :: "'w tpm_chip \<Rightarrow> bool" where
  "chip_sizes ch \<longleftrightarrow>
     (\<forall>k. 0 < length (t_area ch k) \<and> length (t_area ch k) \<le> 1024)
   \<and> (\<forall>k nonce vs. length (t_attest ch k nonce vs) \<le> 1024)
   \<and> (\<forall>k attest. length (t_sign ch k attest) \<le> 1024)
   \<and> (\<forall>w. length (t_creation ch w) \<le> 512 \<and> length (t_tail ch w) \<le> 512)
   \<and> (\<forall>w c. length (t_nv ch w c) \<le> 4096)"

definition chip_secrets :: "'w tpm_chip \<Rightarrow> bool" where
  "chip_secrets ch \<longleftrightarrow> t_policy ch [TPM2_RH_EK] = EK_POLICY
   \<and> (\<forall>e a blob seed secret. t_open ch e a blob seed = Some secret \<longrightarrow> length secret \<le> 64)"

text \<open>\<open>TPM2_NV_Read\<close> returns no more than it was asked for, and a fault is an error.\<close>

definition chip_reads :: "'w tpm_chip \<Rightarrow> bool" where
  "chip_reads ch \<longleftrightarrow>
     (\<forall>w c want off got chunk. c_code c = TPM2_CC_NV_Read \<longrightarrow> c_params c = u16_be want @ u16_be off \<longrightarrow>
        NV_Read_response (t_nv ch w c) = Some (Inr (got, chunk)) \<longrightarrow> got \<le> want)
   \<and> (\<forall>w r. t_fault ch w \<in> {Tbs_Fault r, Lost_Response r} \<longrightarrow> r \<noteq> TBS_SUCCESS)
   \<and> (\<forall>w rc. t_fault ch w = Tpm_Fault rc \<longrightarrow> rc \<noteq> 0)"

definition chip_wf :: "'w tpm_chip \<Rightarrow> bool" where
  "chip_wf ch \<longleftrightarrow> chip_handles ch \<and> chip_sizes ch \<and> chip_secrets ch \<and> chip_reads ch"

text \<open>A device that has room and no faults: at least three objects and three sessions fit a context.\<close>

definition obliging :: "'w tpm_chip \<Rightarrow> bool" where
  "obliging ch \<longleftrightarrow> (\<forall>w. t_fault ch w = No_Fault)
   \<and> (\<forall>w m. finite (dom m) \<longrightarrow> card (dom m) < 8 \<longrightarrow> t_context ch w m \<noteq> None)
   \<and> (\<forall>w m. finite (dom m) \<longrightarrow> card (dom m) < 3 \<longrightarrow> t_object ch w m \<noteq> None)
   \<and> (\<forall>w m. finite (dom m) \<longrightarrow> card (dom m) < 3 \<longrightarrow> t_session ch w m \<noteq> None)"

section \<open>One command\<close>

definition ek_key :: tpm_key where
  "ek_key = \<lparr>k_hierarchy = TPM2_RH_EK, k_template = ek_public\<rparr>"

definition ak_key :: tpm_key where
  "ak_key = \<lparr>k_hierarchy = TPM2_RH_OWNER, k_template = ak_public\<rparr>"

text \<open>The context of a \<open>TpmCommands\<close> is open on the device, which is in a given state.\<close>

definition serves ::
    "'w tbs_api \<Rightarrow> 'w tpm_chip \<Rightarrow> ('w \<Rightarrow> tpm_device) \<Rightarrow> tpm_commands \<Rightarrow> 'w \<Rightarrow> tpm_device \<Rightarrow> tbs_context \<Rightarrow> bool" where
  "serves api ch view tc w d x \<longleftrightarrow> tpm_behind api ch view \<and> chip_wf ch \<and> view w = d
     \<and> tc_context tc \<noteq> 0 \<and> d_contexts d (tc_context tc) = Some x"

lemma set_context_simps [simp]:
  "d_contexts (set_context d ctx x) = (d_contexts d)(ctx \<mapsto> x)"
  "d_persistent (set_context d ctx x) = d_persistent d"
  "d_pcrs (set_context d ctx x) = d_pcrs d"
  "set_context (set_context d ctx x) ctx y = set_context d ctx y"
  by (simp_all add: set_context_def)

lemma handle_kinds:
  "is_transient h \<Longrightarrow> h \<noteq> 0" "is_transient h \<Longrightarrow> \<not> is_persistent h"
  "is_policy_session h \<Longrightarrow> h \<noteq> 0"
  by (auto simp: is_transient_def is_persistent_def is_policy_session_def)

lemma chip_wf_handles:
  assumes "chip_wf ch"
  shows "t_context ch w m = Some ctx \<Longrightarrow> ctx \<noteq> 0 \<and> m ctx = None"
    and "t_object ch w m' = Some h \<Longrightarrow> is_transient h \<and> m' h = None"
    and "t_session ch w m'' = Some s \<Longrightarrow> is_policy_session s \<and> m'' s = None"
  using assms unfolding chip_wf_def chip_handles_def by blast+

lemma chip_wf_sizes:
  assumes "chip_wf ch"
  shows "0 < length (t_area ch k)" "length (t_area ch k) \<le> 1024" "length (t_attest ch k nonce vs) \<le> 1024"
    "length (t_sign ch k attest) \<le> 1024" "length (t_creation ch w) \<le> 512" "length (t_tail ch w) \<le> 512"
    "length (t_nv ch w c) \<le> 4096"
  using assms by (simp_all add: chip_wf_def chip_sizes_def)

lemma chip_wf_secret: "chip_wf ch \<Longrightarrow> t_open ch e a blob seed = Some secret \<Longrightarrow> length secret \<le> 64"
  unfolding chip_wf_def chip_secrets_def by blast

lemma chip_wf_policy: "chip_wf ch \<Longrightarrow> t_policy ch [TPM2_RH_EK] = EK_POLICY"
  by (simp add: chip_wf_def chip_secrets_def)

lemma obliging_room:
  assumes "obliging ch"
  shows "t_fault ch w = No_Fault"
    and "finite (dom m) \<Longrightarrow> card (dom m) < 8 \<Longrightarrow> \<exists>ctx. t_context ch w m = Some ctx"
    and "finite (dom m') \<Longrightarrow> card (dom m') < 3 \<Longrightarrow> \<exists>h. t_object ch w m' = Some h"
    and "finite (dom m'') \<Longrightarrow> card (dom m'') < 3 \<Longrightarrow> \<exists>s. t_session ch w m'' = Some s"
  using assms unfolding obliging_def by auto

lemma tpm_behind_submit:
  assumes "tpm_behind api ch view" and "chip_submit ch w h cmd (view w) = (r, resp, d)"
  obtains w' where "Tbsip_Submit_Command api h cmd w = (r, resp, of_nat (length resp), w')" and "view w' = d"
proof -
  have "case chip_submit ch w h cmd (view w) of (r, resp, d) \<Rightarrow>
      \<exists>w'. Tbsip_Submit_Command api h cmd w = (r, resp, of_nat (length resp), w') \<and> view w' = d"
    by (rule assms(1) [unfolded tpm_behind_def, THEN conjunct2, THEN conjunct2, THEN conjunct2, THEN spec, THEN spec, THEN spec])
  then show thesis using assms(2) that by auto
qed

lemma chip_answered:
  assumes s: "serves api ch view tc w d x" and ob: "obliging ch"
    and c: "tpm_decode (patch_command_size cmd) = Some c"
    and a: "chip_answer ch w (tc_context tc) d x c = Some (resp, d')" and l: "length resp \<le> 4096"
  obtains w' where "tbs_answers api tc cmd w resp w'" and "view w' = d'"
proof -
  have "chip_submit ch w (tc_context tc) (patch_command_size cmd) (view w) = (TBS_SUCCESS, resp, d')"
    using s c a obliging_room(1) [OF ob] by (simp add: chip_submit_def serves_def)
  then obtain w' where "Tbsip_Submit_Command api (tc_context tc) (patch_command_size cmd) w
      = (TBS_SUCCESS, resp, of_nat (length resp), w')" "view w' = d'"
    using tpm_behind_submit s unfolding serves_def by metis
  then show thesis using s l that by (auto simp: tbs_answers_def serves_def)
qed

text \<open>An answer that the TPM refuses leaves the device as it was.\<close>

lemma chip_refused:
  assumes s: "serves api ch view tc w d x" and ob: "obliging ch"
    and c: "tpm_decode (patch_command_size cmd) = Some c"
    and a: "chip_answer ch w (tc_context tc) d x c = None"
  obtains w' where "tbs_answers api tc cmd w (refusal 0x18B) w'" and "view w' = d"
proof -
  have "chip_submit ch w (tc_context tc) (patch_command_size cmd) (view w) = (TBS_SUCCESS, refusal 0x18B, d)"
    using s c a obliging_room(1) [OF ob] by (simp add: chip_submit_def serves_def)
  then obtain w' where "Tbsip_Submit_Command api (tc_context tc) (patch_command_size cmd) w
      = (TBS_SUCCESS, refusal 0x18B, of_nat (length (refusal 0x18B)), w')" "view w' = d"
    using tpm_behind_submit s unfolding serves_def by metis
  then show thesis using s that by (auto simp: tbs_answers_def serves_def refusal_def)
qed

lemma serves_in:
  "serves api ch view tc w d x \<Longrightarrow> view w' = set_context d (tc_context tc) x' \<Longrightarrow>
   serves api ch view tc w' (set_context d (tc_context tc) x') x'"
  "serves api ch view tc w d x \<Longrightarrow> view w' = d \<Longrightarrow> serves api ch view tc w' d x"
  "serves api ch view tc w d x \<Longrightarrow> view w' = d\<lparr>d_persistent := p\<rparr> \<Longrightarrow>
   serves api ch view tc w' (d\<lparr>d_persistent := p\<rparr>) x"
  by (simp_all add: serves_def)

text \<open>The command a device decodes is the one the marshalling code is proved to send.\<close>

lemma more_codes [simp]:
  "ReadU32 (patch_command_size (PcrRead_command i)) 6 = Some TPM2_CC_PCR_Read"
  "ReadU32 (patch_command_size (Quote_command h nonce pcrs)) 6 = Some TPM2_CC_Quote"
  "ReadU32 (patch_command_size (NV_ReadPublic_command nv)) 6 = Some TPM2_CC_NV_ReadPublic"
  "ReadU32 (patch_command_size (NV_Read_command nv want off)) 6 = Some TPM2_CC_NV_Read"
  by (simp_all add: patched_code writer_simps PcrRead_command_def Quote_command_def NV_ReadPublic_command_def
      NV_Read_command_def Let_def)

lemma decoded:
  "tpm_decode (patch_command_size (PcrRead_command i)) = decode_command 0 (patch_command_size (PcrRead_command i))"
  "tpm_decode (patch_command_size (Quote_command h nonce pcrs))
    = decode_command 1 (patch_command_size (Quote_command h nonce pcrs))"
  "tpm_decode (patch_command_size (FlushContext_command h)) = decode_command 0 (patch_command_size (FlushContext_command h))"
  "tpm_decode (patch_command_size StartAuthSession_command) = decode_command 2 (patch_command_size StartAuthSession_command)"
  "tpm_decode (patch_command_size (PolicySecret_command h)) = decode_command 2 (patch_command_size (PolicySecret_command h))"
  "tpm_decode (patch_command_size (ActivateCredential_command ak ek h cb es))
    = decode_command 2 (patch_command_size (ActivateCredential_command ak ek h cb es))"
  "tpm_decode (patch_command_size (ReadPublic_command h)) = decode_command 1 (patch_command_size (ReadPublic_command h))"
  "tpm_decode (patch_command_size (EvictControl_command h p)) = decode_command 2 (patch_command_size (EvictControl_command h p))"
  "tpm_decode (patch_command_size (NV_ReadPublic_command h)) = decode_command 1 (patch_command_size (NV_ReadPublic_command h))"
  "tpm_decode (patch_command_size (NV_Read_command h want off))
    = decode_command 2 (patch_command_size (NV_Read_command h want off))"
  "tpm_decode (patch_command_size (CreateAndLoadAk_command h)) = decode_command 1 (patch_command_size (CreateAndLoadAk_command h))"
  "tpm_decode (patch_command_size CreateEk_command) = decode_command 1 (patch_command_size CreateEk_command)"
  by (simp_all add: tpm_decode_def command_handles_def)

lemmas device_decodes = decoded [unfolded PcrRead_command_sends FlushContext_command_sends
  StartAuthSession_command_sends PolicySecret_command_sends ReadPublic_command_sends EvictControl_command_sends
  NV_ReadPublic_command_sends NV_Read_command_sends CreateAndLoadAk_command_sends CreateEk_command_sends]

lemma primary_key_params:
  "decode_create_primary (primary_params ek_area) = Some \<lparr>cp_user_auth = [], cp_data = [], cp_public = ek_public,
     cp_outside = [], cp_pcr_count = 0\<rparr>"
  "decode_create_primary (primary_params ak_area) = Some \<lparr>cp_user_auth = [], cp_data = [], cp_public = ak_public,
     cp_outside = [], cp_pcr_count = 0\<rparr>"
  by (rule decode_primary_params; simp add: decode_ek_area decode_ak_area)+

section \<open>The keys\<close>

definition primary_response :: "'w tpm_chip \<Rightarrow> 'w \<Rightarrow> tpm_key \<Rightarrow> u32 \<Rightarrow> bytes" where
  "primary_response ch w k h =
     (let params = sized_buffer (t_area ch k) @ t_creation ch w
      in ok_response (u32_be h @ u32_be (of_nat (length params)) @ params @ t_tail ch w))"

lemma primary_response_reads:
  assumes "chip_wf ch"
  shows "length (primary_response ch w k h) \<le> 4096"
    and "CreateEk_response (primary_response ch w k h) = Some (Inr h)"
    and "CreateAndLoadAk_response (primary_response ch w k h) = Some (Inr (h, sized_buffer (t_area ch k)))"
proof -
  note z = chip_wf_sizes(1) [OF assms, of k] chip_wf_sizes(2) [OF assms, of k] chip_wf_sizes(5) [OF assms, of w]
    chip_wf_sizes(6) [OF assms, of w]
  let ?n = "2 + length (t_area ch k) + length (t_creation ch w)"
  have n: "unat (of_nat ?n :: u32) = ?n" unfolding unat_of_nat using z by simp
  have r: "primary_response ch w k h = response_bytes TPM2_ST_SESSIONS 0
      (u32_be h @ u32_be (of_nat ?n) @ sized_buffer (t_area ch k) @ t_creation ch w @ t_tail ch w)"
    by (simp add: primary_response_def ok_response_def Let_def)
  show l: "length (primary_response ch w k h) \<le> 4096"
    using z by (simp add: r)
  have "0 < (of_nat ?n :: u32)" unfolding word_less_nat_alt n by simp
  then show "CreateAndLoadAk_response (primary_response ch w k h) = Some (Inr (h, sized_buffer (t_area ch k)))"
    unfolding r using z n by (intro CreateAndLoadAk_response_reads) (simp_all del: of_nat_add)
  have "ReadU32 (primary_response ch w k h) 10 = Some h"
    unfolding r using response_u32 [of "[]" 0] by simp
  moreover have "14 \<le> length (primary_response ch w k h)" "ReadU32 (primary_response ch w k h) 6 = Some 0"
    by (simp_all add: r)
  ultimately show "CreateEk_response (primary_response ch w k h) = Some (Inr h)"
    by (simp add: CreateEk_response_def on_success_def)
qed

lemma chip_creates:
  assumes "t_object ch w (x_objects x) = Some h"
  shows "chip_answer ch w ctx d x \<lparr>c_sessions_tag = True, c_code = TPM2_CC_CreatePrimary, c_handles = [0x4000000B],
      c_auth = [password_session], c_params = primary_params ek_area\<rparr>
    = Some (primary_response ch w ek_key h, set_context d ctx (x\<lparr>x_objects := (x_objects x)(h \<mapsto> ek_key)\<rparr>))"
    and "chip_answer ch w ctx d x \<lparr>c_sessions_tag = True, c_code = TPM2_CC_CreatePrimary, c_handles = [TPM2_RH_OWNER],
      c_auth = [password_session], c_params = primary_params ak_area\<rparr>
    = Some (primary_response ch w ak_key h, set_context d ctx (x\<lparr>x_objects := (x_objects x)(h \<mapsto> ak_key)\<rparr>))"
  by (simp_all add: chip_answer_def chip_CreatePrimary_def assms primary_key_params TPM2_RH_EK_def ek_key_def ak_key_def
      primary_response_def Let_def)

lemma CreateEk_on_device:
  assumes s: "serves api ch view tc w d x" and ob: "obliging ch"
    and room: "finite (dom (x_objects x))" "card (dom (x_objects x)) < 3"
  obtains h w' where "CreateEk api tc w = Some (Inr h, w')" and "is_transient h" and "x_objects x h = None"
    and "view w' = set_context d (tc_context tc) (x\<lparr>x_objects := (x_objects x)(h \<mapsto> ek_key)\<rparr>)"
proof -
  have wf: "chip_wf ch" using s by (simp add: serves_def)
  obtain h where h: "t_object ch w (x_objects x) = Some h" using obliging_room(3) [OF ob room] by blast
  obtain w' where "tbs_answers api tc CreateEk_command w (primary_response ch w ek_key h) w'"
    and "view w' = set_context d (tc_context tc) (x\<lparr>x_objects := (x_objects x)(h \<mapsto> ek_key)\<rparr>)"
    by (rule chip_answered [OF s ob device_decodes(12) chip_creates(1) [OF h] primary_response_reads(1) [OF wf]])
  moreover have "CreateEk api tc w = Some (Inr h, w')"
    unfolding CreateEk_def by (rule transact_answered [where parse = CreateEk_response, OF calculation(1) primary_response_reads(2) [OF wf]])
  ultimately show thesis using that chip_wf_handles(2) [OF wf h] by blast
qed

lemma CreateAndLoadAk_on_device:
  assumes s: "serves api ch view tc w d x" and ob: "obliging ch"
    and room: "finite (dom (x_objects x))" "card (dom (x_objects x)) < 3"
  obtains h w' where "CreateAndLoadAk api tc TPM_RH_OWNER w = Some (Inr (h, sized_buffer (t_area ch ak_key)), w')"
    and "is_transient h" and "x_objects x h = None"
    and "view w' = set_context d (tc_context tc) (x\<lparr>x_objects := (x_objects x)(h \<mapsto> ak_key)\<rparr>)"
proof -
  have wf: "chip_wf ch" using s by (simp add: serves_def)
  obtain h where h: "t_object ch w (x_objects x) = Some h" using obliging_room(3) [OF ob room] by blast
  obtain w' where "tbs_answers api tc (CreateAndLoadAk_command TPM2_RH_OWNER) w (primary_response ch w ak_key h) w'"
    and "view w' = set_context d (tc_context tc) (x\<lparr>x_objects := (x_objects x)(h \<mapsto> ak_key)\<rparr>)"
    by (rule chip_answered [OF s ob device_decodes(11) chip_creates(2) [OF h] primary_response_reads(1) [OF wf]])
  moreover have "CreateAndLoadAk api tc TPM_RH_OWNER w = Some (Inr (h, sized_buffer (t_area ch ak_key)), w')"
    unfolding CreateAndLoadAk_def TPM_RH_OWNER_def
    by (rule transact_answered [where parse = CreateAndLoadAk_response, OF calculation(1) primary_response_reads(3) [OF wf]])
  ultimately show thesis using that chip_wf_handles(2) [OF wf h] by blast
qed

text \<open>A handle is flushed.\<close>

lemma FlushContext_on_device:
  assumes s: "serves api ch view tc w d x" and ob: "obliging ch"
    and h: "x_objects x h \<noteq> None \<or> x_sessions x h \<noteq> None"
  shows "view (snd (FlushContext api tc h w)) = set_context d (tc_context tc)
    (x\<lparr>x_objects := (x_objects x)(h := None), x_sessions := (x_sessions x)(h := None)\<rparr>)"
proof -
  have a: "chip_answer ch w (tc_context tc) d x \<lparr>c_sessions_tag = False, c_code = TPM2_CC_FlushContext, c_handles = [],
      c_auth = [], c_params = u32_be h\<rparr> = Some (response_bytes TPM2_ST_NO_SESSIONS 0 [],
        set_context d (tc_context tc) (x\<lparr>x_objects := (x_objects x)(h := None), x_sessions := (x_sessions x)(h := None)\<rparr>))"
    using h by (auto simp: chip_answer_def chip_FlushContext_def)
  show ?thesis
    by (rule chip_answered [OF s ob device_decodes(3) a]) (simp_all add: FlushContext_def SendCommand_answered)
qed

section \<open>Activation, persistence and attestation\<close>

lemma StartAuthSession_on_device:
  assumes s: "serves api ch view tc w d x" and ob: "obliging ch"
    and room: "finite (dom (x_sessions x))" "card (dom (x_sessions x)) < 3"
  obtains h nonce w' where "tbs_answers api tc StartAuthSession_command w (session_response h nonce) w'"
    and "is_policy_session h" and "x_sessions x h = None"
    and "view w' = set_context d (tc_context tc) (x\<lparr>x_sessions := (x_sessions x)(h \<mapsto> [])\<rparr>)"
proof -
  have wf: "chip_wf ch" using s by (simp add: serves_def)
  obtain h where h: "t_session ch w (x_sessions x) = Some h" using obliging_room(4) [OF ob room] by blast
  let ?c = "\<lparr>c_sessions_tag = False, c_code = TPM2_CC_StartAuthSession, c_handles = [0x40000007, 0x40000007], c_auth = [],
      c_params = sized_buffer sessionNonce @ sized_buffer [] @ [0x01] @ u16_be 0x0010 @ u16_be 0x000B\<rparr>"
  have n: "length sessionNonce = 32" by (simp add: sessionNonce_def)
  have a: "chip_answer ch w (tc_context tc) d x ?c = Some (session_response h (t_tail ch w),
      set_context d (tc_context tc) (x\<lparr>x_sessions := (x_sessions x)(h \<mapsto> [])\<rparr>))"
    using n h by (simp add: chip_answer_def chip_StartAuthSession_def)
  have l: "length (session_response h (t_tail ch w)) \<le> 4096"
    using chip_wf_sizes(6) [OF wf, of w] by (simp add: session_response_def)
  show thesis
    by (rule chip_answered [OF s ob device_decodes(4) a l]) (use that chip_wf_handles(3) [OF wf h] in blast)
qed

lemma PolicySecret_on_device:
  assumes s: "serves api ch view tc w d x" and ob: "obliging ch" and h: "x_sessions x h = Some proved"
  obtains body w' where "tbs_answers api tc (PolicySecret_command h) w (ok_response body) w'"
    and "view w' = set_context d (tc_context tc) (x\<lparr>x_sessions := (x_sessions x)(h \<mapsto> proved @ [TPM2_RH_EK])\<rparr>)"
proof -
  have wf: "chip_wf ch" using s by (simp add: serves_def)
  let ?c = "\<lparr>c_sessions_tag = True, c_code = TPM2_CC_PolicySecret, c_handles = [0x4000000B, h],
      c_auth = [password_session], c_params = sized_buffer [] @ sized_buffer [] @ sized_buffer [] @ u32_be 0\<rparr>"
  have a: "chip_answer ch w (tc_context tc) d x ?c = Some (ok_response (t_tail ch w),
      set_context d (tc_context tc) (x\<lparr>x_sessions := (x_sessions x)(h \<mapsto> proved @ [TPM2_RH_EK])\<rparr>))"
    using h by (simp add: chip_answer_def chip_PolicySecret_def TPM2_RH_EK_def)
  have l: "length (ok_response (t_tail ch w)) \<le> 4096"
    using chip_wf_sizes(6) [OF wf, of w] by (simp add: ok_response_def)
  show thesis by (rule chip_answered [OF s ob device_decodes(5) a l]) (use that in blast)
qed

lemma key_templates:
  "\<not> object_bit (k_template ak_key) 7" "object_bit (k_template ek_key) 17" "r_policy (k_template ek_key) = EK_POLICY"
  "\<not> object_bit (k_template ak_key) 2" "object_bit (k_template ak_key) 18"
  "r_scheme (k_template ak_key) = Some (TPM2_ALG_RSASSA, TPM2_ALG_SHA256)"
  by (simp_all add: ak_key_def ek_key_def ak_public_def ek_public_def object_bit_def ak_attribute_bits ek_attribute_bits)

lemma ActivateCredential_command_on_device:
  assumes s: "serves api ch view tc w d x" and ob: "obliging ch"
    and k: "key_at d x ak = Some ak_key" "key_at d x ek = Some ek_key" "x_sessions x h = Some [TPM2_RH_EK]"
    and c: "t_open ch ek_key ak_key blob seed = Some secret" "length blob < 2 ^ 16" "length seed < 2 ^ 16"
  obtains auth w' where
    "tbs_answers api tc (ActivateCredential_command ak ek h (sized_buffer blob) (sized_buffer seed)) w
       (secret_response secret auth) w'"
    and "view w' = set_context d (tc_context tc) (x\<lparr>x_sessions := (x_sessions x)(h \<mapsto> [])\<rparr>)"
proof -
  have wf: "chip_wf ch" using s by (simp add: serves_def)
  let ?c = "\<lparr>c_sessions_tag = True, c_code = TPM2_CC_ActivateCredential, c_handles = [ak, ek],
      c_auth = [password_session, policy_session h], c_params = sized_buffer blob @ sized_buffer seed\<rparr>"
  have dec: "tpm_decode (patch_command_size (ActivateCredential_command ak ek h (sized_buffer blob) (sized_buffer seed)))
      = Some ?c"
    unfolding decoded by (rule ActivateCredential_command_sends) (use c in simp)
  have a: "chip_answer ch w (tc_context tc) d x ?c = Some (secret_response secret (t_tail ch w),
      set_context d (tc_context tc) (x\<lparr>x_sessions := (x_sessions x)(h \<mapsto> [])\<rparr>))"
    using k c chip_wf_policy [OF wf] key_templates
    by (simp add: chip_answer_def chip_ActivateCredential_def policy_session_def)
  have l: "length (secret_response secret (t_tail ch w)) \<le> 4096"
    using chip_wf_sizes(6) [OF wf, of w] chip_wf_secret [OF wf c(1)] by (simp add: secret_response_def)
  show thesis by (rule chip_answered [OF s ob dec a l]) (use that in blast)
qed

lemma set_context_same: "d_contexts d ctx = Some x \<Longrightarrow> set_context d ctx x = d"
  by (simp add: set_context_def fun_upd_idem)

lemma handles_disjoint: "is_policy_session h \<Longrightarrow> \<not> is_transient h"
  by (auto simp: is_policy_session_def is_transient_def)

text \<open>
  \<open>ActivateCredential\<close>: a credential made for the key under the endorsement key opens, and the session is
  gone again; the device is as it was.
\<close>

lemma ActivateCredential_on_device:
  assumes s: "serves api ch view tc w d x" and ob: "obliging ch"
    and room: "finite (dom (x_sessions x))" "card (dom (x_sessions x)) < 3"
    and kinds: "dom (x_objects x) \<subseteq> Collect is_transient"
    and k: "key_at d x ak = Some ak_key" "key_at d x ek = Some ek_key"
    and c: "t_open ch ek_key ak_key blob seed = Some secret" "length blob < 2 ^ 16" "length seed < 2 ^ 16"
  obtains w' where "ActivateCredential api tc ak ek (sized_buffer blob) (sized_buffer seed) w = Some (Inr secret, w')"
    and "view w' = d"
proof -
  have wf: "chip_wf ch" and x: "d_contexts d (tc_context tc) = Some x" using s by (simp_all add: serves_def)
  let ?ctx = "tc_context tc"
  define at where "at ss = x\<lparr>x_sessions := ss\<rparr>" for ss
  have keys: "key_at (set_context d ?ctx y) (at ss) h = key_at d x h" for y ss h
    by (simp add: key_at_def at_def)
  obtain h nonce w1 where t1: "tbs_answers api tc StartAuthSession_command w (session_response h nonce) w1"
    and h: "is_policy_session h" "x_sessions x h = None"
    and v1: "view w1 = set_context d ?ctx (at ((x_sessions x)(h \<mapsto> [])))"
    using StartAuthSession_on_device [OF s ob room] unfolding at_def by blast
  note s1 = serves_in(1) [OF s v1]
  obtain body w2 where t2: "tbs_answers api tc (PolicySecret_command h) w1 (ok_response body) w2"
    and v2: "view w2 = set_context d ?ctx (at ((x_sessions x)(h \<mapsto> [TPM2_RH_EK])))"
    using PolicySecret_on_device [OF s1 ob, of h "[]"] by (auto simp: at_def)
  note s2 = serves_in(1) [OF s v2]
  obtain auth w3 where t3: "tbs_answers api tc (ActivateCredential_command ak ek h (sized_buffer blob) (sized_buffer seed)) w2
      (secret_response secret auth) w3"
    and v3: "view w3 = set_context d ?ctx (at ((x_sessions x)(h \<mapsto> [])))"
  proof (rule ActivateCredential_command_on_device [OF s2 ob _ _ _ c, of ak ek h])
    show "key_at (set_context d ?ctx (at ((x_sessions x)(h \<mapsto> [TPM2_RH_EK])))) (at ((x_sessions x)(h \<mapsto> [TPM2_RH_EK]))) ak
        = Some ak_key" by (simp add: keys k)
    show "key_at (set_context d ?ctx (at ((x_sessions x)(h \<mapsto> [TPM2_RH_EK])))) (at ((x_sessions x)(h \<mapsto> [TPM2_RH_EK]))) ek
        = Some ek_key" by (simp add: keys k)
  qed (simp_all add: at_def)
  note s3 = serves_in(1) [OF s v3]
  have "x_objects x h = None" using kinds handles_disjoint [OF h(1)] by blast
  then have "(at ((x_sessions x)(h \<mapsto> [])))\<lparr>x_objects := (x_objects x)(h := None), x_sessions := (x_sessions x)(h := None)\<rparr> = x"
    using h(2) by (simp add: at_def fun_upd_idem)
  then have v4: "view (snd (FlushContext api tc h w3)) = d"
    using FlushContext_on_device [OF s3 ob, of h] set_context_same [OF x] by (simp add: at_def)
  have "ActivateCredential_run api tc ak ek (sized_buffer blob) (sized_buffer seed) w = Some (Inr secret, h, w3)"
    by (rule ActivateCredential_run_answered [OF t1 t2 t3 chip_wf_secret [OF wf c(1)]])
  then have "ActivateCredential api tc ak ek (sized_buffer blob) (sized_buffer seed) w
      = Some (Inr secret, snd (FlushContext api tc h w3))"
    using handle_kinds(3) [OF h(1)] by (simp add: ActivateCredential_def)
  then show thesis using that v4 by blast
qed

lemma IsPersistentPresent_on_device:
  assumes s: "serves api ch view tc w d x" and ob: "obliging ch" and p: "is_persistent p"
  obtains w' where "IsPersistentPresent api tc p w = Some (d_persistent d p \<noteq> None, w')" and "view w' = d"
proof -
  have wf: "chip_wf ch" using s by (simp add: serves_def)
  have reads: "IsPersistentPresent api tc p w = Some (rc = 0, w')"
    if "tbs_answers api tc (ReadPublic_command p) w (response_bytes TPM2_ST_NO_SESSIONS rc body) w'" for rc body w'
    using SendCommand_answered [OF that] by (simp add: IsPersistentPresent_def)
  show thesis
  proof (cases "d_persistent d p")
    case None
    have a: "chip_answer ch w (tc_context tc) d x \<lparr>c_sessions_tag = False, c_code = TPM2_CC_ReadPublic, c_handles = [p],
        c_auth = [], c_params = []\<rparr> = None"
      using None p by (simp add: chip_answer_def chip_ReadPublic_def key_at_def)
    show thesis
      by (rule chip_refused [OF s ob device_decodes(7) a]) (use that reads None in \<open>force simp: refusal_def\<close>)
  next
    case (Some k)
    have a: "chip_answer ch w (tc_context tc) d x \<lparr>c_sessions_tag = False, c_code = TPM2_CC_ReadPublic, c_handles = [p],
        c_auth = [], c_params = []\<rparr>
      = Some (response_bytes TPM2_ST_NO_SESSIONS 0 (sized_buffer (t_area ch k) @ t_tail ch w), d)"
      using Some p by (simp add: chip_answer_def chip_ReadPublic_def key_at_def)
    have l: "length (response_bytes TPM2_ST_NO_SESSIONS 0 (sized_buffer (t_area ch k) @ t_tail ch w)) \<le> 4096"
      using chip_wf_sizes(2) [OF wf, of k] chip_wf_sizes(6) [OF wf, of w] by simp
    show thesis by (rule chip_answered [OF s ob device_decodes(7) a l]) (use that reads Some in force)
  qed
qed

text \<open>\<open>EvictControl\<close>: the slot ends up with the object, whatever was there.\<close>

lemma EvictControl_command_on_device:
  assumes s: "serves api ch view tc w d x" and ob: "obliging ch"
    and a: "chip_EvictControl ch w d \<lparr>c_sessions_tag = True, c_code = TPM2_CC_EvictControl,
        c_handles = [TPM2_RH_OWNER, h], c_auth = [password_session], c_params = u32_be p\<rparr> x = Some (ok_response (t_tail ch w), d')"
  obtains w' where "transact api tc (EvictControl_command h p) code_only_response w = Some (Inr (), w')" and "view w' = d'"
proof -
  have wf: "chip_wf ch" using s by (simp add: serves_def)
  have l: "length (ok_response (t_tail ch w)) \<le> 4096"
    using chip_wf_sizes(6) [OF wf, of w] by (simp add: ok_response_def)
  have "chip_answer ch w (tc_context tc) d x \<lparr>c_sessions_tag = True, c_code = TPM2_CC_EvictControl,
      c_handles = [TPM2_RH_OWNER, h], c_auth = [password_session], c_params = u32_be p\<rparr> = Some (ok_response (t_tail ch w), d')"
    using a by (simp add: chip_answer_def)
  from chip_answered [OF s ob device_decodes(8) this l] show thesis
    using that transact_answered [where parse = code_only_response] code_only_response_ok by metis
qed

lemma EvictControl_on_device:
  assumes s: "serves api ch view tc w d x" and ob: "obliging ch"
    and p: "is_persistent p" "\<not> bit p 23" and h: "x_objects x h = Some ak_key" "is_transient h"
  obtains w' where "EvictControl api tc h p w = Some (Inr (), w')"
    and "view w' = d\<lparr>d_persistent := (d_persistent d)(p \<mapsto> ak_key)\<rparr>"
proof -
  obtain w1 where i: "IsPersistentPresent api tc p w = Some (d_persistent d p \<noteq> None, w1)" and v1: "view w1 = d"
    by (rule IsPersistentPresent_on_device [OF s ob p(1)])
  note s1 = serves_in(2) [OF s v1]
  have np: "\<not> is_persistent h" using handle_kinds(2) [OF h(2)] .
  have store: "\<exists>w'. transact api tc (EvictControl_command h p) code_only_response v = Some (Inr (), w')
      \<and> view w' = e\<lparr>d_persistent := (d_persistent e)(p \<mapsto> ak_key)\<rparr>"
    if "serves api ch view tc v e x" "d_persistent e p = None" for v e
    by (rule EvictControl_command_on_device [OF that(1) ob, of h p])
      (use that(2) p h np key_templates in \<open>auto simp: chip_EvictControl_def key_at_def\<close>)
  show thesis
  proof (cases "d_persistent d p")
    case None
    then show thesis using store [OF s1 None] i that by (auto simp: EvictControl_def)
  next
    case (Some k)
    let ?e = "d\<lparr>d_persistent := (d_persistent d)(p := None)\<rparr>"
    obtain w2 where t2: "transact api tc (EvictControl_command p p) code_only_response w1 = Some (Inr (), w2)" "view w2 = ?e"
      by (rule EvictControl_command_on_device [OF s1 ob, of p p])
        (use Some p in \<open>auto simp: chip_EvictControl_def key_at_def\<close>)
    have e: "d_persistent ?e p = None" "?e\<lparr>d_persistent := (d_persistent ?e)(p \<mapsto> ak_key)\<rparr>
        = d\<lparr>d_persistent := (d_persistent d)(p \<mapsto> ak_key)\<rparr>" by simp_all
    obtain w3 where t3: "transact api tc (EvictControl_command h p) code_only_response w2 = Some (Inr (), w3)"
      and v3: "view w3 = d\<lparr>d_persistent := (d_persistent d)(p \<mapsto> ak_key)\<rparr>"
      using store [OF serves_in(3) [OF s t2(2)] e(1)] unfolding e(2) by blast
    have "EvictControl api tc h p w = Some (Inr (), w3)" using i t2(1) t3 Some by (simp add: EvictControl_def)
    then show thesis using that v3 by blast
  qed
qed

text \<open>PCRs and quotes.\<close>

definition bank_wf :: "tpm_device \<Rightarrow> bool" where
  "bank_wf d \<longleftrightarrow> (\<forall>i. length (d_pcrs d i) = 32)"

lemma take_selection_image: "length bm = 3 \<Longrightarrow> take_selection (sha256_selection bm) = Some bm"
  by (simp add: take_selection_def sha256_selection_def)

lemma selected_bitmap: "selected_pcrs (quote_bitmap [0, 0, 0] is) = filter (\<lambda>i. of_nat i \<in> set is) [0..<24]"
  unfolding selected_pcrs_def
  by (rule filter_cong) (simp_all add: quote_bitmap_has bitmap_has_empty)

lemma selected_single:
  assumes "i < 24"
  shows "selected_pcrs (quote_bitmap [0, 0, 0] [of_nat i]) = [i]"
proof -
  have "(of_nat j :: u32) = of_nat i \<longleftrightarrow> j = i" if "j < 24" for j
    using that assms by (simp add: word_unat_eq_iff unat_of_nat)
  then have "filter (\<lambda>j. of_nat j \<in> set [of_nat i :: u32]) [0..<24] = filter (\<lambda>j. j = i) [0..<24]"
    by (intro filter_cong) auto
  also have "\<dots> = [i]"
  proof -
    have "[0..<24] = [0..<i] @ i # [Suc i..<24]"
      using assms upt_add_eq_append [of 0 i "24 - i"] by (simp add: upt_conv_Cons)
    then show ?thesis by (simp add: filter_empty_conv)
  qed
  finally show ?thesis unfolding selected_bitmap .
qed

lemma PcrRead_on_device:
  assumes s: "serves api ch view tc w d x" and ob: "obliging ch" and i: "i < 24" and b: "bank_wf d"
  obtains w' where "PcrRead api tc (of_nat i) w = Some (Inr (d_pcrs d i), w')" and "view w' = d"
proof -
  let ?bm = "quote_bitmap [0, 0, 0] [of_nat i]"
  have n: "length (d_pcrs d i) = 32" using b by (simp add: bank_wf_def)
  let ?resp = "response_bytes TPM2_ST_NO_SESSIONS 0 (pcr_read_body 0 [(TPM2_ALG_SHA256, ?bm)] [d_pcrs d i])"
  have a: "chip_answer ch w (tc_context tc) d x \<lparr>c_sessions_tag = False, c_code = TPM2_CC_PCR_Read, c_handles = [],
      c_auth = [], c_params = sha256_selection ?bm\<rparr> = Some (?resp, d)"
    using selected_single [OF i]
    by (simp add: chip_answer_def chip_PCR_Read_def take_selection_image del: quote_bitmap.simps)
  have l: "length ?resp \<le> 4096"
    using n by (simp add: pcr_read_body_def pcr_selection_bytes_def del: quote_bitmap.simps)
  have r: "PcrRead_response ?resp = Some (Inr (d_pcrs d i))"
    by (rule PcrRead_response_reads) (simp_all add: n del: quote_bitmap.simps)
  show thesis
    by (rule chip_answered [OF s ob device_decodes(1) a l])
      (rule that [unfolded PcrRead_def], erule transact_answered [where parse = PcrRead_response, OF _ r])
qed

definition quote_attest :: "'w tpm_chip \<Rightarrow> tpm_device \<Rightarrow> tpm_key \<Rightarrow> bytes \<Rightarrow> u32 list \<Rightarrow> bytes" where
  "quote_attest ch d k nonce pcrs =
     t_attest ch k nonce (pcr_values_of d (filter (\<lambda>i. of_nat i \<in> set pcrs) [0..<24]))"

text \<open>What the code takes for the signature is the rest of the response, its authorization area included.\<close>

lemma Quote_on_device:
  assumes s: "serves api ch view tc w d x" and ob: "obliging ch"
    and k: "key_at d x h = Some ak_key" and n: "length nonce \<le> 64"
  obtains w' auth where "Quote api tc h nonce pcrs w
      = Some (Inr (quote_attest ch d ak_key nonce pcrs, t_sign ch ak_key (quote_attest ch d ak_key nonce pcrs) @ auth), w')"
    and "view w' = d" and "length auth \<le> 512"
proof -
  have wf: "chip_wf ch" using s by (simp add: serves_def)
  let ?attest = "quote_attest ch d ak_key nonce pcrs"
  let ?sig = "t_sign ch ak_key ?attest"
  let ?resp = "ok_response (u32_be (of_nat (2 + length ?attest + length ?sig)) @ sized_buffer ?attest @ ?sig @ t_tail ch w)"
  let ?c = "\<lparr>c_sessions_tag = True, c_code = TPM2_CC_Quote, c_handles = [h], c_auth = [password_session],
      c_params = sized_buffer nonce @ u16_be TPM2_ALG_RSASSA @ u16_be TPM2_ALG_SHA256
        @ sha256_selection (quote_bitmap [0, 0, 0] pcrs)\<rparr>"
  have dec: "tpm_decode (patch_command_size (Quote_command h nonce pcrs)) = Some ?c"
    unfolding decoded by (rule Quote_command_sends) (use n in simp)
  have at: "length ?attest \<le> 1024" using chip_wf_sizes(3) [OF wf] by (simp add: quote_attest_def)
  have tail: "length (t_tail ch w) \<le> 512" by (rule chip_wf_sizes(6) [OF wf])
  have a: "chip_answer ch w (tc_context tc) d x ?c = Some (?resp, d)"
    using k n key_templates
    by (simp add: chip_answer_def chip_Quote_def take_selection_image selected_bitmap quote_attest_def Let_def)
  have l: "length ?resp \<le> 4096"
    using at tail chip_wf_sizes(4) [OF wf, of ak_key ?attest] by (simp add: ok_response_def)
  have r: "Quote_response ?resp = Some (Inr (?attest, ?sig @ t_tail ch w))"
    unfolding ok_response_def by (rule Quote_response_reads) (use at in simp)
  obtain w' where t: "tbs_answers api tc (Quote_command h nonce pcrs) w ?resp w'" and v: "view w' = d"
    by (rule chip_answered [OF s ob dec a l])
  have "Quote api tc h nonce pcrs w = Some (Inr (?attest, ?sig @ t_tail ch w), w')"
    unfolding Quote_def by (rule transact_answered [where parse = Quote_response, OF t r])
  then show thesis using that v tail by blast
qed

text \<open>Contexts.\<close>

lemma TpmCommands_Open_on_device:
  assumes b: "tpm_behind api ch view" "chip_wf ch" and ob: "obliging ch" and d: "view w = d"
    and room: "finite (dom (d_contexts d))" "card (dom (d_contexts d)) < 8"
  obtains ctx w' where "TpmCommands_Open api new_TpmCommands w = (S_OK, \<lparr>tc_context = ctx\<rparr>, w')"
    and "d_contexts d ctx = None" and "serves api ch view \<lparr>tc_context = ctx\<rparr> w' (set_context d ctx empty_context) empty_context"
proof -
  obtain ctx where c: "t_context ch w (d_contexts d) = Some ctx" using obliging_room(2) [OF ob room] by blast
  note z = chip_wf_handles(1) [OF b(2) c]
  have "case t_context ch w (d_contexts (view w)) of
      None \<Rightarrow> (\<exists>r w'. r \<noteq> TBS_SUCCESS \<and> Tbsi_Context_Create api w = (r, 0, w') \<and> view w' = view w)
    | Some h \<Rightarrow> (\<exists>w'. Tbsi_Context_Create api w = (TBS_SUCCESS, h, w')
        \<and> view w' = set_context (view w) h empty_context)"
    by (rule b(1) [unfolded tpm_behind_def, THEN conjunct1, THEN spec])
  then obtain w' where w': "Tbsi_Context_Create api w = (TBS_SUCCESS, ctx, w')" "view w' = set_context d ctx empty_context"
    using c d by auto
  have "TpmCommands_Open api new_TpmCommands w = (S_OK, \<lparr>tc_context = ctx\<rparr>, w')"
    using w'(1) by (simp add: TpmCommands_Open_def new_TpmCommands_def uh_Put_def uh_Reset_def uh_valid_def TbsContextTraits_def)
  moreover have "serves api ch view \<lparr>tc_context = ctx\<rparr> w' (set_context d ctx empty_context) empty_context"
    using w'(2) z b by (simp add: serves_def)
  ultimately show thesis using that z by blast
qed

lemma context_close_on_device:
  "tpm_behind api ch view \<Longrightarrow> view (Tbsip_Context_Close api h w) = (view w)\<lparr>d_contexts := (d_contexts (view w))(h := None)\<rparr>"
  by (drule tpm_behind_def [THEN iffD1, THEN conjunct2, THEN conjunct1, THEN spec, THEN spec])
section \<open>The key provider\<close>

text \<open>The provider holds an endorsement key and an attestation key in its context, and nothing else is there.\<close>

definition holds_keys ::
    "'w tbs_api \<Rightarrow> 'w tpm_chip \<Rightarrow> ('w \<Rightarrow> tpm_device) \<Rightarrow> tbs_key_provider \<Rightarrow> 'w \<Rightarrow> tpm_device \<Rightarrow> bool" where
  "holds_keys api ch view p w d \<longleftrightarrow> is_transient (ekHandle p) \<and> is_transient (akHandle p) \<and> ekHandle p \<noteq> akHandle p
     \<and> akPublicArea p = sized_buffer (t_area ch ak_key)
     \<and> (\<exists>x. serves api ch view (kp_tpm p) w d x
          \<and> x_objects x = [ekHandle p \<mapsto> ek_key, akHandle p \<mapsto> ak_key] \<and> x_sessions x = (\<lambda>_. None))"

lemma CreateAk_on_device:
  assumes s: "serves api ch view (kp_tpm p) w d empty_context" and ob: "obliging ch"
    and p: "ekHandle p = 0" "akHandle p = 0"
  obtains p' w' x where "CreateAk api p w = Some (S_OK, p', w')"
    and "holds_keys api ch view p' w' (set_context d (tc_context (kp_tpm p)) x)"
    and "kp_tpm p' = kp_tpm p" and "persistentHandle p' = persistentHandle p"
proof -
  let ?ctx = "tc_context (kp_tpm p)"
  have wf: "chip_wf ch" using s by (simp add: serves_def)
  have f: "FlushTransients api p w = (p, w)" using p by (simp add: FlushTransients_def)
  obtain h1 w1 where c1: "CreateEk api (kp_tpm p) w = Some (Inr h1, w1)" and h1: "is_transient h1"
    and v1: "view w1 = set_context d ?ctx (empty_context\<lparr>x_objects := (x_objects empty_context)(h1 \<mapsto> ek_key)\<rparr>)"
    by (rule CreateEk_on_device [OF s ob]) (auto simp: empty_context_def)
  define x1 where "x1 = empty_context\<lparr>x_objects := (x_objects empty_context)(h1 \<mapsto> ek_key)\<rparr>"
  note s1 = serves_in(1) [OF s v1, folded x1_def]
  have x1: "x_objects x1 = [h1 \<mapsto> ek_key]" "x_sessions x1 = (\<lambda>_. None)"
    by (simp_all add: x1_def empty_context_def)
  have room: "finite (dom (x_objects x1))" "card (dom (x_objects x1)) < 3" by (simp_all add: x1)
  obtain h2 w2 where c2: "CreateAndLoadAk api (kp_tpm p) TPM_RH_OWNER w1 = Some (Inr (h2, sized_buffer (t_area ch ak_key)), w2)"
    and h2: "is_transient h2" "x_objects x1 h2 = None"
    and v2: "view w2 = set_context (set_context d ?ctx x1) ?ctx (x1\<lparr>x_objects := (x_objects x1)(h2 \<mapsto> ak_key)\<rparr>)"
    by (rule CreateAndLoadAk_on_device [OF s1 ob room])
  let ?x2 = "x1\<lparr>x_objects := (x_objects x1)(h2 \<mapsto> ak_key)\<rparr>"
  let ?p' = "p\<lparr>ekHandle := h1, akHandle := h2, akPublicArea := sized_buffer (t_area ch ak_key)\<rparr>"
  have s2: "serves api ch view (kp_tpm p) w2 (set_context d ?ctx ?x2) ?x2"
    using serves_in(1) [OF s1 v2] by simp
  have ne: "sized_buffer (t_area ch ak_key) \<noteq> []" by (simp add: sized_buffer_def u16_be_def)
  have "CreateAk api p w = Some (S_OK, ?p', w2)"
    using c1 c2 f ne handle_kinds(1) [OF h1] handle_kinds(1) [OF h2(1)]
    by (simp add: CreateAk_def CreateAk_load_def out_of_def hr_of_def FAILED_def)
  moreover have "h1 \<noteq> h2" using h2(2) by (auto simp: x1)
  moreover have "holds_keys api ch view ?p' w2 (set_context d ?ctx ?x2)"
    unfolding holds_keys_def using h1 h2(1) s2 x1 \<open>h1 \<noteq> h2\<close> by (auto intro!: exI [of _ ?x2])
  ultimately show thesis using that by simp
qed

lemma kp_ActivateCredential_on_device:
  assumes k: "holds_keys api ch view p w d" and ob: "obliging ch"
    and c: "t_open ch ek_key ak_key blob seed = Some secret" "length blob < 2 ^ 16" "length seed < 2 ^ 16"
  obtains w' where "kp_ActivateCredential api p (sized_buffer blob) (sized_buffer seed) w = Some (Inr secret, w')"
    and "holds_keys api ch view p w' d"
proof -
  obtain x where s: "serves api ch view (kp_tpm p) w d x"
    and x: "x_objects x = [ekHandle p \<mapsto> ek_key, akHandle p \<mapsto> ak_key]" "x_sessions x = (\<lambda>_. None)"
    and h: "is_transient (ekHandle p)" "is_transient (akHandle p)" "ekHandle p \<noteq> akHandle p"
    using k unfolding holds_keys_def by blast
  have keys: "key_at d x (akHandle p) = Some ak_key" "key_at d x (ekHandle p) = Some ek_key"
    using h handle_kinds(2) by (simp_all add: key_at_def x)
  have kinds: "dom (x_objects x) \<subseteq> Collect is_transient" using h by (auto simp: x)
  obtain w' where "ActivateCredential api (kp_tpm p) (akHandle p) (ekHandle p) (sized_buffer blob) (sized_buffer seed) w
      = Some (Inr secret, w')" and v: "view w' = d"
    by (rule ActivateCredential_on_device [OF s ob _ _ kinds keys c]) (simp_all add: x)
  then have "kp_ActivateCredential api p (sized_buffer blob) (sized_buffer seed) w = Some (Inr secret, w')"
    using handle_kinds(1) [OF h(1)] handle_kinds(1) [OF h(2)] by (simp add: kp_ActivateCredential_def)
  moreover have "holds_keys api ch view p w' d"
    using k v by (auto simp: holds_keys_def serves_def)
  ultimately show thesis using that by blast
qed

lemma FlushTransients_on_device:
  assumes k: "holds_keys api ch view p w d" and ob: "obliging ch"
  obtains w' where "FlushTransients api p w = (p\<lparr>akHandle := 0, ekHandle := 0\<rparr>, w')"
    and "serves api ch view (kp_tpm p) w' (set_context d (tc_context (kp_tpm p)) empty_context) empty_context"
proof -
  let ?ctx = "tc_context (kp_tpm p)"
  obtain x where s: "serves api ch view (kp_tpm p) w d x"
    and x: "x_objects x = [ekHandle p \<mapsto> ek_key, akHandle p \<mapsto> ak_key]" "x_sessions x = (\<lambda>_. None)"
    and h: "is_transient (ekHandle p)" "is_transient (akHandle p)" "ekHandle p \<noteq> akHandle p"
    using k unfolding holds_keys_def by blast
  define w1 where "w1 = snd (FlushContext api (kp_tpm p) (akHandle p) w)"
  define x1 where "x1 = x\<lparr>x_objects := (x_objects x)(akHandle p := None), x_sessions := (x_sessions x)(akHandle p := None)\<rparr>"
  have v1: "view w1 = set_context d ?ctx x1"
    unfolding w1_def x1_def by (rule FlushContext_on_device [OF s ob]) (simp add: x)
  note s1 = serves_in(1) [OF s v1]
  define w2 where "w2 = snd (FlushContext api (kp_tpm p) (ekHandle p) w1)"
  have e: "x1\<lparr>x_objects := (x_objects x1)(ekHandle p := None), x_sessions := (x_sessions x1)(ekHandle p := None)\<rparr> = empty_context"
    using h(3) by (simp add: x1_def x empty_context_def fun_upd_twist fun_upd_idem)
  have "view w2 = set_context (set_context d ?ctx x1) ?ctx empty_context"
    unfolding w2_def e [symmetric] by (rule FlushContext_on_device [OF s1 ob]) (use h(3) in \<open>simp add: x1_def x\<close>)
  then have "serves api ch view (kp_tpm p) w2 (set_context d ?ctx empty_context) empty_context"
    using serves_in(1) [OF s] by simp
  moreover have "FlushTransients api p w = (p\<lparr>akHandle := 0, ekHandle := 0\<rparr>, w2)"
    using handle_kinds(1) [OF h(1)] handle_kinds(1) [OF h(2)] by (simp add: FlushTransients_def w1_def w2_def)
  ultimately show thesis using that by blast
qed

lemma PersistAk_on_device:
  assumes k: "holds_keys api ch view p w d" and ob: "obliging ch"
    and p: "is_persistent (persistentHandle p)" "\<not> bit (persistentHandle p) 23"
  obtains w' where "PersistAk api p w = Some (S_OK, p\<lparr>akHandle := 0, ekHandle := 0\<rparr>, w')"
    and "serves api ch view (kp_tpm p) w'
      (set_context (d\<lparr>d_persistent := (d_persistent d)(persistentHandle p \<mapsto> ak_key)\<rparr>) (tc_context (kp_tpm p)) empty_context)
      empty_context"
proof -
  let ?d = "d\<lparr>d_persistent := (d_persistent d)(persistentHandle p \<mapsto> ak_key)\<rparr>"
  obtain x where s: "serves api ch view (kp_tpm p) w d x"
    and x: "x_objects x = [ekHandle p \<mapsto> ek_key, akHandle p \<mapsto> ak_key]"
    and h: "is_transient (akHandle p)"
    using k unfolding holds_keys_def by blast
  obtain w1 where e: "EvictControl api (kp_tpm p) (akHandle p) (persistentHandle p) w = Some (Inr (), w1)"
    and v: "view w1 = ?d"
    by (rule EvictControl_on_device [OF s ob p _ h]) (simp add: x)
  have k1: "holds_keys api ch view p w1 ?d"
    using k v by (auto simp: holds_keys_def serves_def)
  obtain w2 where f: "FlushTransients api p w1 = (p\<lparr>akHandle := 0, ekHandle := 0\<rparr>, w2)"
    and s2: "serves api ch view (kp_tpm p) w2 (set_context ?d (tc_context (kp_tpm p)) empty_context) empty_context"
    by (rule FlushTransients_on_device [OF k1 ob])
  have "PersistAk api p w = Some (S_OK, p\<lparr>akHandle := 0, ekHandle := 0\<rparr>, w2)"
    using e f handle_kinds(1) [OF h] by (simp add: PersistAk_def hr_of_def FAILED_def)
  then show thesis using that s2 by blast
qed

text \<open>Destruction drops what the provider holds and closes its context.\<close>

lemma TpmCommands_close_on_device:
  assumes "serves api ch view tc w d x"
  shows "view (uh_Destroy (TbsContextTraits api) (tc_context tc) w) = d\<lparr>d_contexts := (d_contexts d)(tc_context tc := None)\<rparr>"
    and "TpmCommands_Close api tc w = (tc\<lparr>tc_context := 0\<rparr>, Tbsip_Context_Close api (tc_context tc) w)"
  using assms context_close_on_device [of api ch view "tc_context tc" w]
  by (auto simp: serves_def uh_Destroy_def uh_Reset_def uh_valid_def TbsContextTraits_def TpmCommands_Close_def)

lemma kp_Destroy_flushed:
  assumes s: "serves api ch view (kp_tpm p) w d x" and p: "ekHandle p = 0" "akHandle p = 0"
  shows "view (kp_Destroy api p w) = d\<lparr>d_contexts := (d_contexts d)(tc_context (kp_tpm p) := None)\<rparr>"
proof -
  have f: "FlushTransients api p w = (p, w)" using p by (simp add: FlushTransients_def)
  have b: "tpm_behind api ch view" "view w = d" using s by (simp_all add: serves_def)
  show ?thesis
    using context_close_on_device [OF b(1), of "tc_context (kp_tpm p)" w] b(2)
    by (simp add: kp_Destroy_def kp_Close_def f TpmCommands_close_on_device(2) [OF s] uh_Destroy_def uh_Reset_def
        TbsContextTraits_def)
qed

lemma kp_Destroy_on_device:
  assumes k: "holds_keys api ch view p w d" and ob: "obliging ch"
  shows "view (kp_Destroy api p w) = d\<lparr>d_contexts := (d_contexts d)(tc_context (kp_tpm p) := None)\<rparr>"
proof -
  obtain w1 where f: "FlushTransients api p w = (p\<lparr>akHandle := 0, ekHandle := 0\<rparr>, w1)"
    and s: "serves api ch view (kp_tpm p) w1 (set_context d (tc_context (kp_tpm p)) empty_context) empty_context"
    by (rule FlushTransients_on_device [OF k ob])
  let ?q = "p\<lparr>akHandle := 0, ekHandle := 0\<rparr>"
  have "kp_Destroy api p w = kp_Destroy api ?q w1"
    using f by (simp add: kp_Destroy_def kp_Close_def FlushTransients_def [of api ?q])
  moreover have "view (kp_Destroy api ?q w1) = (set_context d (tc_context (kp_tpm p)) empty_context)
      \<lparr>d_contexts := (d_contexts (set_context d (tc_context (kp_tpm p)) empty_context))(tc_context (kp_tpm ?q) := None)\<rparr>"
    by (rule kp_Destroy_flushed) (use s in simp_all)
  ultimately show ?thesis by (simp add: set_context_def)
qed

lemma kp_Open_on_device:
  assumes b: "tpm_behind api ch view" "chip_wf ch" and ob: "obliging ch" and d: "view w = d"
    and room: "finite (dom (d_contexts d))" "card (dom (d_contexts d)) < 8"
  obtains ctx w' where "kp_Open api (new_TbsKeyProvider h) w = (S_OK, (new_TbsKeyProvider h)\<lparr>kp_tpm := \<lparr>tc_context = ctx\<rparr>\<rparr>, w')"
    and "d_contexts d ctx = None" and "serves api ch view \<lparr>tc_context = ctx\<rparr> w' (set_context d ctx empty_context) empty_context"
proof -
  obtain ctx w' where "TpmCommands_Open api new_TpmCommands w = (S_OK, \<lparr>tc_context = ctx\<rparr>, w')"
    and "d_contexts d ctx = None" and "serves api ch view \<lparr>tc_context = ctx\<rparr> w' (set_context d ctx empty_context) empty_context"
    by (rule TpmCommands_Open_on_device [OF b ob d room])
  then show thesis using that by (simp add: kp_Open_def new_TbsKeyProvider_def)
qed

lemma closed_again:
  "d_contexts d ctx = None \<Longrightarrow> (set_context d ctx x)\<lparr>d_contexts := (d_contexts (set_context d ctx x))(ctx := None)\<rparr> = d"
  by (simp add: set_context_def fun_upd_idem)

section \<open>The life of an attestation key\<close>

text \<open>
  The abstract effect of an enrollment on a device: the slot holds the attestation key. The code opens a
  context, creates the keys, opens the credential, makes the key persistent and closes.
\<close>

definition abstract_enroll :: "u32 \<Rightarrow> tpm_device \<Rightarrow> tpm_device" where
  "abstract_enroll slot d = d\<lparr>d_persistent := (d_persistent d)(slot \<mapsto> ak_key)\<rparr>"

section \<open>Commands that only read\<close>

lemma ReadU32_drop: "ReadU32 (drop n bs) i = ReadU32 bs (n + i)"
proof -
  have "byte_at (drop n bs) j = byte_at bs (n + j)" for j by (auto simp: byte_at_def)
  then show ?thesis by (simp add: ReadU32_def add.assoc)
qed

lemma decode_command_code:
  assumes "decode_command n bs = Some c"
  shows "ReadU32 bs 6 = Some (c_code c)"
  using assms
  by (auto simp: decode_command_def take_u16_def take_u32_def ReadU32_drop split: bind_splits if_splits)

lemma chip_answer_reads:
  assumes "c_code c \<in> {TPM2_CC_PCR_Read, TPM2_CC_Quote, TPM2_CC_ReadPublic, TPM2_CC_NV_ReadPublic, TPM2_CC_NV_Read}"
    and "chip_answer ch w ctx d x c = Some (resp, d')"
  shows "d' = d"
  using assms by (auto simp: chip_answer_def Let_def split: if_splits)

lemma chip_submit_reads:
  assumes "ReadU32 cmd 6 = Some code"
    and "code \<in> {TPM2_CC_PCR_Read, TPM2_CC_Quote, TPM2_CC_ReadPublic, TPM2_CC_NV_ReadPublic, TPM2_CC_NV_Read}"
    and "chip_submit ch w ctx cmd d = (r, resp, d')"
  shows "d' = d"
proof -
  have "c_code c = code" if "tpm_decode cmd = Some c" for c
    using that assms(1) decode_command_code by (fastforce simp: tpm_decode_def split: bind_splits)
  then show ?thesis
    using assms(2,3)
    by (auto simp: chip_submit_def dest: chip_answer_reads [rotated] split: option.splits tpm_fault.splits bind_splits)
qed

end
