(* ===== verification/Enrolled_Device.thy ===== *)
theory Enrolled_Device
  imports Client_Machine Tpm_Device
begin

text \<open>
  The client and the device together: what \<open>RootHeraldEnrollBegin\<close>, \<open>RootHeraldEnrollComplete\<close> and
  \<open>RootHeraldCollectEvidence\<close> of \<open>src/client/rootherald_win.cpp\<close> do to a TPM that behaves as documented
  (\<open>Tpm_Device\<close>), and what they hand out. The other interfaces of the machine do not reach the TPM; that is
  stated with the frame conditions of \<open>Calm\<close>.
\<close>

section \<open>The rest of the machine\<close>

definition quiet_windows :: "('c, 'w) windows \<Rightarrow> ('w \<Rightarrow> tpm_device) \<Rightarrow> bool" where
  "quiet_windows win view \<longleftrightarrow> (\<forall>d. calm_registry (w_reg win) (\<lambda>w. view w = d)
     \<and> calm_ncrypt (w_ncrypt win) (\<lambda>w. view w = d) \<and> calm_bcrypt (w_bcrypt win) (\<lambda>w. view w = d)
     \<and> calm_http (w_http win) (\<lambda>w. view w = d) \<and> calm_process (w_process win) (\<lambda>w. view w = d))"

definition tpm_machine :: "('c, 'w) windows \<Rightarrow> 'w tpm_chip \<Rightarrow> ('w \<Rightarrow> tpm_device) \<Rightarrow> bool" where
  "tpm_machine win ch view \<longleftrightarrow> tpm_behind (w_tbs win) ch view \<and> chip_wf ch \<and> quiet_windows win view"

text \<open>Room for the contexts a call opens.\<close>

definition has_room :: "tpm_device \<Rightarrow> bool" where
  "has_room d \<longleftrightarrow> finite (dom (d_contexts d)) \<and> card (dom (d_contexts d)) < 7"

lemma has_room_more:
  assumes "has_room d"
  shows "finite (dom (d_contexts d))" "card (dom (d_contexts d)) < 8"
    and "finite (dom (d_contexts (set_context d ctx x)))" "card (dom (d_contexts (set_context d ctx x))) < 8"
  using assms card_insert_le_m1 [of 8 "dom (d_contexts d)" ctx] card_insert_if [of "dom (d_contexts d)" ctx]
  by (auto simp: has_room_def)

lemma tpm_behind_log:
  "tpm_behind api ch view \<Longrightarrow> Tbsi_Get_TCG_Log_Ex api s w = (r, l, n, w') \<Longrightarrow> view w' = view w"
  by (drule tpm_behind_def [THEN iffD1, THEN conjunct2, THEN conjunct2, THEN conjunct1, rule_format])

lemma device_submit:
  assumes "tpm_behind api ch view"
  shows "calm_submit api (\<lambda>w. view w = d)"
proof
  show "view w' = d" if "Tbsi_Get_TCG_Log_Ex api s w = (r, log, n, w')" "view w = d" for s w r log n w'
    using tpm_behind_log [OF assms that(1)] that(2) by simp
  show "view w' = d" if sub: "Tbsip_Submit_Command api h (patch_command_size cmd) w = (r, resp, n, w')"
    and neutral: "neutral_command cmd" and same: "view w = d" for h cmd w r resp n w'
  proof -
    obtain code where c: "ReadU32 (patch_command_size cmd) 6 = Some code"
      "code \<in> {TPM2_CC_PCR_Read, TPM2_CC_Quote, TPM2_CC_ReadPublic, TPM2_CC_NV_ReadPublic, TPM2_CC_NV_Read}"
      using neutral unfolding neutral_command_def by blast
    obtain r0 resp0 d0 where s: "chip_submit ch w h (patch_command_size cmd) (view w) = (r0, resp0, d0)"
      by (metis prod_cases3)
    have "d0 = d" using chip_submit_reads [OF c s] same by simp
    then show ?thesis using tpm_behind_submit [OF assms s] sub by (metis prod.inject)
  qed
qed

lemma device_driver:
  assumes "tpm_machine win ch view"
  shows "calm_driver win (\<lambda>w. view w = d)"
  using assms device_submit unfolding tpm_machine_def quiet_windows_def
  by (intro calm_driver.intro) blast+

section \<open>The endorsement key material\<close>

text \<open>A context that is opened for a while leaves the device as it was, whether the opening succeeds or not.\<close>

lemma TpmCommands_Open_cases:
  assumes b: "tpm_behind api ch view" "chip_wf ch"
    and o: "TpmCommands_Open api new_TpmCommands w = (hr, tc, w')"
  shows "tc_context tc = 0 \<and> view w' = view w
    \<or> tc_context tc \<noteq> 0 \<and> d_contexts (view w) (tc_context tc) = None
      \<and> view w' = set_context (view w) (tc_context tc) empty_context"
proof -
  have c: "case t_context ch w (d_contexts (view w)) of
      None \<Rightarrow> (\<exists>r w'. r \<noteq> TBS_SUCCESS \<and> Tbsi_Context_Create api w = (r, 0, w') \<and> view w' = view w)
    | Some h \<Rightarrow> (\<exists>w'. Tbsi_Context_Create api w = (TBS_SUCCESS, h, w')
        \<and> view w' = set_context (view w) h empty_context)"
    by (rule b(1) [unfolded tpm_behind_def, THEN conjunct1, THEN spec])
  obtain r h w1 where t: "Tbsi_Context_Create api w = (r, h, w1)" by (metis prod_cases3)
  have "tc_context tc = h \<and> w' = w1"
    using o t by (auto simp: TpmCommands_Open_def new_TpmCommands_def uh_Put_def uh_Reset_def uh_valid_def
        TbsContextTraits_def Let_def split: if_splits)
  then show ?thesis
    using c t chip_wf_handles(1) [OF b(2)] by (auto split: option.splits)
qed

lemma TpmCommands_bracket:
  assumes b: "tpm_behind api ch view" "chip_wf ch"
    and o: "TpmCommands_Open api new_TpmCommands w = (hr, tc, w1)" and v: "view v = view w1"
  shows "view (tpm_Destroy api tc v) = view w"
  using TpmCommands_Open_cases [OF b o] context_close_on_device [OF b(1), of "tc_context tc" v] v
  by (auto simp: tpm_Destroy_def uh_Destroy_def uh_Reset_def TbsContextTraits_def set_context_def fun_upd_idem)

lemma gather_intermediates_on_device:
  assumes m: "tpm_machine win ch view" and run: "gather_intermediates win w = Some (r, w')"
  shows "view w' = view w"
proof -
  have b: "tpm_behind (w_tbs win) ch view" "chip_wf ch" using m by (simp_all add: tpm_machine_def)
  obtain hr tpm w1 where o: "TpmCommands_Open (w_tbs win) new_TpmCommands w = (hr, tpm, w1)" by (metis prod_cases3)
  have q: "calm_registry (w_reg win) (\<lambda>v. view v = view w1)" "calm_bcrypt (w_bcrypt win) (\<lambda>v. view v = view w1)"
    using m unfolding tpm_machine_def quiet_windows_def by blast+
  show ?thesis
  proof (cases "SUCCEEDED hr")
    case False
    then show ?thesis using run o TpmCommands_bracket [OF b o] by (auto simp: gather_intermediates_def)
  next
    case True
    then obtain odca w2 seen w3 store w4 cs w5 where
      c: "ReadIntelOdcaIntermediates (w_tbs win) tpm [] w1 = Some (odca, w2)"
        "collect_seen (w_bcrypt win) [] odca w2 = (seen, w3)"
        "ReadWindowsTpmIntermediateStore (w_cert win) (w_reg win) w3 = Some (store, w4)"
        "merge_store (w_bcrypt win) seen odca store w4 = (cs, w5)"
      and w': "w' = tpm_Destroy (w_tbs win) tpm w5"
      using run o by (auto simp: gather_intermediates_def Let_def split: bind_splits prod.splits)
    have "view w2 = view w1"
      using calm_submit.ReadIntelOdcaIntermediates [OF device_submit [OF b(1)] c(1) refl] .
    then have "view w3 = view w1" using calm_bcrypt.collect_seen [OF q(2) c(2)] by blast
    then have "view w4 = view w1" using calm_registry.ReadWindowsTpmIntermediateStore [OF q(1) c(3)] by blast
    then have "view w5 = view w1" using calm_bcrypt.merge_store [OF q(2) c(4)] by blast
    then show ?thesis unfolding w' by (rule TpmCommands_bracket [OF b o])
  qed
qed

lemma Gather_on_device:
  assumes m: "tpm_machine win ch view" and run: "GatherEkEnrollData win w = Some (r, w')"
  shows "view w' = view w"
proof -
  let ?I = "\<lambda>v. view v = view w"
  have q: "calm_ncrypt (w_ncrypt win) ?I" using m unfolding tpm_machine_def quiet_windows_def by blast
  obtain hr pcp w1 where o: "pcp_Open (w_ncrypt win) new_TpmPcp w = (hr, pcp, w1)" by (metis prod_cases3)
  have v1: "view w1 = view w" using calm_ncrypt.pcp_Open [OF q o refl] .
  obtain e w2 where k: "ReadEkPublicKey (w_ncrypt win) pcp w1 = (e, w2)" by (metis prod.exhaust)
  have v2: "view w2 = view w" using calm_ncrypt.ReadEkPublicKey [OF q k v1] .
  have close: "view (pcp_Destroy (w_ncrypt win) pcp v) = view w" if "view v = view w" for v
    using calm_ncrypt.pcp_Destroy [OF q that] .
  show ?thesis
  proof (cases "FAILED hr \<or> e = Inr [] \<or> isl e")
    case True
    then have "w' = pcp_Destroy (w_ncrypt win) pcp w1 \<or> w' = pcp_Destroy (w_ncrypt win) pcp w2"
      using run by (cases e; cases "FAILED hr") (simp_all add: GatherEkEnrollData_def o k)
    then show ?thesis using close v1 v2 by blast
  next
    case False
    then obtain pub where e: "e = Inr pub" "pub \<noteq> []" "\<not> FAILED hr" by (cases e) auto
    then obtain pem w3 cs w4 where g: "gather_certificate win pcp pub w2 = Some (pem, w3)"
      "gather_intermediates win w3 = Some (cs, w4)" and w': "w' = pcp_Destroy (w_ncrypt win) pcp w4"
      using run o k by (auto simp: GatherEkEnrollData_def split: bind_splits)
    have "view w3 = view w" using calm_driver.gather_certificate [OF device_driver [OF m] g(1) v2] .
    then show ?thesis using gather_intermediates_on_device [OF m g(2)] close w' by simp
  qed
qed

section \<open>The first leg\<close>

definition memory_suffices :: "'w process_api \<Rightarrow> bool" where
  "memory_suffices api \<longleftrightarrow> (\<forall>n w. fst (c_malloc api n w) \<noteq> 0)"

lemma malloc_text_suffices:
  assumes "memory_suffices api"
  obtains a w' where "malloc_text api json w = (Some (a, json @ [CHR 0x00]), w')"
proof -
  obtain a w' where m: "c_malloc api (length json + 1) w = (a, w')" by (metis prod.exhaust)
  then have "a \<noteq> 0" using assms unfolding memory_suffices_def by (metis fst_conv)
  then show thesis using that [of a w'] m by (simp add: malloc_text_def)
qed

lemma slot_is_persistent: "is_persistent TBS_AK_PERSISTENT_HANDLE" "\<not> bit TBS_AK_PERSISTENT_HANDLE 23"
  by (simp_all add: is_persistent_def TBS_AK_PERSISTENT_HANDLE_def)

text \<open>
  An enrollment in flight: the provider holds the two keys in a context of its own, and that context is
  all that distinguishes the device from \<open>d\<close>.
\<close>

definition in_flight_on ::
    "('c, 'w) windows \<Rightarrow> 'w tpm_chip \<Rightarrow> ('w \<Rightarrow> tpm_device) \<Rightarrow> tbs_key_provider \<Rightarrow> 'w \<Rightarrow> tpm_device \<Rightarrow> bool" where
  "in_flight_on win ch view p w d \<longleftrightarrow> persistentHandle p = TBS_AK_PERSISTENT_HANDLE
     \<and> d_contexts d (tc_context (kp_tpm p)) = None
     \<and> (\<exists>x. holds_keys (w_tbs win) ch view p w (set_context d (tc_context (kp_tpm p)) x))"

lemma EnrollBegin_key_on_device:
  assumes m: "tpm_machine win ch view" and ob: "obliging ch" and mem: "memory_suffices (w_process win)"
    and room: "has_room (view w)"
  obtains a p w' where "EnrollBegin_key win ek None w = Some (ROOTHERALD_OK,
      Some (Some (a, JsonBuild (BuildEnrollFields (w_strings win) ek (sized_buffer (t_area ch ak_key))) @ [CHR 0x00])), Some p, w')"
    and "in_flight_on win ch view p w' (view w)"
proof -
  let ?d = "view w"
  have b: "tpm_behind (w_tbs win) ch view" "chip_wf ch" using m by (simp_all add: tpm_machine_def)
  obtain ctx w1 where o: "kp_Open (w_tbs win) (new_TbsKeyProvider TBS_AK_PERSISTENT_HANDLE) w
      = (S_OK, (new_TbsKeyProvider TBS_AK_PERSISTENT_HANDLE)\<lparr>kp_tpm := \<lparr>tc_context = ctx\<rparr>\<rparr>, w1)"
    and fresh: "d_contexts ?d ctx = None"
    and s1: "serves (w_tbs win) ch view \<lparr>tc_context = ctx\<rparr> w1 (set_context ?d ctx empty_context) empty_context"
    by (rule kp_Open_on_device [OF b ob refl has_room_more(1,2) [OF room]])
  let ?p1 = "(new_TbsKeyProvider TBS_AK_PERSISTENT_HANDLE)\<lparr>kp_tpm := \<lparr>tc_context = ctx\<rparr>\<rparr>"
  have s1': "serves (w_tbs win) ch view (kp_tpm ?p1) w1 (set_context ?d ctx empty_context) empty_context"
    using s1 by simp
  obtain p w2 x where c: "CreateAk (w_tbs win) ?p1 w1 = Some (S_OK, p, w2)"
    and k: "holds_keys (w_tbs win) ch view p w2 (set_context (set_context ?d ctx empty_context) (tc_context (kp_tpm ?p1)) x)"
    and p: "kp_tpm p = kp_tpm ?p1" "persistentHandle p = persistentHandle ?p1"
    by (rule CreateAk_on_device [OF s1' ob]) (simp_all add: new_TbsKeyProvider_def)
  have area: "GetAkPublicArea p = sized_buffer (t_area ch ak_key)"
    using k by (simp add: holds_keys_def GetAkPublicArea_def)
  then have ne: "GetAkPublicArea p \<noteq> []" by (simp add: sized_buffer_def u16_be_def)
  let ?json = "JsonBuild (BuildEnrollFields (w_strings win) ek (sized_buffer (t_area ch ak_key)))"
  obtain a w3 where a: "malloc_text (w_process win) ?json w2 = (Some (a, ?json @ [CHR 0x00]), w3)"
    by (rule malloc_text_suffices [OF mem])
  have q: "calm_process (w_process win) (\<lambda>v. view v = view w2)"
    using m unfolding tpm_machine_def quiet_windows_def by blast
  have v3: "view w3 = view w2" using calm_process.malloc_text [OF q a refl] .
  have k3: "holds_keys (w_tbs win) ch view p w3 (set_context ?d ctx x)"
    using k v3 by (auto simp: holds_keys_def serves_def)
  have "EnrollBegin_key win ek None w = Some (ROOTHERALD_OK, Some (Some (a, ?json @ [CHR 0x00])), Some p, w3)"
    using o c a area ne by (simp add: EnrollBegin_key_def EnrollBegin_emit_def FAILED_def drop_provider_def)
  moreover have "in_flight_on win ch view p w3 ?d"
    using p fresh k3 by (auto simp: in_flight_on_def new_TbsKeyProvider_def)
  ultimately show thesis by (rule that)
qed

section \<open>The second leg\<close>

text \<open>A challenge of the server: the device id it assigned, and the two parts of the credential.\<close>

definition challenge_carries :: "('c, 'w) windows \<Rightarrow> string \<Rightarrow> string \<Rightarrow> bytes \<Rightarrow> bytes \<Rightarrow> bool" where
  "challenge_carries win challenge deviceId blob seed \<longleftrightarrow> deviceId \<noteq> []
     \<and> JsonGet (c_str challenge) ''deviceId'' = deviceId
     \<and> JsonGet (c_str challenge) ''credentialBlob'' \<noteq> [] \<and> JsonGet (c_str challenge) ''encryptedSecret'' \<noteq> []
     \<and> Base64Decode (w_strings win) (JsonGet (c_str challenge) ''credentialBlob'') = sized_buffer blob
     \<and> Base64Decode (w_strings win) (JsonGet (c_str challenge) ''encryptedSecret'') = sized_buffer seed
     \<and> length blob < 2 ^ 16 \<and> length seed < 2 ^ 16"

definition activation_text :: "('c, 'w) windows \<Rightarrow> string \<Rightarrow> bytes \<Rightarrow> string" where
  "activation_text win deviceId secret = JsonBuild (map_init
     [(''deviceId'', deviceId), (''decryptedSecret'', Base64Encode (w_strings win) secret)])"

lemma EnrollComplete_on_device:
  assumes m: "tpm_machine win ch view" and ob: "obliging ch" and mem: "memory_suffices (w_process win)"
    and f: "in_flight_on win ch view p w d" and c: "challenge_carries win challenge deviceId blob seed"
    and secret: "t_open ch ek_key ak_key blob seed = Some secret" "secret \<noteq> []"
  obtains a w' where "RootHeraldEnrollComplete win (Some challenge) (Some out) (Some p) w
      = Some (ROOTHERALD_OK, Some (Some (a, activation_text win deviceId secret @ [CHR 0x00])), None, w')"
    and "view w' = abstract_enroll TBS_AK_PERSISTENT_HANDLE d"
proof -
  let ?tbs = "w_tbs win" and ?ctx = "tc_context (kp_tpm p)"
  obtain x where k: "holds_keys ?tbs ch view p w (set_context d ?ctx x)"
    and p: "persistentHandle p = TBS_AK_PERSISTENT_HANDLE" and fresh: "d_contexts d ?ctx = None"
    using f unfolding in_flight_on_def by blast
  have len: "length blob < 2 ^ 16" "length seed < 2 ^ 16" using c by (simp_all add: challenge_carries_def)
  obtain w1 where a1: "kp_ActivateCredential ?tbs p (sized_buffer blob) (sized_buffer seed) w = Some (Inr secret, w1)"
    and k1: "holds_keys ?tbs ch view p w1 (set_context d ?ctx x)"
    by (rule kp_ActivateCredential_on_device [OF k ob secret(1) len])
  let ?q = "p\<lparr>akHandle := 0, ekHandle := 0\<rparr>"
  let ?e = "(set_context d ?ctx x)\<lparr>d_persistent := (d_persistent (set_context d ?ctx x))(TBS_AK_PERSISTENT_HANDLE \<mapsto> ak_key)\<rparr>"
  obtain w2 where a2: "PersistAk ?tbs p w1 = Some (S_OK, ?q, w2)"
    and s2: "serves ?tbs ch view (kp_tpm p) w2 (set_context ?e ?ctx empty_context) empty_context"
    using PersistAk_on_device [OF k1 ob] slot_is_persistent p by metis
  have "view (kp_Destroy ?tbs ?q w2) = (set_context ?e ?ctx empty_context)
      \<lparr>d_contexts := (d_contexts (set_context ?e ?ctx empty_context))(tc_context (kp_tpm ?q) := None)\<rparr>"
    by (rule kp_Destroy_flushed) (use s2 in simp_all)
  then have v: "view (kp_Destroy ?tbs ?q w2) = abstract_enroll TBS_AK_PERSISTENT_HANDLE d"
    using fresh by (simp add: abstract_enroll_def set_context_def fun_upd_idem)
  obtain a w3 where a3: "malloc_text (w_process win) (activation_text win deviceId secret) (kp_Destroy ?tbs ?q w2)
      = (Some (a, activation_text win deviceId secret @ [CHR 0x00]), w3)"
    by (rule malloc_text_suffices [OF mem])
  have q: "calm_process (w_process win) (\<lambda>v. view v = view (kp_Destroy ?tbs ?q w2))"
    using m unfolding tpm_machine_def quiet_windows_def by blast
  have v3: "view w3 = abstract_enroll TBS_AK_PERSISTENT_HANDLE d"
    using calm_process.malloc_text [OF q a3 refl] v by simp
  have "EnrollComplete_persist win deviceId secret p w1
      = Some (ROOTHERALD_OK, Some (Some (a, activation_text win deviceId secret @ [CHR 0x00])), None, w3)"
    using a2 a3 by (simp add: EnrollComplete_persist_def FAILED_def activation_text_def)
  then have "RootHeraldEnrollComplete win (Some challenge) (Some out) (Some p) w
      = Some (ROOTHERALD_OK, Some (Some (a, activation_text win deviceId secret @ [CHR 0x00])), None, w3)"
    using c a1 secret(2)
    by (simp add: RootHeraldEnrollComplete_def challenge_carries_def hr_of_def out_of_def FAILED_def Let_def)
  then show thesis using that v3 by blast
qed

section \<open>Both legs\<close>

lemma enrollment_on_device:
  assumes "tpm_machine win ch view" and "obliging ch" and "memory_suffices (w_process win)" and "has_room (view w)"
    and "IsProcessElevated win w = (True, w1)" and "GatherEkEnrollData win w1 = Some (Some ek, w2)"
    and "challenge_carries win challenge deviceId blob seed"
    and "t_open ch ek_key ak_key blob seed = Some secret" and "secret \<noteq> []"
  shows "\<exists>a p w3 a' w4.
    RootHeraldEnrollBegin win (Some out) None w = Some (ROOTHERALD_OK,
      Some (Some (a, JsonBuild (BuildEnrollFields (w_strings win) ek (sized_buffer (t_area ch ak_key))) @ [CHR 0x00])), Some p, w3)
    \<and> RootHeraldEnrollComplete win (Some challenge) (Some out') (Some p) w3 = Some (ROOTHERALD_OK,
      Some (Some (a', activation_text win deviceId secret @ [CHR 0x00])), None, w4)
    \<and> view w4 = abstract_enroll TBS_AK_PERSISTENT_HANDLE (view w)"
proof -
  have v1: "view w1 = view w"
    using calm_driver.IsProcessElevated [OF device_driver [OF assms(1)] assms(5)] by blast
  have v2: "view w2 = view w" using Gather_on_device [OF assms(1,6)] v1 by simp
  have room2: "has_room (view w2)" using assms(4) v2 by simp
  obtain a p w3 where k: "EnrollBegin_key win ek None w2 = Some (ROOTHERALD_OK,
      Some (Some (a, JsonBuild (BuildEnrollFields (w_strings win) ek (sized_buffer (t_area ch ak_key))) @ [CHR 0x00])), Some p, w3)"
    and f: "in_flight_on win ch view p w3 (view w2)"
    by (rule EnrollBegin_key_on_device [OF assms(1-3) room2])
  have bg: "RootHeraldEnrollBegin win (Some out) None w = Some (ROOTHERALD_OK,
      Some (Some (a, JsonBuild (BuildEnrollFields (w_strings win) ek (sized_buffer (t_area ch ak_key))) @ [CHR 0x00])), Some p, w3)"
    using k assms(5,6) by (simp add: RootHeraldEnrollBegin_def)
  obtain a' w4 where c: "RootHeraldEnrollComplete win (Some challenge) (Some out') (Some p) w3 = Some (ROOTHERALD_OK,
      Some (Some (a', activation_text win deviceId secret @ [CHR 0x00])), None, w4)"
    and v4: "view w4 = abstract_enroll TBS_AK_PERSISTENT_HANDLE (view w2)"
    by (rule EnrollComplete_on_device [OF assms(1-3) f assms(7-9)])
  show ?thesis using bg c v4 v2 by auto
qed

end
