(* ===== verification/Attested_Device.thy ===== *)
theory Attested_Device
  imports Enrolled_Device Documents
begin

text \<open>
  Evidence from an enrolled device: \<open>RootHeraldCollectEvidence\<close> of \<open>src/client/rootherald_win.cpp\<close> on a TPM that
  holds the attestation key. The call returns, and a strict reader finds in its document the PCRs of
  the device and the TPM's attestation of them over the caller's nonce.
\<close>

section \<open>The PCRs\<close>

lemma collect_pcrs_on_device:
  assumes ob: "obliging ch" and bank: "bank_wf d"
  shows "serves api ch view tc w d x \<Longrightarrow> (\<And>i. i \<in> set is \<Longrightarrow> i < 24) \<Longrightarrow>
    \<exists>r w'. collect_pcrs api tc first json (map of_nat is) w = Some (Some r, w') \<and> view w' = d
      \<and> r = json @ (if first \<or> is = [] then [] else '','')
        @ comma_join (map member_text (map2 pcr_member (map of_nat is) (map (d_pcrs d) is))) @ ''}}''"
proof (induction "is" arbitrary: first json w)
  case Nil
  then show ?case by (simp add: serves_def)
next
  case (Cons i "is")
  obtain w1 where p: "PcrRead api tc (of_nat i) w = Some (Inr (d_pcrs d i), w1)" and v1: "view w1 = d"
    by (rule PcrRead_on_device [OF Cons.prems(1) ob _ bank]) (use Cons.prems(2) in auto)
  have h: "d_pcrs d i \<noteq> []" using bank unfolding bank_wf_def by (metis list.size(3) zero_neq_numeral)
  let ?json = "(if \<not> first then json @ '','' else json) @ member_text (pcr_member (of_nat i) (d_pcrs d i))"
  have step: "collect_pcrs api tc first json (map of_nat (i # is)) w = collect_pcrs api tc False ?json (map of_nat is) w1"
    using p h by (simp add: member_text_def pcr_member_def quoted_def to_string_plain hex_plain Let_def hr_of_def
        out_of_def FAILED_def)
  obtain r w' where r: "collect_pcrs api tc False ?json (map of_nat is) w1 = Some (Some r, w')" "view w' = d"
    "r = ?json @ (if is = [] then [] else '','')
      @ comma_join (map member_text (map2 pcr_member (map of_nat is) (map (d_pcrs d) is))) @ ''}}''"
    using Cons.IH [OF serves_in(2) [OF Cons.prems(1) v1], of False ?json] Cons.prems(2) by auto
  have join: "comma_join (map member_text (map2 pcr_member (map of_nat (i # is)) (map (d_pcrs d) (i # is))))
      = member_text (pcr_member (of_nat i) (d_pcrs d i)) @ (if is = [] then [] else '','')
        @ comma_join (map member_text (map2 pcr_member (map of_nat is) (map (d_pcrs d) is)))"
    by (cases "is") (simp_all add: comma_join_Cons)
  show ?case unfolding step r(1) join using r(2,3) by simp
qed

definition evidence_registers :: "nat list" where
  "evidence_registers = [0, 1, 2, 3, 4, 7]"

lemma evidence_registers: "evidence_pcrs = map of_nat evidence_registers" "i \<in> set evidence_registers \<Longrightarrow> i < 24"
  by (auto simp: evidence_pcrs_def evidence_registers_def)

section \<open>Everything the document needs comes\<close>

lemma device_nv_fits:
  assumes b: "tpm_behind api ch view" and wf: "chip_wf ch"
  shows "nv_answers_fit api tc nv"
  unfolding nv_answers_fit_def
proof (intro allI impI)
  fix want off w got chunk w'
  let ?cmd = "NV_Read_command nv want off"
  let ?c = "\<lparr>c_sessions_tag = True, c_code = TPM2_CC_NV_Read, c_handles = [nv, nv],
      c_auth = [password_session], c_params = u16_be want @ u16_be off\<rparr>"
  assume t: "transact api tc ?cmd NV_Read_response w = Some (Inr (got, chunk), w')"
  obtain r resp d where s: "chip_submit ch w (tc_context tc) (patch_command_size ?cmd) (view w) = (r, resp, d)"
    by (metis prod_cases3)
  obtain w1 where sub: "Tbsip_Submit_Command api (tc_context tc) (patch_command_size ?cmd) w
      = (r, resp, of_nat (length resp), w1)"
    using tpm_behind_submit [OF b s] by blast
  have nil: "NV_Read_response [] = Some (Inl RH_E_MALFORMED_RESPONSE)" by (rule nv_read.parse_short) simp
  have refused: "\<exists>hr. NV_Read_response (refusal rc) = Some (Inl hr)" if "rc \<noteq> 0" for rc
    using nv_read.parse_code [of "refusal rc" rc] that by (simp add: refusal_def)
  have ok: "r = TBS_SUCCESS" "tc_context tc \<noteq> 0"
    using t sub nil by (auto simp: transact_def SendCommand_def Let_def split: if_splits)
  obtain x where x: "d_contexts (view w) (tc_context tc) = Some x"
    using s ok(1) by (cases "d_contexts (view w) (tc_context tc)") (auto simp: chip_submit_def)
  have faults: "t_fault ch w = No_Fault \<or> (\<exists>rc. t_fault ch w = Tpm_Fault rc \<and> rc \<noteq> 0)"
  proof (cases "t_fault ch w")
    case (Tbs_Fault e)
    then have "r = e" using s x by (simp add: chip_submit_def)
    moreover have "e \<noteq> TBS_SUCCESS" using wf Tbs_Fault unfolding chip_wf_def chip_reads_def by blast
    ultimately show ?thesis using ok(1) by blast
  next
    case (Lost_Response e)
    then have "r = e" using s x by (auto simp: chip_submit_def split: option.splits)
    moreover have "e \<noteq> TBS_SUCCESS" using wf Lost_Response unfolding chip_wf_def chip_reads_def by blast
    ultimately show ?thesis using ok(1) by blast
  next
    case (Tpm_Fault rc)
    then show ?thesis using wf unfolding chip_wf_def chip_reads_def by blast
  qed simp
  have resp: "resp = t_nv ch w ?c \<or> (\<exists>rc. rc \<noteq> 0 \<and> resp = refusal rc)"
    using faults s x device_decodes(10) by (auto simp: chip_submit_def chip_answer_def Let_def)
  have len: "length resp \<le> 4096"
    using resp chip_wf_sizes(7) [OF wf] by (auto simp: refusal_def)
  have "tbs_answers api tc ?cmd w resp w1"
    using sub ok len by (simp add: tbs_answers_def)
  then have "NV_Read_response resp = Some (Inr (got, chunk))"
    using t SendCommand_answered by (fastforce simp: transact_def FAILED_def split: bind_splits)
  then have "NV_Read_response (t_nv ch w ?c) = Some (Inr (got, chunk))"
    using resp refused by fastforce
  then show "got \<le> want"
    using wf unfolding chip_wf_def chip_reads_def by (metis (no_types, lifting) tpm_command.select_convs(2,5))
qed

lemma ReadIntelOdca_on_device:
  assumes "tpm_behind api ch view" and "chip_wf ch"
  shows "defined (ReadIntelOdcaIntermediates api tc certs w)"
  using odca_stream_ends [of "map of_nat [0..<16]" api tc "[]" w] device_nv_fits [OF assms]
  by (simp add: ReadIntelOdcaIntermediates_def never_faults)

lemma evidence_extras_returns:
  assumes m: "tpm_machine win ch view" and reg: "enumeration_ends (w_reg win) n"
  shows "defined (evidence_extras win tpm log m0 w)"
proof -
  have b: "tpm_behind (w_tbs win) ch view" "chip_wf ch" using m by (simp_all add: tpm_machine_def)
  have d: "defined (DeriveLocalDeviceId win v)" for v
    using ReadEkCertFromWindowsStore_ends [OF reg]
    by (auto simp: DeriveLocalDeviceId_def never_faults Let_def split: prod.split sum.split)
  show ?thesis
    using ReadEkCertFromWindowsStore_ends [OF reg] ReadIntelOdca_on_device [OF b] d
    by (simp add: evidence_extras_def never_faults Let_def)
qed

lemma secure_boot_text_returns: "defined (secure_boot_text api log)"
  by (simp add: secure_boot_text_def never_faults ValidateSecureBootChain_total ParseAndAnalyze_total)

section \<open>The call\<close>

lemma CollectEvidence_quote_on_device:
  assumes m: "tpm_machine win ch view" and ob: "obliging ch" and bank: "bank_wf d"
    and reg: "enumeration_ends (w_reg win) n"
    and b64: "writes_base64 (w_strings win)" and names: "names_safe (plain_crypt_api (w_cert win))"
    and s: "serves (w_tbs win) ch view tpm w d x" and k: "key_at d x h = Some ak_key" and n: "length nonce \<le> 64"
  obtains ev doc auth w' where "CollectEvidence_quote win tpm h nonce w = Some ((ROOTHERALD_OK, ev, []), w')"
    and "view w' = d" and "read_json (JsonBuild ev) = Some doc" and "set (json_keys doc) \<subseteq> set evidence_keys"
    and "json_at doc [''pcrValues''] = Some (pcr_values evidence_pcrs (map (d_pcrs d) evidence_registers))"
    and "json_at doc [''quote'', ''quoted'']
      = Some (renders_base64 (Base64Encode (w_strings win) (quote_attest ch d ak_key nonce evidence_pcrs)))"
    and "json_at doc [''quote'', ''signature''] = Some (renders_base64 (Base64Encode (w_strings win)
          (t_sign ch ak_key (quote_attest ch d ak_key nonce evidence_pcrs) @ auth)))"
    and "json_at doc [''quote'', ''nonce''] = Some (renders_base64 (Base64Encode (w_strings win) nonce))"
proof -
  let ?tbs = "w_tbs win"
  have b: "tpm_behind ?tbs ch view" "chip_wf ch" using m by (simp_all add: tpm_machine_def)
  let ?pcrs = "pcr_values_start @ comma_join (map member_text (map2 pcr_member evidence_pcrs (map (d_pcrs d) evidence_registers)))
      @ ''}}''"
  obtain w1 where p: "collect_pcrs ?tbs tpm True pcr_values_start evidence_pcrs w = Some (Some ?pcrs, w1)"
    and v1: "view w1 = d"
    using collect_pcrs_on_device [OF ob bank s, of evidence_registers True pcr_values_start] evidence_registers(2)
    by (auto simp: evidence_registers(1))
  note s1 = serves_in(2) [OF s v1]
  let ?attest = "quote_attest ch d ak_key nonce evidence_pcrs"
  obtain w2 auth where q: "Quote ?tbs tpm h nonce evidence_pcrs w1 = Some (Inr (?attest, t_sign ch ak_key ?attest @ auth), w2)"
    and v2: "view w2 = d"
    by (rule Quote_on_device [OF s1 ob k n])
  let ?sig = "t_sign ch ak_key ?attest @ auth"
  obtain log w3 where l: "ReadEventLog ?tbs w2 = (log, w3)" by (metis prod.exhaust)
  have v3: "view w3 = d" using calm_submit.ReadEventLog [OF device_submit [OF b(1)] l v2] .
  obtain sb where sb: "secure_boot_text (w_cert win) log = Some sb"
    using secure_boot_text_returns by (auto simp: defined_def)
  let ?m0 = "map_init [(''pcrValues'', ?pcrs), (''quote'', quote_text (w_strings win) ?attest ?sig nonce),
      (''secureBootChain'', sb)]"
  obtain ev w4 where ex: "evidence_extras win tpm log ?m0 w3 = Some (ev, w4)"
    using evidence_extras_returns [OF m reg] by (metis definedE prod.exhaust)
  have v4: "view w4 = d" using calm_driver.evidence_extras [OF device_driver [OF m] ex v3] .
  have run: "CollectEvidence_quote win tpm h nonce w = Some ((ROOTHERALD_OK, ev, []), w4)"
    using p q l sb ex by (simp add: CollectEvidence_quote_def hr_of_def out_of_def FAILED_def)
  obtain jq where jq: "renders (quote_text (w_strings win) ?attest ?sig nonce) jq"
    and at: "json_at jq [''quoted''] = Some (renders_base64 (Base64Encode (w_strings win) ?attest))"
      "json_at jq [''signature''] = Some (renders_base64 (Base64Encode (w_strings win) ?sig))"
      "json_at jq [''nonce''] = Some (renders_base64 (Base64Encode (w_strings win) nonce))"
    by (rule quote_text_document [OF b64])
  have pv: "renders ?pcrs (pcr_values evidence_pcrs (map (d_pcrs d) evidence_registers))"
    by (rule pcr_values_render [OF refl])
  have "evidence_object ?m0"
    by (rule evidence_object_init) (use pv jq secure_boot_text_renders(1) [OF names sb] in blast)+
  note mem = evidence_extras_members [OF b64 ex this]
  have get: "map_of ev ''pcrValues'' = Some ?pcrs"
    "map_of ev ''quote'' = Some (quote_text (w_strings win) ?attest ?sig nonce)"
    using mem(2) [of "''pcrValues''"] mem(2) [of "''quote''"] by (simp_all add: map_of_map_init)
  obtain doc where doc: "read_json (JsonBuild ev) = Some doc" "json_keys doc = map fst ev"
    and sub: "\<And>k v ks. map_of ev k = Some v \<Longrightarrow> \<exists>i. renders v i \<and> json_at doc (k # ks) = json_at i ks"
    using JsonBuild_document [of ev] mem(1) unfolding evidence_object_def by metis
  have at_pcrs: "json_at doc [''pcrValues''] = Some (pcr_values evidence_pcrs (map (d_pcrs d) evidence_registers))"
    using sub [OF get(1), of "[]"] renders_unique [OF pv] by auto
  have at_quote: "json_at doc (''quote'' # ks) = json_at jq ks" for ks
    using sub [OF get(2), of ks] renders_unique [OF jq] by auto
  have keys: "set (json_keys doc) \<subseteq> set evidence_keys"
    using mem(1) doc(2) by (simp add: evidence_object_def)
  show thesis
    by (rule that [OF run v4 doc(1) keys at_pcrs]) (simp_all only: at_quote at)
qed

text \<open>The provider of an enrolled device.\<close>

lemma SelectEnrolledProvider_on_device:
  assumes m: "tpm_machine win ch view" and ob: "obliging ch" and room: "has_room (view w)"
    and k: "d_persistent (view w) TBS_AK_PERSISTENT_HANDLE = Some ak_key"
  obtains p w' where "SelectEnrolledProvider (w_tbs win) w = Some (Some p, w')"
    and "persistentHandle p = TBS_AK_PERSISTENT_HANDLE" and "ekHandle p = 0" and "akHandle p = 0"
    and "d_contexts (view w) (tc_context (kp_tpm p)) = None"
    and "serves (w_tbs win) ch view (kp_tpm p) w' (set_context (view w) (tc_context (kp_tpm p)) empty_context) empty_context"
proof -
  let ?tbs = "w_tbs win" and ?d = "view w"
  have b: "tpm_behind ?tbs ch view" "chip_wf ch" using m by (simp_all add: tpm_machine_def)
  obtain ctx w1 where o: "kp_Open ?tbs (new_TbsKeyProvider TBS_AK_PERSISTENT_HANDLE) w
      = (S_OK, (new_TbsKeyProvider TBS_AK_PERSISTENT_HANDLE)\<lparr>kp_tpm := \<lparr>tc_context = ctx\<rparr>\<rparr>, w1)"
    and fresh: "d_contexts ?d ctx = None"
    and s1: "serves ?tbs ch view \<lparr>tc_context = ctx\<rparr> w1 (set_context ?d ctx empty_context) empty_context"
    by (rule kp_Open_on_device [OF b ob refl has_room_more(1,2) [OF room]])
  let ?p = "(new_TbsKeyProvider TBS_AK_PERSISTENT_HANDLE)\<lparr>kp_tpm := \<lparr>tc_context = ctx\<rparr>\<rparr>"
  obtain w2 where i: "IsPersistentPresent ?tbs \<lparr>tc_context = ctx\<rparr> TBS_AK_PERSISTENT_HANDLE w1
      = Some (d_persistent (set_context ?d ctx empty_context) TBS_AK_PERSISTENT_HANDLE \<noteq> None, w2)"
    and v2: "view w2 = set_context ?d ctx empty_context"
    by (rule IsPersistentPresent_on_device [OF s1 ob slot_is_persistent(1)])
  have "LoadAk ?tbs ?p w1 = Some (S_OK, w2)"
    using i k by (simp add: LoadAk_def) (simp add: new_TbsKeyProvider_def)
  then have "SelectEnrolledProvider ?tbs w = Some (Some ?p, w2)"
    using o by (simp add: SelectEnrolledProvider_def SUCCEEDED_def FAILED_def)
  moreover have "serves ?tbs ch view (kp_tpm ?p) w2 (set_context ?d ctx empty_context) empty_context"
    using serves_in(2) [OF s1 v2] by simp
  ultimately show thesis using that [of ?p w2] fresh by (simp add: new_TbsKeyProvider_def)
qed

lemma CollectEvidence_on_device:
  assumes m: "tpm_machine win ch view" and ob: "obliging ch" and mem: "memory_suffices (w_process win)"
    and room: "has_room (view w)" and bank: "bank_wf (view w)" and reg: "enumeration_ends (w_reg win) n"
    and b64: "writes_base64 (w_strings win)" and names: "names_safe (plain_crypt_api (w_cert win))"
    and k: "d_persistent (view w) TBS_AK_PERSISTENT_HANDLE = Some ak_key"
    and nonce: "Base64Decode (w_strings win) (c_str nonce_b64) = nonce" "nonce \<noteq> []" "length nonce \<le> 64"
  obtains a body doc auth w' where
    "RootHeraldCollectEvidence win (Some nonce_b64) (Some out) w = Some (ROOTHERALD_OK, Some (Some (a, body @ [CHR 0x00])), w')"
    and "view w' = view w" and "read_json body = Some doc" and "set (json_keys doc) \<subseteq> set evidence_keys"
    and "json_at doc [''pcrValues''] = Some (pcr_values evidence_pcrs (map (d_pcrs (view w)) evidence_registers))"
    and "json_at doc [''quote'', ''quoted'']
      = Some (renders_base64 (Base64Encode (w_strings win) (quote_attest ch (view w) ak_key nonce evidence_pcrs)))"
    and "json_at doc [''quote'', ''signature''] = Some (renders_base64 (Base64Encode (w_strings win)
          (t_sign ch ak_key (quote_attest ch (view w) ak_key nonce evidence_pcrs) @ auth)))"
    and "json_at doc [''quote'', ''nonce''] = Some (renders_base64 (Base64Encode (w_strings win) nonce))"
proof -
  let ?tbs = "w_tbs win" and ?d = "view w"
  have b: "tpm_behind ?tbs ch view" "chip_wf ch" using m by (simp_all add: tpm_machine_def)
  obtain p w1 where sel: "SelectEnrolledProvider ?tbs w = Some (Some p, w1)"
    and p: "persistentHandle p = TBS_AK_PERSISTENT_HANDLE" "ekHandle p = 0" "akHandle p = 0"
    and fresh: "d_contexts ?d (tc_context (kp_tpm p)) = None"
    and s1: "serves ?tbs ch view (kp_tpm p) w1 (set_context ?d (tc_context (kp_tpm p)) empty_context) empty_context"
    by (rule SelectEnrolledProvider_on_device [OF m ob room k])
  let ?ctx = "tc_context (kp_tpm p)" and ?d1 = "set_context ?d (tc_context (kp_tpm p)) empty_context"
  have v1: "view w1 = ?d1" using s1 by (simp add: serves_def)
  obtain ctx w2 where o: "TpmCommands_Open ?tbs new_TpmCommands w1 = (S_OK, \<lparr>tc_context = ctx\<rparr>, w2)"
    and s2: "serves ?tbs ch view \<lparr>tc_context = ctx\<rparr> w2 (set_context ?d1 ctx empty_context) empty_context"
    by (rule TpmCommands_Open_on_device [OF b ob v1 has_room_more(3,4) [OF room]])
  let ?d2 = "set_context ?d1 ctx empty_context"
  have bank2: "bank_wf ?d2" using bank by (simp add: bank_wf_def)
  have key: "key_at ?d2 empty_context TBS_AK_PERSISTENT_HANDLE = Some ak_key"
    using k slot_is_persistent by (simp add: key_at_def)
  have same: "d_pcrs ?d2 = d_pcrs ?d" "quote_attest ch ?d2 ak_key nonce evidence_pcrs = quote_attest ch ?d ak_key nonce evidence_pcrs"
    by (simp_all add: quote_attest_def pcr_values_of_def)
  obtain ev doc auth w3 where q: "CollectEvidence_quote win \<lparr>tc_context = ctx\<rparr> TBS_AK_PERSISTENT_HANDLE nonce w2
      = Some ((ROOTHERALD_OK, ev, []), w3)" and v3: "view w3 = ?d2"
    and doc: "read_json (JsonBuild ev) = Some doc" "set (json_keys doc) \<subseteq> set evidence_keys"
      "json_at doc [''pcrValues''] = Some (pcr_values evidence_pcrs (map (d_pcrs ?d2) evidence_registers))"
      "json_at doc [''quote'', ''quoted'']
        = Some (renders_base64 (Base64Encode (w_strings win) (quote_attest ch ?d2 ak_key nonce evidence_pcrs)))"
      "json_at doc [''quote'', ''signature''] = Some (renders_base64 (Base64Encode (w_strings win)
          (t_sign ch ak_key (quote_attest ch ?d2 ak_key nonce evidence_pcrs) @ auth)))"
      "json_at doc [''quote'', ''nonce''] = Some (renders_base64 (Base64Encode (w_strings win) nonce))"
    by (rule CollectEvidence_quote_on_device [OF m ob bank2 reg b64 names s2 key nonce(3)])
  have "view w3 = view w2" using v3 s2 by (simp add: serves_def)
  then have v4: "view (tpm_Destroy ?tbs \<lparr>tc_context = ctx\<rparr> w3) = ?d1"
    using TpmCommands_bracket [OF b o] v1 by simp
  have "TBS_AK_PERSISTENT_HANDLE \<noteq> 0" by (simp add: TBS_AK_PERSISTENT_HANDLE_def)
  then have "CollectEvidence_enrolled win (c_str nonce_b64) p w1
      = Some ((ROOTHERALD_OK, ev, []), tpm_Destroy ?tbs \<lparr>tc_context = ctx\<rparr> w3)"
    using o q p(1) nonce by (simp add: CollectEvidence_enrolled_def GetQuoteHandle_def FAILED_def Let_def)
  then have f: "CollectEvidenceFields win nonce_b64 w
      = Some ((ROOTHERALD_OK, ev, []), kp_Destroy ?tbs p (tpm_Destroy ?tbs \<lparr>tc_context = ctx\<rparr> w3))"
    using sel by (simp add: CollectEvidenceFields_def)
  have s4: "serves ?tbs ch view (kp_tpm p) (tpm_Destroy ?tbs \<lparr>tc_context = ctx\<rparr> w3) ?d1 empty_context"
    by (rule serves_in(2) [OF s1 v4])
  have v5: "view (kp_Destroy ?tbs p (tpm_Destroy ?tbs \<lparr>tc_context = ctx\<rparr> w3)) = ?d"
    using kp_Destroy_flushed [OF s4 p(2,3)] closed_again [OF fresh] by simp
  obtain a w5 where a: "malloc_text (w_process win) (JsonBuild ev) (kp_Destroy ?tbs p (tpm_Destroy ?tbs \<lparr>tc_context = ctx\<rparr> w3))
      = (Some (a, JsonBuild ev @ [CHR 0x00]), w5)"
    by (rule malloc_text_suffices [OF mem])
  have pr: "calm_process (w_process win) (\<lambda>v. view v = ?d)"
    using m unfolding tpm_machine_def quiet_windows_def by blast
  have v6: "view w5 = ?d" using calm_process.malloc_text [OF pr a v5] .
  have "RootHeraldCollectEvidence win (Some nonce_b64) (Some out) w
      = Some (ROOTHERALD_OK, Some (Some (a, JsonBuild ev @ [CHR 0x00])), w5)"
    using f a by (simp add: RootHeraldCollectEvidence_def)
  from that [OF this v6 doc [unfolded same]] show thesis .
qed

end
