(* ===== verification/Slot_Safety.thy ===== *)
theory Slot_Safety
  imports Enrolled_Device
begin

text \<open>
  What the client can do to a TPM at all, on a device that may refuse any command and on a TBS that may fail any
  call or lose the response of a command that was executed. The observing calls leave the device exactly as
  they found it. An enrollment changes only its own context, except that a second leg may clear the persistent
  slot and store the attestation key there; no call writes another persistent object.
\<close>

section \<open>Observing calls\<close>

lemma kp_bracket:
  assumes b: "tpm_behind api ch view" "chip_wf ch"
    and o: "kp_Open api (new_TbsKeyProvider h) w = (hr, p, w1)" and v: "view v = view w1"
  shows "view (kp_Destroy api p v) = view w"
proof -
  obtain tc where t: "TpmCommands_Open api new_TpmCommands w = (hr, tc, w1)" "p = (new_TbsKeyProvider h)\<lparr>kp_tpm := tc\<rparr>"
    using o by (auto simp: kp_Open_def new_TbsKeyProvider_def split: prod.splits)
  have "kp_Destroy api p v = tpm_Destroy api tc v"
    using t(2) by (simp add: kp_Destroy_def kp_Close_def FlushTransients_def new_TbsKeyProvider_def TpmCommands_Close_def
        tpm_Destroy_def uh_Destroy_def uh_Reset_def TbsContextTraits_def)
  then show ?thesis using TpmCommands_bracket [OF b t(1) v] by simp
qed

lemma SelectEnrolledProvider_view:
  assumes b: "tpm_behind api ch view" "chip_wf ch" and s: "SelectEnrolledProvider api w = Some (r, w')"
  shows "r = None \<Longrightarrow> view w' = view w"
    and "r = Some p \<Longrightarrow> view v = view w' \<Longrightarrow> view (kp_Destroy api p v) = view w"
proof -
  obtain hr q w1 where o: "kp_Open api (new_TbsKeyProvider TBS_AK_PERSISTENT_HANDLE) w = (hr, q, w1)" by (metis prod_cases3)
  have load: "view w2 = view w1" if "LoadAk api q w1 = Some (hr2, w2)" for hr2 w2
    using that calm_submit.LoadAk [OF device_submit [OF b(1)]] by blast
  show "r = None \<Longrightarrow> view w' = view w"
    using s o load kp_bracket [OF b o]
    by (auto simp: SelectEnrolledProvider_def split: if_splits bind_splits)
  show "r = Some p \<Longrightarrow> view v = view w' \<Longrightarrow> view (kp_Destroy api p v) = view w"
    using s o load kp_bracket [OF b o]
    by (auto simp: SelectEnrolledProvider_def split: if_splits bind_splits)
qed

lemma CollectEvidence_enrolled_view:
  assumes m: "tpm_machine win ch view" and run: "CollectEvidence_enrolled win nonce p w = Some (r, w')"
  shows "view w' = view w"
proof -
  have b: "tpm_behind (w_tbs win) ch view" "chip_wf ch" using m by (simp_all add: tpm_machine_def)
  obtain hr tpm w1 where o: "TpmCommands_Open (w_tbs win) new_TpmCommands w = (hr, tpm, w1)" by (metis prod_cases3)
  note close = TpmCommands_bracket [OF b o]
  have q: "view w2 = view w1" if "CollectEvidence_quote win tpm h n w1 = Some (x, w2)" for h n x w2
    using calm_driver.CollectEvidence_quote [OF device_driver [OF m] that refl] .
  show ?thesis
    using run o q close by (auto simp: CollectEvidence_enrolled_def Let_def split: if_splits bind_splits)
qed

lemma CollectEvidence_view:
  assumes m: "tpm_machine win ch view" and run: "RootHeraldCollectEvidence win nonce out w = Some (st, out', w')"
  shows "view w' = view w"
proof -
  have b: "tpm_behind (w_tbs win) ch view" "chip_wf ch" using m by (simp_all add: tpm_machine_def)
  have fields: "view v = view w" if f: "CollectEvidenceFields win n w = Some (r, v)" for n r v
  proof -
    obtain q w1 where s: "SelectEnrolledProvider (w_tbs win) w = Some (q, w1)"
      using f by (auto simp: CollectEvidenceFields_def split: bind_splits)
    show ?thesis
      using f s SelectEnrolledProvider_view [OF b s] CollectEvidence_enrolled_view [OF m]
      by (auto simp: CollectEvidenceFields_def split: option.splits bind_splits)
  qed
  have pr: "calm_process (w_process win) (\<lambda>v. view v = view w)"
    using m unfolding tpm_machine_def quiet_windows_def by blast
  show ?thesis
    using run fields calm_process.malloc_text [OF pr]
    by (auto simp: RootHeraldCollectEvidence_def Let_def split: if_splits prod.splits option.splits bind_splits)
qed

lemma IsAkPersisted_view:
  assumes m: "tpm_machine win ch view" and run: "IsAkPersisted win w = Some (r, w')"
  shows "view w' = view w"
proof -
  have b: "tpm_behind (w_tbs win) ch view" "chip_wf ch" using m by (simp_all add: tpm_machine_def)
  obtain hr q w1 where o: "kp_Open (w_tbs win) (new_TbsKeyProvider TBS_AK_PERSISTENT_HANDLE) w = (hr, q, w1)"
    by (metis prod_cases3)
  have ak: "view w2 = view w1" if "AkExists (w_tbs win) q w1 = Some (x, w2)" for x w2
    using that calm_submit.AkExists [OF device_submit [OF b(1)]] by blast
  show ?thesis
    using run o ak kp_bracket [OF b o] by (auto simp: IsAkPersisted_def split: if_splits bind_splits)
qed

lemma CollectLocalPosture_view:
  assumes m: "tpm_machine win ch view" and run: "RootHeraldCollectLocalPosture win out w = Some (st, out', w')"
  shows "view w' = view w"
proof -
  let ?I = "\<lambda>v. view v = view w"
  have b: "tpm_behind (w_tbs win) ch view" "chip_wf ch" using m by (simp_all add: tpm_machine_def)
  have c: "calm_ncrypt (w_ncrypt win) ?I" "calm_registry (w_reg win) ?I"
    using m unfolding tpm_machine_def quiet_windows_def by blast+
  have p: "view v' = view w" if "IsAkPersisted win v = Some (r, v')" "view v = view w" for v r v'
    using IsAkPersisted_view [OF m that(1)] that(2) by simp
  note d = calm_driver.DeriveLocalDeviceId [OF device_driver [OF m]]
  note l = calm_submit.ReadEventLog [OF device_submit [OF b(1)]]
  show ?thesis
    using run
    by (auto simp: RootHeraldCollectLocalPosture_def Let_def
        dest!: calm_ncrypt.IsAvailable [OF c(1)] p calm_registry.ReadEkCertFromWindowsStore [OF c(2)] d l
        split: if_splits prod.splits bind_splits)
qed

section \<open>What a command can change\<close>

text \<open>Only the context it came through: its table may change, not whether it is open. No command goes through
  the null handle.\<close>

definition only_context :: "u64 \<Rightarrow> tpm_device \<Rightarrow> tpm_device \<Rightarrow> bool" where
  "only_context ctx d d' \<longleftrightarrow> d_persistent d' = d_persistent d \<and> d_pcrs d' = d_pcrs d
     \<and> (\<forall>c. c \<noteq> ctx \<longrightarrow> d_contexts d' c = d_contexts d c)
     \<and> (d_contexts d' ctx = None \<longleftrightarrow> d_contexts d ctx = None) \<and> (ctx = 0 \<longrightarrow> d' = d)"

text \<open>And of that table no object is new.\<close>

definition objects_of :: "tpm_device \<Rightarrow> u64 \<Rightarrow> u32 \<Rightarrow> tpm_key option" where
  "objects_of d ctx = (case d_contexts d ctx of None \<Rightarrow> (\<lambda>_. None) | Some x \<Rightarrow> x_objects x)"

definition no_new_object :: "u64 \<Rightarrow> tpm_device \<Rightarrow> tpm_device \<Rightarrow> bool" where
  "no_new_object ctx d d' \<longleftrightarrow> only_context ctx d d' \<and> objects_of d' ctx \<subseteq>\<^sub>m objects_of d ctx"

lemma only_context_refl [simp]: "only_context ctx d d"
  and no_new_object_refl [simp]: "no_new_object ctx d d"
  by (simp_all add: only_context_def no_new_object_def)

lemma only_context_trans: "only_context ctx d d' \<Longrightarrow> only_context ctx d' d'' \<Longrightarrow> only_context ctx d d''"
  by (simp add: only_context_def)

lemma no_new_object_trans: "no_new_object ctx d d' \<Longrightarrow> no_new_object ctx d' d'' \<Longrightarrow> no_new_object ctx d d''"
  using only_context_trans map_le_trans by (auto simp: no_new_object_def)

lemma no_new_object_only: "no_new_object ctx d d' \<Longrightarrow> only_context ctx d d'"
  by (simp add: no_new_object_def)

definition restrained_codes :: "u32 set" where
  "restrained_codes = {TPM2_CC_FlushContext, TPM2_CC_StartAuthSession, TPM2_CC_PolicySecret, TPM2_CC_ActivateCredential,
     TPM2_CC_PCR_Read, TPM2_CC_Quote, TPM2_CC_ReadPublic, TPM2_CC_NV_ReadPublic, TPM2_CC_NV_Read}"

lemma chip_answer_frame:
  assumes x: "d_contexts d ctx = Some x" "ctx \<noteq> 0" and a: "chip_answer ch w ctx d x c = Some (resp, d')"
  shows "c_code c \<noteq> TPM2_CC_EvictControl \<Longrightarrow> only_context ctx d d'"
    and "c_code c \<in> restrained_codes \<Longrightarrow> no_new_object ctx d d'"
proof -
  have set: "only_context ctx d (set_context d ctx y)" for y
    using x by (simp add: only_context_def)
  show o: "only_context ctx d d'" if "c_code c \<noteq> TPM2_CC_EvictControl"
    using a that set by (auto simp: chip_answer_def Let_def split: if_splits)
  show "no_new_object ctx d d'" if r: "c_code c \<in> restrained_codes"
  proof -
    have flush_objects: "x_objects y \<subseteq>\<^sub>m x_objects x" if "chip_FlushContext c x = Some (r, y)" for r y
      using that by (auto simp: chip_FlushContext_def map_le_def split: option.splits if_splits list.splits)
    have start_objects: "x_objects y \<subseteq>\<^sub>m x_objects x" if "chip_StartAuthSession ch w c x = Some (r, y)" for r y
      using that by (auto simp: chip_StartAuthSession_def split: option.splits if_splits)
    have policy_objects: "x_objects y \<subseteq>\<^sub>m x_objects x" if "chip_PolicySecret ch w c x = Some (r, y)" for r y
      using that by (auto simp: chip_PolicySecret_def split: option.splits if_splits list.splits)
    have activate_objects: "x_objects y \<subseteq>\<^sub>m x_objects x" if "chip_ActivateCredential ch w d c x = Some (r, y)" for r y
      using that by (auto simp: chip_ActivateCredential_def split: option.splits if_splits list.splits bind_splits)
    have here: "\<exists>y. d' = set_context d ctx y \<and> x_objects y \<subseteq>\<^sub>m x_objects x"
      if "map_option (map_prod id (set_context d ctx)) m = Some (resp, d')" "\<And>r y. m = Some (r, y) \<Longrightarrow> x_objects y \<subseteq>\<^sub>m x_objects x" for m
      using that by auto
    consider (flush) "c_code c = TPM2_CC_FlushContext" | (start) "c_code c = TPM2_CC_StartAuthSession"
      | (policy) "c_code c = TPM2_CC_PolicySecret" | (activate) "c_code c = TPM2_CC_ActivateCredential"
      | (reads) "c_code c \<in> {TPM2_CC_PCR_Read, TPM2_CC_Quote, TPM2_CC_ReadPublic, TPM2_CC_NV_ReadPublic, TPM2_CC_NV_Read}"
      using r unfolding restrained_codes_def by blast
    then have "d' = d \<or> (\<exists>y. d' = set_context d ctx y \<and> x_objects y \<subseteq>\<^sub>m x_objects x)"
    proof cases
      case reads
      then show ?thesis using chip_answer_reads [OF _ a] by blast
    next
      case flush
      then have "map_option (map_prod id (set_context d ctx)) (chip_FlushContext c x) = Some (resp, d')"
        using a by (simp add: chip_answer_def)
      from here [OF this] show ?thesis by (rule disjI2) (rule flush_objects, assumption)
    next
      case start
      then have "map_option (map_prod id (set_context d ctx)) (chip_StartAuthSession ch w c x) = Some (resp, d')"
        using a by (simp add: chip_answer_def)
      from here [OF this] show ?thesis by (rule disjI2) (rule start_objects, assumption)
    next
      case policy
      then have "map_option (map_prod id (set_context d ctx)) (chip_PolicySecret ch w c x) = Some (resp, d')"
        using a by (simp add: chip_answer_def)
      from here [OF this] show ?thesis by (rule disjI2) (rule policy_objects, assumption)
    next
      case activate
      then have "map_option (map_prod id (set_context d ctx)) (chip_ActivateCredential ch w d c x) = Some (resp, d')"
        using a by (simp add: chip_answer_def)
      from here [OF this] show ?thesis by (rule disjI2) (rule activate_objects, assumption)
    qed
    moreover have "only_context ctx d d'" using o r by (auto simp: restrained_codes_def)
    ultimately show ?thesis using x by (auto simp: no_new_object_def objects_of_def)
  qed
qed

lemma chip_submit_frame:
  assumes code: "ReadU32 cmd 6 = Some code" and s: "chip_submit ch w ctx cmd d = (r, resp, d')" and n: "ctx \<noteq> 0"
  shows "code \<noteq> TPM2_CC_EvictControl \<Longrightarrow> only_context ctx d d'"
    and "code \<in> restrained_codes \<Longrightarrow> no_new_object ctx d d'"
proof -
  have c: "c_code c = code" if "tpm_decode cmd = Some c" for c
    using that code decode_command_code by (fastforce simp: tpm_decode_def split: bind_splits)
  have "d' = d \<or> (\<exists>x c resp. d_contexts d ctx = Some x \<and> chip_answer ch w ctx d x c = Some (resp, d') \<and> c_code c = code)"
    using s c by (auto simp: chip_submit_def split: option.splits tpm_fault.splits bind_splits)
  then show "code \<noteq> TPM2_CC_EvictControl \<Longrightarrow> only_context ctx d d'"
    and "code \<in> restrained_codes \<Longrightarrow> no_new_object ctx d d'"
    using chip_answer_frame [OF _ n] by auto
qed

section \<open>What the operations can change\<close>

lemma SendCommand_view:
  assumes b: "tpm_behind api ch view" and run: "SendCommand api tc cmd w = (hr, resp, w')"
  obtains (unsent) "view w' = view w" "hr = RH_E_NOT_OPEN" "resp = []"
  | (sent) r resp0 where "tc_context tc \<noteq> 0" "chip_submit ch w (tc_context tc) (patch_command_size cmd) (view w) = (r, resp0, view w')"
      and "resp = (if r = TBS_SUCCESS then vec_resize (unat (of_nat (length resp0) :: u32)) (vec_resize 4096 resp0) else [])"
proof -
  obtain r resp0 d where s: "chip_submit ch w (tc_context tc) (patch_command_size cmd) (view w) = (r, resp0, d)"
    by (metis prod_cases3)
  obtain w1 where t: "Tbsip_Submit_Command api (tc_context tc) (patch_command_size cmd) w = (r, resp0, of_nat (length resp0), w1)"
    and v: "view w1 = d"
    using tpm_behind_submit [OF b s] by blast
  show thesis
  proof (cases "tc_context tc = 0")
    case True
    then show thesis using run unsent by (simp add: SendCommand_def)
  next
    case False
    then show thesis using run t v s sent [OF False] by (auto simp: SendCommand_def Let_def split: if_splits)
  qed
qed

lemma SendCommand_frame:
  assumes b: "tpm_behind api ch view" and run: "SendCommand api tc cmd w = (hr, resp, w')"
    and code: "ReadU32 (patch_command_size cmd) 6 = Some code"
  shows "code \<noteq> TPM2_CC_EvictControl \<Longrightarrow> only_context (tc_context tc) (view w) (view w')"
    and "code \<in> restrained_codes \<Longrightarrow> no_new_object (tc_context tc) (view w) (view w')"
  using SendCommand_view [OF b run] chip_submit_frame [OF code] by (metis only_context_refl no_new_object_refl)+

lemma transact_frame:
  assumes b: "tpm_behind api ch view" and run: "transact api tc cmd parse w = Some (r, w')"
    and code: "ReadU32 (patch_command_size cmd) 6 = Some code"
  shows "code \<noteq> TPM2_CC_EvictControl \<Longrightarrow> only_context (tc_context tc) (view w) (view w')"
    and "code \<in> restrained_codes \<Longrightarrow> no_new_object (tc_context tc) (view w) (view w')"
proof -
  obtain hr resp where "SendCommand api tc cmd w = (hr, resp, w')"
    using run by (auto simp: transact_def Let_def split: prod.splits if_splits bind_splits)
  from SendCommand_frame [OF b this code]
  show "code \<noteq> TPM2_CC_EvictControl \<Longrightarrow> only_context (tc_context tc) (view w) (view w')"
    and "code \<in> restrained_codes \<Longrightarrow> no_new_object (tc_context tc) (view w) (view w')" by simp_all
qed

lemma FlushContext_frame:
  assumes "tpm_behind api ch view"
  shows "no_new_object (tc_context tc) (view w) (view (snd (FlushContext api tc h w)))"
proof -
  obtain hr resp w' where s: "SendCommand api tc (FlushContext_command h) w = (hr, resp, w')" by (metis prod_cases3)
  show ?thesis
    using SendCommand_frame(2) [OF assms s, of TPM2_CC_FlushContext] s
    by (simp add: FlushContext_def restrained_codes_def)
qed

lemma FlushTransients_frame:
  assumes "tpm_behind api ch view" and "FlushTransients api p w = (p', w')"
  shows "no_new_object (tc_context (kp_tpm p)) (view w) (view w')" and "kp_tpm p' = kp_tpm p"
    and "persistentHandle p' = persistentHandle p" and "akHandle p' = 0" and "ekHandle p' = 0"
  using assms(2) FlushContext_frame [OF assms(1), of "kp_tpm p"]
  by (auto simp: FlushTransients_def Let_def intro: no_new_object_trans split: if_splits)

lemma create_codes:
  "ReadU32 (patch_command_size CreateEk_command) 6 = Some TPM2_CC_CreatePrimary"
  "ReadU32 (patch_command_size (CreateAndLoadAk_command h)) 6 = Some TPM2_CC_CreatePrimary"
  by simp_all

lemma CreateEk_frame:
  "tpm_behind api ch view \<Longrightarrow> CreateEk api tc w = Some (r, w') \<Longrightarrow> only_context (tc_context tc) (view w) (view w')"
  using transact_frame(1) [OF _ _ create_codes(1)] by (simp add: CreateEk_def)

lemma CreateAndLoadAk_frame:
  "tpm_behind api ch view \<Longrightarrow> CreateAndLoadAk api tc h w = Some (r, w') \<Longrightarrow> only_context (tc_context tc) (view w) (view w')"
  using transact_frame(1) [OF _ _ create_codes(2)] by (simp add: CreateAndLoadAk_def)

text \<open>A command whose response is accepted has been executed.\<close>

context response_parser
begin

lemma executed:
  assumes b: "tpm_behind api ch view" and wf: "chip_wf ch" and run: "transact api tc cmd parse w = Some (Inr y, w')"
  obtains x c resp where "d_contexts (view w) (tc_context tc) = Some x" and "tpm_decode (patch_command_size cmd) = Some c"
    and "chip_answer ch w (tc_context tc) (view w) x c = Some (resp, view w')" and "tc_context tc \<noteq> 0"
    and "parse (vec_resize (unat (of_nat (length resp) :: u32)) (vec_resize 4096 resp)) = Some (Inr y)"
proof -
  let ?ctx = "tc_context tc" and ?cut = "\<lambda>resp. vec_resize (unat (of_nat (length resp) :: u32)) (vec_resize 4096 resp)"
  have nil: "parse [] \<noteq> Some (Inr y)" using parse_success(1) [of "[]" y] need_header by auto
  have refused: "parse (refusal rc) \<noteq> Some (Inr y)" if "rc \<noteq> 0" for rc
    using parse_success(2) [of "refusal rc" y] that by (auto simp: refusal_def)
  obtain hr resp where s: "SendCommand api tc cmd w = (hr, resp, w')" and p: "parse resp = Some (Inr y)"
    using run by (auto simp: transact_def Let_def split: prod.splits if_splits bind_splits)
  have open_tc: "?ctx \<noteq> 0" using s p nil by (auto simp: SendCommand_def)
  obtain r resp0 where t: "chip_submit ch w ?ctx (patch_command_size cmd) (view w) = (r, resp0, view w')"
    and resp: "resp = (if r = TBS_SUCCESS then ?cut resp0 else [])"
  proof (cases rule: SendCommand_view [OF b s])
    case 1
    then show ?thesis using p nil by simp
  qed
  have ok: "r = TBS_SUCCESS" using p nil resp by (auto split: if_splits)
  have not_refused: "resp0 \<noteq> refusal rc" if "rc \<noteq> 0" for rc
  proof
    assume "resp0 = refusal rc"
    then have "resp = refusal rc" using resp ok by (simp add: refusal_def vec_resize_cut) (simp add: vec_resize_def)
    then show False using p refused [OF that] by simp
  qed
  obtain x where x: "d_contexts (view w) ?ctx = Some x" using t ok by (auto simp: chip_submit_def split: option.splits)
  have "t_fault ch w = No_Fault"
  proof (cases "t_fault ch w")
    case (Tbs_Fault r')
    then have "r' \<noteq> TBS_SUCCESS" using wf by (simp add: chip_wf_def chip_reads_def)
    then show ?thesis using t ok x Tbs_Fault by (simp add: chip_submit_def)
  next
    case (Lost_Response r')
    then have "r' \<noteq> TBS_SUCCESS" using wf by (simp add: chip_wf_def chip_reads_def)
    then show ?thesis using t ok x Lost_Response by (auto simp: chip_submit_def split: option.splits)
  next
    case (Tpm_Fault rc)
    then have "rc \<noteq> 0" using wf by (simp add: chip_wf_def chip_reads_def)
    then show ?thesis using t x Tpm_Fault not_refused [of rc] by (simp add: chip_submit_def)
  qed
  then obtain c where c: "tpm_decode (patch_command_size cmd) = Some c" "chip_answer ch w ?ctx (view w) x c = Some (resp0, view w')"
    using t x not_refused [of "0x18B"] by (auto simp: chip_submit_def split: option.splits bind_splits)
  show thesis by (rule that [OF x c open_tc]) (use p resp ok in simp)
qed

end

text \<open>A key creation that succeeds has created the attestation key, under the handle it returns.\<close>

lemma CreateAndLoadAk_creates:
  assumes b: "tpm_behind api ch view" and wf: "chip_wf ch"
    and run: "CreateAndLoadAk api tc TPM_RH_OWNER w = Some (Inr (h, pub), w')"
  shows "is_transient h \<and> objects_of (view w') (tc_context tc) h = Some ak_key \<and> tc_context tc \<noteq> 0"
proof -
  let ?cmd = "CreateAndLoadAk_command TPM2_RH_OWNER" and ?ctx = "tc_context tc"
  have t: "transact api tc ?cmd CreateAndLoadAk_response w = Some (Inr (h, pub), w')"
    using run by (simp add: CreateAndLoadAk_def TPM_RH_OWNER_def)
  from create_ak.executed [OF b wf t] show ?thesis
  proof cases
    case (1 x c resp)
    then have a: "chip_answer ch w ?ctx (view w) x \<lparr>c_sessions_tag = True, c_code = TPM2_CC_CreatePrimary,
        c_handles = [TPM2_RH_OWNER], c_auth = [password_session], c_params = primary_params ak_area\<rparr> = Some (resp, view w')"
      using device_decodes(11) [of TPM2_RH_OWNER] by simp
    then obtain h0 where h0: "t_object ch w (x_objects x) = Some h0"
      by (auto simp: chip_answer_def chip_CreatePrimary_def split: option.splits)
    have resp: "resp = primary_response ch w ak_key h0"
      and v: "view w' = set_context (view w) ?ctx (x\<lparr>x_objects := (x_objects x)(h0 \<mapsto> ak_key)\<rparr>)"
      using a unfolding chip_creates(2) [OF h0] by simp_all
    have l: "length resp \<le> 4096" using primary_response_reads(1) [OF wf] resp by simp
    then have "vec_resize (unat (of_nat (length resp) :: u32)) (vec_resize 4096 resp) = resp"
      by (simp add: unat_of_nat vec_resize_cut) (simp add: vec_resize_def)
    then have "h = h0" using 1(5) resp primary_response_reads(3) [OF wf, of w ak_key h0] by simp
    then show ?thesis using chip_wf_handles(2) [OF wf h0] v 1(4) by (simp add: objects_of_def)
  qed
qed

lemma CreateAk_frame:
  assumes b: "tpm_behind api ch view" and wf: "chip_wf ch" and run: "CreateAk api p w = Some (hr, p', w')"
  shows "only_context (tc_context (kp_tpm p)) (view w) (view w')" and "kp_tpm p' = kp_tpm p"
    and "persistentHandle p' = persistentHandle p"
    and "\<not> FAILED hr \<Longrightarrow> is_transient (akHandle p') \<and> objects_of (view w') (tc_context (kp_tpm p)) (akHandle p') = Some ak_key"
proof -
  let ?ctx = "tc_context (kp_tpm p)"
  have e: "FAILED E_FAIL" by (simp add: FAILED_def)
  obtain p0 w0 where f: "FlushTransients api p w = (p0, w0)" by (metis prod.exhaust)
  note f0 = FlushTransients_frame [OF b f]
  obtain r w1 where c: "CreateEk api (kp_tpm p0) w0 = Some (r, w1)"
    using run f by (auto simp: CreateAk_def split: bind_splits)
  have o1: "only_context ?ctx (view w) (view w1)"
    using only_context_trans [OF no_new_object_only [OF f0(1)]] CreateEk_frame [OF b c] f0(2) by simp
  define p2 where "p2 = p0\<lparr>akPublicArea := [], ekHandle := out_of 0 r\<rparr>"
  have p2: "kp_tpm p2 = kp_tpm p" "persistentHandle p2 = persistentHandle p" using f0 by (simp_all add: p2_def)
  consider (no_ek) "p' = p2" "w' = w1" "FAILED hr" | (ek) "CreateAk_load api p2 w1 = Some (hr, p', w')"
    using run f c e by (auto simp: CreateAk_def Let_def p2_def split: if_splits)
  then have "only_context ?ctx (view w) (view w') \<and> kp_tpm p' = kp_tpm p \<and> persistentHandle p' = persistentHandle p
    \<and> (\<not> FAILED hr \<longrightarrow> is_transient (akHandle p') \<and> objects_of (view w') ?ctx (akHandle p') = Some ak_key)"
  proof cases
    case no_ek
    then show ?thesis using o1 p2 by simp
  next
    case ek
    obtain q w2 where q: "CreateAndLoadAk api (kp_tpm p2) TPM_RH_OWNER w1 = Some (q, w2)"
      using ek by (auto simp: CreateAk_load_def split: bind_splits)
    have o2: "only_context ?ctx (view w) (view w2)"
      using only_context_trans [OF o1] CreateAndLoadAk_frame [OF b q] p2(1) by simp
    define p3 where "p3 = p2\<lparr>akHandle := fst (out_of (0, []) q), akPublicArea := snd (out_of (0, []) q)\<rparr>"
    show ?thesis
    proof (cases "FAILED (hr_of q) \<or> akHandle p3 = 0 \<or> akPublicArea p3 = []")
      case True
      obtain p4 w4 where g: "FlushTransients api p3 w2 = (p4, w4)" by (metis prod.exhaust)
      have "p' = p4 \<and> w' = w4 \<and> FAILED hr"
        using ek q g True e by (auto simp: CreateAk_load_def p3_def split: if_splits)
      then show ?thesis
        using FlushTransients_frame [OF b g] only_context_trans [OF o2] no_new_object_only p2 by (auto simp: p3_def)
    next
      case False
      then have p': "p' = p3" "w' = w2" using ek q by (auto simp: CreateAk_load_def p3_def)
      obtain h pub where "q = Inr (h, pub)"
        using False by (cases q) (auto simp: p3_def out_of_def)
      then show ?thesis
        using CreateAndLoadAk_creates [OF b wf, of "kp_tpm p2" w1 h pub w2] q p' o2 p2 by (simp add: p3_def out_of_def)
    qed
  qed
  then show "only_context ?ctx (view w) (view w')" "kp_tpm p' = kp_tpm p" "persistentHandle p' = persistentHandle p"
    "\<not> FAILED hr \<Longrightarrow> is_transient (akHandle p') \<and> objects_of (view w') ?ctx (akHandle p') = Some ak_key"
    by blast+
qed

lemma activation_codes:
  "ReadU32 (patch_command_size StartAuthSession_command) 6 = Some TPM2_CC_StartAuthSession"
  "ReadU32 (patch_command_size (PolicySecret_command s)) 6 = Some TPM2_CC_PolicySecret"
  "ReadU32 (patch_command_size (ActivateCredential_command ak ek s cb es)) 6 = Some TPM2_CC_ActivateCredential"
  "ReadU32 (patch_command_size (EvictControl_command h p)) 6 = Some TPM2_CC_EvictControl"
  by (simp_all add: patched_code writer_simps StartAuthSession_command_def PolicySecret_command_def
      ActivateCredential_command_def EvictControl_command_def Let_def)

lemma ActivateCredential_run_frame:
  assumes b: "tpm_behind api ch view" and run: "ActivateCredential_run api tc ak ek cb es w = Some (q, sh, w')"
  shows "no_new_object (tc_context tc) (view w) (view w')"
proof -
  note start = transact_frame(2) [OF b _ activation_codes(1)]
    and policy = transact_frame(2) [OF b _ activation_codes(2)]
    and activate = transact_frame(2) [OF b _ activation_codes(3)]
  obtain r1 w1 where t1: "transact api tc StartAuthSession_command StartAuthSession_response w = Some (r1, w1)"
    using run by (auto simp: ActivateCredential_run_def split: bind_splits)
  have f1: "no_new_object (tc_context tc) (view w) (view w1)" using start [OF t1] by (simp add: restrained_codes_def)
  show ?thesis
  proof (cases r1)
    case (Inl hr)
    then show ?thesis using run t1 f1 by (auto simp: ActivateCredential_run_def)
  next
    case (Inr s)
    obtain r2 w2 where t2: "transact api tc (PolicySecret_command s) code_only_response w1 = Some (r2, w2)"
      using run t1 Inr by (auto simp: ActivateCredential_run_def split: bind_splits)
    have f2: "no_new_object (tc_context tc) (view w) (view w2)"
      using no_new_object_trans [OF f1] policy [OF t2] by (simp add: restrained_codes_def)
    show ?thesis
    proof (cases r2)
      case (Inl hr)
      then show ?thesis using run t1 t2 Inr f2 by (auto simp: ActivateCredential_run_def)
    next
      case (Inr u)
      obtain r3 where t3: "transact api tc (ActivateCredential_command ak ek s cb es) ActivateCredential_response w2 = Some (r3, w')"
        using run t1 t2 \<open>r1 = Inr s\<close> Inr by (auto simp: ActivateCredential_run_def split: bind_splits)
      show ?thesis using no_new_object_trans [OF f2] activate [OF t3] by (simp add: restrained_codes_def)
    qed
  qed
qed

lemma kp_ActivateCredential_frame:
  assumes b: "tpm_behind api ch view" and run: "kp_ActivateCredential api p cb es w = Some (r, w')"
  shows "no_new_object (tc_context (kp_tpm p)) (view w) (view w')"
proof (cases "akHandle p = 0 \<or> ekHandle p = 0")
  case True
  then show ?thesis using run by (auto simp: kp_ActivateCredential_def)
next
  case False
  then obtain q s w1 where a: "ActivateCredential_run api (kp_tpm p) (akHandle p) (ekHandle p) cb es w = Some (q, s, w1)"
    and w': "w' = (if s \<noteq> 0 then snd (FlushContext api (kp_tpm p) s w1) else w1)"
    using run by (auto simp: kp_ActivateCredential_def ActivateCredential_def Let_def split: bind_splits)
  show ?thesis
    using ActivateCredential_run_frame [OF b a] FlushContext_frame [OF b, where tc = "kp_tpm p" and h = s and w = w1] w'
    by (auto intro: no_new_object_trans)
qed

section \<open>The slot\<close>

text \<open>The code makes one key persistent, in one place: elsewhere the persistent objects stay.\<close>

definition slot_bounded :: "tpm_device \<Rightarrow> tpm_device \<Rightarrow> bool" where
  "slot_bounded d d' \<longleftrightarrow> d_pcrs d' = d_pcrs d
     \<and> (\<forall>h. h \<noteq> TBS_AK_PERSISTENT_HANDLE \<longrightarrow> d_persistent d' h = d_persistent d h)
     \<and> d_persistent d' TBS_AK_PERSISTENT_HANDLE \<in> {d_persistent d TBS_AK_PERSISTENT_HANDLE, None, Some ak_key}"

lemma slot_bounded_refl [simp]: "slot_bounded d d"
  by (simp add: slot_bounded_def)

lemma slot_bounded_trans: "slot_bounded d d' \<Longrightarrow> slot_bounded d' d'' \<Longrightarrow> slot_bounded d d''"
  by (auto simp: slot_bounded_def)

lemma only_context_slot: "only_context ctx d d' \<Longrightarrow> slot_bounded d d'"
  by (simp add: only_context_def slot_bounded_def)

text \<open>The key under a handle of the provider, as long as the code may still store it.\<close>

definition storable :: "tpm_device \<Rightarrow> tbs_key_provider \<Rightarrow> bool" where
  "storable d p \<longleftrightarrow> persistentHandle p = TBS_AK_PERSISTENT_HANDLE \<and> is_transient (akHandle p)
     \<and> objects_of d (tc_context (kp_tpm p)) (akHandle p) \<in> {None, Some ak_key}"

lemma storable_kept: "no_new_object (tc_context (kp_tpm p)) d d' \<Longrightarrow> storable d p \<Longrightarrow> storable d' p"
  by (auto simp: storable_def no_new_object_def map_le_def dom_def)

lemma evict_answer:
  assumes a: "chip_answer ch w ctx d x \<lparr>c_sessions_tag = True, c_code = TPM2_CC_EvictControl,
      c_handles = [TPM2_RH_OWNER, h], c_auth = [password_session], c_params = u32_be s\<rparr> = Some (resp, d')"
  shows "d' = d\<lparr>d_persistent := (d_persistent d)(s := (if is_persistent h then None else x_objects x h))\<rparr>
    \<and> (\<not> is_persistent h \<longrightarrow> x_objects x h \<noteq> None)"
  using a by (auto simp: chip_answer_def chip_EvictControl_def key_at_def split: option.splits if_splits list.splits)

lemma evict_submit:
  assumes x: "d_contexts d ctx = Some x" and s: "chip_submit ch w ctx (patch_command_size (EvictControl_command h s)) d = (r, resp, d')"
  shows "d' = d \<or> d' = d\<lparr>d_persistent := (d_persistent d)(s := (if is_persistent h then None else x_objects x h))\<rparr>"
  using s x evict_answer [of ch w ctx d x h s] device_decodes(8) [of h s]
  by (auto simp: chip_submit_def split: option.splits tpm_fault.splits)

lemma evict_transact:
  assumes b: "tpm_behind api ch view" and wf: "chip_wf ch"
    and run: "transact api tc (EvictControl_command h s) code_only_response w = Some (r, w')"
  shows "view w' = view w \<or> view w' = (view w)\<lparr>d_persistent := (d_persistent (view w))
      (s := (if is_persistent h then None else objects_of (view w) (tc_context tc) h))\<rparr>"
    and "r = Inr () \<Longrightarrow> \<not> is_persistent h \<Longrightarrow>
      d_persistent (view w') s = objects_of (view w) (tc_context tc) h \<and> objects_of (view w) (tc_context tc) h \<noteq> None"
proof -
  let ?ctx = "tc_context tc"
  obtain hr resp where s: "SendCommand api tc (EvictControl_command h s) w = (hr, resp, w')"
    using run by (auto simp: transact_def Let_def split: prod.splits if_splits bind_splits)
  show "view w' = view w \<or> view w' = (view w)\<lparr>d_persistent := (d_persistent (view w))
      (s := (if is_persistent h then None else objects_of (view w) ?ctx h))\<rparr>"
  proof (cases rule: SendCommand_view [OF b s])
    case 1
    then show ?thesis by simp
  next
    case (2 r0 resp0)
    show ?thesis
    proof (cases "d_contexts (view w) ?ctx")
      case None
      then show ?thesis using 2(2) by (simp add: chip_submit_def)
    next
      case (Some x)
      then show ?thesis using evict_submit [OF Some 2(2)] by (cases "is_persistent h") (simp_all add: objects_of_def)
    qed
  qed
  show "d_persistent (view w') s = objects_of (view w) ?ctx h \<and> objects_of (view w) ?ctx h \<noteq> None"
    if "r = Inr ()" "\<not> is_persistent h"
  proof -
    from code_only.executed [OF b wf run [unfolded that(1)]] show ?thesis
    proof cases
      case (1 x c resp)
      then show ?thesis
        using evict_answer [of ch w ?ctx "view w" x h s resp "view w'"] device_decodes(8) [of h s] that(2)
        by (simp add: objects_of_def)
    qed
  qed
qed

text \<open>A store: whatever fails, the slot is as it was, empty, or holds the attestation key.\<close>

lemma EvictControl_frame:
  assumes b: "tpm_behind api ch view" and wf: "chip_wf ch"
    and o: "is_transient h" "objects_of (view w) (tc_context tc) h \<in> {None, Some ak_key}"
    and run: "EvictControl api tc h TBS_AK_PERSISTENT_HANDLE w = Some (r, w')"
  shows "slot_bounded (view w) (view w') \<and> d_contexts (view w') = d_contexts (view w)
    \<and> (r = Inr () \<longrightarrow> d_persistent (view w') TBS_AK_PERSISTENT_HANDLE = Some ak_key)"
proof -
  let ?s = TBS_AK_PERSISTENT_HANDLE
  have np: "\<not> is_persistent h" using handle_kinds(2) [OF o(1)] .
  obtain present w1 where i: "IsPersistentPresent api tc ?s w = Some (present, w1)"
    using run by (auto simp: EvictControl_def split: bind_splits)
  have v1: "view w1 = view w" using calm_submit.IsPersistentPresent [OF device_submit [OF b] i refl] .
  obtain q w2 where c: "(if present then transact api tc (EvictControl_command ?s ?s) code_only_response w1
      else Some (Inr (), w1)) = Some (q, w2)"
    using run i by (auto simp: EvictControl_def split: bind_splits)
  have v2: "slot_bounded (view w) (view w2) \<and> d_contexts (view w2) = d_contexts (view w)"
    using c evict_transact(1) [OF b wf, of tc ?s ?s w1 q w2] v1 slot_is_persistent(1)
    by (auto simp: slot_bounded_def split: if_splits)
  show ?thesis
  proof (cases q)
    case (Inl hr)
    then show ?thesis using run i c v2 by (auto simp: EvictControl_def)
  next
    case (Inr u)
    then have t: "transact api tc (EvictControl_command h ?s) code_only_response w2 = Some (r, w')"
      using run i c by (auto simp: EvictControl_def)
    have o2: "objects_of (view w2) = objects_of (view w)" using v2 by (simp add: objects_of_def fun_eq_iff)
    have "slot_bounded (view w2) (view w') \<and> d_contexts (view w') = d_contexts (view w2)"
      using evict_transact(1) [OF b wf t] np o(2) o2 by (auto simp: slot_bounded_def)
    then show ?thesis
      using v2 slot_bounded_trans evict_transact(2) [OF b wf t _ np] o(2) o2 by auto
  qed
qed

text \<open>The contexts of the other callers.\<close>

definition others_kept :: "u64 \<Rightarrow> tpm_device \<Rightarrow> tpm_device \<Rightarrow> bool" where
  "others_kept ctx d d' \<longleftrightarrow> (\<forall>c. c \<noteq> ctx \<longrightarrow> d_contexts d' c = d_contexts d c)
     \<and> (ctx = 0 \<longrightarrow> d_contexts d' 0 = d_contexts d 0)"

lemma only_context_others: "only_context ctx d d' \<Longrightarrow> others_kept ctx d d'"
  by (auto simp: only_context_def others_kept_def)

lemma others_kept_refl [simp]: "others_kept ctx d d"
  and others_kept_trans: "others_kept ctx d d' \<Longrightarrow> others_kept ctx d' d'' \<Longrightarrow> others_kept ctx d d''"
  by (simp_all add: others_kept_def)

lemma PersistAk_frame:
  assumes b: "tpm_behind api ch view" and wf: "chip_wf ch" and p: "storable (view w) p"
    and run: "PersistAk api p w = Some (hr, p', w')"
  shows "slot_bounded (view w) (view w') \<and> others_kept (tc_context (kp_tpm p)) (view w) (view w') \<and> kp_tpm p' = kp_tpm p
    \<and> (\<not> FAILED hr \<longrightarrow> d_persistent (view w') TBS_AK_PERSISTENT_HANDLE = Some ak_key)"
proof (cases "akHandle p = 0")
  case True
  then show ?thesis using run by (auto simp: PersistAk_def FAILED_def RH_E_NOT_OPEN_def)
next
  case False
  have h: "persistentHandle p = TBS_AK_PERSISTENT_HANDLE" "is_transient (akHandle p)"
    "objects_of (view w) (tc_context (kp_tpm p)) (akHandle p) \<in> {None, Some ak_key}"
    using p by (simp_all add: storable_def)
  obtain r w1 where e: "EvictControl api (kp_tpm p) (akHandle p) TBS_AK_PERSISTENT_HANDLE w = Some (r, w1)"
    using run False h(1) by (auto simp: PersistAk_def split: bind_splits)
  note f = EvictControl_frame [OF b wf h(2,3) e]
  have k: "others_kept (tc_context (kp_tpm p)) (view w) (view w1)" using f by (simp add: others_kept_def)
  show ?thesis
  proof (cases "FAILED (hr_of r)")
    case True
    then show ?thesis using run False h(1) e f k by (auto simp: PersistAk_def)
  next
    case False
    then have r: "r = Inr ()" using e False by (cases r) (auto simp: hr_of_def dest: EvictControl_error)
    obtain p2 w2 where t: "FlushTransients api p w1 = (p2, w2)" by (metis prod.exhaust)
    have res: "p' = p2" "w' = w2" using run \<open>akHandle p \<noteq> 0\<close> h(1) e False t by (auto simp: PersistAk_def)
    note n = no_new_object_only [OF FlushTransients_frame(1) [OF b t]]
    have "d_persistent (view w2) = d_persistent (view w1)" using n by (simp add: only_context_def)
    then show ?thesis
      using f r k res FlushTransients_frame(2) [OF b t] slot_bounded_trans only_context_slot [OF n]
        others_kept_trans [OF k only_context_others [OF n]] by auto
  qed
qed

lemma kp_Destroy_frame:
  assumes b: "tpm_behind api ch view"
  shows "d_persistent (view (kp_Destroy api p w)) = d_persistent (view w) \<and> d_pcrs (view (kp_Destroy api p w)) = d_pcrs (view w)
    \<and> d_contexts (view (kp_Destroy api p w)) = (if tc_context (kp_tpm p) = 0 then d_contexts (view w)
         else (d_contexts (view w))(tc_context (kp_tpm p) := None))"
proof -
  let ?ctx = "tc_context (kp_tpm p)"
  obtain q v where f: "FlushTransients api p w = (q, v)" by (metis prod.exhaust)
  have o: "only_context ?ctx (view w) (view v)" using no_new_object_only [OF FlushTransients_frame(1) [OF b f]] .
  have q: "kp_tpm q = kp_tpm p" using FlushTransients_frame(2) [OF b f] .
  have k: "kp_Destroy api p w = (if ?ctx = 0 then v else Tbsip_Context_Close api ?ctx v)"
    using q by (simp add: kp_Destroy_def kp_Close_def f TpmCommands_Close_def uh_Destroy_def uh_Reset_def
        uh_valid_def TbsContextTraits_def Let_def)
  show ?thesis
  proof (cases "?ctx = 0")
    case True
    then show ?thesis using k o by (simp add: only_context_def)
  next
    case False
    have "d_contexts (view v) c = d_contexts (view w) c" if "c \<noteq> ?ctx" for c
      using o that by (simp add: only_context_def)
    then show ?thesis
      using k o False context_close_on_device [OF b, of ?ctx v] by (auto simp: only_context_def fun_eq_iff)
  qed
qed

section \<open>The calls\<close>

text \<open>
  The device of a client that started on \<open>d0\<close>: the slot is bounded, and every context is as it was
  except the one of the enrollment in flight.
\<close>

definition client_bounds :: "enroll_provider \<Rightarrow> tpm_device \<Rightarrow> tpm_device \<Rightarrow> bool" where
  "client_bounds g d0 d \<longleftrightarrow> slot_bounded d0 d
     \<and> (case g of None \<Rightarrow> d_contexts d = d_contexts d0
        | Some p \<Rightarrow> storable d p \<and> others_kept (tc_context (kp_tpm p)) d0 d \<and> tc_context (kp_tpm p) \<noteq> 0
            \<and> d_contexts d0 (tc_context (kp_tpm p)) = None \<and> d_contexts d (tc_context (kp_tpm p)) \<noteq> None)"

text \<open>A provider that is opened and destroyed leaves nothing behind, whatever it created.\<close>

lemma provider_bracket:
  assumes b: "tpm_behind api ch view" "chip_wf ch"
    and o: "kp_Open api (new_TbsKeyProvider s) w = (hr, p, w1)"
    and v: "kp_tpm q = kp_tpm p" "only_context (tc_context (kp_tpm p)) (view w1) (view v)"
  shows "view (kp_Destroy api q v) = view w"
proof -
  obtain tc where t: "TpmCommands_Open api new_TpmCommands w = (hr, tc, w1)" "kp_tpm p = tc"
    using o by (auto simp: kp_Open_def new_TbsKeyProvider_def split: prod.splits)
  note d = kp_Destroy_frame [OF b(1), of q v]
  show ?thesis
    using TpmCommands_Open_cases [OF b t(1)] d v t(2)
    by (auto intro!: tpm_device.equality simp: only_context_def fun_eq_iff split: if_splits)
qed

lemma DeleteAk_frame:
  assumes "tpm_behind api ch view" and "DeleteAk api p w = (hr, p', w')"
  shows "no_new_object (tc_context (kp_tpm p)) (view w) (view w')" and "kp_tpm p' = kp_tpm p"
proof -
  have "FlushTransients api p w = (p', w')" using assms(2) by (simp add: DeleteAk_def split: prod.splits)
  from FlushTransients_frame(1,2) [OF assms(1) this]
  show "no_new_object (tc_context (kp_tpm p)) (view w) (view w')" "kp_tpm p' = kp_tpm p" by simp_all
qed

lemma drop_provider_bounds:
  assumes b: "tpm_behind api ch view" and c: "client_bounds g d0 (view w)"
    and n: "tc_context (kp_tpm p) \<noteq> 0" "d_contexts (view w) (tc_context (kp_tpm p)) = None"
    and v: "view v = set_context (view w) (tc_context (kp_tpm p)) x" and p: "storable (view v) p"
  shows "client_bounds (Some p) d0 (view (drop_provider api g v)) \<and> d_persistent (view (drop_provider api g v)) = d_persistent (view w)"
proof (cases g)
  case None
  then show ?thesis using c n v p by (auto simp: drop_provider_def client_bounds_def others_kept_def slot_bounded_def)
next
  case (Some q)
  note d = kp_Destroy_frame [OF b, of q v]
  have ne: "tc_context (kp_tpm q) \<noteq> tc_context (kp_tpm p)" using c n Some by (auto simp: client_bounds_def)
  have "d_contexts d0 (tc_context (kp_tpm p)) = None"
    using c Some n ne by (auto simp: client_bounds_def others_kept_def)
  then show ?thesis
    using d c n v p Some ne
    by (auto simp: drop_provider_def client_bounds_def others_kept_def slot_bounded_def storable_def objects_of_def)
qed

lemma EnrollBegin_emit_bounds:
  assumes m: "tpm_machine win ch view" and c: "client_bounds g d0 (view w0)"
    and o: "kp_Open (w_tbs win) (new_TbsKeyProvider s) w0 = (hr, q, w1)"
    and p: "kp_tpm p = kp_tpm q" "only_context (tc_context (kp_tpm q)) (view w1) (view w)"
      "tc_context (kp_tpm q) \<noteq> 0" "storable (view w) p"
    and run: "EnrollBegin_emit win ek p g w = (st, out, g', w')"
  shows "client_bounds g' d0 (view w') \<and> d_persistent (view w') = d_persistent (view w0)"
proof -
  have b: "tpm_behind (w_tbs win) ch view" "chip_wf ch" using m by (simp_all add: tpm_machine_def)
  let ?ctx = "tc_context (kp_tpm q)"
  obtain tc where t: "TpmCommands_Open (w_tbs win) new_TpmCommands w0 = (hr, tc, w1)" "kp_tpm q = tc"
    using o by (auto simp: kp_Open_def new_TbsKeyProvider_def split: prod.splits)
  have opened: "d_contexts (view w0) ?ctx = None" "view w1 = set_context (view w0) ?ctx empty_context"
    using TpmCommands_Open_cases [OF b t(1)] p(3) t(2) by auto
  then obtain x where x: "view w = set_context (view w0) ?ctx x"
  proof -
    obtain x where "d_contexts (view w) ?ctx = Some x"
      using p(2) opened(2) by (auto simp: only_context_def)
    then have "view w = set_context (view w0) ?ctx x"
      using p(2) opened by (auto intro!: tpm_device.equality simp: only_context_def fun_eq_iff)
    then show thesis by (rule that)
  qed
  have abandoned: "view (kp_Destroy (w_tbs win) p' v') = view w0"
    if d: "DeleteAk (w_tbs win) p v = (h, p', v')" and v: "view v = view w" for v h p' v'
    using provider_bracket [OF b o] DeleteAk_frame [OF b(1) d] v p(1,2) only_context_trans no_new_object_only by metis
  have q: "calm_process (w_process win) (\<lambda>v. view v = view w)"
    using m unfolding tpm_machine_def quiet_windows_def by blast
  show ?thesis
  proof (cases "GetAkPublicArea p = []")
    case True
    then show ?thesis using run abandoned [OF _ refl] c
      by (auto simp: EnrollBegin_emit_def Let_def split: prod.splits)
  next
    case False
    obtain buffer v where a: "malloc_text (w_process win) (JsonBuild (BuildEnrollFields (w_strings win) ek (GetAkPublicArea p))) w
        = (buffer, v)" by (metis prod.exhaust)
    have v: "view v = view w" using calm_process.malloc_text [OF q a refl] .
    show ?thesis
    proof (cases buffer)
      case None
      then show ?thesis using run a False abandoned [OF _ v] c
        by (auto simp: EnrollBegin_emit_def Let_def split: prod.splits)
    next
      case (Some buf)
      have "g' = Some p" "w' = drop_provider (w_tbs win) g v"
        using run a False Some by (auto simp: EnrollBegin_emit_def Let_def)
      then show ?thesis
        using drop_provider_bounds [OF b(1) c, of p v x] p opened(1) x v by simp
    qed
  qed
qed

lemma EnrollBegin_bounds:
  assumes m: "tpm_machine win ch view" and c: "client_bounds g d0 (view w)"
    and run: "RootHeraldEnrollBegin win out g w = Some (st, out', g', w')"
  shows "client_bounds g' d0 (view w') \<and> d_persistent (view w') = d_persistent (view w)"
proof (cases out)
  case None
  then show ?thesis using run c by (simp add: RootHeraldEnrollBegin_def)
next
  case (Some buf)
  have b: "tpm_behind (w_tbs win) ch view" "chip_wf ch" using m by (simp_all add: tpm_machine_def)
  obtain elevated w1 where e: "IsProcessElevated win w = (elevated, w1)" by (metis prod.exhaust)
  have v1: "view w1 = view w" using calm_driver.IsProcessElevated [OF device_driver [OF m] e refl] .
  show ?thesis
  proof (cases elevated)
    case False
    then show ?thesis using run Some e c v1 by (simp add: RootHeraldEnrollBegin_def)
  next
    case True
    obtain ek w2 where k: "GatherEkEnrollData win w1 = Some (ek, w2)"
      using run Some e True by (auto simp: RootHeraldEnrollBegin_def split: bind_splits)
    have v2: "view w2 = view w" using Gather_on_device [OF m k] v1 by simp
    show ?thesis
    proof (cases ek)
      case None
      then show ?thesis using run Some e True k c v2 by (simp add: RootHeraldEnrollBegin_def)
    next
      case (Some ek')
      have key: "EnrollBegin_key win ek' g w2 = Some (st, out', g', w')"
        using run \<open>out = Some buf\<close> e True k Some by (simp add: RootHeraldEnrollBegin_def)
      obtain hr p w3 where o: "kp_Open (w_tbs win) (new_TbsKeyProvider TBS_AK_PERSISTENT_HANDLE) w2 = (hr, p, w3)"
        by (metis prod_cases3)
      show ?thesis
      proof (cases "FAILED hr")
        case True
        then show ?thesis using key o provider_bracket [OF b o refl] c v2 by (auto simp: EnrollBegin_key_def)
      next
        case False
        obtain hr' p' w4 where ak: "CreateAk (w_tbs win) p w3 = Some (hr', p', w4)"
          using key o False by (auto simp: EnrollBegin_key_def split: bind_splits)
        note f = CreateAk_frame [OF b ak]
        show ?thesis
        proof (cases "FAILED hr'")
          case True
          then show ?thesis
            using key o False ak provider_bracket [OF b o f(2,1)] c v2 by (auto simp: EnrollBegin_key_def)
        next
          case ok: False
          have em: "EnrollBegin_emit win ek' p' g w4 = (st, out', g', w')"
            using key o False ak ok by (simp add: EnrollBegin_key_def)
          have s: "storable (view w4) p'"
            using f(2,3) f(4) [OF ok] kp_Open_fields [OF o] by (simp add: storable_def new_TbsKeyProvider_def)
          have n: "tc_context (kp_tpm p) \<noteq> 0" using CreateAk_ready(1) [OF ak ok] f(2) by simp
          have "client_bounds g d0 (view w2)" using c v2 by simp
          from EnrollBegin_emit_bounds [OF m this o f(2,1) n s em] v2 show ?thesis by simp
        qed
      qed
    qed
  qed
qed

text \<open>The end of an enrollment: its context is closed, and only the slot may have changed.\<close>

lemma enrollment_closed:
  assumes b: "tpm_behind api ch view" and c: "client_bounds (Some p) d0 (view w)"
    and s: "slot_bounded (view w) (view v)" and o: "others_kept (tc_context (kp_tpm p)) (view w) (view v)"
    and q: "kp_tpm q = kp_tpm p"
  shows "client_bounds None d0 (view (kp_Destroy api q v)) \<and> d_persistent (view (kp_Destroy api q v)) = d_persistent (view v)"
proof -
  note d = kp_Destroy_frame [OF b, of q v]
  have "d_contexts (view (kp_Destroy api q v)) = d_contexts d0"
    using d c o q by (auto simp: client_bounds_def others_kept_def fun_eq_iff)
  moreover have "slot_bounded d0 (view v)" using c slot_bounded_trans [OF _ s] by (auto simp: client_bounds_def)
  ultimately show ?thesis using d by (simp add: client_bounds_def slot_bounded_def)
qed

lemma EnrollComplete_bounds:
  assumes m: "tpm_machine win ch view" and c: "client_bounds g d0 (view w)"
    and run: "RootHeraldEnrollComplete win ch_json out g w = Some (st, out', g', w')"
  shows "client_bounds g' d0 (view w')
    \<and> (st = ROOTHERALD_OK \<longrightarrow> d_persistent (view w') TBS_AK_PERSISTENT_HANDLE = Some ak_key)"
proof (cases "st \<notin> complete_ends \<and> g' = g \<and> w' = w")
  case True
  then show ?thesis using c by (auto simp: complete_ends_def)
next
  case False
  have b: "tpm_behind (w_tbs win) ch view" "chip_wf ch" using m by (simp_all add: tpm_machine_def)
  let ?get = "\<lambda>t n. JsonGet (c_str t) n"
  obtain challenge p where ch: "ch_json = Some challenge" and p: "g = Some p" and out: "out \<noteq> None"
    and given: "?get challenge ''deviceId'' \<noteq> []" "?get challenge ''credentialBlob'' \<noteq> []" "?get challenge ''encryptedSecret'' \<noteq> []"
    using run False
    by (auto simp: RootHeraldEnrollComplete_def Let_def complete_ends_def split: option.splits if_splits)
  obtain r w1 where a: "kp_ActivateCredential (w_tbs win) p (Base64Decode (w_strings win) (?get challenge ''credentialBlob''))
      (Base64Decode (w_strings win) (?get challenge ''encryptedSecret'')) w = Some (r, w1)"
    using run ch p out given by (auto simp: RootHeraldEnrollComplete_def Let_def split: bind_splits)
  note n = kp_ActivateCredential_frame [OF b(1) a]
  note s1 = only_context_slot [OF no_new_object_only [OF n]] and o1 = only_context_others [OF no_new_object_only [OF n]]
  have cp: "client_bounds (Some p) d0 (view w)" using c p by simp
  have stored: "storable (view w1) p" using storable_kept [OF n] cp by (simp add: client_bounds_def)
  show ?thesis
  proof (cases "FAILED (hr_of r) \<or> out_of [] r = []")
    case True
    obtain hr q w2 where d: "DeleteAk (w_tbs win) p w1 = (hr, q, w2)" by (metis prod_cases3)
    have res: "st = ROOTHERALD_ERR_ACTIVATION_FAILED" "g' = None" "w' = kp_Destroy (w_tbs win) q w2"
      using run ch p out given a True d by (auto simp: RootHeraldEnrollComplete_def Let_def)
    note f = DeleteAk_frame [OF b(1) d]
    have "client_bounds None d0 (view w')"
      using enrollment_closed [OF b(1) cp _ _ f(2), of w2] res(3)
        slot_bounded_trans [OF s1 only_context_slot [OF no_new_object_only [OF f(1)]]]
        others_kept_trans [OF o1 only_context_others [OF no_new_object_only [OF f(1)]]] by simp
    then show ?thesis using res by simp
  next
    case ok: False
    obtain hr q w2 where k: "PersistAk (w_tbs win) p w1 = Some (hr, q, w2)"
      using run ch p out given a ok
      by (auto simp: RootHeraldEnrollComplete_def EnrollComplete_persist_def Let_def split: bind_splits)
    note f = PersistAk_frame [OF b stored k]
    let ?v = "kp_Destroy (w_tbs win) q w2"
    have q: "kp_tpm q = kp_tpm p" using f by simp
    have e: "client_bounds None d0 (view ?v) \<and> d_persistent (view ?v) = d_persistent (view w2)"
      by (rule enrollment_closed [OF b(1) cp _ _ q]) (use f slot_bounded_trans [OF s1] others_kept_trans [OF o1] in simp_all)
    have pr: "calm_process (w_process win) (\<lambda>v. view v = view ?v)"
      using m unfolding tpm_machine_def quiet_windows_def by blast
    have "g' = None \<and> view w' = view ?v \<and> (st = ROOTHERALD_OK \<longrightarrow> \<not> FAILED hr)"
      using run ch p out given a ok k calm_process.malloc_text [OF pr]
      by (auto simp: RootHeraldEnrollComplete_def EnrollComplete_persist_def Let_def split: if_splits prod.splits option.splits)
    then show ?thesis using e f by auto
  qed
qed

section \<open>Any sequence of calls\<close>

definition observes :: "client_call \<Rightarrow> bool" where
  "observes call \<longleftrightarrow> leg_of call \<in> {Evidence_Call, Posture_Call, Free_Call}"

definition call_bounds ::
    "('w \<Rightarrow> tpm_device) \<Rightarrow> tpm_device \<Rightarrow> enroll_provider \<times> 'w \<Rightarrow> client_call \<Rightarrow> call_result \<Rightarrow> enroll_provider \<times> 'w \<Rightarrow> bool" where
  "call_bounds view d0 s call r s' \<longleftrightarrow> client_bounds (fst s') d0 (view (snd s'))
     \<and> (observes call \<longrightarrow> view (snd s') = view (snd s))
     \<and> (leg_of call = Begin_Leg \<longrightarrow> d_persistent (view (snd s')) = d_persistent (view (snd s)))
     \<and> (leg_of call = Complete_Leg \<longrightarrow> fst r = ROOTHERALD_OK \<longrightarrow>
          d_persistent (view (snd s')) TBS_AK_PERSISTENT_HANDLE = Some ak_key)"

lemma observing_bounds:
  "leg_of call \<in> {Evidence_Call, Posture_Call, Free_Call} \<Longrightarrow> view w' = view w \<Longrightarrow> client_bounds g d0 (view w) \<Longrightarrow>
   call_bounds view d0 (g, w) call r (g, w')"
  by (auto simp: call_bounds_def)

lemma client_step_bounds:
  assumes m: "tpm_machine win ch view" and c: "client_bounds (fst s) d0 (view (snd s))" and run: "client_step win s call r s'"
  shows "call_bounds view d0 s call r s'"
  using run
proof (cases rule: client_step.cases)
  case (step_begin c' out g w st out' g' w')
  have "client_bounds g' d0 (view w') \<and> d_persistent (view w') = d_persistent (view w)"
    using step_begin(5) EnrollBegin_bounds [OF m] c step_begin(1)
    by (auto simp: RootHeraldClient_EnrollBegin_def with_lock_def Let_def split: if_splits option.splits)
  then show ?thesis using step_begin by (simp add: call_bounds_def observes_def)
next
  case (step_complete c' chal out g w st out' g' w')
  have "client_bounds g' d0 (view w')
      \<and> (st = ROOTHERALD_OK \<longrightarrow> d_persistent (view w') TBS_AK_PERSISTENT_HANDLE = Some ak_key)"
    using step_complete(5) EnrollComplete_bounds [OF m] c step_complete(1)
    by (auto simp: RootHeraldClient_EnrollComplete_def with_lock_def Let_def split: if_splits)
  then show ?thesis using step_complete by (simp add: call_bounds_def observes_def)
next
  case (step_evidence n out w st out' w' g)
  have "view w' = view w"
    using step_evidence(5) CollectEvidence_view [OF m]
    by (auto simp: RootHeraldClient_CollectEvidence_def Let_def split: if_splits)
  then show ?thesis using step_evidence c by (auto intro: observing_bounds)
next
  case (step_posture c' out w st out' w' g)
  have "view w' = view w"
    using step_posture(5) CollectLocalPosture_view [OF m]
    by (auto simp: RootHeraldClient_CollectPosture_def with_lock_def Let_def split: if_splits)
  then show ?thesis using step_posture c by (auto intro: observing_bounds)
next
  case (step_free g w buf)
  have pr: "calm_process (w_process win) (\<lambda>v. view v = view w)"
    using m unfolding tpm_machine_def quiet_windows_def by blast
  have "view (RootHeraldClient_FreeEvidence win buf w) = view w"
    using calm_process.free [OF pr refl] by (simp add: RootHeraldClient_FreeEvidence_def RootHeraldFreeEvidence_def)
  then show ?thesis using step_free c by (auto intro: observing_bounds)
qed

lemma client_run_bounds:
  assumes m: "tpm_machine win ch view" and run: "client_run win s trace s'" and c: "client_bounds (fst s) d0 (view (snd s))"
  shows "client_bounds (fst s') d0 (view (snd s'))"
  using run c
proof induction
  case (run_nil s)
  then show ?case .
next
  case (run_snoc s trace s' call r s'')
  then show ?case using client_step_bounds [OF m _ run_snoc(2)] by (simp add: call_bounds_def)
qed

lemma client_call_bounds:
  assumes m: "tpm_machine win ch view" and run: "client_run win (None, w) trace s" and call: "client_step win s call r s'"
  shows "call_bounds view (view w) s call r s'"
proof -
  have "client_bounds None (view w) (view w)" by (simp add: client_bounds_def)
  then show ?thesis using client_run_bounds [OF m run] client_step_bounds [OF m _ call] by simp
qed

lemma client_bounds_contexts:
  "client_bounds g d0 d \<Longrightarrow> \<forall>p. g = Some p \<longrightarrow> ctx \<noteq> tc_context (kp_tpm p) \<Longrightarrow> d_contexts d ctx = d_contexts d0 ctx"
  by (cases g) (simp_all add: client_bounds_def others_kept_def)

lemma client_bounds_elim:
  assumes "call_bounds view d0 (g, w1) call (st, out) (g', w2)"
  shows "(\<forall>h. h \<noteq> TBS_AK_PERSISTENT_HANDLE \<longrightarrow> d_persistent (view w2) h = d_persistent d0 h)
    \<and> d_persistent (view w2) TBS_AK_PERSISTENT_HANDLE \<in> {d_persistent d0 TBS_AK_PERSISTENT_HANDLE, None, Some ak_key}
    \<and> (\<forall>ctx. (\<forall>p. g' = Some p \<longrightarrow> ctx \<noteq> tc_context (kp_tpm p)) \<longrightarrow> d_contexts (view w2) ctx = d_contexts d0 ctx)
    \<and> (leg_of call \<in> {Evidence_Call, Posture_Call, Free_Call} \<longrightarrow> view w2 = view w1)
    \<and> (leg_of call = Begin_Leg \<longrightarrow> d_persistent (view w2) = d_persistent (view w1))
    \<and> (leg_of call = Complete_Leg \<longrightarrow> st = ROOTHERALD_OK \<longrightarrow>
        d_persistent (view w2) TBS_AK_PERSISTENT_HANDLE = Some ak_key)"
  using assms client_bounds_contexts [of g' d0 "view w2"]
  by (auto simp: call_bounds_def observes_def client_bounds_def slot_bounded_def)

end
