(* ===== verification/Virtual_Tpm.thy ===== *)
theory Virtual_Tpm
  imports Attested_Device Slot_Safety
begin

text \<open>
  A TPM in software that satisfies the contract of \<open>Tpm_Device\<close>, a machine around it with the quiet
  interfaces of \<open>Sample_Machine\<close> and a hexadecimal text codec, and the properties of the client on a
  device, each with its run on that machine.
\<close>

section \<open>The device\<close>

definition virtual_chip :: "tpm_device tpm_chip" where
  "virtual_chip = \<lparr>
     t_fault = (\<lambda>_. No_Fault),
     t_context = (\<lambda>_ m. find (\<lambda>h. m h = None) [1, 2, 3, 4, 5, 6, 7, 8]),
     t_object = (\<lambda>_ m. find (\<lambda>h. m h = None) [0x80000000, 0x80000001, 0x80000002]),
     t_session = (\<lambda>_ m. find (\<lambda>h. m h = None) [0x03000000, 0x03000001, 0x03000002]),
     t_area = (\<lambda>k. u32_be (k_hierarchy k)),
     t_policy = (\<lambda>proved. if proved = [TPM2_RH_EK] then EK_POLICY else []),
     t_open = (\<lambda>e a blob seed. if seed = rev blob then Some (take 64 blob) else None),
     t_attest = (\<lambda>k nonce vs. take 64 nonce @ map (\<lambda>v. of_nat (fst v)) (take 24 vs)),
     t_sign = (\<lambda>k attest. rev (take 256 attest)),
     t_creation = (\<lambda>_. []),
     t_tail = (\<lambda>_. [0, 0, 1, 0, 0]),
     t_nv = (\<lambda>_ _. refusal 0x18B)\<rparr>"

definition virtual_tbs :: "tpm_device tpm_chip \<Rightarrow> tpm_device tbs_api" where
  "virtual_tbs ch = \<lparr>
     Tbsi_Context_Create = (\<lambda>d. case t_context ch d (d_contexts d) of
        None \<Rightarrow> (0x80284001, 0, d) | Some h \<Rightarrow> (TBS_SUCCESS, h, set_context d h empty_context)),
     Tbsip_Submit_Command = (\<lambda>h cmd d. case chip_submit ch d h cmd d of
        (r, resp, d) \<Rightarrow> (r, resp, of_nat (length resp), d)),
     Tbsip_Context_Close = (\<lambda>h d. d\<lparr>d_contexts := (d_contexts d)(h := None)\<rparr>),
     Tbsi_Get_TCG_Log_Ex = (\<lambda>_ d. (0x80284001, [], 0, d))\<rparr>"

lemma virtual_tbs_behind: "tpm_behind (virtual_tbs ch) ch (\<lambda>d. d)"
  by (auto simp: tpm_behind_def virtual_tbs_def split: option.splits prod.splits)

lemma find_free:
  assumes "finite (dom m)" and "card (dom m) < length hs" and "distinct hs"
  shows "find (\<lambda>h. m h = None) hs \<noteq> None"
proof
  assume "find (\<lambda>h. m h = None) hs = None"
  then have "set hs \<subseteq> dom m" by (auto simp: find_None_iff)
  then have "card (set hs) \<le> card (dom m)" using assms(1) by (rule card_mono [rotated])
  then show False using assms(2,3) by (simp add: distinct_card)
qed

lemma virtual_chip_obliging: "obliging virtual_chip"
proof -
  have "find (\<lambda>h. m h = None) [1, 2, 3, 4, 5, 6, 7, 8 :: u64] \<noteq> None"
    if "finite (dom m)" "card (dom m) < 8" for m :: "u64 \<rightharpoonup> tbs_context"
    by (rule find_free) (use that in simp_all)
  moreover have "find (\<lambda>h. m h = None) [0x80000000, 0x80000001, 0x80000002 :: u32] \<noteq> None"
    if "finite (dom m)" "card (dom m) < 3" for m :: "u32 \<rightharpoonup> tpm_key"
    by (rule find_free) (use that in simp_all)
  moreover have "find (\<lambda>h. m h = None) [0x03000000, 0x03000001, 0x03000002 :: u32] \<noteq> None"
    if "finite (dom m)" "card (dom m) < 3" for m :: "u32 \<rightharpoonup> u32 list"
    by (rule find_free) (use that in simp_all)
  ultimately show ?thesis
    unfolding obliging_def virtual_chip_def by simp
qed

lemma find_Some_in: "find P xs = Some x \<Longrightarrow> x \<in> set xs \<and> P x"
  by (metis find_Some_iff nth_mem)

lemma virtual_chip_handles: "chip_handles virtual_chip"
  by (auto simp: chip_handles_def virtual_chip_def is_transient_def is_policy_session_def
      dest!: find_Some_in simp del: find.simps)

lemma virtual_chip_wf: "chip_wf virtual_chip"
proof -
  have "length (refusal 0x18B) = 10" by (simp add: refusal_def)
  then have "chip_sizes virtual_chip"
    by (auto simp: chip_sizes_def virtual_chip_def)
  moreover have "chip_secrets virtual_chip" by (auto simp: chip_secrets_def virtual_chip_def split: if_splits)
  moreover have "\<exists>hr. NV_Read_response (refusal 0x18B) = Some (Inl hr)"
    using nv_read.parse_code [where resp = "refusal 0x18B" and rc = "0x18B"] by (simp add: refusal_def)
  then have "chip_reads virtual_chip" by (auto simp: chip_reads_def virtual_chip_def)
  ultimately show ?thesis using virtual_chip_handles by (simp add: chip_wf_def)
qed

section \<open>The machine\<close>

fun hex_digit :: "char \<Rightarrow> u8" where
  "hex_digit c = of_nat (length (takeWhile (\<lambda>x. x \<noteq> c) hex_lower))"

fun hex_parse :: "string \<Rightarrow> bytes" where
  "hex_parse (a # b # cs) = (push_bit 4 (hex_digit a) OR hex_digit b) # hex_parse cs"
| "hex_parse _ = []"

definition hex_strings :: crypt_string_api where
  "hex_strings = \<lparr>
     CryptBinaryToStringA = (\<lambda>data size. let t = hex_render hex_lower data in
       case size of None \<Rightarrow> ([], of_nat (length t + 1)) | Some _ \<Rightarrow> (t, of_nat (length t))),
     CryptStringToBinaryA = (\<lambda>t size. let data = hex_parse t in
       case size of None \<Rightarrow> ([], of_nat (length data)) | Some _ \<Rightarrow> (data, of_nat (length data)))\<rparr>"

definition virtual_machine :: "(bytes, tpm_device) windows" where
  "virtual_machine = \<lparr>w_tbs = virtual_tbs virtual_chip, w_ncrypt = sample_ncrypt, w_reg = sample_reg, w_cert = ca_api,
     w_bcrypt = sample_bcrypt, w_strings = hex_strings, w_http = sample_http, w_process = sample_process\<rparr>"

lemma virtual_machine_quiet: "quiet_windows virtual_machine (\<lambda>d. d)"
  unfolding quiet_windows_def virtual_machine_def windows.select_convs
  by (intro allI conjI; unfold_locales)
    (auto simp: sample_ncrypt_def sample_reg_def sample_bcrypt_def sample_http_def sample_process_def split: if_splits)

lemma virtual_machine: "tpm_machine virtual_machine virtual_chip (\<lambda>d. d)"
  using virtual_machine_quiet virtual_chip_wf virtual_tbs_behind [of virtual_chip]
  by (simp add: tpm_machine_def virtual_machine_def)

definition factory_device :: tpm_device where
  "factory_device = \<lparr>d_contexts = (\<lambda>_. None), d_persistent = (\<lambda>_. None), d_pcrs = (\<lambda>i. replicate 32 (of_nat i))\<rparr>"

lemma factory_device: "has_room (factory_device\<lparr>d_persistent := p\<rparr>)" "bank_wf (factory_device\<lparr>d_persistent := p\<rparr>)"
    "has_room factory_device" "bank_wf factory_device"
  by (simp_all add: has_room_def bank_wf_def factory_device_def)

text \<open>The key material the machine gathers.\<close>

lemma virtual_stores:
  "ReadEkCertFromWindowsStore sample_reg w = Some ([], w)"
  "ReadWindowsTpmIntermediateStore c sample_reg w = Some ([], w)"
proof -
  have reg: "with_reg_key sample_reg p n (\<lambda>status key w. if status \<noteq> ERROR_SUCCESS then Some ([], w) else body status key w) w
      = Some ([], w)" for p n body and w :: 'a
    by (simp add: with_reg_key_def sample_reg_def uh_Put_def uh_Reset_def uh_Destroy_def RegKeyTraits_def)
  show "ReadEkCertFromWindowsStore sample_reg w = Some ([], w)"
    "ReadWindowsTpmIntermediateStore c sample_reg w = Some ([], w)"
    unfolding ReadEkCertFromWindowsStore_def ReadWindowsTpmIntermediateStore_def reg by simp_all
qed

lemma virtual_pcp:
  "pcp_Open sample_ncrypt new_TpmPcp w = (S_OK, \<lparr>pcp_provider = 7\<rparr>, w)"
  "ReadEkPublicKey sample_ncrypt \<lparr>pcp_provider = 7\<rparr> w = (Inr [1, 2, 3], w)"
  "\<exists>hr. ReadEkCertificate sample_ncrypt \<lparr>pcp_provider = 7\<rparr> w = (Inl hr, w)"
  by (simp_all add: pcp_Open_def new_TpmPcp_def uh_valid_def uh_Put_def uh_Reset_def FAILED_def
      NcryptProviderTraits_def sample_ncrypt_def ReadEkPublicKey_def ReadEkCertificate_def ReadProperty_def vec_resize_def)

lemma virtual_parts:
  "w_tbs virtual_machine = virtual_tbs virtual_chip" "w_ncrypt virtual_machine = sample_ncrypt"
  "w_reg virtual_machine = sample_reg" "w_cert virtual_machine = ca_api" "w_bcrypt virtual_machine = sample_bcrypt"
  "w_strings virtual_machine = hex_strings" "w_process virtual_machine = sample_process"
  by (simp_all add: virtual_machine_def)

lemma virtual_gather: "\<exists>ek w'. GatherEkEnrollData virtual_machine w = Some (Some ek, w')"
proof -
  obtain hr where "ReadEkCertificate sample_ncrypt \<lparr>pcp_provider = 7\<rparr> w = (Inl hr, w)"
    by (rule exE [OF virtual_pcp(3)])
  then have cert: "gather_certificate virtual_machine \<lparr>pcp_provider = 7\<rparr> [1, 2, 3] w = Some ([], w)"
    by (simp add: gather_certificate_def read_ek_certificate_def virtual_parts virtual_stores ExtractRsaModulusFromEkPub_def)
  have "defined (gather_intermediates virtual_machine w)"
    using ReadIntelOdca_on_device [OF virtual_tbs_behind virtual_chip_wf]
    by (simp add: gather_intermediates_def virtual_parts virtual_stores never_faults Let_def)
  then obtain cs w' where "gather_intermediates virtual_machine w = Some (cs, w')" by (metis definedE prod.exhaust)
  then show ?thesis
    using cert by (simp add: GatherEkEnrollData_def virtual_parts virtual_pcp FAILED_def)
qed

lemma virtual_elevated: "IsProcessElevated virtual_machine w = (True, w)"
  by (simp add: IsProcessElevated_def with_handle_def virtual_parts sample_process_def
      uh_Put_def uh_Reset_def uh_Destroy_def KernelHandleTraits_def)

lemma virtual_memory: "memory_suffices (w_process virtual_machine)"
  by (simp add: memory_suffices_def virtual_parts sample_process_def)

definition virtual_challenge :: string where
  "virtual_challenge = JsonBuild [(''credentialBlob'', ''000107''), (''deviceId'', ''d''), (''encryptedSecret'', ''000107'')]"

lemma virtual_challenge: "challenge_carries virtual_machine virtual_challenge ''d'' [7] [7]"
proof -
  have "c_str virtual_challenge = virtual_challenge" "JsonGet virtual_challenge ''deviceId'' = ''d''"
    "JsonGet virtual_challenge ''credentialBlob'' = ''000107''"
    "JsonGet virtual_challenge ''encryptedSecret'' = ''000107''"
    by code_simp+
  moreover have "hex_parse ''000107'' = [0, 1, 7]" by (simp add: hex_lower_def)
  then have "Base64Decode hex_strings ''000107'' = sized_buffer [7]"
    by (simp add: Base64Decode_def hex_strings_def c_str_def vec_resize_def sized_buffer_def u16_be_def)
  ultimately show ?thesis by (simp add: challenge_carries_def virtual_parts)
qed

definition enrolled_device :: tpm_device where
  "enrolled_device = abstract_enroll TBS_AK_PERSISTENT_HANDLE factory_device"

lemma hex_strings_base64: "writes_base64 hex_strings"
proof -
  have "list_all (\<lambda>c. c \<in> set base64_alphabet) hex_lower" by code_simp
  then have h: "set (hex_render hex_lower data) \<subseteq> set base64_alphabet" for data
    using lower.render_chars [of data] by (auto simp: list_all_iff)
  have "\<exists>t n. fst (CryptBinaryToStringA hex_strings data size) = t @ replicate n (CHR 0x00)
      \<and> set t \<subseteq> set base64_alphabet" for data size
    by (cases size; intro exI [of _ "fst (CryptBinaryToStringA hex_strings data size)"] exI [of _ 0])
      (simp_all add: hex_strings_def h Let_def)
  then show ?thesis by (simp add: writes_base64_def)
qed

section \<open>Properties\<close>

text \<open>C3. An enrollment reaches the device: on a TPM that behaves as documented, an elevated process whose
  endorsement key can be read gets an enroll body with the public area of the attestation key the TPM
  derived; a challenge made for that key under the endorsement key is answered with its secret; and the
  device is then exactly as before with the attestation key in its persistent slot, whatever was there,
  with no other object, session or context left.\<close>

theorem enrollment_reaches_the_device:
  assumes "tpm_machine win ch view" and "obliging ch" and "memory_suffices (w_process win)" and "has_room (view w)"
    and "IsProcessElevated win w = (True, w1)" and "GatherEkEnrollData win w1 = Some (Some ek, w2)"
    and "challenge_carries win challenge deviceId blob seed"
    and "t_open ch ek_key ak_key blob seed = Some secret" and "secret \<noteq> []"
  shows "\<exists>a p w3 a' w4.
    RootHeraldEnrollBegin win (Some out) None w = Some (ROOTHERALD_OK,
      Some (Some (a, JsonBuild (BuildEnrollFields (w_strings win) ek (sized_buffer (t_area ch ak_key))) @ [CHR 0x00])), Some p, w3)
    \<and> RootHeraldEnrollComplete win (Some challenge) (Some out') (Some p) w3 = Some (ROOTHERALD_OK,
      Some (Some (a', activation_text win deviceId secret @ [CHR 0x00])), None, w4)
    \<and> view w4 = abstract_enroll TBS_AK_PERSISTENT_HANDLE (view w)"
  by (rule enrollment_on_device [OF assms])

theorem enrollment_reaches_the_device_witness:
  "\<exists>ek a p w3 a' w4.
    RootHeraldEnrollBegin virtual_machine (Some None) None factory_device = Some (ROOTHERALD_OK,
      Some (Some (a, JsonBuild (BuildEnrollFields (w_strings virtual_machine) ek (sized_buffer (t_area virtual_chip ak_key))) @ [CHR 0x00])), Some p, w3)
    \<and> RootHeraldEnrollComplete virtual_machine (Some virtual_challenge) (Some None) (Some p) w3 = Some (ROOTHERALD_OK,
      Some (Some (a', activation_text virtual_machine ''d'' [7] @ [CHR 0x00])), None, w4)
    \<and> w4 = abstract_enroll TBS_AK_PERSISTENT_HANDLE factory_device"
proof -
  obtain ek w2 where g: "GatherEkEnrollData virtual_machine factory_device = Some (Some ek, w2)"
    using virtual_gather by blast
  have opened: "t_open virtual_chip ek_key ak_key [7] [7] = Some [7]" by (simp add: virtual_chip_def)
  have ne: "[7 :: u8] \<noteq> []" by simp
  show ?thesis
    by (rule exI [of _ ek], rule enrollment_reaches_the_device [where view = "\<lambda>d. d", OF virtual_machine virtual_chip_obliging
        virtual_memory factory_device(3) virtual_elevated g virtual_challenge opened ne])
qed

text \<open>C6. An enrolled device attests: on a TPM that behaves as documented and holds the attestation key in its slot,
  with a nonce of at most 64 bytes, collecting evidence returns, leaves the device as it was, and hands out
  a JSON object in which a strict reader finds the TPM's own values of the six registers, the TPM's
  attestation of exactly these registers over the caller's nonce, and the signature of that attestation
  by the attestation key, followed by at most the authorization area of the response.\<close>

theorem enrolled_device_attests:
  assumes "tpm_machine win ch view" and "obliging ch" and "memory_suffices (w_process win)"
    and "has_room (view w)" and "bank_wf (view w)" and "enumeration_ends (w_reg win) n"
    and "writes_base64 (w_strings win)" and "names_safe (plain_crypt_api (w_cert win))"
    and "d_persistent (view w) TBS_AK_PERSISTENT_HANDLE = Some ak_key"
    and "Base64Decode (w_strings win) (c_str nonce_b64) = nonce" and "nonce \<noteq> []" and "length nonce \<le> 64"
  shows "\<exists>a body doc auth w'.
    RootHeraldCollectEvidence win (Some nonce_b64) (Some out) w = Some (ROOTHERALD_OK, Some (Some (a, body @ [CHR 0x00])), w')
    \<and> view w' = view w \<and> read_json body = Some doc \<and> set (json_keys doc) \<subseteq> set evidence_keys
    \<and> json_at doc [''pcrValues''] = Some (pcr_values evidence_pcrs (map (d_pcrs (view w)) evidence_registers))
    \<and> json_at doc [''quote'', ''quoted'']
      = Some (renders_base64 (Base64Encode (w_strings win) (quote_attest ch (view w) ak_key nonce evidence_pcrs)))
    \<and> json_at doc [''quote'', ''signature''] = Some (renders_base64 (Base64Encode (w_strings win)
          (t_sign ch ak_key (quote_attest ch (view w) ak_key nonce evidence_pcrs) @ auth)))
    \<and> json_at doc [''quote'', ''nonce''] = Some (renders_base64 (Base64Encode (w_strings win) nonce))"
  by (rule CollectEvidence_on_device [OF assms]) (intro exI conjI)

theorem enrolled_device_attests_witness:
  "\<exists>a body doc auth w'.
    RootHeraldCollectEvidence virtual_machine (Some ''0102'') (Some None) enrolled_device
      = Some (ROOTHERALD_OK, Some (Some (a, body @ [CHR 0x00])), w')
    \<and> w' = enrolled_device \<and> read_json body = Some doc \<and> set (json_keys doc) \<subseteq> set evidence_keys
    \<and> json_at doc [''pcrValues''] = Some (pcr_values evidence_pcrs (map (d_pcrs enrolled_device) evidence_registers))
    \<and> json_at doc [''quote'', ''quoted''] = Some (renders_base64 (Base64Encode (w_strings virtual_machine)
          (quote_attest virtual_chip enrolled_device ak_key [1, 2] evidence_pcrs)))
    \<and> json_at doc [''quote'', ''signature''] = Some (renders_base64 (Base64Encode (w_strings virtual_machine)
          (t_sign virtual_chip ak_key (quote_attest virtual_chip enrolled_device ak_key [1, 2] evidence_pcrs) @ auth)))
    \<and> json_at doc [''quote'', ''nonce''] = Some (renders_base64 (Base64Encode (w_strings virtual_machine) [1, 2]))"
proof (rule enrolled_device_attests [where view = "\<lambda>d. d" and ch = virtual_chip and n = 0, OF virtual_machine
      virtual_chip_obliging virtual_memory])
  show "has_room enrolled_device" "bank_wf enrolled_device"
    by (simp_all add: enrolled_device_def abstract_enroll_def has_room_def bank_wf_def factory_device_def)
  show "enumeration_ends (w_reg virtual_machine) 0"
    by (simp add: enumeration_ends_def virtual_parts sample_reg_def)
  show "writes_base64 (w_strings virtual_machine)" by (simp add: virtual_parts hex_strings_base64)
  show "names_safe (plain_crypt_api (w_cert virtual_machine))"
    by (simp add: names_safe_def plain_crypt_api_def virtual_parts ca_api_def crypt_api.defs)
  show "d_persistent enrolled_device TBS_AK_PERSISTENT_HANDLE = Some ak_key"
    by (simp add: enrolled_device_def abstract_enroll_def)
  show "Base64Decode (w_strings virtual_machine) (c_str ''0102'') = [1, 2]"
    by (simp add: virtual_parts Base64Decode_def hex_strings_def c_str_def vec_resize_def hex_lower_def)
qed simp_all

text \<open>C4. The client changes one slot of the TPM. On a TPM that may refuse any command and a TBS that may fail any
  call or lose the response of a command that was executed, after any sequence of calls that starts with no enrollment in flight: no persistent object outside the slot
  of the attestation key has changed; the slot is as it was, empty, or holds the attestation key; and no
  context but that of the enrollment in flight is open that was not, or has changed. The last call, when it
  collects evidence or posture or frees a buffer, left the device exactly as it was; when it began an enrollment,
  changed no persistent object; and when it completed one with success, left the attestation key in the slot.\<close>

theorem client_changes_only_its_slot:
  assumes "tpm_machine win ch view" and "client_run win (None, w) trace (g, w1)"
    and "client_step win (g, w1) call (st, out) (g', w2)"
  shows "(\<forall>h. h \<noteq> TBS_AK_PERSISTENT_HANDLE \<longrightarrow> d_persistent (view w2) h = d_persistent (view w) h)
    \<and> d_persistent (view w2) TBS_AK_PERSISTENT_HANDLE
        \<in> {d_persistent (view w) TBS_AK_PERSISTENT_HANDLE, None, Some ak_key}
    \<and> (\<forall>ctx. (\<forall>p. g' = Some p \<longrightarrow> ctx \<noteq> tc_context (kp_tpm p)) \<longrightarrow> d_contexts (view w2) ctx = d_contexts (view w) ctx)
    \<and> (leg_of call \<in> {Evidence_Call, Posture_Call, Free_Call} \<longrightarrow> view w2 = view w1)
    \<and> (leg_of call = Begin_Leg \<longrightarrow> d_persistent (view w2) = d_persistent (view w1))
    \<and> (leg_of call = Complete_Leg \<longrightarrow> st = ROOTHERALD_OK \<longrightarrow>
        d_persistent (view w2) TBS_AK_PERSISTENT_HANDLE = Some ak_key)"
  by (rule client_bounds_elim [OF client_call_bounds [OF assms]])

theorem client_changes_only_its_slot_witness:
  "\<exists>p w1 out out' w2. client_run virtual_machine (None, factory_device)
      ([] @ [(CallEnrollBegin RootHeraldClient_Create (Some None), ROOTHERALD_OK, out)]) (Some p, w1)
    \<and> client_step virtual_machine (Some p, w1)
      (CallEnrollComplete RootHeraldClient_Create (Some virtual_challenge) (Some None)) (ROOTHERALD_OK, out') (None, w2)
    \<and> (\<forall>h. h \<noteq> TBS_AK_PERSISTENT_HANDLE \<longrightarrow> d_persistent w2 h = d_persistent factory_device h)
    \<and> d_persistent w2 TBS_AK_PERSISTENT_HANDLE = Some ak_key \<and> d_contexts w2 = d_contexts factory_device"
proof -
  obtain ek w0 where g: "GatherEkEnrollData virtual_machine factory_device = Some (Some ek, w0)"
    using virtual_gather by blast
  have opened: "t_open virtual_chip ek_key ak_key [7] [7] = Some [7]" "[7 :: u8] \<noteq> []" by (simp_all add: virtual_chip_def)
  obtain a p w1 a' w2 where
    e: "RootHeraldEnrollBegin virtual_machine (Some None) None factory_device = Some (ROOTHERALD_OK, Some (Some a), Some p, w1)"
      "RootHeraldEnrollComplete virtual_machine (Some virtual_challenge) (Some None) (Some p) w1 = Some (ROOTHERALD_OK, Some (Some a'), None, w2)"
    using enrollment_on_device [where view = "\<lambda>d. d", OF virtual_machine virtual_chip_obliging virtual_memory factory_device(3)
        virtual_elevated g virtual_challenge opened, of None None] by blast
  have begin_call: "client_step virtual_machine (None, factory_device) (CallEnrollBegin RootHeraldClient_Create (Some None))
      (ROOTHERALD_OK, Some (Some a)) (Some p, w1)"
    by (rule step_begin) (simp add: RootHeraldClient_Create_def facade_passes e(1))
  have "c_str virtual_challenge \<noteq> []" by code_simp
  then have complete_call: "client_step virtual_machine (Some p, w1)
      (CallEnrollComplete RootHeraldClient_Create (Some virtual_challenge) (Some None)) (ROOTHERALD_OK, Some (Some a')) (None, w2)"
    by (intro step_complete) (simp add: RootHeraldClient_Create_def facade_passes e(2))
  note run = run_snoc [OF run_nil begin_call]
  have view: "tpm_machine virtual_machine virtual_chip (\<lambda>d. d)" by (rule virtual_machine)
  show ?thesis
    by (rule exI [of _ p], rule exI [of _ w1], rule exI [of _ "Some (Some a)"], rule exI [of _ "Some (Some a')"],
        rule exI [of _ w2])
      (use client_changes_only_its_slot [OF view run complete_call] run complete_call in \<open>simp add: fun_eq_iff\<close>)
qed

end
