(* ===== verification/Challenge_Text.thy ===== *)
theory Challenge_Text
  imports Wire_Contract Virtual_Tpm
begin

text \<open>
  What comes back over the wire: the challenge of \<open>/devices/enroll\<close> in \<open>common/protocol.h\<close>, which
  \<open>RootHeraldEnrollComplete\<close> takes apart with \<open>JsonGet\<close> of \<open>src/internal/json_helpers.h\<close>. The server and the relay choose
  the order of the members and the blanks between the tokens; here a document is written with any of them.
\<close>

section \<open>Documents with blanks\<close>

definition json_blanks :: "char set" where
  "json_blanks = {CHR '' '', CHR 0x09, CHR 0x0A, CHR 0x0D}"

text \<open>A member with a text as its value, and the blanks around its tokens.\<close>

record spaced_member =
  m_name :: string
  m_value :: string
  gap_before :: string
  gap_name :: string
  gap_colon :: string
  gap_after :: string

definition member_source :: "spaced_member \<Rightarrow> string" where
  "member_source m = gap_before m @ quoted_key (m_name m) @ gap_name m @ '':'' @ gap_colon m
     @ [quote_char] @ json_escape (m_value m) @ [quote_char] @ gap_after m"

definition object_source :: "string \<Rightarrow> spaced_member list \<Rightarrow> string \<Rightarrow> string" where
  "object_source lead ms trail = lead @ ''{'' @ comma_join (map member_source ms) @ ''}'' @ trail"

definition object_document :: "spaced_member list \<Rightarrow> json" where
  "object_document ms = JObject (map (\<lambda>m. (m_name m, JString (m_value m))) ms)"

text \<open>JSON allows the same blanks everywhere; \<open>JsonGet\<close> skips only spaces and tabs behind a colon.\<close>

definition well_spaced :: "spaced_member \<Rightarrow> bool" where
  "well_spaced m \<longleftrightarrow> set (gap_before m) \<subseteq> json_blanks \<and> set (gap_name m) \<subseteq> json_blanks
     \<and> set (gap_colon m) \<subseteq> {CHR '' '', CHR 0x09} \<and> set (gap_after m) \<subseteq> json_blanks"

text \<open>A name that the signs of a document cannot be taken for.\<close>

definition searchable :: "string \<Rightarrow> bool" where
  "searchable key \<longleftrightarrow> plain_key key \<and> hd key \<noteq> CHR '' ''"

text \<open>A member that the search for a key passes by.\<close>

definition passed_by :: "string \<Rightarrow> spaced_member \<Rightarrow> bool" where
  "passed_by key m \<longleftrightarrow> well_spaced m \<and> plain_key (m_name m) \<and> m_name m \<noteq> key \<and> m_value m \<noteq> key \<and> \<not> mentions key (m_value m)"

lemma blanks_no_quote: "set g \<subseteq> json_blanks \<Longrightarrow> quote_char \<notin> set g"
  by (auto simp: json_blanks_def quote_char_def)

lemma blanks_no_colon: "set g \<subseteq> json_blanks \<Longrightarrow> CHR '':'' \<notin> set g"
  by (auto simp: json_blanks_def)

lemma no_start_blanks: "set g \<subseteq> json_blanks \<Longrightarrow> no_start (quoted_key key) g t"
  by (rule no_start_plain) (rule blanks_no_quote)

text \<open>Behind the closing quote of a text come blanks and one of three signs, so it opens no key.\<close>

lemma closing_quote:
  assumes "searchable key" and "set g \<subseteq> json_blanks" and "c \<in> {CHR '':'', CHR '','', CHR ''}''}"
  shows "no_start (quoted_key key) [quote_char] (g @ c # t)"
proof -
  have key: "key \<noteq> []" using assms(1) by (auto simp: searchable_def plain_key_def)
  then have "hd key \<in> set key" by simp
  then have h: "hd key \<notin> {CHR '':'', CHR '','', CHR ''}''}" "32 \<le> (of_char (hd key) :: nat)"
    using assms(1) unfolding searchable_def plain_key_def by blast+
  have "hd key \<noteq> CHR 0x09" "hd key \<noteq> CHR 0x0A" "hd key \<noteq> CHR 0x0D" using h(2) by force+
  then have "hd key \<notin> json_blanks" using assms(1) by (simp add: searchable_def json_blanks_def)
  then have "hd (g @ [c]) \<noteq> hd key" using h(1) assms(2,3) by (cases g) auto
  then have "\<not> key_follows key (g @ c # t)" using key by (cases g) (simp_all add: key_follows_other)
  then show ?thesis by (simp add: no_start_quote del: no_start.simps)
qed

lemma no_start_member:
  assumes k: "searchable key" and m: "passed_by key m" and c: "c \<in> {CHR '','', CHR ''}''}"
  shows "no_start (quoted_key key) (member_source m) (c # t)"
proof -
  note p = m [unfolded passed_by_def well_spaced_def]
  have key: "plain_key key" using k by (simp add: searchable_def)
  have colon: "set (gap_colon m) \<subseteq> json_blanks" using p by (auto simp: json_blanks_def)
  have name: "quote_char \<notin> set (m_name m)" using p by (auto simp: plain_key_def)
  have eq: "member_source m = gap_before m @ [quote_char] @ m_name m @ [quote_char] @ gap_name m @ '':'' @ gap_colon m
      @ [quote_char] @ json_escape (m_value m) @ [quote_char] @ gap_after m"
    by (simp add: member_source_def quoted_key_def)
  have q1: "no_start (quoted_key key) [quote_char] (m_name m @ quote_char # u)" for u
    using p key by (simp add: no_start_quote key_follows_plain del: no_start.simps)
  have q2: "no_start (quoted_key key) [quote_char] (gap_name m @ CHR '':'' # u)" for u
    by (rule closing_quote [OF k]) (use p in simp_all)
  have q3: "no_start (quoted_key key) [quote_char] (json_escape (m_value m) @ quote_char # u)" for u
    using p key by (simp add: no_start_quote key_follows_escape del: no_start.simps)
  have q4: "no_start (quoted_key key) [quote_char] (gap_after m @ c # t)"
    by (rule closing_quote [OF k]) (use p c in auto)
  have colon_sign: "no_start (quoted_key key) '':'' u" for u by (rule no_start_plain) (simp add: quote_other)
  show ?thesis
    unfolding eq no_start_append
    using p q1 q2 q3 q4 name colon colon_sign no_start_blanks no_start_plain no_start_escape [OF key]
    by (simp del: no_start.simps)
qed

lemma no_start_members:
  assumes k: "searchable key" and ms: "\<forall>m \<in> set ms. passed_by key m"
  shows "no_start (quoted_key key) (concat (map (\<lambda>m. member_source m @ '','') ms)) t"
  using ms
proof (induction ms)
  case Nil
  then show ?case by simp
next
  case (Cons m ms)
  have comma: "no_start (quoted_key key) '','' u" for u by (rule no_start_plain) (simp add: quote_other)
  have "no_start (quoted_key key) (member_source m) (CHR '','' # u)" for u
    by (rule no_start_member [OF k]) (use Cons.prems in simp_all)
  then show ?case
    using Cons comma unfolding list.map concat.simps append_assoc no_start_append by simp
qed

lemma comma_join_split:
  "comma_join (xs @ y # zs) = concat (map (\<lambda>x. x @ '','') xs) @ y @ (if zs = [] then [] else '','' @ comma_join zs)"
  by (induction xs) (simp_all add: comma_join_Cons)

section \<open>Reading a member\<close>

lemma skip_blanks_gap: "set g \<subseteq> {CHR '' '', CHR 0x09} \<Longrightarrow> skip_blanks (g @ quote_char # t) = quote_char # t"
  by (induction g) (auto simp: quote_char_def)

lemma JsonGet_behind:
  assumes pre: "no_start (quoted_key key) pre (quoted_key key @ mid @ '':'' @ gap @ quote_char # cs)"
    and mid: "CHR '':'' \<notin> set mid" and gap: "set gap \<subseteq> {CHR '' '', CHR 0x09}"
  shows "JsonGet (pre @ quoted_key key @ mid @ '':'' @ gap @ quote_char # cs) key = read_quoted cs"
proof -
  let ?text = "pre @ quoted_key key @ mid @ '':'' @ gap @ quote_char # cs"
  have f1: "str_find ?text (quoted_key key) 0 = Some (length pre)"
    by (rule str_find_first [OF pre])
  have f2: "str_find ?text '':'' (length pre + length (quoted_key key)) = Some (length (pre @ quoted_key key @ mid))"
    using colon_after [OF mid, of "pre @ quoted_key key" "gap @ quote_char # cs"] by simp
  have rest: "drop (length (pre @ quoted_key key @ mid) + 1) ?text = gap @ quote_char # cs" by simp
  show ?thesis
    unfolding JsonGet_quoted_key f1 option.case f2 rest skip_blanks_gap [OF gap] list.case by simp
qed

lemma JsonGet_member:
  assumes lead: "set lead \<subseteq> json_blanks" and k: "searchable (m_name m)" and m: "well_spaced m"
    and before: "\<forall>m' \<in> set before. passed_by (m_name m) m'"
  shows "JsonGet (object_source lead (before @ m # rest) trail) (m_name m) = m_value m"
proof -
  let ?k = "quoted_key (m_name m)"
  let ?pre = "lead @ ''{'' @ concat (map (\<lambda>m. member_source m @ '','') before) @ gap_before m"
  let ?cs = "json_escape (m_value m) @ quote_char # gap_after m
      @ (if rest = [] then [] else '','' @ comma_join (map member_source rest)) @ ''}'' @ trail"
  have eq: "object_source lead (before @ m # rest) trail = ?pre @ ?k @ gap_name m @ '':'' @ gap_colon m @ quote_char # ?cs"
    by (simp add: object_source_def comma_join_split comp_def member_source_def)
  have gaps: "set (gap_before m) \<subseteq> json_blanks" "set (gap_name m) \<subseteq> json_blanks" "set (gap_colon m) \<subseteq> {CHR '' '', CHR 0x09}"
    using m by (simp_all add: well_spaced_def)
  have open_sign: "no_start ?k ''{'' u" for u by (rule no_start_plain) (simp add: quote_other)
  have "no_start ?k ?pre t" for t
    unfolding no_start_append
    using no_start_members [OF k before] no_start_blanks lead gaps(1) open_sign by (simp del: no_start.simps)
  from JsonGet_behind [OF this blanks_no_colon [OF gaps(2)] gaps(3)] show ?thesis
    unfolding eq by (simp add: read_quoted_escape)
qed

text \<open>A key that no member has is not found.\<close>

lemma JsonGet_absent:
  assumes blanks: "set lead \<union> set trail \<subseteq> json_blanks" and k: "searchable key" and ms: "\<forall>m \<in> set ms. passed_by key m"
  shows "JsonGet (object_source lead ms trail) key = []"
proof -
  let ?k = "quoted_key key"
  have sign: "no_start ?k ''{'' u" "no_start ?k ''}'' u" for u by (rule no_start_plain, simp add: quote_other quote_char_def)+
  have lead: "no_start ?k lead u" "no_start ?k trail u" for u using blanks no_start_blanks by simp_all
  have body: "no_start ?k (comma_join (map member_source ms)) (CHR ''}'' # u)" for u
  proof (cases ms rule: rev_cases)
    case Nil
    then show ?thesis by simp
  next
    case (snoc before m)
    have "no_start ?k (member_source m) (CHR ''}'' # u)"
      by (rule no_start_member [OF k]) (use ms snoc in simp_all)
    moreover have "no_start ?k (concat (map (\<lambda>m. member_source m @ '','') before)) t" for t
      by (rule no_start_members [OF k]) (use ms snoc in simp)
    ultimately show ?thesis
      using comma_join_split [of "map member_source before" "member_source m" "[]"] snoc
      by (simp add: no_start_append comp_def del: no_start.simps)
  qed
  have "no_start ?k (object_source lead ms trail) []"
    unfolding object_source_def no_start_append
    using sign lead body by (simp del: no_start.simps)
  from find_from_skip [OF this, of 0] have "str_find (object_source lead ms trail) ?k 0 = None"
    by (simp add: str_find_def quoted_key_def)
  then show ?thesis by (simp add: JsonGet_quoted_key)
qed

section \<open>The challenge\<close>

definition challenge_names :: "string list" where
  "challenge_names = [''deviceId'', ''credentialBlob'', ''encryptedSecret'']"

definition challenge_response :: wire_type where
  "challenge_response = Wire_Object
     [(''deviceId'', True, Wire_Text), (''credentialBlob'', True, Wire_Base64), (''encryptedSecret'', True, Wire_Base64)]"

lemma challenge_names_searchable: "key \<in> set challenge_names \<Longrightarrow> searchable key"
proof -
  have "list_all searchable challenge_names" by code_simp
  then show "key \<in> set challenge_names \<Longrightarrow> searchable key" by (simp add: list_all_iff)
qed

lemma challenge_members:
  assumes "conforms bare challenge_response (object_document ms)"
  shows "distinct (map m_name ms)" and "set (map m_name ms) = set challenge_names"
proof -
  let ?ms = "map (\<lambda>m. (m_name m, JString (m_value m))) ms"
  have names: "map fst ?ms = map m_name ms" by simp
  have raw: "distinct (map m_name ms)" "set (map m_name ms) \<subseteq> set challenge_names"
    "map_of ?ms ''deviceId'' \<noteq> None" "map_of ?ms ''credentialBlob'' \<noteq> None" "map_of ?ms ''encryptedSecret'' \<noteq> None"
    using assms unfolding challenge_response_def object_document_def conforms.simps json.case names challenge_names_def
    by (simp_all split: option.splits)
  have present: "k \<in> set (map m_name ms)" if "map_of ?ms k \<noteq> None" for k
    using that unfolding names [symmetric] by (metis map_of_eq_None_iff set_map)
  have "set challenge_names \<subseteq> set (map m_name ms)"
    unfolding challenge_names_def list.set insert_subset
    by (intro conjI empty_subsetI present [OF raw(3)] present [OF raw(4)] present [OF raw(5)])
  then show "set (map m_name ms) = set challenge_names" using raw(2) by (intro equalityI)
  show "distinct (map m_name ms)" by (rule raw(1))
qed

lemma mentions_quote: "mentions key v \<Longrightarrow> quote_char \<in> set v"
  by (induction v) auto

text \<open>The text of a document holds no null character when its parts hold none.\<close>

lemma escape_no_null: "CHR 0x00 \<notin> set v \<Longrightarrow> CHR 0x00 \<notin> set (json_escape v)"
  by (induction v) (auto simp: escape_char_def backslash_char_def quote_char_def)

lemma comma_join_set: "set (comma_join xs) \<subseteq> insert (CHR '','') (\<Union> (set ` set xs))"
  by (induction xs rule: comma_join.induct) auto

lemma object_source_c_str:
  assumes "set lead \<union> set trail \<subseteq> json_blanks" and "\<forall>m \<in> set ms. well_spaced m \<and> plain_key (m_name m) \<and> CHR 0x00 \<notin> set (m_value m)"
  shows "c_str (object_source lead ms trail) = object_source lead ms trail"
proof -
  have blank: "CHR 0x00 \<notin> set g" if "set g \<subseteq> json_blanks" for g
  proof -
    have "CHR 0x00 \<notin> json_blanks" by (simp add: json_blanks_def)
    then show ?thesis using that by (rule contra_subsetD [rotated])
  qed
  have spaces: "{CHR '' '', CHR 0x09} \<subseteq> json_blanks" by (simp add: json_blanks_def)
  have member: "CHR 0x00 \<notin> set (member_source m)" if "m \<in> set ms" for m
  proof -
    have m: "well_spaced m" "plain_key (m_name m)" "CHR 0x00 \<notin> set (m_value m)" using assms(2) that by simp_all
    have "set (gap_colon m) \<subseteq> json_blanks" using m(1) order_trans [OF _ spaces] by (simp add: well_spaced_def)
    moreover have "CHR 0x00 \<notin> set (m_name m)"
    proof
      assume "CHR 0x00 \<in> set (m_name m)"
      from m(2) [unfolded plain_key_def, THEN conjunct2, THEN bspec, OF this, THEN conjunct2] show False by simp
    qed
    moreover have "CHR 0x00 \<noteq> quote_char" by (simp add: quote_char_def)
    ultimately show ?thesis
      using m blank escape_no_null [OF m(3)] by (simp add: member_source_def quoted_key_def well_spaced_def)
  qed
  have "CHR 0x00 \<notin> set (comma_join (map member_source ms))"
    using comma_join_set [of "map member_source ms"] member by auto
  then have "CHR 0x00 \<notin> set (object_source lead ms trail)"
    using assms(1) blank by (simp add: object_source_def)
  then show ?thesis unfolding c_str_def takeWhile_eq_all_conv by metis
qed

text \<open>The values can be told from the names and hold no quote and no null.\<close>

definition told_apart :: "spaced_member \<Rightarrow> bool" where
  "told_apart m \<longleftrightarrow> m_value m \<notin> set challenge_names \<and> quote_char \<notin> set (m_value m) \<and> CHR 0x00 \<notin> set (m_value m)"

definition member_values :: "spaced_member list \<Rightarrow> string \<Rightarrow> string" where
  "member_values ms key = (case map_of (map (\<lambda>m. (m_name m, m_value m)) ms) key of None \<Rightarrow> [] | Some v \<Rightarrow> v)"

lemma told_apart_passed:
  assumes "well_spaced m" and "plain_key (m_name m)" and "told_apart m" and "key \<in> set challenge_names" and "m_name m \<noteq> key"
  shows "passed_by key m"
  using assms mentions_quote [of key "m_value m"] by (auto simp: passed_by_def told_apart_def)

lemma spaced_document_read:
  assumes d: "distinct (map m_name ms)" and ms: "\<forall>m \<in> set ms. well_spaced m \<and> plain_key (m_name m) \<and> told_apart m"
    and blanks: "set lead \<union> set trail \<subseteq> json_blanks" and key: "key \<in> set challenge_names"
  shows "JsonGet (c_str (object_source lead ms trail)) key = member_values ms key"
proof -
  note search = challenge_names_searchable [OF key]
  have whole: "c_str (object_source lead ms trail) = object_source lead ms trail"
    using object_source_c_str blanks ms by (simp add: told_apart_def)
  have pass: "passed_by key m" if "m \<in> set ms" "m_name m \<noteq> key" for m
    using told_apart_passed [OF _ _ _ key that(2)] ms that(1) by blast
  show ?thesis
  proof (cases "map_of (map (\<lambda>m. (m_name m, m_value m)) ms) key")
    case None
    then have "m_name m \<noteq> key" if "m \<in> set ms" for m
      using that by (auto simp: map_of_eq_None_iff image_image)
    then show ?thesis using JsonGet_absent [OF blanks search] pass None whole by (simp add: member_values_def)
  next
    case (Some v)
    then obtain m where m: "m \<in> set ms" "m_name m = key" "m_value m = v" using map_of_SomeD [OF Some] by auto
    obtain before rest where split: "ms = before @ m # rest" using split_list [OF m(1)] by blast
    have "m_name m' \<noteq> key" if "m' \<in> set before" for m' using d that split m(2) by (auto simp: image_iff)
    then have "\<forall>m' \<in> set before. passed_by (m_name m) m'" using pass m(2) split by simp
    then have "JsonGet (object_source lead (before @ m # rest) trail) (m_name m) = m_value m"
      using JsonGet_member search m(1,2) ms blanks by blast
    then show ?thesis using m(2,3) Some split whole by (simp add: member_values_def)
  qed
qed

lemma challenge_read:
  assumes c: "conforms bare challenge_response (object_document ms)" and ms: "\<forall>m \<in> set ms. well_spaced m \<and> told_apart m"
    and blanks: "set lead \<union> set trail \<subseteq> json_blanks" and m: "m \<in> set ms"
  shows "JsonGet (c_str (object_source lead ms trail)) (m_name m) = m_value m"
proof -
  note names = challenge_members [OF c]
  have known: "m_name m' \<in> set challenge_names" if "m' \<in> set ms" for m' using names(2) that by auto
  then have "\<forall>m \<in> set ms. well_spaced m \<and> plain_key (m_name m) \<and> told_apart m"
    using ms challenge_names_searchable by (auto simp: searchable_def)
  note read = spaced_document_read [OF names(1) this blanks known [OF m]]
  have "map_of (map (\<lambda>m. (m_name m, m_value m)) ms) (m_name m) = Some (m_value m)"
    by (rule map_of_is_SomeI) (use names(1) m in \<open>simp_all add: comp_def\<close>)
  then show ?thesis using read by (simp add: member_values_def)
qed

text \<open>Such a challenge carries what its members say.\<close>

lemma challenge_carried:
  assumes c: "conforms bare challenge_response (object_document ms)" and ms: "\<forall>m \<in> set ms. well_spaced m \<and> told_apart m"
    and blanks: "set lead \<union> set trail \<subseteq> json_blanks"
    and v: "map_of (map (\<lambda>m. (m_name m, m_value m)) ms) ''deviceId'' = Some deviceId"
      "map_of (map (\<lambda>m. (m_name m, m_value m)) ms) ''credentialBlob'' = Some cb"
      "map_of (map (\<lambda>m. (m_name m, m_value m)) ms) ''encryptedSecret'' = Some es"
    and d: "deviceId \<noteq> []" "cb \<noteq> []" "es \<noteq> []" "Base64Decode (w_strings win) cb = sized_buffer blob" "length blob < 2 ^ 16"
      "Base64Decode (w_strings win) es = sized_buffer seed" "length seed < 2 ^ 16"
  shows "challenge_carries win (object_source lead ms trail) deviceId blob seed"
proof -
  have read: "JsonGet (c_str (object_source lead ms trail)) k = x"
    if "map_of (map (\<lambda>m. (m_name m, m_value m)) ms) k = Some x" for k x
    using map_of_SomeD [OF that] challenge_read [OF c ms blanks] by auto
  show ?thesis using read [OF v(1)] read [OF v(2)] read [OF v(3)] d by (simp add: challenge_carries_def)
qed

section \<open>What \<open>JsonGet\<close> does not read\<close>

text \<open>A line break behind the colon, and an escape other than the three \<open>JsonBuild\<close> writes: the text is legal JSON and the
  value comes back wrong. The second one is how several writers spell the plus sign of Base64.\<close>

lemma line_break_behind_colon:
  "JsonGet ([CHR ''{'', quote_char, CHR ''a'', quote_char, CHR '':'', newline, quote_char, CHR ''x'', quote_char, CHR ''}'']) ''a''
     = [newline, quote_char, CHR ''x'', quote_char]"
  by code_simp

lemma unicode_escape_kept:
  "JsonGet ([CHR ''{'', quote_char, CHR ''a'', quote_char, CHR '':'', quote_char, backslash_char] @ ''u002B'' @ [quote_char, CHR ''}'']) ''a''
     = ''u002B''"
  by code_simp

section \<open>Properties\<close>

text \<open>The challenge of the Secure Enclave ceremony has no credential, so the second leg refuses it and asks the TPM nothing.\<close>

lemma enclave_challenge_names:
  assumes "conforms bare enclave_challenge (object_document ms)"
  shows "m_name ` set ms \<subseteq> set [''deviceId'', ''challengeNonce'']"
proof -
  have names: "map fst (map (\<lambda>m. (m_name m, JString (m_value m))) ms) = map m_name ms" by simp
  show ?thesis
    using assms unfolding enclave_challenge_def object_document_def conforms.simps json.case names by simp
qed

lemma enclave_challenge_refused:
  assumes c: "conforms bare enclave_challenge (object_document ms)" and d: "distinct (map m_name ms)"
    and ms: "\<forall>m \<in> set ms. well_spaced m \<and> plain_key (m_name m) \<and> told_apart m"
    and blanks: "set lead \<union> set trail \<subseteq> json_blanks"
  shows "RootHeraldEnrollComplete win (Some (object_source lead ms trail)) (Some out) (Some p) w
    = Some (ROOTHERALD_ERR_INVALID_ARG, Some None, Some p, w)"
proof -
  have "map_of (map (\<lambda>m. (m_name m, m_value m)) ms) ''credentialBlob'' = None"
    using enclave_challenge_names [OF c] by (auto simp: map_of_eq_None_iff image_image dest: subsetD)
  then have "JsonGet (c_str (object_source lead ms trail)) ''credentialBlob'' = []"
    using spaced_document_read [OF d ms blanks, of "''credentialBlob''"]
    by (simp add: challenge_names_def member_values_def)
  then show ?thesis by (simp add: RootHeraldEnrollComplete_def Let_def)
qed


definition pretty_challenge :: "spaced_member list" where
  "pretty_challenge =
     [\<lparr>m_name = ''credentialBlob'', m_value = ''AAA/'', gap_before = newline # ''  '', gap_name = '''', gap_colon = '' '', gap_after = ''''\<rparr>,
      \<lparr>m_name = ''deviceId'', m_value = ''0-d'', gap_before = newline # ''  '', gap_name = '' '', gap_colon = '' '', gap_after = ''''\<rparr>,
      \<lparr>m_name = ''encryptedSecret'', m_value = ''B+B='', gap_before = newline # ''  '', gap_name = '''', gap_colon = '''', gap_after = [newline]\<rparr>]"

definition pretty_enclave_challenge :: "spaced_member list" where
  "pretty_enclave_challenge =
     [\<lparr>m_name = ''deviceId'', m_value = ''0-d'', gap_before = '' '', gap_name = '''', gap_colon = '' '', gap_after = ''''\<rparr>,
      \<lparr>m_name = ''challengeNonce'', m_value = ''bm9uY2U='', gap_before = '' '', gap_name = '''', gap_colon = '' '', gap_after = '' ''\<rparr>]"


end
