(* ===== verification/Client_Threads.thy ===== *)
theory Client_Threads
  imports Wire_Contract
begin

text \<open>
  Threads of one process over the clients they share. A client is its lock (\<open>src/client/client_internal.h\<close>); the
  enrollment in flight, \<open>g_enrollProvider\<close> of \<open>src/client/rootherald_win.cpp\<close>, is one for all clients. A call is
  cut where it reads or writes that pointer; the pieces of different threads interleave freely.
\<close>

section \<open>Calls in pieces\<close>

datatype request =
    Begin_Request "c_buffer option"
  | Complete_Request "string option" "c_buffer option"
  | Posture_Request "root_herald_posture option"

datatype job =
    Job_Begin
  | Job_Publish tbs_key_provider root_herald_status "c_buffer option"
  | Job_Check string
  | Job_Activate string string string
  | Job_Persist string bytes
  | Job_Posture
  | Job_Return root_herald_status "c_buffer option"

text \<open>The argument checks of the entry points, in front of the lock.\<close>

fun first_job :: "request \<Rightarrow> job option" where
  "first_job (Begin_Request out) = (if out = None then None else Some Job_Begin)"
| "first_job (Complete_Request challenge out) =
     (if out = None then None
      else case challenge of None \<Rightarrow> None | Some ch \<Rightarrow> if c_str ch = [] then None else Some (Job_Check ch))"
| "first_job (Posture_Request out) = (if out = None then None else Some Job_Posture)"

text \<open>\<open>g_enrollProvider->\<close> on the null pointer ends the process.\<close>

datatype 'w effect = Null_Dereference | Continues job enroll_provider 'w

fun job_step :: "('c, 'w) windows \<Rightarrow> job \<Rightarrow> enroll_provider \<Rightarrow> 'w \<Rightarrow> 'w effect option" where
  "job_step win Job_Begin g w = do {
     (st, out, made, w) \<leftarrow> RootHeraldEnrollBegin win (Some None) None w;
     Some (case made of
         None \<Rightarrow> Continues (Job_Return st out) g w
       | Some provider \<Rightarrow> Continues (Job_Publish provider st out) g w)
   }"
| "job_step win (Job_Publish provider st out) g w =
     Some (Continues (Job_Return st out) (Some provider) (drop_provider (w_tbs win) g w))"
| "job_step win (Job_Check challenge) g w =
     (if g = None then Some (Continues (Job_Return ROOTHERALD_ERR_NOT_ENROLLED (Some None)) g w)
      else
        let challenge = c_str challenge;
            deviceId = JsonGet challenge ''deviceId'';
            credBlob = JsonGet challenge ''credentialBlob'';
            encSecret = JsonGet challenge ''encryptedSecret''
        in if deviceId = [] \<or> credBlob = [] \<or> encSecret = []
           then Some (Continues (Job_Return ROOTHERALD_ERR_INVALID_ARG (Some None)) g w)
           else Some (Continues (Job_Activate deviceId credBlob encSecret) g w))"
| "job_step win (Job_Activate deviceId credBlob encSecret) g w =
     (case g of
        None \<Rightarrow> Some Null_Dereference
      | Some provider \<Rightarrow> do {
          (r, w) \<leftarrow> kp_ActivateCredential (w_tbs win) provider
            (Base64Decode (w_strings win) credBlob) (Base64Decode (w_strings win) encSecret) w;
          if FAILED (hr_of r) \<or> out_of [] r = []
          then (let (_, provider, w) = DeleteAk (w_tbs win) provider w
                in Some (Continues (Job_Return ROOTHERALD_ERR_ACTIVATION_FAILED (Some None)) None
                     (kp_Destroy (w_tbs win) provider w)))
          else Some (Continues (Job_Persist deviceId (out_of [] r)) g w)
        })"
| "job_step win (Job_Persist deviceId secret) g w =
     (case g of
        None \<Rightarrow> Some Null_Dereference
      | Some provider \<Rightarrow> do {
          (st, out, g, w) \<leftarrow> EnrollComplete_persist win deviceId secret provider w;
          Some (Continues (Job_Return st out) g w)
        })"
| "job_step win Job_Posture g w = do {
     (st, _, w) \<leftarrow> RootHeraldCollectLocalPosture win (Some zero_posture) w;
     Some (Continues (Job_Return st None) g w)
   }"
| "job_step win (Job_Return st out) g w = None"

text \<open>A call that no other thread interrupts.\<close>

fun job_run :: "('c, 'w) windows \<Rightarrow> nat \<Rightarrow> job \<Rightarrow> enroll_provider \<Rightarrow> 'w
    \<Rightarrow> (root_herald_status \<times> c_buffer option \<times> enroll_provider \<times> 'w) option" where
  "job_run win n (Job_Return st out) g w = Some (st, out, g, w)"
| "job_run win 0 job g w = None"
| "job_run win (Suc n) job g w = do {
     e \<leftarrow> job_step win job g w;
     case e of Null_Dereference \<Rightarrow> None | Continues job g w \<Rightarrow> job_run win n job g w
   }"

text \<open>The pieces are the driver: \<open>EnrollBegin\<close> touches the pointer in its last act only.\<close>

lemma EnrollBegin_emit_publishes:
  "EnrollBegin_emit win ek p g w =
     (case EnrollBegin_emit win ek p None w of (st, out, made, w) \<Rightarrow>
        case made of None \<Rightarrow> (st, out, g, w) | Some q \<Rightarrow> (st, out, Some q, drop_provider (w_tbs win) g w))"
  by (simp add: EnrollBegin_emit_def Let_def drop_provider_def split: prod.splits option.splits)

lemma EnrollBegin_publishes:
  "RootHeraldEnrollBegin win (Some b) g w = do {
     (st, out, made, w) \<leftarrow> RootHeraldEnrollBegin win (Some b) None w;
     Some (case made of None \<Rightarrow> (st, out, g, w) | Some p \<Rightarrow> (st, out, Some p, drop_provider (w_tbs win) g w))
   }"
  by (simp add: RootHeraldEnrollBegin_def EnrollBegin_key_def EnrollBegin_emit_publishes [of win _ _ g]
      split: prod.splits option.splits bind_splits)

lemma job_runs_begin: "job_run win 2 Job_Begin g w = RootHeraldEnrollBegin win (Some None) g w"
  by (subst EnrollBegin_publishes) (auto simp: numeral_2_eq_2 Option.bind_eq_Some_conv split: bind_splits option.splits)

lemma job_runs_complete:
  "job_run win 3 (Job_Check challenge) g w = RootHeraldEnrollComplete win (Some challenge) (Some None) g w"
  by (auto simp: numeral_3_eq_3 RootHeraldEnrollComplete_def Let_def split: option.splits bind_splits prod.splits)

section \<open>Threads\<close>

datatype thread = Entering (thread_client: u64) (thread_job: job) | Running (thread_client: u64) (thread_job: job)

record 'w process =
  p_clients :: client_table
  p_threads :: "nat \<rightharpoonup> thread"
  p_provider :: enroll_provider
  p_world :: 'w
  p_crashed :: bool

definition start_process :: "u64 set \<Rightarrow> enroll_provider \<Rightarrow> 'w \<Rightarrow> 'w process" where
  "start_process clients g w = \<lparr>p_clients = (\<lambda>c. if c \<in> clients then RootHeraldClient_Create else None),
     p_threads = Map.empty, p_provider = g, p_world = w, p_crashed = False\<rparr>"

text \<open>
  What a caller sees of a step: the call a thread makes, its refusal in front of the lock, its return, the
  evidence it collects and the buffer it frees. The last two take no lock; they say whether a call was inside the
  driver meanwhile.
\<close>

datatype thread_event =
    Silent
  | Called nat request
  | Refused request
  | Returned nat root_herald_status "c_buffer option"
  | Collected bool "string option" "c_buffer option" root_herald_status "c_buffer option"
  | Freed bool c_buffer

definition inside :: "'w process \<Rightarrow> bool" where
  "inside s \<longleftrightarrow> (\<exists>t c j. p_threads s t = Some (Running c j))"

text \<open>
  A call waits for the lock of its client, runs its pieces and gives the lock back. Collecting evidence
  takes no lock and does not touch the pointer. A client is destroyed when no call uses it. A process that has
  crashed takes no step.
\<close>

inductive thread_step :: "('c, 'w) windows \<Rightarrow> 'w process \<Rightarrow> thread_event \<Rightarrow> 'w process \<Rightarrow> bool" for win where
  thread_call: "\<not> p_crashed s \<Longrightarrow> p_threads s t = None \<Longrightarrow> p_clients s c \<noteq> None \<Longrightarrow> first_job r = Some j \<Longrightarrow>
    thread_step win s (Called t r) (s\<lparr>p_threads := (p_threads s)(t \<mapsto> Entering c j)\<rparr>)"
| thread_refuse: "\<not> p_crashed s \<Longrightarrow> first_job r = None \<Longrightarrow> thread_step win s (Refused r) s"
| thread_enter: "\<not> p_crashed s \<Longrightarrow> p_threads s t = Some (Entering c j) \<Longrightarrow> p_clients s c = Some cl \<Longrightarrow>
    \<not> client_locked cl \<Longrightarrow>
    thread_step win s Silent (s\<lparr>p_threads := (p_threads s)(t \<mapsto> Running c j),
      p_clients := (p_clients s)(c \<mapsto> cl\<lparr>client_locked := True\<rparr>)\<rparr>)"
| thread_run: "\<not> p_crashed s \<Longrightarrow> p_threads s t = Some (Running c j) \<Longrightarrow>
    job_step win j (p_provider s) (p_world s) = Some (Continues j' g' w') \<Longrightarrow>
    thread_step win s Silent (s\<lparr>p_threads := (p_threads s)(t \<mapsto> Running c j'), p_provider := g', p_world := w'\<rparr>)"
| thread_crash: "\<not> p_crashed s \<Longrightarrow> p_threads s t = Some (Running c j) \<Longrightarrow>
    job_step win j (p_provider s) (p_world s) = Some Null_Dereference \<Longrightarrow>
    thread_step win s Silent (s\<lparr>p_crashed := True\<rparr>)"
| thread_leave: "\<not> p_crashed s \<Longrightarrow> p_threads s t = Some (Running c (Job_Return st out)) \<Longrightarrow> p_clients s c = Some cl \<Longrightarrow>
    thread_step win s (Returned t st out) (s\<lparr>p_threads := (p_threads s)(t := None),
      p_clients := (p_clients s)(c \<mapsto> cl\<lparr>client_locked := False\<rparr>)\<rparr>)"
| thread_evidence: "\<not> p_crashed s \<Longrightarrow>
    RootHeraldClient_CollectEvidence win n out (p_world s) = Some (st, out', w') \<Longrightarrow>
    thread_step win s (Collected (inside s) n out st out') (s\<lparr>p_world := w'\<rparr>)"
| thread_free: "\<not> p_crashed s \<Longrightarrow>
    thread_step win s (Freed (inside s) b) (s\<lparr>p_world := RootHeraldClient_FreeEvidence win b (p_world s)\<rparr>)"
| thread_destroy: "\<not> p_crashed s \<Longrightarrow> c \<notin> thread_client ` ran (p_threads s) \<Longrightarrow>
    thread_step win s Silent (s\<lparr>p_clients := RootHeraldClient_Destroy c (p_clients s)\<rparr>)"

inductive thread_run_from :: "('c, 'w) windows \<Rightarrow> 'w process \<Rightarrow> 'w process \<Rightarrow> bool" for win where
  threads_start: "thread_run_from win s s"
| threads_step: "thread_run_from win s s' \<Longrightarrow> thread_step win s' e s'' \<Longrightarrow> thread_run_from win s s''"

section \<open>The lock\<close>

text \<open>A client is locked exactly when one thread runs a call on it.\<close>

definition lock_held :: "'w process \<Rightarrow> bool" where
  "lock_held s \<longleftrightarrow>
     (\<forall>t c j. p_threads s t = Some (Running c j) \<longrightarrow> (\<exists>cl. p_clients s c = Some cl \<and> client_locked cl))
   \<and> (\<forall>t t' c j j'. p_threads s t = Some (Running c j) \<longrightarrow> p_threads s t' = Some (Running c j') \<longrightarrow> t = t')"

lemma lock_held_start: "lock_held (start_process clients g w)"
  by (simp add: lock_held_def start_process_def)

lemma lock_held_step: "thread_step win s e s' \<Longrightarrow> lock_held s \<Longrightarrow> lock_held s'"
proof (induction rule: thread_step.induct)
  case (thread_call s t c r j)
  then show ?case by (auto simp: lock_held_def)
next
  case (thread_enter s t c j cl)
  have free: "p_threads s t' \<noteq> Some (Running c j')" for t' j'
    using thread_enter(3,4,5) unfolding lock_held_def by (metis option.inject)
  show ?case using thread_enter(2,3,5) free by (auto simp: lock_held_def)
next
  case (thread_run s t c j j' g' w')
  then show ?case by (auto simp: lock_held_def; metis)
next
  case (thread_leave s t c st out cl)
  then show ?case by (auto simp: lock_held_def; metis)
next
  case (thread_destroy s c)
  have "c' \<noteq> c" if "p_threads s t = Some (Running c' j)" for t c' j
    using thread_destroy(2) that by (force simp: ran_def)
  then show ?case using thread_destroy(3) by (auto simp: lock_held_def RootHeraldClient_Destroy_def)
qed (auto simp: lock_held_def)

text \<open>With one client, the pointer of a leg that has checked it stays in place.\<close>

fun needs_provider :: "thread \<Rightarrow> bool" where
  "needs_provider (Running c (Job_Activate d cb es)) \<longleftrightarrow> True"
| "needs_provider (Running c (Job_Persist d secret)) \<longleftrightarrow> True"
| "needs_provider th \<longleftrightarrow> False"

definition one_client :: "u64 \<Rightarrow> 'w process \<Rightarrow> bool" where
  "one_client c0 s \<longleftrightarrow> dom (p_clients s) \<subseteq> {c0} \<and> \<not> p_crashed s
     \<and> (\<forall>t th. p_threads s t = Some th \<longrightarrow> needs_provider th \<longrightarrow> p_provider s \<noteq> None)
     \<and> (\<forall>t c j. p_threads s t = Some (Entering c j) \<longrightarrow> \<not> needs_provider (Running c j))"

lemma first_job_free: "first_job r = Some j \<Longrightarrow> \<not> needs_provider (Running c j)"
  by (cases r) (auto split: if_splits option.splits)

lemma one_client_start: "clients \<subseteq> {c} \<Longrightarrow> one_client c (start_process clients g w)"
  by (auto simp: one_client_def start_process_def split: if_splits)

lemma job_step_needs:
  assumes "job_step win j g w = Some (Continues j' g' w')" and "needs_provider (Running c j) \<longrightarrow> g \<noteq> None"
  shows "needs_provider (Running c j') \<longrightarrow> g' \<noteq> None"
  using assms by (cases j) (auto simp: Let_def split: if_splits option.splits prod.splits bind_splits)

lemma job_step_crash: "job_step win j g w = Some Null_Dereference \<Longrightarrow> needs_provider (Running c j) \<and> g = None"
  by (cases j) (auto simp: Let_def split: if_splits option.splits prod.splits bind_splits)

lemma one_client_step:
  assumes "thread_step win s e s'" and "lock_held s" and "one_client c0 s"
  shows "one_client c0 s'"
  using assms
proof (induction rule: thread_step.induct)
  case (thread_call s t c r j)
  then show ?case using first_job_free [of r j] by (auto simp: one_client_def)
next
  case (thread_enter s t c j cl)
  have "\<not> needs_provider (Running c j)" using thread_enter(2,6) unfolding one_client_def by blast
  then show ?case using thread_enter(3,6) by (auto simp: one_client_def)
next
  case (thread_run s t c j j' g' w')
  have c: "c' = c0" if "p_threads s t' = Some (Running c' i)" for t' c' i
    using thread_run(4,5) that by (fastforce simp: lock_held_def one_client_def)
  have only: "t' = t" if "p_threads s t' = Some (Running c' i)" for t' c' i
    using thread_run(2,4) c that by (metis lock_held_def)
  have old: "needs_provider (Running c j) \<longrightarrow> p_provider s \<noteq> None" using thread_run(2,5) by (auto simp: one_client_def)
  note new = job_step_needs [OF thread_run(3) old]
  have others: "\<not> needs_provider th" if "p_threads s t' = Some th" "t' \<noteq> t" for t' th
    using only that by (cases th) (auto elim: needs_provider.elims)
  show ?case
    using thread_run(5) new others by (auto simp: one_client_def)
next
  case (thread_crash s t c j)
  then show ?case using job_step_crash [OF thread_crash(3)] by (fastforce simp: one_client_def)
next
  case (thread_leave s t c st out cl)
  then show ?case by (auto simp: one_client_def)
next
  case (thread_evidence s n out st out' w')
  then show ?case by (auto simp: one_client_def)
next
  case (thread_destroy s c)
  then show ?case by (auto simp: one_client_def RootHeraldClient_Destroy_def)
qed (auto simp: one_client_def)

lemma thread_run_invariant:
  assumes "thread_run_from win s s'" and "lock_held s"
  shows "lock_held s'" and "one_client c s \<Longrightarrow> one_client c s'"
proof -
  have "lock_held s' \<and> (one_client c s \<longrightarrow> one_client c s')"
    using assms by induction (blast intro: lock_held_step one_client_step)+
  then show "lock_held s'" "one_client c s \<Longrightarrow> one_client c s'" by blast+
qed

section \<open>Two clients\<close>

text \<open>
  Two threads that complete the same enrollment over two clients: both check the pointer, the first resets
  it, the second reads through it.
\<close>

definition two_threads :: "client_table \<Rightarrow> thread \<Rightarrow> thread \<Rightarrow> enroll_provider \<Rightarrow> 'w \<Rightarrow> 'w process" where
  "two_threads cs a b g w = \<lparr>p_clients = cs, p_threads = [0 \<mapsto> a, 1 \<mapsto> b], p_provider = g, p_world = w, p_crashed = False\<rparr>"

lemma two_threads_run:
  "job_step win j g w = Some (Continues j' g' w') \<Longrightarrow>
   thread_step win (two_threads cs (Running c j) b g w) Silent (two_threads cs (Running c j') b g' w')"
  "job_step win j g w = Some (Continues j' g' w') \<Longrightarrow>
   thread_step win (two_threads cs a (Running c j) g w) Silent (two_threads cs a (Running c j') g' w')"
proof -
  assume j: "job_step win j g w = Some (Continues j' g' w')"
  show "thread_step win (two_threads cs (Running c j) b g w) Silent (two_threads cs (Running c j') b g' w')"
    using thread_run [of "two_threads cs (Running c j) b g w" 0 c j win j' g' w'] j
    by (simp add: two_threads_def fun_upd_twist)
  show "thread_step win (two_threads cs a (Running c j) g w) Silent (two_threads cs a (Running c j') g' w')"
    using thread_run [of "two_threads cs a (Running c j) g w" 1 c j win j' g' w'] j
    by (simp add: two_threads_def)
qed

lemma two_threads_inside:
  assumes c: "c1 \<in> clients" "c2 \<in> clients" "c1 \<noteq> c2" and r: "first_job r = Some j"
  shows "\<exists>cs. thread_run_from win (start_process clients g w) (two_threads cs (Running c1 j) (Running c2 j) g w)"
proof -
  let ?cl = "\<lparr>client_locked = False\<rparr>" and ?lk = "\<lparr>client_locked = True\<rparr>"
  let ?cs = "\<lambda>c. if c \<in> clients then Some ?cl else None"
  let ?s = "\<lambda>cs th. \<lparr>p_clients = cs, p_threads = th, p_provider = g, p_world = w, p_crashed = False\<rparr>"
  have s0: "start_process clients g w = ?s ?cs Map.empty"
    by (simp add: start_process_def RootHeraldClient_Create_def cong: if_cong)
  have s1: "thread_step win (?s ?cs Map.empty) (Called 0 r) (?s ?cs [0 \<mapsto> Entering c1 j])"
    using thread_call [of "?s ?cs Map.empty" 0 c1 r j win] c r by simp
  have s2: "thread_step win (?s ?cs [0 \<mapsto> Entering c1 j]) Silent (?s (?cs(c1 \<mapsto> ?lk)) [0 \<mapsto> Running c1 j])"
    using thread_enter [of "?s ?cs [0 \<mapsto> Entering c1 j]" 0 c1 j ?cl win] c by simp
  have s3: "thread_step win (?s (?cs(c1 \<mapsto> ?lk)) [0 \<mapsto> Running c1 j]) (Called 1 r) (?s (?cs(c1 \<mapsto> ?lk)) [0 \<mapsto> Running c1 j, 1 \<mapsto> Entering c2 j])"
    using thread_call [of "?s (?cs(c1 \<mapsto> ?lk)) [0 \<mapsto> Running c1 j]" 1 c2 r j win] c r by simp
  have s4: "thread_step win (?s (?cs(c1 \<mapsto> ?lk)) [0 \<mapsto> Running c1 j, 1 \<mapsto> Entering c2 j]) Silent
      (?s (?cs(c1 \<mapsto> ?lk, c2 \<mapsto> ?lk)) [0 \<mapsto> Running c1 j, 1 \<mapsto> Running c2 j])"
    using thread_enter [of "?s (?cs(c1 \<mapsto> ?lk)) [0 \<mapsto> Running c1 j, 1 \<mapsto> Entering c2 j]" 1 c2 j ?cl win] c by simp
  have "thread_run_from win (start_process clients g w)
      (two_threads (?cs(c1 \<mapsto> ?lk, c2 \<mapsto> ?lk)) (Running c1 j) (Running c2 j) g w)"
    unfolding two_threads_def s0
    by (rule threads_step [OF threads_step [OF threads_step [OF threads_step [OF threads_start s1] s2] s3] s4])
  then show ?thesis by blast
qed

lemma persist_resets: "\<exists>st out w'. EnrollComplete_persist win d secret p w = Some (st, out, None, w')"
proof -
  obtain hr q w1 where k: "PersistAk (w_tbs win) p w = Some (hr, q, w1)"
    using PersistAk_total by (metis definedE prod_cases3)
  obtain buffer w2 where m: "malloc_text (w_process win) (JsonBuild (map_init
      [(''deviceId'', d), (''decryptedSecret'', Base64Encode (w_strings win) secret)])) (kp_Destroy (w_tbs win) q w1) = (buffer, w2)"
    by (metis prod.exhaust)
  show ?thesis
    by (cases "FAILED hr"; cases buffer) (simp_all add: EnrollComplete_persist_def k m)
qed

text \<open>A leg that starts to activate gives up the pointer in at most two acts.\<close>

lemma activation_resets:
  assumes r: "thread_run_from win s (two_threads cs (Running c (Job_Activate d cb es)) b (Some p) w)"
  shows "\<exists>j w'. thread_run_from win s (two_threads cs (Running c j) b None w')"
proof -
  obtain q w1 where a: "kp_ActivateCredential (w_tbs win) p (Base64Decode (w_strings win) cb) (Base64Decode (w_strings win) es) w
      = Some (q, w1)"
    using ActivateCredential_total unfolding kp_ActivateCredential_def by (metis definedE prod.exhaust)
  show ?thesis
  proof (cases "FAILED (hr_of q) \<or> out_of [] q = []")
    case True
    obtain hr p2 w2 where "DeleteAk (w_tbs win) p w1 = (hr, p2, w2)" by (metis prod_cases3)
    then have "job_step win (Job_Activate d cb es) (Some p) w
        = Some (Continues (Job_Return ROOTHERALD_ERR_ACTIVATION_FAILED (Some None)) None (kp_Destroy (w_tbs win) p2 w2))"
      using a True by simp
    from threads_step [OF r two_threads_run(1) [OF this]] show ?thesis by blast
  next
    case False
    then have "job_step win (Job_Activate d cb es) (Some p) w = Some (Continues (Job_Persist d (out_of [] q)) (Some p) w1)"
      using a by simp
    note r1 = threads_step [OF r two_threads_run(1) [OF this]]
    obtain st out w3 where "EnrollComplete_persist win d (out_of [] q) p w1 = Some (st, out, None, w3)"
      using persist_resets [of win d "out_of [] q" p w1] by (elim exE)
    then have "job_step win (Job_Persist d (out_of [] q)) (Some p) w1 = Some (Continues (Job_Return st out) None w3)"
      by simp
    from threads_step [OF r1 two_threads_run(1) [OF this]] show ?thesis by blast
  qed
qed

section \<open>Properties\<close>

text \<open>C12. The lock of a client serialises its calls, and that is enough for a process that uses one client: however
  its threads interleave, and whatever evidence is collected without a lock meanwhile, no two calls on a
  client are inside the driver at once, and with one client no leg of an enrollment ever reads the pointer to the
  enrollment in flight after another thread has reset it.\<close>

theorem one_client_never_crashes:
  assumes "thread_run_from win (start_process clients g w) s"
  shows "(\<forall>t t' c j j'. p_threads s t = Some (Running c j) \<longrightarrow> p_threads s t' = Some (Running c j') \<longrightarrow> t = t')
    \<and> (\<forall>c. clients \<subseteq> {c} \<longrightarrow> \<not> p_crashed s)"
proof -
  note inv = thread_run_invariant [OF assms lock_held_start]
  show ?thesis
    using inv(1) inv(2) [OF one_client_start] unfolding lock_held_def one_client_def by blast
qed

theorem one_client_never_crashes_witness:
  "\<exists>s. thread_run_from (recorded sample_machine) (start_process {1} (Some sample_provider) ([], [])) s
    \<and> p_threads s 0 = Some (Running 1 (Job_Check sample_challenge)) \<and> \<not> p_crashed s"
proof -
  let ?s0 = "start_process {1} (Some sample_provider) ([] :: bytes list, [] :: (bytes \<times> bytes) list)"
  let ?j = "Job_Check sample_challenge"
  let ?s1 = "?s0\<lparr>p_threads := (p_threads ?s0)(0 \<mapsto> Entering 1 ?j)\<rparr>"
  let ?s2 = "?s1\<lparr>p_threads := (p_threads ?s1)(0 \<mapsto> Running 1 ?j), p_clients := (p_clients ?s1)(1 \<mapsto> \<lparr>client_locked = True\<rparr>)\<rparr>"
  have "c_str sample_challenge \<noteq> []" by code_simp
  then have "thread_step (recorded sample_machine) ?s0 (Called 0 (Complete_Request (Some sample_challenge) (Some None))) ?s1"
    by (intro thread_call [where r = "Complete_Request (Some sample_challenge) (Some None)"])
      (simp_all add: start_process_def RootHeraldClient_Create_def)
  moreover have "thread_step (recorded sample_machine) ?s1 Silent ?s2"
    using thread_enter [of ?s1 0 1 ?j "\<lparr>client_locked = False\<rparr>" "recorded sample_machine"]
    by (simp add: start_process_def RootHeraldClient_Create_def)
  ultimately have run: "thread_run_from (recorded sample_machine) ?s0 ?s2"
    using threads_step [OF threads_step [OF threads_start]] by blast
  show ?thesis
    by (rule exI [of _ ?s2]) (use run one_client_never_crashes [OF run] in simp)
qed

text \<open>C13. The pointer to the enrollment in flight is one for the process while the lock is one per client: with two
  clients, two threads that complete the same enrollment can reach a state in which the second reads
  through the null pointer the first has left.\<close>

theorem two_clients_can_crash:
  assumes "c1 \<in> clients" and "c2 \<in> clients" and "c1 \<noteq> c2" and "c_str challenge \<noteq> []"
    and "JsonGet (c_str challenge) ''deviceId'' \<noteq> []" and "JsonGet (c_str challenge) ''credentialBlob'' \<noteq> []"
    and "JsonGet (c_str challenge) ''encryptedSecret'' \<noteq> []"
  shows "\<exists>s. thread_run_from win (start_process clients (Some p) w) s \<and> p_crashed s"
proof -
  let ?j = "Job_Check challenge"
  have first: "first_job (Complete_Request (Some challenge) (Some None)) = Some ?j" using assms(4) by simp
  obtain cs where r0: "thread_run_from win (start_process clients (Some p) w)
      (two_threads cs (Running c1 ?j) (Running c2 ?j) (Some p) w)"
    using two_threads_inside [OF assms(1-3) first] by metis
  let ?a = "Job_Activate (JsonGet (c_str challenge) ''deviceId'') (JsonGet (c_str challenge) ''credentialBlob'')
      (JsonGet (c_str challenge) ''encryptedSecret'')"
  have j: "job_step win ?j (Some p) w = Some (Continues ?a (Some p) w)" using assms(5-7) by (simp add: Let_def)
  note r2 = threads_step [OF threads_step [OF r0 two_threads_run(1) [OF j]] two_threads_run(2) [OF j]]
  obtain j' w' where r3: "thread_run_from win (start_process clients (Some p) w)
      (two_threads cs (Running c1 j') (Running c2 ?a) None w')"
    using activation_resets [OF r2] by blast
  let ?s = "two_threads cs (Running c1 j') (Running c2 ?a) None w'"
  have "thread_step win ?s Silent (?s\<lparr>p_crashed := True\<rparr>)"
    by (rule thread_crash [of _ 1 c2 ?a]) (simp_all add: two_threads_def)
  from threads_step [OF r3 this] show ?thesis
    by (intro exI [of _ "?s\<lparr>p_crashed := True\<rparr>"] conjI) (simp_all add: two_threads_def)
qed

theorem two_clients_can_crash_witness:
  "\<exists>s. thread_run_from (recorded sample_machine) (start_process {1, 2} (Some sample_provider) ([], [])) s \<and> p_crashed s"
proof -
  have "c_str sample_challenge \<noteq> []" "JsonGet (c_str sample_challenge) ''deviceId'' \<noteq> []"
    "JsonGet (c_str sample_challenge) ''credentialBlob'' \<noteq> []" "JsonGet (c_str sample_challenge) ''encryptedSecret'' \<noteq> []"
    by code_simp+
  from two_clients_can_crash [OF _ _ _ this, of 1 "{1, 2}" 2] show ?thesis by simp
qed

end
