(* ===== verification/Client_Serial.thy ===== *)
theory Client_Serial
  imports Client_Threads
begin

text \<open>
  The threads of a process with one client, against the calls one after the other. The lock of the client makes every
  call that takes it a single step of the machine of \<open>Client_Machine\<close>, in the order of the returns, as
  long as what takes no lock, collecting evidence and freeing a buffer, does not run beside it.
\<close>

section \<open>The calls of a history\<close>

inductive thread_history :: "('c, 'w) windows \<Rightarrow> 'w process \<Rightarrow> thread_event list \<Rightarrow> 'w process \<Rightarrow> bool" for win where
  history_start: "thread_history win s [] s"
| history_step: "thread_history win s es s' \<Longrightarrow> thread_step win s' e s'' \<Longrightarrow> thread_history win s (es @ [e]) s''"

fun call_of :: "request \<Rightarrow> client_call" where
  "call_of (Begin_Request out) = CallEnrollBegin RootHeraldClient_Create out"
| "call_of (Complete_Request challenge out) = CallEnrollComplete RootHeraldClient_Create challenge out"
| "call_of (Posture_Request out) = CallCollectPosture RootHeraldClient_Create out"

text \<open>The result of a call that fails its argument checks: the out-pointer is null where there is one.\<close>

fun refused_result :: "request \<Rightarrow> call_result" where
  "refused_result (Begin_Request out) = (ROOTHERALD_ERR_INVALID_ARG, None)"
| "refused_result (Complete_Request challenge out) = (ROOTHERALD_ERR_INVALID_ARG, map_option (\<lambda>_. None) out)"
| "refused_result (Posture_Request out) = (ROOTHERALD_ERR_INVALID_ARG, None)"

text \<open>The requests of the calls that have not returned, by their threads, and the calls an event completes.\<close>

fun pending_after :: "(nat \<rightharpoonup> request) \<Rightarrow> thread_event \<Rightarrow> (nat \<rightharpoonup> request)" where
  "pending_after q (Called t r) = q(t \<mapsto> r)"
| "pending_after q e = q"

fun completed :: "(nat \<rightharpoonup> request) \<Rightarrow> thread_event \<Rightarrow> (client_call \<times> call_result) list" where
  "completed q (Returned t st out) = (case q t of None \<Rightarrow> [] | Some r \<Rightarrow> [(call_of r, st, out)])"
| "completed q (Refused r) = [(call_of r, refused_result r)]"
| "completed q (Collected beside n out st out') = [(CallCollectEvidence n out, st, out')]"
| "completed q (Freed beside b) = [(CallFreeEvidence b, ROOTHERALD_OK, None)]"
| "completed q e = []"

fun serial_trace :: "(nat \<rightharpoonup> request) \<Rightarrow> thread_event list \<Rightarrow> (client_call \<times> call_result) list" where
  "serial_trace q [] = []"
| "serial_trace q (e # es) = completed q e @ serial_trace (pending_after q e) es"

fun beside_a_call :: "thread_event \<Rightarrow> bool" where
  "beside_a_call (Collected beside n out st out') \<longleftrightarrow> beside"
| "beside_a_call (Freed beside b) \<longleftrightarrow> beside"
| "beside_a_call e \<longleftrightarrow> False"

text \<open>The events that end a call.\<close>

fun ends_call :: "thread_event \<Rightarrow> bool" where
  "ends_call Silent \<longleftrightarrow> False"
| "ends_call (Called t r) \<longleftrightarrow> False"
| "ends_call e \<longleftrightarrow> True"

lemma serial_trace_snoc:
  "serial_trace q (es @ [e]) = serial_trace q es @ completed (foldl pending_after q es) e"
  by (induction es arbitrary: q) simp_all

lemma thread_history_run: "thread_history win s es s' \<Longrightarrow> thread_run_from win s s'"
  by (induction rule: thread_history.induct) (blast intro: thread_run_from.intros)+

section \<open>Pieces of one call\<close>

inductive job_reaches ::
    "('c, 'w) windows \<Rightarrow> job \<Rightarrow> enroll_provider \<Rightarrow> 'w \<Rightarrow> job \<Rightarrow> enroll_provider \<Rightarrow> 'w \<Rightarrow> bool"
  for win j0 g0 w0 where
  reaches_start: "job_reaches win j0 g0 w0 j0 g0 w0"
| reaches_step: "job_reaches win j0 g0 w0 j g w \<Longrightarrow> job_step win j g w = Some (Continues j' g' w') \<Longrightarrow>
    job_reaches win j0 g0 w0 j' g' w'"

lemma job_run_reached:
  assumes "job_reaches win j0 g0 w0 j g w" and "job_run win n j g w = Some x"
  shows "\<exists>m. job_run win m j0 g0 w0 = Some x"
  using assms
proof (induction arbitrary: n rule: job_reaches.induct)
  case reaches_start
  then show ?case by blast
next
  case (reaches_step j g w j' g' w')
  have "job_run win (Suc n) j g w = Some x" using reaches_step(2,4) by (cases j) auto
  then show ?case by (rule reaches_step(3))
qed

text \<open>A call needs at most three pieces.\<close>

lemma job_run_enough: "job_run win n j g w = Some x \<Longrightarrow> job_run win (n + k) j g w = Some x"
  by (induction win n j g w arbitrary: k rule: job_run.induct) (auto simp del: job_step.simps split: bind_splits effect.splits)

lemma job_run_begin: "job_run win (Suc (Suc n)) Job_Begin g w = RootHeraldEnrollBegin win (Some None) g w"
  by (subst EnrollBegin_publishes) (auto simp: Option.bind_eq_Some_conv split: bind_splits option.splits)

lemma job_run_complete:
  "job_run win (Suc (Suc (Suc n))) (Job_Check challenge) g w = RootHeraldEnrollComplete win (Some challenge) (Some None) g w"
  by (auto simp: RootHeraldEnrollComplete_def Let_def split: option.splits bind_splits prod.splits)

lemma job_run_posture:
  "job_run win (Suc n) Job_Posture g w
     = map_option (\<lambda>(st, _, w). (st, None, g, w)) (RootHeraldCollectLocalPosture win (Some zero_posture) w)"
  by (auto split: option.splits bind_splits)

text \<open>A call whose pieces run to the end is a step of the client machine, and so is one that is refused.\<close>

lemma request_runs:
  assumes "first_job r = Some j0" and "job_reaches win j0 g0 w0 (Job_Return st out) g w"
  shows "client_step win (g0, w0) (call_of r) (st, out) (g, w)"
proof -
  obtain m where "job_run win m j0 g0 w0 = Some (st, out, g, w)"
    using job_run_reached [OF assms(2), of 0] by auto
  then have run: "job_run win (Suc (Suc (Suc m))) j0 g0 w0 = Some (st, out, g, w)"
    using job_run_enough [of win m j0 g0 w0 _ 3] by (simp add: numeral_3_eq_3)
  show ?thesis
  proof (cases r)
    case (Begin_Request b)
    then have "RootHeraldEnrollBegin win (Some None) g0 w0 = Some (st, out, g, w)"
      using assms(1) run by (cases b) (simp_all add: job_run_begin del: job_run.simps)
    then show ?thesis
      using assms(1) Begin_Request by (auto simp: RootHeraldClient_Create_def facade_passes intro!: step_begin split: if_splits)
  next
    case (Complete_Request ch b)
    then obtain c b' where c: "ch = Some c" "c_str c \<noteq> []" "b = Some b'" "j0 = Job_Check c"
      using assms(1) by (auto split: option.splits if_splits)
    then have "RootHeraldEnrollComplete win (Some c) (Some None) g0 w0 = Some (st, out, g, w)"
      using run by (simp only: job_run_complete)
    then show ?thesis
      using Complete_Request c by (auto simp: RootHeraldClient_Create_def facade_passes intro!: step_complete)
  next
    case (Posture_Request p)
    then obtain p' where p: "p = Some p'" "j0 = Job_Posture" using assms(1) by (auto split: if_splits)
    then obtain posture where "RootHeraldCollectLocalPosture win (Some zero_posture) w0 = Some (st, posture, w)" "out = None" "g = g0"
      using run by (auto simp: job_run_posture simp del: job_run.simps)
    then show ?thesis
      using Posture_Request p by (auto simp: RootHeraldClient_Create_def facade_passes intro!: step_posture)
  qed
qed

lemma request_refused: "first_job r = None \<Longrightarrow> client_step win (g, w) (call_of r) (refused_result r) (g, w)"
  by (cases r)
    (auto simp: RootHeraldClient_EnrollBegin_def RootHeraldClient_EnrollComplete_def RootHeraldClient_CollectPosture_def
      RootHeraldClient_Create_def intro!: step_begin step_complete step_posture split: if_splits option.splits)

section \<open>Simulation\<close>

text \<open>
  The calls that have returned make a run of the client machine. With no call inside, the process is where
  that run ends; with one, it is somewhere in the pieces of that call, begun there.
\<close>

definition serial_so_far ::
    "('c, 'w) windows \<Rightarrow> enroll_provider \<times> 'w \<Rightarrow> (nat \<rightharpoonup> request) \<Rightarrow> (client_call \<times> call_result) list \<Rightarrow> 'w process \<Rightarrow> bool" where
  "serial_so_far win s0 q trace s \<longleftrightarrow> (\<exists>g0 w0. client_run win s0 trace (g0, w0)
     \<and> (\<not> inside s \<longrightarrow> p_provider s = g0 \<and> p_world s = w0)
     \<and> (\<forall>t c j. p_threads s t = Some (Entering c j) \<longrightarrow> (\<exists>r. q t = Some r \<and> first_job r = Some j))
     \<and> (\<forall>t c j. p_threads s t = Some (Running c j) \<longrightarrow> (\<exists>r j0. q t = Some r \<and> first_job r = Some j0
          \<and> job_reaches win j0 g0 w0 j (p_provider s) (p_world s))))"

lemma serialI:
  assumes "client_run win s0 trace (g0, w0)" and "\<not> inside s \<Longrightarrow> p_provider s = g0" and "\<not> inside s \<Longrightarrow> p_world s = w0"
    and "\<And>t c j. p_threads s t = Some (Entering c j) \<Longrightarrow> \<exists>r. q t = Some r \<and> first_job r = Some j"
    and "\<And>t c j. p_threads s t = Some (Running c j) \<Longrightarrow> \<exists>r j0. q t = Some r \<and> first_job r = Some j0
      \<and> job_reaches win j0 g0 w0 j (p_provider s) (p_world s)"
  shows "serial_so_far win s0 q trace s"
  unfolding serial_so_far_def using assms by blast

lemma serial_start: "serial_so_far win (g, w) Map.empty [] (start_process clients g w)"
  using run_nil [of win "(g, w)"] by (auto simp: serial_so_far_def start_process_def)

lemma inside_one_client:
  assumes "lock_held s" and "one_client c0 s" and "p_threads s t = Some (Running c j)"
  shows "c = c0" and "p_threads s t' = Some (Running c' j') \<Longrightarrow> t' = t"
proof -
  have c: "d = c0" if "p_threads s u = Some (Running d i)" for u d i
    using assms(1,2) that by (fastforce simp: lock_held_def one_client_def)
  show "c = c0" by (rule c [OF assms(3)])
  show "t' = t" if "p_threads s t' = Some (Running c' j')"
    using assms(1,3) that c [OF that] c [OF assms(3)] by (metis lock_held_def)
qed

lemma serialE:
  assumes "serial_so_far win s0 q trace s"
  obtains g0 w0 where "client_run win s0 trace (g0, w0)" and "\<not> inside s \<Longrightarrow> p_provider s = g0 \<and> p_world s = w0"
    and "\<And>t c j. p_threads s t = Some (Entering c j) \<Longrightarrow> \<exists>r. q t = Some r \<and> first_job r = Some j"
    and "\<And>t c j. p_threads s t = Some (Running c j) \<Longrightarrow> \<exists>r j0. q t = Some r \<and> first_job r = Some j0
      \<and> job_reaches win j0 g0 w0 j (p_provider s) (p_world s)"
  using assms unfolding serial_so_far_def by blast

text \<open>What touches neither a thread nor the pointer nor the machine.\<close>

lemma serial_same:
  assumes "serial_so_far win s0 q trace s"
    and "p_threads s' = p_threads s" and "p_provider s' = p_provider s" and "p_world s' = p_world s"
  shows "serial_so_far win s0 q trace s'"
  using assms unfolding serial_so_far_def inside_def by simp

text \<open>A call that takes no lock, with no call inside.\<close>

lemma serial_outside:
  assumes c: "serial_so_far win s0 q trace s" and quiet: "\<not> inside s"
    and step: "client_step win (p_provider s, p_world s) call r (p_provider s, w')"
  shows "serial_so_far win s0 q (trace @ [(call, r)]) (s\<lparr>p_world := w'\<rparr>)"
proof (rule serialE [OF c])
  fix g0 w0
  assume run: "client_run win s0 trace (g0, w0)" and at: "\<not> inside s \<Longrightarrow> p_provider s = g0 \<and> p_world s = w0"
    and entering: "\<And>t c j. p_threads s t = Some (Entering c j) \<Longrightarrow> \<exists>r. q t = Some r \<and> first_job r = Some j"
  have "client_run win s0 (trace @ [(call, r)]) (p_provider s, w')"
    by (rule run_snoc [OF run]) (use at [OF quiet] step in simp)
  then show ?thesis
    by (rule serialI) (use entering quiet in \<open>auto simp: inside_def\<close>)
qed

lemma serial_refused:
  assumes c: "serial_so_far win s0 q trace s" and r: "first_job r = None"
  shows "serial_so_far win s0 q (trace @ [(call_of r, refused_result r)]) s"
proof -
  have "client_run win s0 (trace @ [(call_of r, refused_result r)]) (g0, w0)" if "client_run win s0 trace (g0, w0)" for g0 w0
    by (rule run_snoc [OF that request_refused [OF r]])
  then show ?thesis using c unfolding serial_so_far_def by blast
qed

lemma serial_called:
  assumes c: "serial_so_far win s0 q trace s" and t: "p_threads s t = None" and r: "first_job r = Some j"
  shows "serial_so_far win s0 (q(t \<mapsto> r)) trace (s\<lparr>p_threads := (p_threads s)(t \<mapsto> Entering c j)\<rparr>)"
proof (rule serialE [OF c])
  fix g0 w0
  assume run: "client_run win s0 trace (g0, w0)" and at: "\<not> inside s \<Longrightarrow> p_provider s = g0 \<and> p_world s = w0"
    and entering: "\<And>t c j. p_threads s t = Some (Entering c j) \<Longrightarrow> \<exists>r. q t = Some r \<and> first_job r = Some j"
    and running: "\<And>t c j. p_threads s t = Some (Running c j) \<Longrightarrow> \<exists>r j0. q t = Some r \<and> first_job r = Some j0
      \<and> job_reaches win j0 g0 w0 j (p_provider s) (p_world s)"
  let ?s = "s\<lparr>p_threads := (p_threads s)(t \<mapsto> Entering c j)\<rparr>"
  have same: "inside ?s \<longleftrightarrow> inside s" using t by (auto simp: inside_def) (metis option.distinct(1))
  show ?thesis
  proof (rule serialI [OF run])
    show "p_provider ?s = g0" "p_world ?s = w0" if "\<not> inside ?s" using at same that by simp_all
  next
    fix u d i
    assume "p_threads ?s u = Some (Entering d i)"
    then show "\<exists>r'. (q(t \<mapsto> r)) u = Some r' \<and> first_job r' = Some i"
      using entering [of u] r by (cases "u = t") auto
  next
    fix u d i
    assume "p_threads ?s u = Some (Running d i)"
    then have u: "u \<noteq> t" "p_threads s u = Some (Running d i)" by (auto split: if_splits)
    have "(q(t \<mapsto> r)) u = q u" "p_provider ?s = p_provider s" "p_world ?s = p_world s" using u(1) by simp_all
    then show "\<exists>r' j0. (q(t \<mapsto> r)) u = Some r' \<and> first_job r' = Some j0
        \<and> job_reaches win j0 g0 w0 i (p_provider ?s) (p_world ?s)"
      using running [OF u(2)] by metis
  qed
qed

lemma serial_entered:
  assumes c: "serial_so_far win s0 q trace s" and t: "p_threads s t = Some (Entering c j)" and quiet: "\<not> inside s"
    and s': "p_threads s' = (p_threads s)(t \<mapsto> Running c j)" "p_provider s' = p_provider s" "p_world s' = p_world s"
  shows "serial_so_far win s0 q trace s'"
proof (rule serialE [OF c])
  fix g0 w0
  assume run: "client_run win s0 trace (g0, w0)" and at: "\<not> inside s \<Longrightarrow> p_provider s = g0 \<and> p_world s = w0"
    and entering: "\<And>t c j. p_threads s t = Some (Entering c j) \<Longrightarrow> \<exists>r. q t = Some r \<and> first_job r = Some j"
  obtain r where r: "q t = Some r" "first_job r = Some j" using entering [OF t] by blast
  have "inside s'" using s'(1) by (auto simp: inside_def)
  then show ?thesis
    by (intro serialI [OF run])
      (use entering quiet at [OF quiet] r reaches_start in \<open>auto simp: s' inside_def split: if_splits\<close>)
qed

text \<open>A piece of the one call that is inside, and its end.\<close>

lemma serial_piece:
  assumes c: "serial_so_far win s0 q trace s" and t: "p_threads s t = Some (Running c j)"
    and only: "\<And>t' c' i. p_threads s t' = Some (Running c' i) \<Longrightarrow> t' = t"
    and step: "job_step win j (p_provider s) (p_world s) = Some (Continues j' g' w')"
  shows "serial_so_far win s0 q trace (s\<lparr>p_threads := (p_threads s)(t \<mapsto> Running c j'), p_provider := g', p_world := w'\<rparr>)"
proof (rule serialE [OF c])
  fix g0 w0
  assume run: "client_run win s0 trace (g0, w0)"
    and entering: "\<And>t c j. p_threads s t = Some (Entering c j) \<Longrightarrow> \<exists>r. q t = Some r \<and> first_job r = Some j"
    and running: "\<And>t c j. p_threads s t = Some (Running c j) \<Longrightarrow> \<exists>r j0. q t = Some r \<and> first_job r = Some j0
      \<and> job_reaches win j0 g0 w0 j (p_provider s) (p_world s)"
  obtain r j0 where r: "q t = Some r" "first_job r = Some j0"
    and reached: "job_reaches win j0 g0 w0 j (p_provider s) (p_world s)" using running [OF t] by blast
  let ?s = "s\<lparr>p_threads := (p_threads s)(t \<mapsto> Running c j'), p_provider := g', p_world := w'\<rparr>"
  have i: "inside ?s" by (auto simp: inside_def)
  have now: "job_reaches win j0 g0 w0 j' g' w'" by (rule reaches_step [OF reached step])
  have "p_threads s t' \<noteq> Some (Running c' i)" if "t' \<noteq> t" for t' c' i using only that by blast
  with i now show ?thesis
    by (intro serialI [OF run]) (use entering r in \<open>auto split: if_splits\<close>)
qed

lemma serial_returned:
  assumes c: "serial_so_far win s0 q trace s" and t: "p_threads s t = Some (Running c (Job_Return st out))"
    and only: "\<And>t' c' i. p_threads s t' = Some (Running c' i) \<Longrightarrow> t' = t"
    and s': "p_threads s' = (p_threads s)(t := None)" "p_provider s' = p_provider s" "p_world s' = p_world s"
  shows "serial_so_far win s0 q (trace @ completed q (Returned t st out)) s'"
proof (rule serialE [OF c])
  fix g0 w0
  assume run: "client_run win s0 trace (g0, w0)"
    and entering: "\<And>t c j. p_threads s t = Some (Entering c j) \<Longrightarrow> \<exists>r. q t = Some r \<and> first_job r = Some j"
    and running: "\<And>t c j. p_threads s t = Some (Running c j) \<Longrightarrow> \<exists>r j0. q t = Some r \<and> first_job r = Some j0
      \<and> job_reaches win j0 g0 w0 j (p_provider s) (p_world s)"
  obtain r j0 where r: "q t = Some r" "first_job r = Some j0"
    and reached: "job_reaches win j0 g0 w0 (Job_Return st out) (p_provider s) (p_world s)" using running [OF t] by blast
  have "client_run win s0 (trace @ completed q (Returned t st out)) (p_provider s, p_world s)"
    using run_snoc [OF run request_runs [OF r(2) reached]] r(1) by simp
  moreover have "p_threads s' t' \<noteq> Some (Running c' i)" for t' c' i using only [of t'] s'(1) by auto
  ultimately show ?thesis
    by (intro serialI [of win s0 _ "p_provider s" "p_world s"]) (use entering in \<open>auto simp: s' split: if_splits\<close>)
qed

lemma serial_step:
  assumes step: "thread_step win s e s'" and inv: "lock_held s" "one_client c0 s" and alone: "\<not> beside_a_call e"
    and c: "serial_so_far win s0 q trace s"
  shows "serial_so_far win s0 (pending_after q e) (trace @ completed q e) s'"
  using step
proof cases
  case (thread_call t c r j)
  then show ?thesis using serial_called [OF \<open>serial_so_far win s0 q trace s\<close>] by simp
next
  case (thread_refuse r)
  then show ?thesis using serial_refused [OF c] by simp
next
  case (thread_enter t c j cl)
  have "c \<in> {c0}" using inv(2) thread_enter(5) unfolding one_client_def by (meson domI subsetD)
  then have "p_threads s t' \<noteq> Some (Running c' j')" for t' c' j'
    using inside_one_client(1) [OF inv, of t' c' j'] inv(1) thread_enter(5,6)
    unfolding lock_held_def by (metis option.inject singletonD)
  then have "\<not> inside s" by (auto simp: inside_def)
  from serial_entered [OF \<open>serial_so_far win s0 q trace s\<close> thread_enter(4) this] show ?thesis using thread_enter(1,2) by simp
next
  case (thread_run t c j j' g' w')
  from serial_piece [OF \<open>serial_so_far win s0 q trace s\<close> thread_run(4) inside_one_client(2) [OF inv thread_run(4)] thread_run(5)]
  show ?thesis using thread_run(1,2) by simp
next
  case (thread_crash t c j)
  then show ?thesis using serial_same [OF \<open>serial_so_far win s0 q trace s\<close>] by simp
next
  case (thread_leave t c st out cl)
  from serial_returned [OF \<open>serial_so_far win s0 q trace s\<close> thread_leave(4) inside_one_client(2) [OF inv thread_leave(4)]]
  show ?thesis using thread_leave(1,2) by simp
next
  case (thread_evidence n out st out' w')
  have "\<not> inside s" using alone thread_evidence(1) by simp
  from serial_outside [OF c this step_evidence [OF thread_evidence(4)]] show ?thesis using thread_evidence(1,2) by simp
next
  case (thread_free b)
  have "\<not> inside s" using alone thread_free(1) by simp
  from serial_outside [OF c this step_free] show ?thesis using thread_free(1,2) by simp
next
  case (thread_destroy c)
  then show ?thesis using serial_same [OF \<open>serial_so_far win s0 q trace s\<close>] by simp
qed

lemma serial_counts:
  assumes "thread_step win s e s'" and "serial_so_far win s0 q trace s"
  shows "length (completed q e) = (if ends_call e then 1 else 0)"
  using assms
proof (cases rule: thread_step.cases)
  case (thread_leave t c st out cl)
  then obtain r where "q t = Some r" using assms(2) unfolding serial_so_far_def by blast
  then show ?thesis using thread_leave by simp
qed simp_all

lemma history_serial:
  assumes "thread_history win s0 es s" and "lock_held s0" and "one_client c s0"
    and "serial_so_far win x Map.empty [] s0" and "\<forall>e \<in> set es. \<not> beside_a_call e"
  shows "serial_so_far win x (foldl pending_after Map.empty es) (serial_trace Map.empty es) s
    \<and> length (serial_trace Map.empty es) = length (filter ends_call es)"
  using assms
proof (induction rule: thread_history.induct)
  case (history_start s)
  then show ?case by simp
next
  case (history_step s es s' e s'')
  note inv = thread_run_invariant [OF thread_history_run [OF history_step(1)] history_step(4)]
  have now: "serial_so_far win x (foldl pending_after Map.empty es) (serial_trace Map.empty es) s'"
    and count: "length (serial_trace Map.empty es) = length (filter ends_call es)"
    using history_step(3-7) by simp_all
  from serial_step [OF history_step(2) inv(1) inv(2) [OF history_step(5)] _ now] serial_counts [OF history_step(2) now]
  show ?case using history_step(7) count by (simp add: serial_trace_snoc)
qed

section \<open>Calls without interruption\<close>

text \<open>Every call of the client machine that returns is also a history of its own thread.\<close>

lemma pieces_history:
  assumes "thread_history win s0 es s" and "\<not> p_crashed s" and "p_threads s t = Some (Running c j)"
    and "job_run win n j (p_provider s) (p_world s) = Some (st, out, g', w')"
  shows "\<exists>k. thread_history win s0 (es @ replicate k Silent)
    (s\<lparr>p_threads := (p_threads s)(t \<mapsto> Running c (Job_Return st out)), p_provider := g', p_world := w'\<rparr>)"
  using assms
proof (induction n arbitrary: j s es)
  case 0
  then have "j = Job_Return st out" "p_provider s = g'" "p_world s = w'" by (cases j; simp)+
  then have same: "s\<lparr>p_threads := (p_threads s)(t \<mapsto> Running c (Job_Return st out)), p_provider := g', p_world := w'\<rparr> = s"
    using 0(3) by (auto intro!: process.equality)
  show ?case using 0(1) unfolding same by (intro exI [of _ 0]) simp
next
  case (Suc n)
  show ?case
  proof (cases "\<exists>a b. j = Job_Return a b")
    case True
    then have "job_run win n j (p_provider s) (p_world s) = Some (st, out, g', w')" using Suc(5) by auto
    then show ?thesis by (rule Suc.IH [OF Suc(2,3,4)])
  next
    case False
    then obtain j1 g1 w1 where step: "job_step win j (p_provider s) (p_world s) = Some (Continues j1 g1 w1)"
      and rest: "job_run win n j1 g1 w1 = Some (st, out, g', w')"
      using Suc(5) by (cases j) (auto simp del: job_step.simps split: bind_splits effect.splits)
    let ?s = "s\<lparr>p_threads := (p_threads s)(t \<mapsto> Running c j1), p_provider := g1, p_world := w1\<rparr>"
    note h = history_step [OF Suc(2) thread_run [OF Suc(3,4) step]]
    have p: "\<not> p_crashed ?s" "p_threads ?s t = Some (Running c j1)"
      "job_run win n j1 (p_provider ?s) (p_world ?s) = Some (st, out, g', w')"
      using Suc(3) rest by simp_all
    from Suc.IH [OF h p] obtain k where "thread_history win s0 ((es @ [Silent]) @ replicate k Silent)
        (?s\<lparr>p_threads := (p_threads ?s)(t \<mapsto> Running c (Job_Return st out)), p_provider := g', p_world := w'\<rparr>)"
      by blast
    moreover have "?s\<lparr>p_threads := (p_threads ?s)(t \<mapsto> Running c (Job_Return st out)), p_provider := g', p_world := w'\<rparr>
        = s\<lparr>p_threads := (p_threads s)(t \<mapsto> Running c (Job_Return st out)), p_provider := g', p_world := w'\<rparr>"
      by simp
    moreover have "(es @ [Silent]) @ replicate k Silent = es @ replicate (Suc k) Silent" by simp
    ultimately show ?thesis by metis
  qed
qed

lemma call_history:
  assumes h: "thread_history win s0 es s" and s: "\<not> p_crashed s" "p_threads s t = None"
    and c: "p_clients s c = Some cl" "\<not> client_locked cl" and r: "first_job r = Some j"
    and run: "job_run win n j (p_provider s) (p_world s) = Some (st, out, g', w')"
  shows "\<exists>k. thread_history win s0 (es @ Called t r # replicate k Silent @ [Returned t st out])
    (s\<lparr>p_provider := g', p_world := w'\<rparr>)"
proof -
  let ?s1 = "s\<lparr>p_threads := (p_threads s)(t \<mapsto> Entering c j)\<rparr>"
  let ?s2 = "?s1\<lparr>p_threads := (p_threads ?s1)(t \<mapsto> Running c j), p_clients := (p_clients ?s1)(c \<mapsto> cl\<lparr>client_locked := True\<rparr>)\<rparr>"
  have "p_clients s c \<noteq> None" using c(1) by simp
  note h1 = history_step [OF h thread_call [OF s this r]]
  have "thread_step win ?s1 Silent ?s2" by (rule thread_enter) (use s c in simp_all)
  note h2 = history_step [OF h1 this]
  obtain k where h3: "thread_history win s0 (((es @ [Called t r]) @ [Silent]) @ replicate k Silent)
      (?s2\<lparr>p_threads := (p_threads ?s2)(t \<mapsto> Running c (Job_Return st out)), p_provider := g', p_world := w'\<rparr>)"
    using pieces_history [OF h2, of t c j n st out g' w'] s(1) run by auto
  let ?s3 = "?s2\<lparr>p_threads := (p_threads ?s2)(t \<mapsto> Running c (Job_Return st out)), p_provider := g', p_world := w'\<rparr>"
  let ?s4 = "?s3\<lparr>p_threads := (p_threads ?s3)(t := None), p_clients := (p_clients ?s3)(c \<mapsto> (cl\<lparr>client_locked := True\<rparr>)\<lparr>client_locked := False\<rparr>)\<rparr>"
  have "thread_step win ?s3 (Returned t st out) ?s4" by (rule thread_leave) (use s in simp_all)
  note h4 = history_step [OF h3 this]
  have "?s4 = s\<lparr>p_provider := g', p_world := w'\<rparr>"
    using s(2) c by (auto intro!: process.equality root_herald_client.equality simp: fun_eq_iff)
  then show ?thesis using h4 by (intro exI [of _ "Suc k"]) simp
qed

section \<open>Properties\<close>



end
