(* ===== verification/Threads_On_Device.thy ===== *)
theory Threads_On_Device
  imports Virtual_Tpm Client_Serial
begin

text \<open>
  The threads of any number of clients on one TPM. Races on the pointer to the enrollment in flight may end the process,
  but what they can do to the device is bounded all the same: every provider is owned by the pointer or by the
  thread that is about to publish it, the contexts of different owners differ, and no other context is
  left open.
\<close>

section \<open>Who owns a provider\<close>

fun published :: "job \<Rightarrow> tbs_key_provider option" where
  "published (Job_Publish p st out) = Some p"
| "published j = None"

fun unpublished :: "thread option \<Rightarrow> tbs_key_provider option" where
  "unpublished (Some (Running c j)) = published j"
| "unpublished th = None"

type_synonym owners = "nat option \<Rightarrow> tbs_key_provider option"

definition owners_of :: "'w process \<Rightarrow> owners" where
  "owners_of s = case_option (p_provider s) (\<lambda>t. unpublished (p_threads s t))"

text \<open>The device of a process that started on \<open>d0\<close>.\<close>

definition owned_bounds :: "owners \<Rightarrow> tpm_device \<Rightarrow> tpm_device \<Rightarrow> bool" where
  "owned_bounds H d0 d \<longleftrightarrow> slot_bounded d0 d
     \<and> (\<forall>x p. H x = Some p \<longrightarrow> storable d p \<and> tc_context (kp_tpm p) \<noteq> 0
          \<and> d_contexts d (tc_context (kp_tpm p)) \<noteq> None \<and> d_contexts d0 (tc_context (kp_tpm p)) = None)
     \<and> (\<forall>x y p q. H x = Some p \<longrightarrow> H y = Some q \<longrightarrow> tc_context (kp_tpm p) = tc_context (kp_tpm q) \<longrightarrow> x = y)
     \<and> (\<forall>ctx. (\<forall>x p. H x = Some p \<longrightarrow> ctx \<noteq> tc_context (kp_tpm p)) \<longrightarrow> d_contexts d ctx = d_contexts d0 ctx)"

lemma owned_boundsI:
  assumes "slot_bounded d0 d"
    and "\<And>x p. H x = Some p \<Longrightarrow> storable d p \<and> tc_context (kp_tpm p) \<noteq> 0
      \<and> d_contexts d (tc_context (kp_tpm p)) \<noteq> None \<and> d_contexts d0 (tc_context (kp_tpm p)) = None"
    and "\<And>x y p q. H x = Some p \<Longrightarrow> H y = Some q \<Longrightarrow> tc_context (kp_tpm p) = tc_context (kp_tpm q) \<Longrightarrow> x = y"
    and "\<And>ctx. (\<And>x p. H x = Some p \<Longrightarrow> ctx \<noteq> tc_context (kp_tpm p)) \<Longrightarrow> d_contexts d ctx = d_contexts d0 ctx"
  shows "owned_bounds H d0 d"
  unfolding owned_bounds_def using assms by blast

lemma owned_boundsD:
  assumes "owned_bounds H d0 d"
  shows "slot_bounded d0 d"
    and "H x = Some p \<Longrightarrow> storable d p \<and> tc_context (kp_tpm p) \<noteq> 0
      \<and> d_contexts d (tc_context (kp_tpm p)) \<noteq> None \<and> d_contexts d0 (tc_context (kp_tpm p)) = None"
    and "H x = Some p \<Longrightarrow> H y = Some q \<Longrightarrow> tc_context (kp_tpm p) = tc_context (kp_tpm q) \<Longrightarrow> x = y"
    and "(\<And>x p. H x = Some p \<Longrightarrow> ctx \<noteq> tc_context (kp_tpm p)) \<Longrightarrow> d_contexts d ctx = d_contexts d0 ctx"
  using assms unfolding owned_bounds_def by blast+

lemma storable_same:
  "d_contexts d' (tc_context (kp_tpm p)) = d_contexts d (tc_context (kp_tpm p)) \<Longrightarrow> storable d p \<Longrightarrow> storable d' p"
  by (simp add: storable_def objects_of_def)

text \<open>An operation through the context of one owner.\<close>

lemma owned_operation:
  assumes c: "owned_bounds H d0 d" and x: "H x = Some p"
    and d: "slot_bounded d d'" "others_kept (tc_context (kp_tpm p)) d d'"
    and p: "storable d' p" "d_contexts d' (tc_context (kp_tpm p)) \<noteq> None"
  shows "owned_bounds H d0 d'"
proof (rule owned_boundsI)
  note D = owned_boundsD [OF c]
  have kept: "d_contexts d' ctx = d_contexts d ctx" if "ctx \<noteq> tc_context (kp_tpm p)" for ctx
    using d(2) that by (simp add: others_kept_def)
  show "slot_bounded d0 d'" by (rule slot_bounded_trans [OF D(1) d(1)])
  show "y = z" if "H y = Some q" "H z = Some r" "tc_context (kp_tpm q) = tc_context (kp_tpm r)" for y z q r
    by (rule D(3) [OF that])
  show "d_contexts d' ctx = d_contexts d0 ctx" if "\<And>y q. H y = Some q \<Longrightarrow> ctx \<noteq> tc_context (kp_tpm q)" for ctx
    using D(4) [OF that] kept [OF that [OF x]] by simp
  show "storable d' q \<and> tc_context (kp_tpm q) \<noteq> 0 \<and> d_contexts d' (tc_context (kp_tpm q)) \<noteq> None
      \<and> d_contexts d0 (tc_context (kp_tpm q)) = None" if q: "H y = Some q" for y q
  proof (cases "y = x")
    case True
    then show ?thesis using p D(2) [OF x] q x by simp
  next
    case False
    then have "tc_context (kp_tpm q) \<noteq> tc_context (kp_tpm p)" using D(3) [OF q x] by blast
    then show ?thesis using D(2) [OF q] kept storable_same by metis
  qed
qed

text \<open>The end of one owner: its context is closed, and only the slot may have changed besides.\<close>

lemma owned_closed:
  assumes c: "owned_bounds H d0 d" and x: "H x = Some p"
    and d: "slot_bounded d d'" "others_kept (tc_context (kp_tpm p)) d d'" "d_contexts d' (tc_context (kp_tpm p)) = None"
  shows "owned_bounds (H(x := None)) d0 d'"
proof (rule owned_boundsI)
  note D = owned_boundsD [OF c]
  have kept: "d_contexts d' ctx = d_contexts d ctx" if "ctx \<noteq> tc_context (kp_tpm p)" for ctx
    using d(2) that by (simp add: others_kept_def)
  show "slot_bounded d0 d'" by (rule slot_bounded_trans [OF D(1) d(1)])
  show "y = z" if "(H(x := None)) y = Some q" "(H(x := None)) z = Some r"
    "tc_context (kp_tpm q) = tc_context (kp_tpm r)" for y z q r
    using that by (auto intro: D(3) split: if_splits)
  show "d_contexts d' ctx = d_contexts d0 ctx"
    if out: "\<And>y q. (H(x := None)) y = Some q \<Longrightarrow> ctx \<noteq> tc_context (kp_tpm q)" for ctx
  proof (cases "ctx = tc_context (kp_tpm p)")
    case True
    then show ?thesis using D(2) [OF x] d(3) by simp
  next
    case False
    have "d_contexts d ctx = d_contexts d0 ctx"
    proof (rule D(4))
      fix y q
      assume "H y = Some q"
      then show "ctx \<noteq> tc_context (kp_tpm q)" using out [of y q] False x by (cases "y = x") auto
    qed
    then show ?thesis using kept [OF False] by simp
  qed
  show "storable d' q \<and> tc_context (kp_tpm q) \<noteq> 0 \<and> d_contexts d' (tc_context (kp_tpm q)) \<noteq> None
      \<and> d_contexts d0 (tc_context (kp_tpm q)) = None" if "(H(x := None)) y = Some q" for y q
  proof -
    have q: "H y = Some q" "y \<noteq> x" using that by (auto split: if_splits)
    then have "tc_context (kp_tpm q) \<noteq> tc_context (kp_tpm p)" using D(3) [OF q(1) x] by blast
    then show ?thesis using D(2) [OF q(1)] kept storable_same by metis
  qed
qed

text \<open>A new owner, of a context that was not open.\<close>

lemma owned_opened:
  assumes c: "owned_bounds H d0 d" and x: "H x = None" and n: "client_bounds (Some p) d d'"
  shows "owned_bounds (H(x \<mapsto> p)) d0 d'"
proof (rule owned_boundsI)
  note D = owned_boundsD [OF c]
  have p: "slot_bounded d d'" "storable d' p" "others_kept (tc_context (kp_tpm p)) d d'" "tc_context (kp_tpm p) \<noteq> 0"
    "d_contexts d (tc_context (kp_tpm p)) = None" "d_contexts d' (tc_context (kp_tpm p)) \<noteq> None"
    using n by (simp_all add: client_bounds_def)
  have kept: "d_contexts d' ctx = d_contexts d ctx" if "ctx \<noteq> tc_context (kp_tpm p)" for ctx
    using p(3) that by (simp add: others_kept_def)
  have fresh: "tc_context (kp_tpm q) \<noteq> tc_context (kp_tpm p)" if "H y = Some q" for y q
    using D(2) [OF that] p(5) by metis
  show "slot_bounded d0 d'" by (rule slot_bounded_trans [OF D(1) p(1)])
  show "y = z" if "(H(x \<mapsto> p)) y = Some q" "(H(x \<mapsto> p)) z = Some r"
    "tc_context (kp_tpm q) = tc_context (kp_tpm r)" for y z q r
    using that fresh D(3) by (fastforce split: if_splits)
  show "d_contexts d' ctx = d_contexts d0 ctx"
    if out: "\<And>y q. (H(x \<mapsto> p)) y = Some q \<Longrightarrow> ctx \<noteq> tc_context (kp_tpm q)" for ctx
  proof -
    have "ctx \<noteq> tc_context (kp_tpm q)" if "H y = Some q" for y q
      using out [of y q] that x by (cases "y = x") auto
    then show ?thesis using D(4) [of ctx] kept out [of x p] by simp
  qed
  show "storable d' q \<and> tc_context (kp_tpm q) \<noteq> 0 \<and> d_contexts d' (tc_context (kp_tpm q)) \<noteq> None
      \<and> d_contexts d0 (tc_context (kp_tpm q)) = None" if q: "(H(x \<mapsto> p)) y = Some q" for y q
  proof (cases "y = x")
    case True
    have "d_contexts d (tc_context (kp_tpm p)) = d_contexts d0 (tc_context (kp_tpm p))" using D(4) fresh by metis
    then show ?thesis using True q p by simp
  next
    case False
    then have "H y = Some q" using q by simp
    then show ?thesis using D(2) fresh kept storable_same by metis
  qed
qed

lemma owned_moved:
  assumes c: "owned_bounds H d0 d" and x: "H x = None"
  shows "owned_bounds (H(y := None, x := H y)) d0 d"
proof (cases "x = y")
  case True
  then have "H(y := None, x := H y) = H" using x by auto
  then show ?thesis using c by simp
next
  case ne: False
  note D = owned_boundsD [OF c]
  let ?H = "H(y := None, x := H y)"
  have origin: "H (if z = x then y else z) = Some q" if "?H z = Some q" for z q
    using that by (auto split: if_splits)
  show ?thesis
  proof (rule owned_boundsI)
    show "slot_bounded d0 d" by (rule D(1))
    show "storable d q \<and> tc_context (kp_tpm q) \<noteq> 0 \<and> d_contexts d (tc_context (kp_tpm q)) \<noteq> None
        \<and> d_contexts d0 (tc_context (kp_tpm q)) = None" if "?H z = Some q" for z q
      by (rule D(2) [OF origin [OF that]])
    show "z = u" if "?H z = Some q" "?H u = Some r" "tc_context (kp_tpm q) = tc_context (kp_tpm r)" for z u q r
      using D(3) [OF origin [OF that(1)] origin [OF that(2)] that(3)] that(1,2) by (auto split: if_splits)
    show "d_contexts d ctx = d_contexts d0 ctx" if out: "\<And>z q. ?H z = Some q \<Longrightarrow> ctx \<noteq> tc_context (kp_tpm q)" for ctx
    proof (rule D(4))
      fix z q
      assume "H z = Some q"
      then show "ctx \<noteq> tc_context (kp_tpm q)" using out [of "if z = y then x else z" q] x ne by (cases "z = y"; cases "z = x") auto
    qed
  qed
qed

section \<open>Pieces on the device\<close>

lemma kp_Destroy_closes:
  assumes b: "tpm_behind api ch view" and n: "tc_context (kp_tpm p) \<noteq> 0"
  shows "slot_bounded (view w) (view (kp_Destroy api p w))"
    and "others_kept (tc_context (kp_tpm p)) (view w) (view (kp_Destroy api p w))"
    and "d_contexts (view (kp_Destroy api p w)) (tc_context (kp_tpm p)) = None"
  using kp_Destroy_frame [OF b, of p w] n by (simp_all add: slot_bounded_def others_kept_def)

lemma owned_destroyed:
  assumes b: "tpm_behind api ch view" and c: "owned_bounds H d0 (view w)" and x: "H x = Some p"
    and v: "slot_bounded (view w) (view v)" "others_kept (tc_context (kp_tpm p)) (view w) (view v)" and q: "kp_tpm q = kp_tpm p"
  shows "owned_bounds (H(x := None)) d0 (view (kp_Destroy api q v))"
proof -
  have n: "tc_context (kp_tpm q) \<noteq> 0" using owned_boundsD(2) [OF c x] q by simp
  note k = kp_Destroy_closes [OF b n, of v]
  show ?thesis
    by (rule owned_closed [OF c x])
      (use k q slot_bounded_trans [OF v(1) k(1)] others_kept_trans [OF v(2)] in simp_all)
qed

lemma drop_owned:
  assumes "tpm_behind api ch view" and "owned_bounds H d0 (view w)"
  shows "owned_bounds (H(None := None)) d0 (view (drop_provider api (H None) w))"
proof (cases "H None")
  case None
  then have "H(None := None) = H" by auto
  then show ?thesis using assms(2) None by (simp add: drop_provider_def)
next
  case (Some p)
  then show ?thesis using owned_destroyed [OF assms Some slot_bounded_refl others_kept_refl refl] by (simp add: drop_provider_def)
qed

text \<open>The first leg opens a context or leaves the device as it was.\<close>

lemma begin_owned:
  assumes m: "tpm_machine win ch view" and c: "owned_bounds H d0 (view w)" and x: "H x = None"
    and e: "RootHeraldEnrollBegin win (Some None) None w = Some (st, out, made, w')"
  shows "owned_bounds (H(x := made)) d0 (view w')"
proof -
  have "client_bounds None (view w) (view w)" by (simp add: client_bounds_def)
  then have n: "client_bounds made (view w) (view w')" using EnrollBegin_bounds [OF m _ e] by blast
  show ?thesis
  proof (cases made)
    case None
    then have same_contexts: "d_contexts (view w') = d_contexts (view w)" and s: "slot_bounded (view w) (view w')"
      using n by (simp_all add: client_bounds_def)
    note D = owned_boundsD [OF c]
    have "owned_bounds H d0 (view w')"
      by (rule owned_boundsI)
        (use slot_bounded_trans [OF D(1) s] D(2-4) storable_same same_contexts in \<open>metis+\<close>)
    moreover have "H(x := None) = H" using x by auto
    ultimately show ?thesis using None by simp
  next
    case (Some p)
    then show ?thesis using owned_opened [OF c x] n by simp
  qed
qed

text \<open>The second leg, on the provider of the pointer: it keeps it, or closes it.\<close>

lemma activate_owned:
  assumes m: "tpm_machine win ch view" and c: "owned_bounds H d0 (view w)" and at: "H None = Some p"
    and run: "job_step win (Job_Activate d cb es) (Some p) w = Some (Continues j' g' w')"
  shows "owned_bounds (H(None := g')) d0 (view w') \<and> published j' = None"
proof -
  have b: "tpm_behind (w_tbs win) ch view" using m by (simp add: tpm_machine_def)
  obtain r w1 where a: "kp_ActivateCredential (w_tbs win) p (Base64Decode (w_strings win) cb) (Base64Decode (w_strings win) es) w
      = Some (r, w1)"
    using run by (auto split: bind_splits)
  note n = kp_ActivateCredential_frame [OF b a]
  note s1 = only_context_slot [OF no_new_object_only [OF n]] and o1 = only_context_others [OF no_new_object_only [OF n]]
  show ?thesis
  proof (cases "FAILED (hr_of r) \<or> out_of [] r = []")
    case True
    obtain hr q w2 where k: "DeleteAk (w_tbs win) p w1 = (hr, q, w2)" by (metis prod_cases3)
    note f = DeleteAk_frame [OF b k]
    have res: "g' = None" "published j' = None" "w' = kp_Destroy (w_tbs win) q w2" using run a True k by auto
    have "owned_bounds (H(None := None)) d0 (view w')"
      unfolding res(3)
      by (rule owned_destroyed [OF b c at slot_bounded_trans [OF s1 only_context_slot [OF no_new_object_only [OF f(1)]]]
            others_kept_trans [OF o1 only_context_others [OF no_new_object_only [OF f(1)]]] f(2)])
    then show ?thesis using res by simp
  next
    case False
    then have res: "g' = Some p" "published j' = None" "w' = w1" using run a by auto
    have "owned_bounds H d0 (view w1)"
      by (rule owned_operation [OF c at s1 o1])
        (use storable_kept [OF n] owned_boundsD(2) [OF c at] no_new_object_only [OF n] in \<open>simp_all add: only_context_def\<close>)
    moreover have "H(None := Some p) = H" using at by auto
    ultimately show ?thesis using res by simp
  qed
qed

lemma persist_owned:
  assumes m: "tpm_machine win ch view" and c: "owned_bounds H d0 (view w)" and at: "H None = Some p"
    and k: "EnrollComplete_persist win d secret p w = Some (st, out, g', w')"
  shows "owned_bounds (H(None := g')) d0 (view w')"
proof -
  have b: "tpm_behind (w_tbs win) ch view" "chip_wf ch" using m by (simp_all add: tpm_machine_def)
  obtain hr q w1 where a: "PersistAk (w_tbs win) p w = Some (hr, q, w1)"
    using k by (auto simp: EnrollComplete_persist_def split: bind_splits)
  have "storable (view w) p" using owned_boundsD(2) [OF c at] by simp
  note f = PersistAk_frame [OF b this a]
  let ?v = "kp_Destroy (w_tbs win) q w1"
  have o: "owned_bounds (H(None := None)) d0 (view ?v)"
    by (rule owned_destroyed [OF b(1) c at]) (use f in simp_all)
  have pr: "calm_process (w_process win) (\<lambda>v. view v = view ?v)"
    using m unfolding tpm_machine_def quiet_windows_def by blast
  have "g' = None \<and> view w' = view ?v"
    using k a calm_process.malloc_text [OF pr]
    by (auto simp: EnrollComplete_persist_def Let_def split: if_splits prod.splits option.splits)
  then show ?thesis using o by simp
qed

text \<open>A piece changes what its thread and the pointer own, and nothing else.\<close>

lemma job_step_owned:
  assumes m: "tpm_machine win ch view" and c: "owned_bounds H d0 (view w)"
    and x: "H None = g" "H (Some t) = published j" and run: "job_step win j g w = Some (Continues j' g' w')"
  shows "owned_bounds (H(Some t := published j', None := g')) d0 (view w')"
proof (cases j)
  case Job_Begin
  obtain st out where e: "RootHeraldEnrollBegin win (Some None) None w = Some (st, out, published j', w')" and g': "g' = g"
    using run Job_Begin by (auto split: bind_splits option.splits)
  have "owned_bounds (H(Some t := published j')) d0 (view w')"
    by (rule begin_owned [OF m c _ e]) (use x(2) Job_Begin in simp)
  moreover have "H(Some t := published j', None := g') = H(Some t := published j')" using g' x(1) by auto
  ultimately show ?thesis by simp
next
  case (Job_Publish p st out)
  have b: "tpm_behind (w_tbs win) ch view" using m by (simp add: tpm_machine_def)
  have w': "w' = drop_provider (w_tbs win) g w" and n: "published j' = None" "g' = Some p" using run Job_Publish by auto
  have "owned_bounds (H(None := None)) d0 (view w')" using drop_owned [OF b c] x(1) w' by simp
  from owned_moved [OF this, of None "Some t"] show ?thesis
    using n x(2) Job_Publish by (simp add: fun_upd_twist)
next
  case (Job_Activate d cb es)
  then obtain p where p: "g = Some p" using run by (cases g) auto
  have "H(Some t := None, None := g') = H(None := g')" using x(2) Job_Activate by auto
  then show ?thesis using activate_owned [OF m c, of p] x(1) run p Job_Activate by simp
next
  case (Job_Persist d secret)
  then obtain p where p: "g = Some p" using run by (cases g) auto
  then obtain st out where k: "EnrollComplete_persist win d secret p w = Some (st, out, g', w')" and j': "published j' = None"
    using run Job_Persist by (auto split: bind_splits)
  have "H(Some t := None, None := g') = H(None := g')" using x(2) Job_Persist by auto
  then show ?thesis using persist_owned [OF m c _ k] x(1) p j' by simp
next
  case (Job_Return st out)
  then show ?thesis using run by simp
next
  case (Job_Check challenge)
  then have "w' = w" "g' = g" "published j' = None" using run by (auto simp: Let_def split: if_splits)
  moreover have "H(Some t := None, None := g) = H" using x Job_Check by auto
  ultimately show ?thesis using c by simp
next
  case Job_Posture
  then obtain st posture where "RootHeraldCollectLocalPosture win (Some zero_posture) w = Some (st, posture, w')"
    and res: "g' = g" "published j' = None" using run by (auto split: bind_splits)
  then have "view w' = view w" by (intro CollectLocalPosture_view [OF m])
  moreover have "H(Some t := None, None := g) = H" using x Job_Posture by auto
  ultimately show ?thesis using c res by simp
qed

section \<open>Runs\<close>

definition device_of_threads :: "('w \<Rightarrow> tpm_device) \<Rightarrow> tpm_device \<Rightarrow> 'w process \<Rightarrow> bool" where
  "device_of_threads view d0 s \<longleftrightarrow> owned_bounds (owners_of s) d0 (view (p_world s))
     \<and> (\<forall>t c j. p_threads s t = Some (Entering c j) \<longrightarrow> published j = None)"

lemma owners_of_simps [simp]:
  "owners_of s None = p_provider s"
  "owners_of s (Some t) = unpublished (p_threads s t)"
  by (simp_all add: owners_of_def)

lemma first_job_unpublished: "first_job r = Some j \<Longrightarrow> published j = None"
  by (cases r) (auto split: if_splits option.splits)

lemma owners_eqI: "p_provider s' = H None \<Longrightarrow> (\<And>t. unpublished (p_threads s' t) = H (Some t)) \<Longrightarrow> owners_of s' = H"
  by (rule ext, rename_tac x, case_tac x) simp_all

text \<open>Calls without a lock, and posture, leave the device alone.\<close>

lemma facade_evidence_view:
  assumes "tpm_machine win ch view" and "RootHeraldClient_CollectEvidence win n out w = Some (st, out', w')"
  shows "view w' = view w"
  using assms(2) CollectEvidence_view [OF assms(1)]
  by (auto simp: RootHeraldClient_CollectEvidence_def Let_def split: if_splits)

lemma facade_free_view:
  assumes "tpm_machine win ch view"
  shows "view (RootHeraldClient_FreeEvidence win b w) = view w"
proof -
  have "calm_process (w_process win) (\<lambda>v. view v = view w)"
    using assms unfolding tpm_machine_def quiet_windows_def by blast
  from calm_process.free [OF this refl] show ?thesis
    by (simp add: RootHeraldClient_FreeEvidence_def RootHeraldFreeEvidence_def)
qed

lemma thread_step_device:
  assumes m: "tpm_machine win ch view" and step: "thread_step win s e s'" and d: "device_of_threads view d0 s"
  shows "device_of_threads view d0 s'"
proof -
  have c: "owned_bounds (owners_of s) d0 (view (p_world s))"
    and fresh: "\<And>t c j. p_threads s t = Some (Entering c j) \<Longrightarrow> published j = None"
    using d unfolding device_of_threads_def by blast+
  have unchanged: "device_of_threads view d0 s'"
    if "owners_of s' = owners_of s" "view (p_world s') = view (p_world s)"
      "\<And>t c j. p_threads s' t = Some (Entering c j) \<Longrightarrow> published j = None"
    using c that by (simp add: device_of_threads_def)
  show ?thesis
    using step
  proof cases
    case (thread_call t c r j)
    have "published j = None" by (rule first_job_unpublished [OF thread_call(6)])
    then show ?thesis
      by (intro unchanged owners_eqI) (use thread_call fresh in \<open>auto split: if_splits\<close>)
  next
    case (thread_refuse r)
    then show ?thesis using d by simp
  next
    case (thread_enter t c j cl)
    then show ?thesis
      by (intro unchanged owners_eqI) (use fresh in \<open>auto split: if_splits\<close>)
  next
    case (thread_run t c j j' g' w')
    have "owned_bounds ((owners_of s)(Some t := published j', None := g')) d0 (view w')"
      by (rule job_step_owned [OF m c _ _ thread_run(5)]) (simp_all add: thread_run(4))
    moreover have "owners_of s' = (owners_of s)(Some t := published j', None := g')"
      by (rule owners_eqI) (simp_all add: thread_run(2))
    ultimately show ?thesis
      using fresh by (auto simp: device_of_threads_def thread_run(2) split: if_splits)
  next
    case (thread_crash t c j)
    show ?thesis by (intro unchanged owners_eqI) (use fresh in \<open>auto simp: thread_crash(2)\<close>)
  next
    case (thread_leave t c st out cl)
    show ?thesis
      by (intro unchanged owners_eqI) (use fresh in \<open>auto simp: thread_leave(2,4) split: if_splits\<close>)
  next
    case (thread_evidence n out st out' w')
    show ?thesis
      by (intro unchanged owners_eqI)
        (use fresh facade_evidence_view [OF m thread_evidence(4)] in \<open>auto simp: thread_evidence(2)\<close>)
  next
    case (thread_free b)
    show ?thesis
      by (intro unchanged owners_eqI) (use fresh facade_free_view [OF m] in \<open>auto simp: thread_free(2)\<close>)
  next
    case (thread_destroy c)
    show ?thesis by (intro unchanged owners_eqI) (use fresh in \<open>auto simp: thread_destroy(2)\<close>)
  qed
qed

lemma thread_run_device:
  assumes m: "tpm_machine win ch view" and run: "thread_run_from win s s'" and d: "device_of_threads view d0 s"
  shows "device_of_threads view d0 s'"
  using run d by induction (blast intro: thread_step_device [OF m])+

lemma device_at_start: "device_of_threads view (view w) (start_process clients None w)"
proof -
  have none: "owners_of (start_process clients None w) = (\<lambda>_. None)"
    by (rule owners_eqI) (simp_all add: start_process_def)
  have "owned_bounds (owners_of (start_process clients None w)) (view w) (view (p_world (start_process clients None w)))"
    unfolding none by (rule owned_boundsI) (simp_all add: start_process_def)
  then show ?thesis by (simp add: device_of_threads_def start_process_def)
qed

lemma unpublished_running: "unpublished th = Some p \<Longrightarrow> \<exists>c st out. th = Some (Running c (Job_Publish p st out))"
  by (induction th rule: unpublished.induct) (auto elim: published.elims)

section \<open>Properties\<close>



end
