(* ===== verification/Crypt_Handles.thy ===== *)
theory Crypt_Handles
  imports Bcrypt Secure_Boot
begin

text \<open>
  The handles of \<open>src/boot/secureboot_validator.cpp\<close>. \<open>Secure_Boot\<close> reads what CryptoAPI answers from a
  \<open>crypt_api\<close>; here \<open>CertThumbprint\<close> and \<open>ParseDerCertificate\<close> are the calls themselves on a world, with the
  owners of the certificate context, the provider and the hash. Each parse is the function of
  \<open>Secure_Boot\<close> at the answers of its run, and its calls are bracketed: every handle is closed once, in
  reverse order, and none is used outside its scope.
\<close>

section \<open>CryptoAPI\<close>

text \<open>
  A \<open>BOOL\<close> is its truth, a written handle follows it; a null context is 0. The names of a context are
  read from it without an effect.
\<close>

record 'w crypt_calls =
  acquire_context :: "'w \<Rightarrow> bool \<times> u64 \<times> 'w"
  create_hash :: "u64 \<Rightarrow> 'w \<Rightarrow> bool \<times> u64 \<times> 'w"
  hash_data :: "u64 \<Rightarrow> bytes \<Rightarrow> 'w \<Rightarrow> bool \<times> 'w"
  hash_param :: "u64 \<Rightarrow> 'w \<Rightarrow> bool \<times> bytes \<times> 'w"
  destroy_hash :: "u64 \<Rightarrow> 'w \<Rightarrow> 'w"
  release_context :: "u64 \<Rightarrow> 'w \<Rightarrow> 'w"
  create_cert :: "bytes \<Rightarrow> 'w \<Rightarrow> u64 \<times> 'w"
  free_cert :: "u64 \<Rightarrow> 'w \<Rightarrow> 'w"
  subject_of :: "u64 \<Rightarrow> 'w \<Rightarrow> string"
  issuer_of :: "u64 \<Rightarrow> 'w \<Rightarrow> string"
  name_of :: "u64 \<Rightarrow> string \<Rightarrow> 'w \<Rightarrow> u32 \<times> string"

definition CertContextTraits :: "'w crypt_calls \<Rightarrow> (u64, 'w) handle_traits" where
  "CertContextTraits api = \<lparr>Invalid = 0, Close = free_cert api\<rparr>"

definition CryptProvTraits :: "'w crypt_calls \<Rightarrow> (u64, 'w) handle_traits" where
  "CryptProvTraits api = \<lparr>Invalid = 0, Close = release_context api\<rparr>"

definition CryptHashTraits :: "'w crypt_calls \<Rightarrow> (u64, 'w) handle_traits" where
  "CryptHashTraits api = \<lparr>Invalid = 0, Close = destroy_hash api\<rparr>"

section \<open>The calls of a certificate\<close>

definition CertThumbprint_hash :: "'w crypt_calls \<Rightarrow> bytes \<Rightarrow> u64 \<Rightarrow> 'w \<Rightarrow> string \<times> 'w" where
  "CertThumbprint_hash api der hash w =
     (let (ok, w) = hash_data api hash (ulong_prefix der) w
      in if \<not> ok then ([], w)
         else
           let (ok, digest, w) = hash_param api hash w
           in (if \<not> ok then [] else hex_render hex_upper (vec_resize 32 digest), w))"

definition CertThumbprint_calls :: "'w crypt_calls \<Rightarrow> bytes \<Rightarrow> 'w \<Rightarrow> string \<times> 'w" where
  "CertThumbprint_calls api der w =
     with_handle (CryptProvTraits api) (acquire_context api) (\<lambda>ok provider w.
       if \<not> ok then ([], w)
       else with_handle (CryptHashTraits api) (create_hash api provider) (\<lambda>ok hash w.
         if \<not> ok then ([], w) else CertThumbprint_hash api der hash w) w) w"

definition RdnValue_calls :: "'w crypt_calls \<Rightarrow> u64 \<Rightarrow> string \<Rightarrow> 'w \<Rightarrow> string" where
  "RdnValue_calls api ctx oid w = (let (n, s) = name_of api ctx oid w in if n > 1 then s else [])"

definition ParseDerCertificate_calls :: "'w crypt_calls \<Rightarrow> bytes \<Rightarrow> 'w \<Rightarrow> cert_info \<times> 'w" where
  "ParseDerCertificate_calls api der w =
     (let (ctx, w) = create_cert api (ulong_prefix der) w;
          (info, w) =
            (if \<not> uh_valid (CertContextTraits api) ctx then (empty_cert_info, w)
             else
               let info = empty_cert_info\<lparr>subject := subject_of api ctx w, issuer := issuer_of api ctx w\<rparr>;
                   (thumbprint, w) = CertThumbprint_calls api der w;
                   info = info\<lparr>thumbprintSha256 := thumbprint\<rparr>;
                   org = RdnValue_calls api ctx szOID_ORGANIZATION_NAME w;
                   cn = RdnValue_calls api ctx szOID_COMMON_NAME w;
                   info = info\<lparr>isMicrosoftCert := is_microsoft (ToUpper thumbprint) org\<rparr>
               in (classify_pk cn org info, w))
      in (info, uh_Destroy (CertContextTraits api) ctx w))"

section \<open>The answers of a run\<close>

text \<open>
  What CryptoAPI answers when \<open>der\<close> is parsed in \<open>w\<close>. There is one context, so its type is \<open>unit\<close>: the
  names are those of the world in which the code reads them, before and after the digest.
\<close>

definition answers :: "'w crypt_calls \<Rightarrow> bytes \<Rightarrow> 'w \<Rightarrow> unit crypt_api" where
  "answers api der w =
     (let (ctx, w0) = create_cert api (ulong_prefix der) w;
          (acquired, provider, w1) = acquire_context api w0;
          (created, hash, w2) = create_hash api provider w1;
          (hashed, w3) = hash_data api hash (ulong_prefix der) w2;
          (read, digest, _) = hash_param api hash w3;
          after = snd (CertThumbprint_calls api der w0)
      in \<lparr>CertCreateCertificateContext = (\<lambda>_. if ctx = 0 then None else Some ()),
          subject_to_str = (\<lambda>_. subject_of api ctx w0), issuer_to_str = (\<lambda>_. issuer_of api ctx w0),
          CertGetNameString = (\<lambda>_ oid. name_of api ctx oid after),
          CryptAcquireContext = acquired, CryptCreateHash = created, CryptHashData = (\<lambda>_. hashed),
          CryptGetHashParam = (\<lambda>_. if read then Some digest else None)\<rparr>)"

lemma CertThumbprint_answers:
  assumes "create_cert api (ulong_prefix der) w = (ctx, w0)"
  shows "fst (CertThumbprint_calls api der w0) = CertThumbprint (answers api der w) der"
  by (simp add: CertThumbprint_def CertThumbprint_calls_def CertThumbprint_hash_def answers_def with_handle_def
      put_empty assms split: prod.split)

lemma ParseDerCertificate_answers:
  "fst (ParseDerCertificate_calls api der w) = ParseDerCertificate (answers api der w) der"
proof -
  obtain ctx w0 where c: "create_cert api (ulong_prefix der) w = (ctx, w0)" by (metis prod.exhaust)
  obtain thumb w1 where t: "CertThumbprint_calls api der w0 = (thumb, w1)" by (metis prod.exhaust)
  have thumb: "CertThumbprint (answers api der w) der = thumb"
    using CertThumbprint_answers [OF c] by (simp add: t)
  have opened: "CertCreateCertificateContext (answers api der w) der = (if ctx = 0 then None else Some ())"
    and names: "subject_to_str (answers api der w) () = subject_of api ctx w0"
      "issuer_to_str (answers api der w) () = issuer_of api ctx w0"
      "CertGetNameString (answers api der w) () oid = name_of api ctx oid w1" for oid
    by (simp_all add: answers_def c t split: prod.split)
  show ?thesis
    by (simp add: ParseDerCertificate_calls_def ParseDerCertificate_def c t thumb opened names uh_valid_def
        CertContextTraits_def RdnValue_calls_def RdnValue_def Let_def)
qed

section \<open>Brackets\<close>

text \<open>
  The owners that hold something, and what a call does to them. A trace is run on the stack of open
  handles: only the newest is given back, only an open one is used.
\<close>

datatype crypt_owner = Context u64 | Provider u64 | Hash u64

datatype crypt_event = Taken crypt_owner | Used crypt_owner | Given crypt_owner

fun event_on :: "crypt_event \<Rightarrow> crypt_owner list \<Rightarrow> crypt_owner list option" where
  "event_on (Taken h) st = Some (h # st)"
| "event_on (Used h) st = (if h \<in> set st then Some st else None)"
| "event_on (Given h) [] = None"
| "event_on (Given h) (x # st) = (if x = h then Some st else None)"

fun brackets :: "crypt_event list \<Rightarrow> crypt_owner list \<Rightarrow> crypt_owner list option" where
  "brackets [] st = Some st"
| "brackets (e # es) st = Option.bind (event_on e st) (brackets es)"

definition taken :: "(u64 \<Rightarrow> crypt_owner) \<Rightarrow> u64 \<Rightarrow> crypt_event list" where
  "taken k h = (if h = 0 then [] else [Taken (k h)])"

text \<open>Any CryptoAPI, with the events of its calls written behind the world.\<close>

definition booked :: "'w crypt_calls \<Rightarrow> ('w \<times> crypt_event list) crypt_calls" where
  "booked api = \<lparr>
     acquire_context = (\<lambda>(w, l). let (ok, h, w) = acquire_context api w in (ok, h, w, l @ taken Provider h)),
     create_hash = (\<lambda>p (w, l). let (ok, h, w) = create_hash api p w
       in (ok, h, w, l @ [Used (Provider p)] @ taken Hash h)),
     hash_data = (\<lambda>h d (w, l). let (ok, w) = hash_data api h d w in (ok, w, l @ [Used (Hash h)])),
     hash_param = (\<lambda>h (w, l). let (ok, d, w) = hash_param api h w in (ok, d, w, l @ [Used (Hash h)])),
     destroy_hash = (\<lambda>h (w, l). (destroy_hash api h w, l @ [Given (Hash h)])),
     release_context = (\<lambda>h (w, l). (release_context api h w, l @ [Given (Provider h)])),
     create_cert = (\<lambda>der (w, l). let (h, w) = create_cert api der w in (h, w, l @ taken Context h)),
     free_cert = (\<lambda>h (w, l). (free_cert api h w, l @ [Given (Context h)])),
     subject_of = (\<lambda>h (w, l). subject_of api h w),
     issuer_of = (\<lambda>h (w, l). issuer_of api h w),
     name_of = (\<lambda>h oid (w, l). name_of api h oid w)\<rparr>"

text \<open>A call that succeeds writes a handle.\<close>

definition gives_handles :: "'w crypt_calls \<Rightarrow> bool" where
  "gives_handles api \<longleftrightarrow> (\<forall>w h w'. acquire_context api w = (True, h, w') \<longrightarrow> h \<noteq> 0)
     \<and> (\<forall>p w h w'. create_hash api p w = (True, h, w') \<longrightarrow> h \<noteq> 0)"

text \<open>From one world to another with the stack \<open>st\<close> at both ends.\<close>

definition bracketed :: "crypt_owner list \<Rightarrow> 'w \<times> crypt_event list \<Rightarrow> 'w \<times> crypt_event list \<Rightarrow> bool" where
  "bracketed st s s' \<longleftrightarrow> (\<exists>es. snd s' = snd s @ es \<and> brackets es st = Some st)"

lemma brackets_append: "brackets (es @ fs) st = Option.bind (brackets es st) (brackets fs)"
  by (induction es arbitrary: st) (auto split: bind_splits)

lemma bracketed_refl [simp, intro]: "bracketed st s s"
  by (simp add: bracketed_def)

lemma bracketed_trans: "bracketed st s t \<Longrightarrow> bracketed st t u \<Longrightarrow> bracketed st s u"
  by (force simp: bracketed_def brackets_append)

lemma bracketed_scope:
  assumes "snd t = snd s @ [Taken h]" and "bracketed (h # st) t u" and "snd v = snd u @ [Given h]"
  shows "bracketed st s v"
  using assms by (force simp: bracketed_def brackets_append)

text \<open>The scope of an owner: the handle is taken, the body runs above it, and it is given back.\<close>

lemma owner_scope:
  assumes "snd t = snd s @ taken k h" and "bracketed ((if h = 0 then [] else [k h]) @ st) t u"
    and "Invalid tr = 0" and "\<And>w l. snd (Close tr h (w, l)) = l @ [Given (k h)]"
  shows "bracketed st s (uh_Destroy tr h u)"
proof (cases "h = 0")
  case True
  then show ?thesis using assms by (simp add: taken_def uh_Destroy_def uh_Reset_def bracketed_def)
next
  case False
  have "snd (uh_Destroy tr h u) = snd u @ [Given (k h)]"
    using False assms(3,4) by (cases u) (simp add: uh_Destroy_def uh_Reset_def)
  then show ?thesis using bracketed_scope [of t s "k h" st u] False assms(1,2) by (simp add: taken_def)
qed

lemma booked_traits [simp]:
  "Invalid (CryptProvTraits api) = 0" "Invalid (CryptHashTraits api) = 0" "Invalid (CertContextTraits api) = 0"
  "snd (Close (CryptProvTraits (booked api')) h (w, l)) = l @ [Given (Provider h)]"
  "snd (Close (CryptHashTraits (booked api')) h (w, l)) = l @ [Given (Hash h)]"
  "snd (Close (CertContextTraits (booked api')) h (w, l)) = l @ [Given (Context h)]"
  by (simp_all add: CryptProvTraits_def CryptHashTraits_def CertContextTraits_def booked_def)

lemma hash_bracketed:
  "CertThumbprint_hash (booked api) der h s = (r, s') \<Longrightarrow> bracketed (Hash h # st) s s'"
  by (auto simp: CertThumbprint_hash_def booked_def bracketed_def Let_def split: prod.splits if_splits)

text \<open>The scope of an owner that a call fills, behind a use of handles below it.\<close>

lemma with_handle_scope:
  assumes "with_handle tr acquire body s = (r, s')" and "acquire s = (ok, h, t)"
    and "bracketed st s m" and "snd t = snd m @ taken k h"
    and "\<And>r u. body ok h t = (r, u) \<Longrightarrow> bracketed ((if h = 0 then [] else [k h]) @ st) t u"
    and "Invalid tr = 0" and "\<And>w l. snd (Close tr h (w, l)) = l @ [Given (k h)]"
  shows "bracketed st s s'"
proof -
  obtain r' u where b: "body ok h t = (r', u)" by (metis prod.exhaust)
  have "s' = uh_Destroy tr h u" using assms(1) by (simp add: with_handle_def put_empty assms(2) b)
  then have "bracketed st m s'" using owner_scope [OF assms(4) assms(5) [OF b] assms(6,7)] by simp
  then show ?thesis using assms(3) bracketed_trans by blast
qed

lemma hash_scope:
  assumes "gives_handles api"
    and "with_handle (CryptHashTraits (booked api)) (create_hash (booked api) p) (\<lambda>ok hash w.
         if \<not> ok then ([], w) else CertThumbprint_hash (booked api) der hash w) s = (r, s')"
  shows "bracketed (Provider p # st) s s'"
proof -
  obtain w l where s: "s = (w, l)" by (cases s)
  obtain ok h w1 where c: "create_hash api p w = (ok, h, w1)" by (metis prod_cases3)
  have valid: "ok \<Longrightarrow> h \<noteq> 0" using assms(1) c unfolding gives_handles_def by metis
  show ?thesis using assms(2)
  proof (rule with_handle_scope)
    show "create_hash (booked api) p s = (ok, h, w1, l @ [Used (Provider p)] @ taken Hash h)"
      by (simp add: booked_def s c)
    show "bracketed (Provider p # st) s (w, l @ [Used (Provider p)])" by (simp add: bracketed_def s)
  qed (use valid in \<open>auto intro: hash_bracketed split: if_splits\<close>)
qed

lemma CertThumbprint_bracketed:
  assumes "gives_handles api" and "CertThumbprint_calls (booked api) der s = (r, s')"
  shows "bracketed st s s'"
proof -
  obtain w l where s: "s = (w, l)" by (cases s)
  obtain ok h w1 where a: "acquire_context api w = (ok, h, w1)" by (metis prod_cases3)
  have valid: "ok \<Longrightarrow> h \<noteq> 0" using assms(1) a unfolding gives_handles_def by metis
  show ?thesis using assms(2) unfolding CertThumbprint_calls_def
  proof (rule with_handle_scope)
    show "acquire_context (booked api) s = (ok, h, w1, l @ taken Provider h)"
      by (simp add: booked_def s a)
  qed (use valid in \<open>auto simp: s intro: hash_scope [OF assms(1)] split: if_splits\<close>)
qed

lemma ParseDerCertificate_bracketed:
  assumes "gives_handles api"
  shows "bracketed st s (snd (ParseDerCertificate_calls (booked api) der s))"
proof -
  obtain w l where s: "s = (w, l)" by (cases s)
  obtain h w1 where c: "create_cert api (ulong_prefix der) w = (h, w1)" by (metis prod.exhaust)
  define t where "t = (w1, l @ taken Context h)"
  obtain thumb u where d: "CertThumbprint_calls (booked api) der t = (thumb, u)" by (metis prod.exhaust)
  have opened: "create_cert (booked api) (ulong_prefix der) s = (h, t)"
    by (simp add: booked_def s c t_def)
  have "snd (ParseDerCertificate_calls (booked api) der s)
      = uh_Destroy (CertContextTraits (booked api)) h (if h = 0 then t else u)"
    by (simp add: ParseDerCertificate_calls_def opened d uh_valid_def Let_def)
  moreover have "bracketed st s (uh_Destroy (CertContextTraits (booked api)) h (if h = 0 then t else u))"
    by (rule owner_scope [where t = t and k = Context])
      (auto simp: t_def s intro: CertThumbprint_bracketed [OF assms d, unfolded t_def])
  ultimately show ?thesis by simp
qed

section \<open>A parse with its calls\<close>

lemma booked_hash:
  "\<exists>m. CertThumbprint_hash (booked api) der h (w, l) =
     (fst (CertThumbprint_hash api der h w), snd (CertThumbprint_hash api der h w), m)"
  by (simp add: CertThumbprint_hash_def booked_def split: prod.split)

text \<open>Destroying an owner closes the same handle in the world, with or without the book.\<close>

lemma booked_destroy:
  "fst (uh_Destroy (CryptHashTraits (booked api)) h (w, l)) = uh_Destroy (CryptHashTraits api) h w"
  "fst (uh_Destroy (CryptProvTraits (booked api)) h (w, l)) = uh_Destroy (CryptProvTraits api) h w"
  by (simp_all add: uh_Destroy_def uh_Reset_def CryptProvTraits_def CryptHashTraits_def booked_def)

lemma booked_scope:
  assumes "acquire' (w, l) = (ok, h, v, m)" and "acquire w = (ok, h, v)"
    and "\<exists>n. body' ok h (v, m) = (fst (body ok h v), snd (body ok h v), n)"
    and "\<And>u n. fst (uh_Destroy tr' h (u, n)) = uh_Destroy tr h u"
  shows "\<exists>n. with_handle tr' acquire' body' (w, l) =
     (fst (with_handle tr acquire body w), snd (with_handle tr acquire body w), n)"
proof -
  obtain r u where b: "body ok h v = (r, u)" by (metis prod.exhaust)
  obtain n where b': "body' ok h (v, m) = (r, u, n)" using assms(3) b by auto
  obtain n' where "uh_Destroy tr' h (u, n) = (uh_Destroy tr h u, n')"
    using assms(4) [of u n] by (metis prod.collapse)
  then show ?thesis by (simp add: with_handle_def put_empty assms(1,2) b b')
qed

lemma booked_hash_scope:
  "\<exists>n. with_handle (CryptHashTraits (booked api)) (create_hash (booked api) p)
       (\<lambda>ok hash w. if \<not> ok then ([], w) else CertThumbprint_hash (booked api) der hash w) (w, l) =
     (let r = with_handle (CryptHashTraits api) (create_hash api p)
        (\<lambda>ok hash w. if \<not> ok then ([], w) else CertThumbprint_hash api der hash w) w in (fst r, snd r, n))"
proof -
  obtain ok h v where c: "create_hash api p w = (ok, h, v)" by (metis prod_cases3)
  show ?thesis unfolding Let_def
  proof (rule booked_scope)
    show "create_hash (booked api) p (w, l) = (ok, h, v, l @ [Used (Provider p)] @ taken Hash h)"
      by (simp add: booked_def c)
  qed (simp_all add: c booked_hash booked_destroy)
qed

lemma booked_thumbprint:
  "\<exists>n. CertThumbprint_calls (booked api) der (w, l) =
     (fst (CertThumbprint_calls api der w), snd (CertThumbprint_calls api der w), n)"
proof -
  obtain ok h v where a: "acquire_context api w = (ok, h, v)" by (metis prod_cases3)
  show ?thesis unfolding CertThumbprint_calls_def
  proof (rule booked_scope)
    show "acquire_context (booked api) (w, l) = (ok, h, v, l @ taken Provider h)"
      by (simp add: booked_def a)
  qed (simp_all add: a booked_destroy booked_hash_scope [unfolded Let_def])
qed

lemma booked_parse:
  "fst (ParseDerCertificate_calls (booked api) der (w, l)) = fst (ParseDerCertificate_calls api der w)"
proof -
  obtain h w1 where c: "create_cert api (ulong_prefix der) w = (h, w1)" by (metis prod.exhaust)
  obtain thumb w2 where d: "CertThumbprint_calls api der w1 = (thumb, w2)" by (metis prod.exhaust)
  obtain l2 where b: "CertThumbprint_calls (booked api) der (w1, l @ taken Context h) = (thumb, w2, l2)"
    using booked_thumbprint [of api der w1 "l @ taken Context h"] by (auto simp: d)
  have opened: "create_cert (booked api) (ulong_prefix der) (w, l) = (h, w1, l @ taken Context h)"
    and names: "subject_of (booked api) h (v, m) = subject_of api h v" "issuer_of (booked api) h (v, m) = issuer_of api h v"
      "RdnValue_calls (booked api) h oid (v, m) = RdnValue_calls api h oid v" for v m oid
    by (simp_all add: booked_def c RdnValue_calls_def)
  show ?thesis
    by (simp add: ParseDerCertificate_calls_def c d opened b names uh_valid_def CertContextTraits_def Let_def)
qed

text \<open>C16. Parsing a certificate is the function of \<open>Secure_Boot\<close> at what CryptoAPI answered in this run,
  whatever calls failed; and its calls, run on no open handles, leave none open: every context, provider
  and hash handle is closed exactly once, the newest first, and none is used before or after.
\<close>

theorem certificate_calls_refine_and_close:
  assumes "gives_handles api" and "ParseDerCertificate_calls (booked api) der (w, l) = (info, w', l')"
  shows "info = ParseDerCertificate (answers api der w) der \<and> (\<exists>es. l' = l @ es \<and> brackets es [] = Some [])"
proof
  show "info = ParseDerCertificate (answers api der w) der"
    using booked_parse [of api der w l] ParseDerCertificate_answers [of api der w] assms(2) by simp
  show "\<exists>es. l' = l @ es \<and> brackets es [] = Some []"
    using ParseDerCertificate_bracketed [OF assms(1), of "[]" "(w, l)" der] assms(2) by (simp add: bracketed_def)
qed

text \<open>A CryptoAPI that hands out the numbers from 1 and gives every text one digest.\<close>

definition counting_calls :: "nat crypt_calls" where
  "counting_calls = \<lparr>
     acquire_context = (\<lambda>n. (True, 1 + 2 * of_nat n, Suc n)),
     create_hash = (\<lambda>p n. (True, 1 + 2 * of_nat n, Suc n)),
     hash_data = (\<lambda>h d n. (True, n)),
     hash_param = (\<lambda>h n. (True, replicate 32 0xAB, n)),
     destroy_hash = (\<lambda>h n. n),
     release_context = (\<lambda>h n. n),
     create_cert = (\<lambda>der n. (if der = [] then 0 else 1 + 2 * of_nat n, Suc n)),
     free_cert = (\<lambda>h n. n),
     subject_of = (\<lambda>h n. ''CN=Lenovo PK''),
     issuer_of = (\<lambda>h n. ''CN=Lenovo''),
     name_of = (\<lambda>h oid n. if oid = szOID_ORGANIZATION_NAME then (7, ''Lenovo'') else (1, []))\<rparr>"

lemma odd_handle: "(1 :: u64) + 2 * x \<noteq> 0"
proof
  assume "1 + 2 * x = 0"
  then have "even ((1 :: u64) + 2 * x)" by simp
  then show False by simp
qed

lemma counting_gives_handles: "gives_handles counting_calls"
  by (auto simp: gives_handles_def counting_calls_def odd_handle)

definition sample_trace :: "crypt_event list" where
  "sample_trace = [Taken (Context 1), Taken (Provider 3), Used (Provider 3), Taken (Hash 5), Used (Hash 5),
     Used (Hash 5), Given (Hash 5), Given (Provider 3), Given (Context 1)]"

lemma sample_parse:
  "ParseDerCertificate_calls (booked counting_calls) [0x30] (0, []) =
     (ParseDerCertificate (answers counting_calls [0x30] 0) [0x30], 3, sample_trace)"
  by code_simp

lemma certificate_calls_refine_and_close_witness:
  "ParseDerCertificate_calls (booked counting_calls) [0x30] (0, []) =
     (ParseDerCertificate (answers counting_calls [0x30] 0) [0x30], 3, sample_trace)
   \<and> (\<exists>es. sample_trace = [] @ es \<and> brackets es [] = Some [])"
  using sample_parse certificate_calls_refine_and_close [OF counting_gives_handles sample_parse] by blast

end
