(* ===== verification/Spec2Isabelle.thy ===== *)
theory Spec2Isabelle
  imports Client_Ledger Sample_Machine Documents Posture Intermediates Challenge_Text Threads_On_Device
    Crypt_Handles
begin

text \<open>
  RootHerald for Windows: the native client that enrolls a device by the endorsement key of its TPM and
  collects evidence of its state. The library is a C ABI (\<open>common/rootherald.h\<close>) over a driver that talks
  to the TPM through TBS, to the key storage provider, the registry, the certificate and digest APIs, and
  once over HTTP. The development models all of its C++ under \<open>src/\<close>; what Windows provides is a
  parameter.

  \<^bold>\<open>Data.\<close> Machine integers are words of their width, \<open>size_t\<close> a 64-bit word where it can wrap and a
  number where it cannot; bytes are 8-bit words, strings lists of characters, \<open>std::map\<close> the sorted list
  of its pairs. A read of a vector that may be out of range is an \<open>option\<close>: \<open>None\<close> is the behaviour
  C++ leaves undefined, and the safety theorems say that it does not occur. An error is the left side of
  a sum, or a status. Calls into Windows are records of functions over a world, the state of the machine;
  \<open>windows\<close> (\<open>Ek_Gather\<close>) bundles them. Owners are destroyed explicitly on every path of a scope.

  \<^bold>\<open>Theories.\<close>
  \<^item> \<open>Prelude\<close>, \<open>Endian\<close>: vectors, words, hexadecimal, readers and writers of words in both byte orders,
    with the locales of a codec and its interpretations.
  \<^item> \<open>Win_Status\<close>, \<open>Unique_Handle\<close>: \<open>internal/win_status.h\<close>, \<open>internal/unique_handle.h\<close>.
  \<^item> \<open>Tpm_Wire\<close>, \<open>Tpm_Marshal\<close>, \<open>Tpm_Commands\<close>, \<open>Tpm_Nv\<close>: \<open>tpm/tpm_commands.cpp\<close>, the writers of command bytes
    and a decoder of the TPM's side, the commands over TBS, and the chunked reads of NV indices with the
    on-die certificate chain.
  \<^item> \<open>Tbs_Key_Provider\<close>, \<open>Tpm_Pcp\<close>: \<open>tpm/tbs_key_provider.cpp\<close>, \<open>tpm/tpm_pcp.cpp\<close>.
  \<^item> \<open>Std_String\<close>, \<open>Efi_Variable\<close>, \<open>Event_Log\<close>, \<open>Event_Source\<close>, \<open>Secure_Boot\<close>: \<open>boot/\<close>, the raw log, its parser and
    analysis, and the Secure Boot chain of its signature lists. \<open>Crypt_Handles\<close>: the CryptoAPI calls behind one
    certificate, with the owners of their handles.
  \<^item> \<open>Cert_Stores\<close>: \<open>certs/win_cert_store_intermediates.cpp\<close> and the endorsement certificate store of
    \<open>client/rootherald_win.cpp\<close>.
  \<^item> \<open>Std_Map\<close>, \<open>Json\<close>: \<open>std::map\<close> behind a locale, \<open>internal/json_helpers.h\<close> and a strict reader of JSON.
  \<^item> \<open>Bcrypt\<close>, \<open>Http\<close>, \<open>Amd_Aia\<close>: the digests, \<open>transport/http_winhttp.cpp\<close>, \<open>certs/amd_aia_fetch.cpp\<close>.
  \<^item> \<open>Client_Encoding\<close>, \<open>Ek_Gather\<close>, \<open>Enrollment\<close>, \<open>Evidence\<close>: \<open>client/rootherald_win.cpp\<close>, from its encoders to
    its entry points. \<open>Client_Abi\<close>: \<open>client/rootherald_client.cpp\<close>.
  \<^item> \<open>Calm\<close>, \<open>Client_Machine\<close>, \<open>Client_Ledger\<close>: the library as a state machine. \<open>Calm\<close> holds the locales of an
    interface that keeps a property of the world; \<open>Client_Machine\<close> the step relation of the public calls and
    the protocol they refine; \<open>Client_Ledger\<close> the run on a machine with a transcript and the balance of
    objects, by an interpretation of the locales.
  \<^item> \<open>Evidence_Json\<close>, \<open>Documents\<close>, \<open>Posture\<close>, \<open>Device_Identity\<close>, \<open>Intermediates\<close>: what comes out of the client.
    \<open>Sample_Machine\<close>: one concrete machine for the witnesses.
  \<^item> \<open>Wire_Contract\<close>, \<open>Challenge_Text\<close>: \<open>common/protocol.h\<close>, the bodies of its ceremonies as types of JSON documents, the proof
    that the emitted bodies have those of the TPM ceremony, and the reading of a challenge however it is spaced.
  \<^item> \<open>Tpm_Device\<close>, \<open>Enrolled_Device\<close>, \<open>Attested_Device\<close>, \<open>Slot_Safety\<close>, \<open>Virtual_Tpm\<close>: the client against a TPM. \<open>Tpm_Device\<close> is the
    documented behaviour of the commands the client sends, as a state (contexts with objects and sessions, persistent
    objects, registers) behind the TBS interface; what the specification leaves open (handles, keys, signatures,
    faults) is a record of functions. \<open>Enrolled_Device\<close> and \<open>Attested_Device\<close> follow an enrollment and an attestation on a TPM
    that serves them, \<open>Slot_Safety\<close> any calls on one that may refuse every command or lose its response, and \<open>Virtual_Tpm\<close> is one such TPM.
  \<^item> \<open>Client_Threads\<close>, \<open>Client_Serial\<close>, \<open>Threads_On_Device\<close>: the calls of several threads over the clients of a process, cut
    where they read or write the global pointer to the enrollment in flight; their serialisation by the lock of
    one client, as a simulation by the machine of \<open>Client_Machine\<close>; and what several clients can do to a TPM.

  \<^bold>\<open>What the lemmas show.\<close> Commands decode to what they should ask for and responses are read without a
  fault, whatever the TPM answers. Sessions and objects are flushed on every path, and over any run of
  public calls each object created in the TPM was flushed or belongs to the enrollment in flight. The
  loops over a log, a signature list, a selection or a store end, and which ones depend on the answers of
  Windows is shown too. The event log and the Secure Boot variables parse back from their encodings, and
  the verdicts are characterised. The handles of a certificate parse are closed once, in reverse order. The documents read back as JSON with the members the server expects.
  The statuses of the calls follow the protocol of an enrollment, and every emitted text is null exactly
  on an error. On a TPM that behaves as documented the two legs put the attestation key of the enroll body into
  the persistent slot and change nothing else, and the evidence holds the registers and the TPM's own
  attestation of them; on one that fails or loses responses at will no call changes another persistent object or leaves a
  context open. The lock of a client makes its calls single steps as long as a process uses one
  client; with more, races on the pointer can end the process, but change nothing on the TPM beyond the slot.

  \<^bold>\<open>Recursion.\<close> Loops over a buffer are total functions with a measure on what is left. The chunk loop of
  \<open>ReadNvData\<close>, the enumeration of the endorsement store and the body of an HTTP response depend on answers
  from outside and may not end: they are partial functions, and \<open>None\<close> stands for a run that does not
  return. The JSON reader takes fuel; the length of the text is enough, since every nesting and every
  element takes a character.

  \<^bold>\<open>Not modelled.\<close> Exceptions of the allocator (and the catch block around the device id of a posture),
  \<open>SecureZeroMemory\<close>, which no later read observes, \<open>ModeName\<close>, the file-local \<open>BytesToHex\<close> of the event log
  parser, which nothing calls, and the build files. The report on the Secure Boot chain and the intermediate
  store take the answers of CryptoAPI, the same throughout one call; \<open>Crypt_Handles\<close> has its calls for the parse
  of one certificate, while the context around the check of one intermediate appears as its answer only. The step relation of \<open>Client_Machine\<close> takes a call as one step, as the header of the ABI
  requires of a client; \<open>Client_Threads\<close> cuts the calls that use the global pointer, and takes the pieces between
  two accesses as atomic. The device of \<open>Tpm_Device\<close> executes a command, refuses it, or executes it and loses the
  response; a response with altered bytes is not among its faults, and the safety of \<open>Tpm_Commands\<close> covers any bytes.
\<close>

section \<open>The client as a whole\<close>

text \<open>C2. The enrollment in flight follows the protocol. Over any sequence of public calls, from no enrollment, the
  statuses returned are ones the protocol of two legs allows in that order: a first leg that succeeds puts
  an enrollment in flight, one that fails keeps what was there, and a second leg ends it unless its
  arguments were refused. Whatever is in flight then holds an open TPM context, both key handles and the
  public area, at the persistent handle of the client.\<close>

theorem enrollment_refines_protocol:
  assumes "client_run win (None, w) trace (g, w')"
  shows "protocol_run Idle (abstract_trace trace) = Some (phase_of g) \<and> pred_option provider_ready g"
  using client_run_refines [OF assms] by simp

theorem enrollment_refines_protocol_witness:
  "\<exists>r r' s. client_run (recorded sample_machine) (None, begin_script @ complete_script, [])
      [(CallEnrollBegin (Some sample_client) (Some None), r),
       (CallEnrollComplete (Some sample_client) (Some sample_challenge) (Some None), r')] (None, s)
    \<and> protocol_run Idle (abstract_trace
      [(CallEnrollBegin (Some sample_client) (Some None), r),
       (CallEnrollComplete (Some sample_client) (Some sample_challenge) (Some None), r')]) = Some (phase_of None)
    \<and> pred_option provider_ready None"
proof -
  obtain r r' l where run: "client_run (recorded sample_machine) (None, begin_script @ complete_script, [])
      [(CallEnrollBegin (Some sample_client) (Some None), r),
       (CallEnrollComplete (Some sample_client) (Some sample_challenge) (Some None), r')] (None, [], l)"
    using sample_run by blast
  from enrollment_refines_protocol [OF run] run show ?thesis by blast
qed

text \<open>C1. No call leaks an object in the TPM. Over any sequence of public calls on a machine that records its TPM
  commands, the keys and sessions created are, with their multiplicity, the ones flushed and the ones the
  enrollment in flight holds, whatever failed on the way.\<close>

theorem client_calls_leak_no_object:
  assumes "client_run (recorded win) (None, w, []) trace (g, w', l)"
  shows "objects_created l = objects_flushed l + in_flight g"
proof -
  have "enroll_balanced None (w, [])" by (simp add: enroll_balanced_def ledger_def in_flight_def)
  with client_run_balanced [OF assms] show ?thesis by (simp add: enroll_balanced_def ledger_def)
qed

theorem client_calls_leak_no_object_witness:
  "\<exists>trace g w' l. length trace = 2 \<and> client_run (recorded sample_machine) (None, begin_script @ complete_script, []) trace (g, w', l)
    \<and> objects_created l = objects_flushed l + in_flight g"
proof -
  obtain r r' l where run: "client_run (recorded sample_machine) (None, begin_script @ complete_script, [])
      [(CallEnrollBegin (Some sample_client) (Some None), r),
       (CallEnrollComplete (Some sample_client) (Some sample_challenge) (Some None), r')] (None, [], l)"
    using sample_run by blast
  have "length [(CallEnrollBegin (Some sample_client) (Some None), r),
      (CallEnrollComplete (Some sample_client) (Some sample_challenge) (Some None), r')] = 2" by simp
  with client_calls_leak_no_object [OF run] run show ?thesis by blast
qed

text \<open>C14. Every call that emits a text reports its errors: without an out-pointer it is refused with no effect; with
  one, what it leaves there is a terminated text exactly when the status is a success, and null with every
  error. The texts \<open>RootHerald_ErrorString\<close> gives for two statuses are different.\<close>

theorem facade_reports_errors:
  assumes "client_step win s call r s'" and "emits_text call"
  shows "(if out_argument call = None then r = (ROOTHERALD_ERR_INVALID_ARG, None) \<and> s' = s
      else \<exists>b. snd r = Some b \<and> terminated b \<and> (b \<noteq> None \<longleftrightarrow> fst r = ROOTHERALD_OK))
    \<and> (RootHerald_ErrorString (status_code st) = RootHerald_ErrorString (status_code (fst r)) \<longleftrightarrow> st = fst r)"
  using client_step_reports [OF assms]
  by (auto simp: reports_properly_def reports_def error_strings_distinct split: if_splits option.splits)

theorem facade_reports_errors_witness:
  "\<exists>b s'. client_step (recorded sample_machine) (None, begin_script @ [], []) (CallEnrollBegin (Some sample_client) (Some None))
      (ROOTHERALD_OK, Some (Some b)) s'
    \<and> (if out_argument (CallEnrollBegin (Some sample_client) (Some None)) = None
       then (ROOTHERALD_OK, Some (Some b)) = (ROOTHERALD_ERR_INVALID_ARG, None) \<and> s' = (None, begin_script @ [], [])
       else \<exists>b'. snd (ROOTHERALD_OK, Some (Some b)) = Some b' \<and> terminated b'
         \<and> (b' \<noteq> None \<longleftrightarrow> fst (ROOTHERALD_OK, Some (Some b)) = ROOTHERALD_OK))
    \<and> (RootHerald_ErrorString (status_code ROOTHERALD_ERR_INTERNAL)
         = RootHerald_ErrorString (status_code (fst (ROOTHERALD_OK, Some (Some b))))
       \<longleftrightarrow> ROOTHERALD_ERR_INTERNAL = fst (ROOTHERALD_OK, Some (Some b)))"
proof -
  obtain b s' where step: "client_step (recorded sample_machine) (None, begin_script @ [], [])
      (CallEnrollBegin (Some sample_client) (Some None)) (ROOTHERALD_OK, Some (Some b)) s'"
    using sample_begin by blast
  have "emits_text (CallEnrollBegin (Some sample_client) (Some None))" by (simp add: emits_text_def)
  from facade_reports_errors [OF step this, of ROOTHERALD_ERR_INTERNAL] step show ?thesis by blast
qed

end
